(* ===== verification/Prelude.thy ===== *)
theory Prelude
  imports Complex_Main "HOL-Library.AList" "HOL-Library.Multiset" "HOL-Library.Sublist"
    "HOL-Library.Char_ord" "HOL-Library.List_Lexorder"
    "HOL-Library.Product_Lexorder"
begin

text \<open>
  Shared vocabulary of the development: the types that name the data of the gateway (provider
  names, clock readings), the JavaScript containers and string operations the components use, the
  step-relation invariant rule and the lemma collections.

  A JavaScript Map is an association list in insertion order: map_of reads it, AList.update
  overwrites in place or appends, AList.delete removes.
\<close>

named_theorems jsm  \<open>laws of the JavaScript containers\<close>
named_theorems inv_intros  \<open>preservation of component invariants\<close>

type_synonym provider = string
type_synonym principal = string
type_synonym time = int

section \<open>Absent values\<close>

definition nullish :: "'a option \<Rightarrow> 'a \<Rightarrow> 'a" where
  "nullish x d = (case x of None \<Rightarrow> d | Some v \<Rightarrow> v)"

lemma nullish_simps [simp]:
  "nullish None d = d"
  "nullish (Some v) d = v"
  by (simp_all add: nullish_def)

section \<open>Maps in insertion order\<close>

type_synonym ('k, 'v) js_map = "('k \<times> 'v) list"

abbreviation js_get :: "('k, 'v) js_map \<Rightarrow> 'k \<Rightarrow> 'v option" where
  "js_get m k \<equiv> map_of m k"

abbreviation js_set :: "('k, 'v) js_map \<Rightarrow> 'k \<Rightarrow> 'v \<Rightarrow> ('k, 'v) js_map" where
  "js_set m k v \<equiv> AList.update k v m"

abbreviation js_delete :: "('k, 'v) js_map \<Rightarrow> 'k \<Rightarrow> ('k, 'v) js_map" where
  "js_delete m k \<equiv> AList.delete k m"

abbreviation js_wf :: "('k, 'v) js_map \<Rightarrow> bool" where
  "js_wf m \<equiv> distinct (map fst m)"

declare map_of_eq_Some_iff [simp del]

lemma js_get_set [simp, jsm]: "js_get (js_set m k v) k' = (if k' = k then Some v else js_get m k')"
  by (simp add: update_conv')

lemma js_get_delete [simp, jsm]: "js_get (js_delete m k) k' = (if k' = k then None else js_get m k')"
  by (simp add: delete_conv')

lemma js_wf_set [simp, jsm]: "js_wf m \<Longrightarrow> js_wf (js_set m k v)"
  by (simp add: distinct_update)

lemma js_wf_delete [simp, jsm]: "js_wf m \<Longrightarrow> js_wf (js_delete m k)"
  by (simp add: distinct_delete)

lemma js_set_fresh: "k \<notin> fst ` set m \<Longrightarrow> js_set m k v = m @ [(k, v)]"
  by (induction m) auto

lemma js_get_map: "js_get (map (\<lambda>(k, v). (k, f v)) m) k = map_option f (js_get m k)"
  by (induction m) auto

lemma js_wf_map: "js_wf (map (\<lambda>(k, v). (k, f v)) m) = js_wf m"
  by (simp add: comp_def case_prod_beta)

lemma js_wf_filter: "js_wf m \<Longrightarrow> js_wf (filter P m)"
  by (induction m) auto

lemma js_get_filter:
  "js_wf m \<Longrightarrow> js_get (filter (\<lambda>(k, v). P v) m) k
     = (case js_get m k of None \<Rightarrow> None | Some v \<Rightarrow> if P v then Some v else None)"
proof (induction m)
  case (Cons x m)
  have "js_get m k' = None" if "k' \<notin> fst ` set m" for k' using that by (simp add: map_of_eq_None_iff)
  with Cons show ?case by (cases x) (auto split: option.split)
qed simp

lemma find_unique: "distinct (map f xs) \<Longrightarrow> x \<in> set xs \<Longrightarrow> find (\<lambda>y. f y = f x) xs = Some x"
  by (induction xs) (auto simp: rev_image_eqI)

lemma find_SomeD: "find P xs = Some x \<Longrightarrow> x \<in> set xs \<and> P x"
  by (auto simp: find_Some_iff)

section \<open>Event systems\<close>

text \<open>The states a step relation reaches from an initial predicate, with its invariant rule.\<close>

inductive reach :: "('s \<Rightarrow> bool) \<Rightarrow> ('s \<Rightarrow> 's \<Rightarrow> bool) \<Rightarrow> 's \<Rightarrow> bool"
  for ini :: "'s \<Rightarrow> bool" and stp :: "'s \<Rightarrow> 's \<Rightarrow> bool" where
  reach_init: "ini s \<Longrightarrow> reach ini stp s"
| reach_step: "reach ini stp s \<Longrightarrow> stp s s' \<Longrightarrow> reach ini stp s'"

text \<open>
  The contract every state machine of the gateway meets: an initial predicate, a step relation and
  an invariant each step keeps. The clients use the reachable-state rule; a system with a quantity
  that no step decreases extends it.
\<close>

locale inv_system =
  fixes ini :: "'s \<Rightarrow> bool"
    and stp :: "'s \<Rightarrow> 's \<Rightarrow> bool"
    and inv :: "'s \<Rightarrow> bool"
  assumes ini_inv: "ini s \<Longrightarrow> inv s"
    and step_inv: "inv s \<Longrightarrow> stp s s' \<Longrightarrow> inv s'"
begin

lemma reach_inv: "reach ini stp s \<Longrightarrow> inv s"
  by (induction rule: reach.induct) (auto intro: ini_inv step_inv)

lemma steps_inv: "stp\<^sup>*\<^sup>* s s' \<Longrightarrow> inv s \<Longrightarrow> inv s'"
  by (induction rule: rtranclp_induct) (auto intro: step_inv)

lemma reach_steps: "stp\<^sup>*\<^sup>* s s' \<Longrightarrow> reach ini stp s \<Longrightarrow> reach ini stp s'"
  by (induction rule: rtranclp_induct) (auto intro: reach_step)

end

locale monotone_system = inv_system +
  fixes quantity :: "'s \<Rightarrow> 'v::preorder"
  assumes step_mono: "inv s \<Longrightarrow> stp s s' \<Longrightarrow> quantity s \<le> quantity s'"
begin

lemma steps_mono: "stp\<^sup>*\<^sup>* s s' \<Longrightarrow> inv s \<Longrightarrow> quantity s \<le> quantity s'"
  by (induction rule: rtranclp_induct) (auto intro: order_trans step_mono steps_inv)

lemma reach_mono: "stp\<^sup>*\<^sup>* s s' \<Longrightarrow> reach ini stp s \<Longrightarrow> quantity s \<le> quantity s'"
  using steps_mono reach_inv by blast

end

end
