(* ===== verification/Limiter.thy ===== *)
theory Limiter
  imports Prelude
begin

text \<open>
  The in-process running limit and first-in first-out queue of the asynchronous job manager
  (class JobLimiter of src/src/async-job-manager.ts).

  Closures are data here. A permit closure is a row of permits: its number, its provider and its
  released flag, appended by grant, so the list is also the order of the grants. A queued entry
  is known by the number of the acquire call that made it. The onGrant callback of a waiter is a
  parameter that says what it does with the permit it is handed: keeps it, releases it at once, or
  throws, in which case pump releases the permit.
\<close>

section \<open>State\<close>

record limiter_cfg =
  maxRunningJobs :: int
  maxRunningJobsPerProvider :: int
  maxQueuedJobs :: int
  queueTimeoutMs :: int

record limiter_entry =
  qe_ticket :: nat
  qe_provider :: provider

record limiter_permit =
  pm_ticket :: nat
  pm_provider :: provider
  pm_released :: bool

record limiter =
  runningGlobal :: int
  runningByProvider :: "(provider, int) js_map"
  lqueue :: "limiter_entry list"
  queuedByProvider :: "(provider, int) js_map"
  rejectedCount :: nat
  timedOutCount :: nat
  cancelledCount :: nat
  next_ticket :: nat
  permits :: "limiter_permit list"

record limiter_snapshot =
  ls_maxRunning :: int
  ls_maxRunningPerProvider :: int
  ls_maxQueued :: int
  ls_running :: int
  ls_queued :: int
  ls_runningByProvider :: "(provider, int) js_map"
  ls_queuedByProvider :: "(provider, int) js_map"
  ls_rejected :: nat
  ls_timedOut :: nat
  ls_saturated :: bool

datatype callback_effect = Keeps | Releases | Throws

datatype acquire_result = Granted nat | Queued nat | Rejected

definition limiter_init :: limiter where
  "limiter_init = \<lparr>runningGlobal = 0, runningByProvider = [], lqueue = [], queuedByProvider = [],
     rejectedCount = 0, timedOutCount = 0, cancelledCount = 0, next_ticket = 0, permits = []\<rparr>"

section \<open>Operations\<close>

definition providerAtCapacity :: "limiter_snapshot \<Rightarrow> provider \<Rightarrow> bool" where
  "providerAtCapacity snap p =
     (nullish (js_get (ls_runningByProvider snap) p) 0 \<ge> ls_maxRunningPerProvider snap)"

definition canRunNow :: "limiter_cfg \<Rightarrow> limiter \<Rightarrow> provider \<Rightarrow> bool" where
  "canRunNow c s p =
     (if runningGlobal s \<ge> maxRunningJobs c then False
      else if nullish (js_get (runningByProvider s) p) 0 \<ge> maxRunningJobsPerProvider c then False
      else True)"

definition counter_inc :: "(provider, int) js_map \<Rightarrow> provider \<Rightarrow> (provider, int) js_map" where
  "counter_inc m p = js_set m p (nullish (js_get m p) 0 + 1)"

definition counter_dec :: "(provider, int) js_map \<Rightarrow> provider \<Rightarrow> (provider, int) js_map" where
  "counter_dec m p =
     (let n = nullish (js_get m p) 1 - 1 in if n \<le> 0 then js_delete m p else js_set m p n)"

definition grant :: "nat \<Rightarrow> provider \<Rightarrow> limiter \<Rightarrow> limiter" where
  "grant t p s = s\<lparr>runningGlobal := runningGlobal s + 1,
     runningByProvider := counter_inc (runningByProvider s) p,
     permits := permits s @ [\<lparr>pm_ticket = t, pm_provider = p, pm_released = False\<rparr>]\<rparr>"

definition removeEntry :: "nat \<Rightarrow> limiter \<Rightarrow> bool \<times> limiter" where
  "removeEntry t s =
     (case find (\<lambda>e. qe_ticket e = t) (lqueue s) of
        None \<Rightarrow> (False, s)
      | Some e \<Rightarrow> (True, s\<lparr>lqueue := remove1 e (lqueue s),
          queuedByProvider := counter_dec (queuedByProvider s) (qe_provider e)\<rparr>))"

text \<open>The release closure up to its call of pump, and its idempotence guard.\<close>

definition release_counts :: "nat \<Rightarrow> provider \<Rightarrow> limiter \<Rightarrow> limiter" where
  "release_counts t p s = s\<lparr>
     permits := map (\<lambda>x. if pm_ticket x = t then x\<lparr>pm_released := True\<rparr> else x) (permits s),
     runningGlobal := max 0 (runningGlobal s - 1),
     runningByProvider := counter_dec (runningByProvider s) p\<rparr>"

definition first_runnable :: "limiter_cfg \<Rightarrow> limiter \<Rightarrow> limiter_entry option" where
  "first_runnable c s = find (\<lambda>e. canRunNow c s (qe_provider e)) (lqueue s)"

definition pump_one :: "limiter_entry \<Rightarrow> limiter \<Rightarrow> limiter" where
  "pump_one e s = grant (qe_ticket e) (qe_provider e) (snd (removeEntry (qe_ticket e) s))"

lemma length_removeEntry:
  "length (lqueue (snd (removeEntry t s))) \<le> length (lqueue s)"
  by (auto simp: removeEntry_def length_remove1 split: option.splits)

lemma find_Some_iff_ex: "(\<exists>x. find P xs = Some x) \<longleftrightarrow> (\<exists>x\<in>set xs. P x)"
  by (induction xs) auto

lemma length_removeEntry_less:
  assumes "e \<in> set (lqueue s)"
  shows "length (lqueue (snd (removeEntry (qe_ticket e) s))) < length (lqueue s)"
proof -
  obtain d where "find (\<lambda>x. qe_ticket x = qe_ticket e) (lqueue s) = Some d"
    using assms find_Some_iff_ex [of "\<lambda>x. qe_ticket x = qe_ticket e" "lqueue s"] by auto
  moreover from this have "d \<in> set (lqueue s)" by (auto dest: find_SomeD)
  ultimately show ?thesis
    by (auto simp: removeEntry_def length_remove1 dest: length_pos_if_in_set)
qed

lemma lqueue_grant [simp]: "lqueue (grant t p s) = lqueue s"
  by (simp add: grant_def)

lemma lqueue_release_counts [simp]: "lqueue (release_counts t p s) = lqueue s"
  by (simp add: release_counts_def)

lemma first_runnable_SomeD:
  "first_runnable c s = Some e \<Longrightarrow> e \<in> set (lqueue s) \<and> canRunNow c s (qe_provider e)"
  by (auto simp: first_runnable_def dest: find_SomeD)

lemma length_pump_one:
  "first_runnable c s = Some e \<Longrightarrow> length (lqueue (pump_one e s)) < length (lqueue s)"
  by (auto simp: pump_one_def dest!: first_runnable_SomeD intro: length_removeEntry_less)

text \<open>
  Each grant restarts the scan; the release a callback causes pumps on its own first (nested),
  then the loop that made the callback goes on.
\<close>

function pump :: "limiter_cfg \<Rightarrow> (nat \<Rightarrow> callback_effect) \<Rightarrow> limiter \<Rightarrow> limiter" where
  "pump c cb s =
     (case first_runnable c s of
        None \<Rightarrow> s
      | Some e \<Rightarrow>
          (case cb (qe_ticket e) of
             Keeps \<Rightarrow> pump c cb (pump_one e s)
           | _ \<Rightarrow> pump c cb (pump c cb
                 (release_counts (qe_ticket e) (qe_provider e) (pump_one e s)))))"
  by pat_completeness auto

lemma pump_queue_le: "pump_dom (c, cb, s) \<Longrightarrow> length (lqueue (pump c cb s)) \<le> length (lqueue s)"
proof (induction rule: pump.pinduct)
  case (1 c cb s)
  show ?case
  proof (cases "first_runnable c s")
    case None
    then show ?thesis using 1(1) by (simp add: pump.psimps)
  next
    case (Some e)
    note less = length_pump_one [OF Some]
    show ?thesis
    proof (cases "cb (qe_ticket e)")
      case Keeps
      then show ?thesis using 1(1) Some less 1(2) [OF Some Keeps] by (simp add: pump.psimps)
    next
      case Releases
      then show ?thesis using 1(1) Some less 1(3,4) [OF Some Releases] by (simp add: pump.psimps)
    next
      case Throws
      then show ?thesis using 1(1) Some less 1(5,6) [OF Some Throws] by (simp add: pump.psimps)
    qed
  qed
qed

lemma pump_release_less:
  assumes "first_runnable c s = Some e"
    and "pump_dom (c, cb, release_counts t p (pump_one e s))"
  shows "length (lqueue (pump c cb (release_counts t p (pump_one e s)))) < length (lqueue s)"
  using pump_queue_le [OF assms(2)] length_pump_one [OF assms(1)] by simp

termination pump
  by (relation "measure (\<lambda>(c, cb, s). length (lqueue s))")
    (auto dest: length_pump_one pump_release_less)

declare pump.simps [simp del]

definition release_permit ::
    "limiter_cfg \<Rightarrow> (nat \<Rightarrow> callback_effect) \<Rightarrow> nat \<Rightarrow> limiter \<Rightarrow> limiter" where
  "release_permit c cb t s =
     (case find (\<lambda>x. pm_ticket x = t) (permits s) of
        None \<Rightarrow> s
      | Some x \<Rightarrow> if pm_released x then s else pump c cb (release_counts t (pm_provider x) s))"

definition limiter_acquire :: "limiter_cfg \<Rightarrow> provider \<Rightarrow> limiter \<Rightarrow> acquire_result \<times> limiter" where
  "limiter_acquire c p s =
     (let t = next_ticket s; s0 = s\<lparr>next_ticket := t + 1\<rparr> in
      if canRunNow c s p then (Granted t, grant t p s0)
      else if int (length (lqueue s)) \<ge> maxQueuedJobs c
      then (Rejected, s0\<lparr>rejectedCount := rejectedCount s + 1\<rparr>)
      else (Queued t, s0\<lparr>lqueue := lqueue s @ [\<lparr>qe_ticket = t, qe_provider = p\<rparr>],
              queuedByProvider := counter_inc (queuedByProvider s) p\<rparr>))"

definition limiter_timeout :: "nat \<Rightarrow> limiter \<Rightarrow> bool \<times> limiter" where
  "limiter_timeout t s =
     (let (found, s') = removeEntry t s in
      if found then (True, s'\<lparr>timedOutCount := timedOutCount s' + 1\<rparr>) else (False, s'))"

definition limiter_cancel :: "nat \<Rightarrow> limiter \<Rightarrow> bool \<times> limiter" where
  "limiter_cancel t s =
     (let (found, s') = removeEntry t s in
      if found then (True, s'\<lparr>cancelledCount := cancelledCount s' + 1\<rparr>) else (False, s'))"

definition limiter_snapshot_of :: "limiter_cfg \<Rightarrow> limiter \<Rightarrow> limiter_snapshot" where
  "limiter_snapshot_of c s =
     (let hasProviderBackpressure = list_ex
            (\<lambda>p. nullish (js_get (runningByProvider s) p) 0 \<ge> maxRunningJobsPerProvider c)
            (map fst (queuedByProvider s));
          queueFullUnderPressure =
            (length (lqueue s) > 0 \<and> int (length (lqueue s)) \<ge> maxQueuedJobs c) in
      \<lparr>ls_maxRunning = maxRunningJobs c,
       ls_maxRunningPerProvider = maxRunningJobsPerProvider c,
       ls_maxQueued = maxQueuedJobs c,
       ls_running = runningGlobal s,
       ls_queued = int (length (lqueue s)),
       ls_runningByProvider = runningByProvider s,
       ls_queuedByProvider = queuedByProvider s,
       ls_rejected = rejectedCount s,
       ls_timedOut = timedOutCount s,
       ls_saturated = (runningGlobal s \<ge> maxRunningJobs c \<or> hasProviderBackpressure
          \<or> queueFullUnderPressure)\<rparr>)"

section \<open>Invariant\<close>

definition held :: "limiter \<Rightarrow> provider \<Rightarrow> nat" where
  "held s p = length (filter (\<lambda>x. \<not> pm_released x \<and> pm_provider x = p) (permits s))"

definition live :: "limiter \<Rightarrow> nat" where
  "live s = length (filter (\<lambda>x. \<not> pm_released x) (permits s))"

definition waiting :: "limiter \<Rightarrow> provider \<Rightarrow> nat" where
  "waiting s p = length (filter (\<lambda>e. qe_provider e = p) (lqueue s))"

definition tally :: "(provider, int) js_map \<Rightarrow> (provider \<Rightarrow> nat) \<Rightarrow> bool" where
  "tally m f \<longleftrightarrow> js_wf m \<and> (\<forall>p. js_get m p = (if f p = 0 then None else Some (int (f p))))"

text \<open>Arrival numbers of one provider: granted ones in grant order, then the waiting ones.\<close>

definition arrivals :: "limiter \<Rightarrow> provider \<Rightarrow> nat list" where
  "arrivals s p = map pm_ticket (filter (\<lambda>x. pm_provider x = p) (permits s))
     @ map qe_ticket (filter (\<lambda>e. qe_provider e = p) (lqueue s))"

definition tickets :: "limiter \<Rightarrow> nat list" where
  "tickets s = map pm_ticket (permits s) @ map qe_ticket (lqueue s)"

definition limiter_counts_ok :: "limiter \<Rightarrow> bool" where
  "limiter_counts_ok s \<longleftrightarrow> runningGlobal s = int (live s)
     \<and> tally (runningByProvider s) (held s) \<and> tally (queuedByProvider s) (waiting s)"

definition limiter_bounds_ok :: "limiter_cfg \<Rightarrow> limiter \<Rightarrow> bool" where
  "limiter_bounds_ok c s \<longleftrightarrow> int (live s) \<le> max 0 (maxRunningJobs c)
     \<and> (\<forall>p. int (held s p) \<le> max 0 (maxRunningJobsPerProvider c))
     \<and> int (length (lqueue s)) \<le> max 0 (maxQueuedJobs c)"

definition limiter_tickets_ok :: "limiter \<Rightarrow> bool" where
  "limiter_tickets_ok s \<longleftrightarrow> distinct (tickets s) \<and> (\<forall>t\<in>set (tickets s). t < next_ticket s)
     \<and> (\<forall>p. sorted_wrt (<) (arrivals s p))
     \<and> next_ticket s = length (permits s) + length (lqueue s) + rejectedCount s + timedOutCount s
         + cancelledCount s"

definition limiter_ok :: "limiter_cfg \<Rightarrow> limiter \<Rightarrow> bool" where
  "limiter_ok c s \<longleftrightarrow> limiter_counts_ok s \<and> limiter_bounds_ok c s \<and> limiter_tickets_ok s"

text \<open>No waiter could run: every free permit has been handed on.\<close>

definition settled :: "limiter_cfg \<Rightarrow> limiter \<Rightarrow> bool" where
  "settled c s \<longleftrightarrow> (\<forall>e\<in>set (lqueue s). \<not> canRunNow c s (qe_provider e))"

definition limiter_inv :: "limiter_cfg \<Rightarrow> limiter \<Rightarrow> bool" where
  "limiter_inv c s \<longleftrightarrow> limiter_ok c s \<and> settled c s"

lemmas limiter_ok_defs = limiter_ok_def limiter_counts_ok_def limiter_bounds_ok_def
  limiter_tickets_ok_def

section \<open>Counters\<close>

lemma tally_get: "tally m f \<Longrightarrow> nullish (js_get m p) 0 = int (f p)"
  by (auto simp: tally_def nullish_def)

lemma tally_inc: "tally m f \<Longrightarrow> tally (counter_inc m p) (f(p := Suc (f p)))"
  by (auto simp: tally_def counter_inc_def nullish_def)

lemma tally_dec: "tally m f \<Longrightarrow> 0 < f p \<Longrightarrow> tally (counter_dec m p) (f(p := f p - 1))"
  by (auto simp: tally_def counter_dec_def Let_def nullish_def)

lemma tally_cong: "tally m f \<Longrightarrow> f = g \<Longrightarrow> tally m g"
  by simp

lemma canRunNow_alt:
  "canRunNow c s p \<longleftrightarrow> runningGlobal s < maxRunningJobs c
     \<and> nullish (js_get (runningByProvider s) p) 0 < maxRunningJobsPerProvider c"
  by (auto simp: canRunNow_def)

lemma canRunNow_iff:
  "limiter_counts_ok s \<Longrightarrow> canRunNow c s p \<longleftrightarrow>
     int (live s) < maxRunningJobs c \<and> int (held s p) < maxRunningJobsPerProvider c"
  by (auto simp: canRunNow_alt limiter_counts_ok_def tally_get)

section \<open>The shape of each step\<close>

lemma find_split_first:
  "find P xs = Some x \<Longrightarrow> \<exists>us vs. xs = us @ x # vs \<and> P x \<and> (\<forall>u\<in>set us. \<not> P u)"
proof (induction xs)
  case (Cons y ys)
  show ?case
  proof (cases "P y")
    case True
    with Cons.prems have "y # ys = [] @ x # ys \<and> P x \<and> (\<forall>u\<in>set []. \<not> P u)" by simp
    then show ?thesis by blast
  next
    case False
    with Cons obtain us vs where "ys = us @ x # vs" "P x" "\<forall>u\<in>set us. \<not> P u" by auto
    with False have "y # ys = (y # us) @ x # vs \<and> P x \<and> (\<forall>u\<in>set (y # us). \<not> P u)" by simp
    then show ?thesis by blast
  qed
qed simp

lemma removeEntry_shape:
  assumes "lqueue s = us @ e # vs" and "distinct (map qe_ticket (lqueue s))"
  shows "removeEntry (qe_ticket e) s = (True, s\<lparr>lqueue := us @ vs,
     queuedByProvider := counter_dec (queuedByProvider s) (qe_provider e)\<rparr>)"
proof -
  have "e \<notin> set us" using assms by (auto simp: rev_image_eqI)
  moreover have "find (\<lambda>y. qe_ticket y = qe_ticket e) (lqueue s) = Some e"
    using assms by (intro find_unique) auto
  ultimately show ?thesis using assms(1) by (simp add: removeEntry_def remove1_append)
qed

lemma removeEntry_cases:
  assumes "distinct (map qe_ticket (lqueue s))"
  obtains "removeEntry t s = (False, s)" "t \<notin> qe_ticket ` set (lqueue s)"
  | us e vs where "lqueue s = us @ e # vs" "qe_ticket e = t"
      "removeEntry t s = (True, s\<lparr>lqueue := us @ vs,
         queuedByProvider := counter_dec (queuedByProvider s) (qe_provider e)\<rparr>)"
proof (cases "find (\<lambda>e. qe_ticket e = t) (lqueue s)")
  case None
  then have "removeEntry t s = (False, s)" "t \<notin> qe_ticket ` set (lqueue s)"
    by (simp add: removeEntry_def) (use None in \<open>auto simp: find_None_iff\<close>)
  then show ?thesis by (rule that(1))
next
  case (Some e)
  then obtain us vs where q: "lqueue s = us @ e # vs" "qe_ticket e = t"
    using find_split_first [OF Some] by auto
  show ?thesis using that(2) [OF q] removeEntry_shape [OF q(1) assms] q(2) by simp
qed

lemma removeEntry_ok:
  assumes "limiter_ok c s" and "lqueue s = us @ e # vs"
    and "s' = s\<lparr>lqueue := us @ vs,
      queuedByProvider := counter_dec (queuedByProvider s) (qe_provider e)\<rparr>"
  shows "limiter_counts_ok s'" and "limiter_bounds_ok c s'" and "distinct (tickets s')"
    and "\<forall>t\<in>set (tickets s'). t < next_ticket s" and "sorted_wrt (<) (arrivals s' p)"
proof -
  have ok: "limiter_counts_ok s" "limiter_bounds_ok c s" "limiter_tickets_ok s"
    using assms(1) by (auto simp: limiter_ok_def)
  have w: "waiting s' = (waiting s)(qe_provider e := waiting s (qe_provider e) - 1)"
    "0 < waiting s (qe_provider e)"
    using assms(2,3) by (auto simp: waiting_def fun_eq_iff)
  then show "limiter_counts_ok s'"
    using ok(1) assms(3)
      tally_dec [of "queuedByProvider s" "waiting s" "qe_provider e"]
    by (simp add: limiter_counts_ok_def live_def held_def [abs_def])
  show "limiter_bounds_ok c s'"
    using ok(2) assms(2,3) by (simp add: limiter_bounds_ok_def live_def held_def)
  show "distinct (tickets s')" and "\<forall>t\<in>set (tickets s'). t < next_ticket s"
    using ok(3) assms(2,3) by (auto simp: limiter_tickets_ok_def tickets_def)
  have "sorted_wrt (<) (arrivals s p)" using ok(3) by (simp add: limiter_tickets_ok_def)
  then show "sorted_wrt (<) (arrivals s' p)"
    using assms(2,3) by (auto simp: arrivals_def sorted_wrt_append split: if_splits)
qed

lemma grant_ok:
  assumes "limiter_counts_ok s" and "limiter_bounds_ok c s" and "canRunNow c s p"
    and "distinct (tickets s)" and "t \<notin> set (tickets s)" and "\<forall>u\<in>set (tickets s). u < n" and "t < n"
    and "\<And>q. sorted_wrt (<) (arrivals s q)"
    and "\<forall>x\<in>set (permits s). pm_provider x = p \<longrightarrow> pm_ticket x < t"
    and "\<forall>e\<in>set (lqueue s). qe_provider e = p \<longrightarrow> t < qe_ticket e"
  shows "limiter_counts_ok (grant t p s)" and "limiter_bounds_ok c (grant t p s)"
    and "distinct (tickets (grant t p s))" and "\<forall>u\<in>set (tickets (grant t p s)). u < n"
    and "sorted_wrt (<) (arrivals (grant t p s) q)"
proof -
  have held': "held (grant t p s) = (held s)(p := Suc (held s p))"
    by (auto simp: held_def grant_def fun_eq_iff)
  have live': "live (grant t p s) = Suc (live s)" by (simp add: live_def grant_def)
  have wait': "waiting (grant t p s) = waiting s" by (auto simp: waiting_def fun_eq_iff)
  have room: "int (live s) < maxRunningJobs c" "int (held s p) < maxRunningJobsPerProvider c"
    using assms(1,3) canRunNow_iff by blast+
  show "limiter_counts_ok (grant t p s)"
    using assms(1) tally_inc [of "runningByProvider s" "held s" p]
    by (simp add: limiter_counts_ok_def held' live' wait') (simp add: grant_def)
  show "limiter_bounds_ok c (grant t p s)"
    using assms(2) room by (auto simp: limiter_bounds_ok_def held' live')
  show "distinct (tickets (grant t p s))" and "\<forall>u\<in>set (tickets (grant t p s)). u < n"
    using assms(4-7) by (auto simp: tickets_def grant_def)
  show "sorted_wrt (<) (arrivals (grant t p s) q)"
    using assms(8) [of q] assms(9,10)
    by (auto simp: arrivals_def grant_def sorted_wrt_append)
qed

lemma pump_one_ok:
  assumes ok: "limiter_ok c s" and run: "first_runnable c s = Some e"
  shows "limiter_ok c (pump_one e s)"
proof -
  obtain us vs where q: "lqueue s = us @ e # vs" and can: "canRunNow c s (qe_provider e)"
    and us: "\<forall>u\<in>set us. \<not> canRunNow c s (qe_provider u)"
    using find_split_first [OF run [unfolded first_runnable_def]] by blast
  have tk: "limiter_tickets_ok s" using ok by (simp add: limiter_ok_def)
  define s1 where "s1 = s\<lparr>lqueue := us @ vs,
    queuedByProvider := counter_dec (queuedByProvider s) (qe_provider e)\<rparr>"
  have "distinct (map qe_ticket (lqueue s))"
    using tk by (auto simp: limiter_tickets_ok_def tickets_def)
  then have one: "pump_one e s = grant (qe_ticket e) (qe_provider e) s1"
    by (simp add: pump_one_def removeEntry_shape [OF q] s1_def)
  note rem = removeEntry_ok [OF ok q s1_def]
  have "sorted_wrt (<) (arrivals s (qe_provider e))" using tk by (simp add: limiter_tickets_ok_def)
  then have ord: "\<forall>x\<in>set (permits s1). pm_provider x = qe_provider e \<longrightarrow> pm_ticket x < qe_ticket e"
    "\<forall>d\<in>set (lqueue s1). qe_provider d = qe_provider e \<longrightarrow> qe_ticket e < qe_ticket d"
    using us can by (auto simp: arrivals_def s1_def q sorted_wrt_append)
  have can1: "canRunNow c s1 (qe_provider e)" using can by (auto simp: s1_def canRunNow_alt split: if_splits)
  have fresh: "qe_ticket e \<notin> set (tickets s1)" "qe_ticket e < next_ticket s"
    using tk by (auto simp: limiter_tickets_ok_def tickets_def s1_def q)
  note gr = grant_ok [OF rem(1,2) can1 rem(3) fresh(1) rem(4) fresh(2) rem(5) ord]
  have "next_ticket (pump_one e s) = length (permits (pump_one e s)) + length (lqueue (pump_one e s))
      + rejectedCount (pump_one e s) + timedOutCount (pump_one e s) + cancelledCount (pump_one e s)"
    using tk by (simp add: one limiter_tickets_ok_def grant_def s1_def q)
  moreover have "next_ticket (pump_one e s) = next_ticket s"
    by (simp add: one grant_def s1_def)
  ultimately show ?thesis
    using gr by (simp add: limiter_ok_def limiter_tickets_ok_def one)
qed

lemma permit_split:
  assumes "distinct (map pm_ticket ps)" and "x \<in> set ps" and "pm_ticket x = t"
  obtains us vs where "ps = us @ x # vs" "\<forall>y\<in>set us \<union> set vs. pm_ticket y \<noteq> t"
proof -
  obtain us vs where "ps = us @ x # vs" using assms(2) by (auto dest: split_list)
  moreover from this have "\<forall>y\<in>set us \<union> set vs. pm_ticket y \<noteq> t"
    using assms(1,3) by (fastforce simp: image_iff)
  ultimately show ?thesis by (rule that)
qed

lemma release_counts_ok:
  assumes ok: "limiter_ok c s" and x: "x \<in> set (permits s)" "pm_ticket x = t" "\<not> pm_released x"
  shows "limiter_ok c (release_counts t (pm_provider x) s)" (is "limiter_ok c ?s'")
proof -
  have "distinct (map pm_ticket (permits s))"
    using ok by (auto simp: limiter_ok_defs tickets_def)
  then obtain us vs where ps: "permits s = us @ x # vs" and ne: "\<forall>y\<in>set us \<union> set vs. pm_ticket y \<noteq> t"
    using permit_split [OF _ x(1,2)] by blast
  have same: "map (\<lambda>y. if pm_ticket y = t then y\<lparr>pm_released := True\<rparr> else y) zs = zs"
    if "\<forall>y\<in>set zs. pm_ticket y \<noteq> t" for zs
    using that by (induction zs) auto
  have ps': "permits ?s' = us @ x\<lparr>pm_released := True\<rparr> # vs"
    using ne x(2) by (simp add: release_counts_def ps same)
  have held': "held ?s' = (held s)(pm_provider x := held s (pm_provider x) - 1)"
    and pos: "0 < held s (pm_provider x)"
    using x(3) by (auto simp: held_def ps' ps fun_eq_iff)
  have live': "live ?s' = live s - 1" "0 < live s" using x(3) by (auto simp: live_def ps' ps)
  have wait': "waiting ?s' = waiting s" by (auto simp: waiting_def fun_eq_iff)
  have arr': "arrivals ?s' p = arrivals s p" for p by (auto simp: arrivals_def ps' ps)
  have tik': "tickets ?s' = tickets s" by (auto simp: tickets_def ps' ps)
  have "limiter_counts_ok ?s'"
    using ok tally_dec [of "runningByProvider s" "held s" "pm_provider x"] pos live'
    by (simp add: limiter_ok_def limiter_counts_ok_def held' wait') (simp add: release_counts_def)
  moreover have "limiter_bounds_ok c ?s'"
  proof -
    have le: "int (live ?s') \<le> int (live s)" "int (held ?s' p) \<le> int (held s p)" for p
      by (auto simp: live' held')
    show ?thesis
      using ok order_trans [OF le(1)] order_trans [OF le(2)]
      by (simp add: limiter_ok_def limiter_bounds_ok_def)
  qed
  moreover have "limiter_tickets_ok ?s'"
    using ok by (auto simp: limiter_ok_def limiter_tickets_ok_def arr' tik' ps' ps)
      (auto simp: release_counts_def)
  ultimately show ?thesis by (simp add: limiter_ok_def)
qed

lemma pump_one_permit:
  "last (permits (pump_one e s)) = \<lparr>pm_ticket = qe_ticket e, pm_provider = qe_provider e,
     pm_released = False\<rparr> \<and> permits (pump_one e s) \<noteq> []"
  by (simp add: pump_one_def grant_def)

lemma pump_one_release_ok:
  assumes "limiter_ok c s" and "first_runnable c s = Some e"
  shows "limiter_ok c (release_counts (qe_ticket e) (qe_provider e) (pump_one e s))"
proof -
  let ?x = "last (permits (pump_one e s))"
  have "?x \<in> set (permits (pump_one e s))" using pump_one_permit [of e s] by (metis last_in_set)
  then show ?thesis
    using release_counts_ok [OF pump_one_ok [OF assms], of ?x "qe_ticket e"] pump_one_permit [of e s]
    by simp
qed

lemma pump_inv: "limiter_ok c s \<Longrightarrow> limiter_inv c (pump c cb s)"
proof (induction c cb s rule: pump.induct)
  case (1 c cb s)
  show ?case
  proof (cases "first_runnable c s")
    case None
    then have "pump c cb s = s" by (simp add: pump.simps)
    then show ?thesis
      using 1(6) None by (auto simp: limiter_inv_def settled_def first_runnable_def find_None_iff)
  next
    case (Some e)
    note one = pump_one_ok [OF 1(6) Some] and rel = pump_one_release_ok [OF 1(6) Some]
    show ?thesis
      using Some 1(1) [OF Some _ one] 1(2,4) [OF Some _ rel] 1(3,5) [OF Some]
      by (cases "cb (qe_ticket e)") (auto simp: pump.simps [of c cb s] limiter_inv_def)
  qed
qed

section \<open>The operations keep the invariant\<close>

lemma limiter_init_inv: "limiter_inv c limiter_init"
  by (simp add: limiter_inv_def limiter_ok_defs limiter_init_def settled_def live_def held_def
      waiting_def tally_def arrivals_def tickets_def)

lemma limiter_release_inv [inv_intros]:
  assumes "limiter_inv c s"
  shows "limiter_inv c (release_permit c cb t s)"
proof (cases "find (\<lambda>x. pm_ticket x = t) (permits s)")
  case (Some x)
  then have "x \<in> set (permits s)" "pm_ticket x = t" by (auto dest: find_SomeD)
  then show ?thesis
    using assms Some release_counts_ok pump_inv
    by (auto simp: release_permit_def limiter_inv_def)
qed (use assms in \<open>simp add: release_permit_def\<close>)

lemma settled_not_waiting:
  "settled c s \<Longrightarrow> canRunNow c s p \<Longrightarrow> e \<in> set (lqueue s) \<Longrightarrow> qe_provider e \<noteq> p"
  by (auto simp: settled_def)

lemma settled_mono:
  assumes "settled c s" and "set (lqueue s') \<subseteq> set (lqueue s)"
    and "\<And>p. canRunNow c s' p \<Longrightarrow> canRunNow c s p"
  shows "settled c s'"
  using assms by (auto simp: settled_def)

lemma limiter_removal_inv:
  assumes inv: "limiter_inv c s"
    and bump: "\<And>r. removeEntry t s = (True, r) \<Longrightarrow> op s = r\<lparr>timedOutCount := timedOutCount r + i,
      cancelledCount := cancelledCount r + (1 - i)\<rparr>"
    and keep: "removeEntry t s = (False, s) \<Longrightarrow> op s = s" and "i \<le> 1"
  shows "limiter_inv c (op s)"
proof -
  have ok: "limiter_ok c s" and st: "settled c s" using inv by (auto simp: limiter_inv_def)
  have "distinct (map qe_ticket (lqueue s))" using ok by (auto simp: limiter_ok_defs tickets_def)
  then show ?thesis
  proof (cases rule: removeEntry_cases [of s t])
    case 1
    then show ?thesis using inv keep by simp
  next
    case (2 us e vs)
    define r where "r = s\<lparr>lqueue := us @ vs,
      queuedByProvider := counter_dec (queuedByProvider s) (qe_provider e)\<rparr>"
    note rem = removeEntry_ok [OF ok 2(1) r_def]
    have op: "op s = r\<lparr>timedOutCount := timedOutCount r + i,
        cancelledCount := cancelledCount r + (1 - i)\<rparr>"
      using bump 2(3) by (simp add: r_def)
    have "limiter_counts_ok (op s)" "limiter_bounds_ok c (op s)"
      using rem(1,2) by (simp_all add: op limiter_counts_ok_def limiter_bounds_ok_def live_def
          held_def [abs_def] waiting_def [abs_def])
    moreover have "limiter_tickets_ok (op s)"
      using rem(3,4) rem(5) ok 2(1) \<open>i \<le> 1\<close>
      by (simp add: op limiter_ok_def limiter_tickets_ok_def tickets_def arrivals_def r_def)
    moreover have "settled c (op s)"
      by (rule settled_mono [OF st]) (auto simp: op r_def 2(1) canRunNow_alt)
    ultimately show ?thesis by (simp add: limiter_inv_def limiter_ok_def)
  qed
qed

lemma limiter_timeout_inv [inv_intros]:
  assumes "limiter_inv c s"
  shows "limiter_inv c (snd (limiter_timeout t s))"
  by (rule limiter_removal_inv [OF assms, of t "\<lambda>s. snd (limiter_timeout t s)" 1])
    (simp_all add: limiter_timeout_def)

lemma limiter_cancel_inv [inv_intros]:
  assumes "limiter_inv c s"
  shows "limiter_inv c (snd (limiter_cancel t s))"
  by (rule limiter_removal_inv [OF assms, of t "\<lambda>s. snd (limiter_cancel t s)" 0])
    (simp_all add: limiter_cancel_def)

lemma limiter_acquire_inv [inv_intros]:
  assumes inv: "limiter_inv c s"
  shows "limiter_inv c (snd (limiter_acquire c p s))"
proof -
  have ok: "limiter_counts_ok s" "limiter_bounds_ok c s" "limiter_tickets_ok s" and st: "settled c s"
    using inv by (auto simp: limiter_inv_def limiter_ok_def)
  let ?t = "next_ticket s" and ?s' = "snd (limiter_acquire c p s)"
  have fresh: "?t \<notin> set (tickets s)" "\<forall>u\<in>set (tickets s). u < Suc ?t"
    using ok(3) by (auto simp: limiter_tickets_ok_def)
  consider (run) "canRunNow c s p"
    | (full) "\<not> canRunNow c s p" "int (length (lqueue s)) \<ge> maxQueuedJobs c"
    | (wait) "\<not> canRunNow c s p" "int (length (lqueue s)) < maxQueuedJobs c"
    by linarith
  then show ?thesis
  proof cases
    case run
    let ?s0 = "s\<lparr>next_ticket := ?t + 1\<rparr>"
    have s': "?s' = grant ?t p ?s0" using run by (simp add: limiter_acquire_def Let_def)
    have pre: "limiter_counts_ok ?s0" "limiter_bounds_ok c ?s0" "canRunNow c ?s0 p"
      "distinct (tickets ?s0)" "\<And>q. sorted_wrt (<) (arrivals ?s0 q)"
      "\<forall>x\<in>set (permits ?s0). pm_provider x = p \<longrightarrow> pm_ticket x < ?t"
      using ok run by (auto simp: limiter_counts_ok_def limiter_bounds_ok_def limiter_tickets_ok_def
          live_def held_def [abs_def] waiting_def [abs_def] tickets_def arrivals_def canRunNow_alt
          split: if_splits)
    have none: "\<forall>e\<in>set (lqueue ?s0). qe_provider e = p \<longrightarrow> ?t < qe_ticket e"
      using settled_not_waiting [OF st run] by auto
    have fr: "?t \<notin> set (tickets ?s0)" "\<forall>u\<in>set (tickets ?s0). u < Suc ?t"
      using fresh by (simp_all add: tickets_def)
    note gr = grant_ok [OF pre(1-4) fr lessI pre(5) pre(6) none]
    have "limiter_tickets_ok ?s'"
      using gr(3-5) ok(3) by (simp add: s' limiter_tickets_ok_def) (simp add: grant_def)
    moreover have "settled c ?s'"
      by (rule settled_mono [OF st]) (auto simp: s' grant_def canRunNow_alt counter_inc_def
          nullish_def split: if_splits option.splits)
    ultimately show ?thesis using gr(1,2) by (simp add: limiter_inv_def limiter_ok_def s')
  next
    case full
    then show ?thesis
      using ok st fresh by (auto simp: limiter_acquire_def Let_def limiter_inv_def limiter_ok_defs live_def
          held_def [abs_def] waiting_def [abs_def] tickets_def arrivals_def canRunNow_alt
          settled_def split: if_splits)
  next
    case wait
    then have s': "?s' = s\<lparr>next_ticket := ?t + 1,
        lqueue := lqueue s @ [\<lparr>qe_ticket = ?t, qe_provider = p\<rparr>],
        queuedByProvider := counter_inc (queuedByProvider s) p\<rparr>"
      by (simp add: limiter_acquire_def Let_def)
    have w: "waiting ?s' = (waiting s)(p := Suc (waiting s p))"
      by (auto simp: waiting_def s' fun_eq_iff)
    have "limiter_counts_ok ?s'"
      using ok(1) tally_inc [of "queuedByProvider s" "waiting s" p]
      by (simp add: limiter_counts_ok_def w) (simp add: s' live_def held_def [abs_def])
    moreover have "limiter_bounds_ok c ?s'"
      using ok(2) wait by (simp add: limiter_bounds_ok_def s' live_def held_def)
    moreover have "limiter_tickets_ok ?s'"
      using ok(3) fresh by (auto simp: limiter_tickets_ok_def s' tickets_def arrivals_def
          sorted_wrt_append)
    moreover have "settled c ?s'"
      using st wait by (auto simp: settled_def s' canRunNow_alt)
    ultimately show ?thesis by (simp add: limiter_inv_def limiter_ok_def)
  qed
qed

section \<open>The limiter as a transition system\<close>

text \<open>
  One step is one call from outside: an acquire, a permit closure called, a wait timer that fires,
  a queued entry cancelled. What callbacks do with the permits a pump hands out is free.
\<close>

inductive limiter_step :: "limiter_cfg \<Rightarrow> limiter \<Rightarrow> limiter \<Rightarrow> bool" for c where
  step_acquire: "limiter_step c s (snd (limiter_acquire c p s))"
| step_release: "limiter_step c s (release_permit c cb t s)"
| step_timeout: "limiter_step c s (snd (limiter_timeout t s))"
| step_cancel: "limiter_step c s (snd (limiter_cancel t s))"

inductive_cases limiter_step_E: "limiter_step c s s'"

lemma limiter_step_inv: "limiter_inv c s \<Longrightarrow> limiter_step c s s' \<Longrightarrow> limiter_inv c s'"
  by (erule limiter_step_E) (auto intro: inv_intros)

interpretation limiter_sys: inv_system "\<lambda>s. s = limiter_init" "limiter_step c" "limiter_inv c" for c
  by unfold_locales (auto simp: limiter_init_inv intro: limiter_step_inv)

definition limiter_reachable :: "limiter_cfg \<Rightarrow> limiter \<Rightarrow> bool" where
  "limiter_reachable c s = reach (\<lambda>s. s = limiter_init) (limiter_step c) s"

lemma limiter_reachable_inv: "limiter_reachable c s \<Longrightarrow> limiter_inv c s"
  by (auto simp: limiter_reachable_def intro: limiter_sys.reach_inv)

lemma limiter_reachable_init: "limiter_reachable c limiter_init"
  by (simp add: limiter_reachable_def reach_init)

lemma limiter_reachable_step: "limiter_reachable c s \<Longrightarrow> limiter_step c s s' \<Longrightarrow> limiter_reachable c s'"
  by (auto simp: limiter_reachable_def intro: reach_step)

lemmas limiter_reachable_intros = limiter_reachable_init
  limiter_reachable_step [OF _ step_acquire] limiter_reachable_step [OF _ step_release]
  limiter_reachable_step [OF _ step_timeout] limiter_reachable_step [OF _ step_cancel]

definition permit_released :: "nat \<Rightarrow> limiter \<Rightarrow> bool" where
  "permit_released t s = list_ex (\<lambda>x. pm_ticket x = t \<and> pm_released x) (permits s)"

lemma pump_one_released: "permit_released t s \<Longrightarrow> permit_released t (pump_one e s)"
  by (auto simp: permit_released_def pump_one_def grant_def removeEntry_def split: option.splits)

lemma release_counts_released: "permit_released t s \<Longrightarrow> permit_released t (release_counts u p s)"
  by (auto simp: permit_released_def release_counts_def list_ex_iff simp del: if_image_distrib)

lemma pump_released: "permit_released t s \<Longrightarrow> permit_released t (pump c cb s)"
proof (induction c cb s rule: pump.induct)
  case (1 c cb s)
  show ?case
  proof (cases "first_runnable c s")
    case None
    then show ?thesis using 1(6) by (simp add: pump.simps)
  next
    case (Some e)
    note one = pump_one_released [OF 1(6), of e]
    note rel = release_counts_released [OF one, of "qe_ticket e" "qe_provider e"]
    show ?thesis
      using Some 1(1) [OF Some _ one] 1(2,4) [OF Some _ rel] 1(3,5) [OF Some]
      by (cases "cb (qe_ticket e)") (simp_all add: pump.simps [of c cb s])
  qed
qed

lemma released_release_id:
  assumes "limiter_inv c s" and "permit_released t s"
  shows "release_permit c cb t s = s"
proof -
  obtain x where x: "x \<in> set (permits s)" "pm_ticket x = t" "pm_released x"
    using assms(2) by (auto simp: permit_released_def list_ex_iff)
  have "distinct (map pm_ticket (permits s))"
    using assms(1) by (auto simp: limiter_inv_def limiter_ok_defs tickets_def)
  then have "find (\<lambda>y. pm_ticket y = t) (permits s) = Some x"
    using find_unique [of pm_ticket "permits s" x] x by simp
  then show ?thesis using x(3) by (simp add: release_permit_def)
qed

lemma release_permit_marks:
  assumes "t \<in> pm_ticket ` set (permits s)"
  shows "permit_released t (release_permit c cb t s)"
proof -
  obtain x where x: "find (\<lambda>y. pm_ticket y = t) (permits s) = Some x"
    using assms find_Some_iff_ex [of "\<lambda>y. pm_ticket y = t" "permits s"] by auto
  then have xin: "x \<in> set (permits s)" "pm_ticket x = t" by (auto dest: find_SomeD)
  show ?thesis
  proof (cases "pm_released x")
    case True
    with x xin show ?thesis by (auto simp: release_permit_def permit_released_def list_ex_iff)
  next
    case False
    have "permit_released t (release_counts t (pm_provider x) s)"
      using xin by (auto simp: permit_released_def release_counts_def list_ex_iff
          simp del: if_image_distrib)
    with x False show ?thesis by (simp add: release_permit_def pump_released)
  qed
qed

section \<open>Properties\<close>

lemma acquire_granted_iff:
  "limiter_acquire c p s = (Granted t, s') \<Longrightarrow> canRunNow c s p"
  by (auto simp: limiter_acquire_def Let_def split: if_splits)

lemma snapshot_capacity:
  "providerAtCapacity (limiter_snapshot_of c s) p \<longleftrightarrow>
     nullish (js_get (runningByProvider s) p) 0 \<ge> maxRunningJobsPerProvider c"
  by (simp add: providerAtCapacity_def limiter_snapshot_of_def Let_def)

definition demo_limits :: limiter_cfg where
  "demo_limits = \<lparr>maxRunningJobs = 2, maxRunningJobsPerProvider = 1, maxQueuedJobs = 2,
     queueTimeoutMs = 1000\<rparr>"

text \<open>Two jobs of one provider (the second waits), one of another, then the first ends.\<close>

definition demo_busy :: limiter where
  "demo_busy = snd (limiter_acquire demo_limits ''codex'' (snd (limiter_acquire demo_limits ''claude''
     (snd (limiter_acquire demo_limits ''claude'' limiter_init)))))"

definition demo_drained :: limiter where
  "demo_drained = release_permit demo_limits (\<lambda>_. Keeps) 0 demo_busy"

lemma demo_reachable: "limiter_reachable demo_limits demo_busy" "limiter_reachable demo_limits demo_drained"
  unfolding demo_busy_def demo_drained_def by (intro limiter_reachable_intros)+

text \<open>
  C8: admission bound. In every reachable state the number of permits handed out and not released
  is exactly the global counter and never exceeds the configured running limit, and the same holds
  of each provider against the per-provider limit; the queue never exceeds its limit.
\<close>

theorem limiter_never_over_admits:
  assumes "limiter_reachable c s"
  shows "runningGlobal s = int (live s) \<and> int (live s) \<le> max 0 (maxRunningJobs c)
    \<and> (\<forall>p. nullish (js_get (runningByProvider s) p) 0 = int (held s p)
          \<and> int (held s p) \<le> max 0 (maxRunningJobsPerProvider c))
    \<and> int (length (lqueue s)) \<le> max 0 (maxQueuedJobs c)"
  using limiter_reachable_inv [OF assms]
  by (auto simp: limiter_inv_def limiter_ok_defs tally_get)

theorem limiter_never_over_admits_witness:
  "int (live demo_drained) \<le> 2 \<and> live demo_drained = 2 \<and> held demo_drained ''claude'' = 1"
proof -
  have "live demo_drained = 2" "held demo_drained ''claude'' = 1" by code_simp+
  with limiter_never_over_admits [OF demo_reachable(2)] show ?thesis by (simp add: demo_limits_def)
qed

text \<open>
  C11: work conservation. In every reachable state a waiter that is still queued is blocked by the
  global limit or by the limit of its own provider: no permit stays idle while a runnable job
  waits, whatever the callbacks did (kept, released at once, threw).
\<close>

theorem limiter_work_conserving:
  assumes "limiter_reachable c s" and "e \<in> set (lqueue s)"
  shows "int (live s) \<ge> maxRunningJobs c
    \<or> int (held s (qe_provider e)) \<ge> maxRunningJobsPerProvider c"
  using limiter_reachable_inv [OF assms(1)] assms(2) canRunNow_iff [of s c "qe_provider e"]
  by (force simp: limiter_inv_def limiter_ok_def settled_def)

theorem limiter_work_conserving_witness:
  "lqueue demo_busy = [\<lparr>qe_ticket = 1, qe_provider = ''claude''\<rparr>]
   \<and> (int (live demo_busy) \<ge> 2 \<or> int (held demo_busy ''claude'') \<ge> 1)"
proof -
  have q: "lqueue demo_busy = [\<lparr>qe_ticket = 1, qe_provider = ''claude''\<rparr>]" by code_simp
  with limiter_work_conserving [OF demo_reachable(1), of "\<lparr>qe_ticket = 1, qe_provider = ''claude''\<rparr>"]
  show ?thesis by (simp add: demo_limits_def)
qed

text \<open>
  First-in first-out per provider. In every reachable state, the arrival numbers of the permits
  a provider was granted, in grant order, followed by those of its waiters in queue order, strictly
  increase: no job of a provider overtakes an earlier one of the same provider, inline grants
  included.
\<close>

theorem limiter_fifo_per_provider:
  assumes "limiter_reachable c s"
  shows "sorted_wrt (<) (map pm_ticket (filter (\<lambda>x. pm_provider x = p) (permits s))
     @ map qe_ticket (filter (\<lambda>e. qe_provider e = p) (lqueue s)))"
  using limiter_reachable_inv [OF assms]
  by (auto simp: limiter_inv_def limiter_ok_defs arrivals_def)

theorem limiter_fifo_per_provider_witness:
  "sorted_wrt (<) (map pm_ticket (filter (\<lambda>x. pm_provider x = ''claude'') (permits demo_drained)))
   \<and> map pm_ticket (permits demo_drained) = [0, 2, 1]"
proof -
  have "map pm_ticket (permits demo_drained) = [0, 2, 1]" by code_simp
  with limiter_fifo_per_provider [OF demo_reachable(2), of "''claude''"]
  show ?thesis by (simp add: sorted_wrt_append)
qed

text \<open>
  A permit is released once. Calling a permit's release closure again changes nothing, also
  when the first call pumped other waiters and whatever their callbacks did.
\<close>

theorem release_idempotent:
  assumes "limiter_reachable c s"
  shows "release_permit c cb' t (release_permit c cb t s) = release_permit c cb t s"
proof (cases "t \<in> pm_ticket ` set (permits s)")
  case True
  have "limiter_inv c (release_permit c cb t s)"
    using limiter_reachable_inv [OF assms] by (rule limiter_release_inv)
  then show ?thesis by (rule released_release_id) (rule release_permit_marks [OF True])
next
  case False
  then have "find (\<lambda>x. pm_ticket x = t) (permits s) = None" by (auto simp: find_None_iff)
  then show ?thesis by (simp add: release_permit_def)
qed

theorem release_idempotent_witness:
  "release_permit demo_limits (\<lambda>_. Throws) 0 demo_drained = demo_drained \<and> demo_drained \<noteq> demo_busy"
proof -
  have "release_permit demo_limits (\<lambda>_. Throws) 0 demo_drained = demo_drained"
    using release_idempotent [OF demo_reachable(1), of "\<lambda>_. Throws" 0 "\<lambda>_. Keeps"]
    by (simp only: demo_drained_def)
  moreover have "demo_drained \<noteq> demo_busy" by code_simp
  ultimately show ?thesis by (rule conjI)
qed

text \<open>
  Every acquire call ends in exactly one way. The arrival numbers of granted permits and of
  waiters are pairwise distinct, and the calls made are the granted, the waiting, the rejected, the
  timed-out and the cancelled ones: none is lost and none is granted twice.
\<close>

theorem acquire_accounted_once:
  assumes "limiter_reachable c s"
  shows "distinct (map pm_ticket (permits s) @ map qe_ticket (lqueue s))
    \<and> next_ticket s = length (permits s) + length (lqueue s) + rejectedCount s + timedOutCount s
        + cancelledCount s"
  using limiter_reachable_inv [OF assms]
  by (auto simp: limiter_inv_def limiter_ok_defs tickets_def)

theorem acquire_accounted_once_witness:
  "distinct (map pm_ticket (permits demo_busy) @ map qe_ticket (lqueue demo_busy))
   \<and> next_ticket demo_busy = 3 \<and> length (permits demo_busy) = 2 \<and> length (lqueue demo_busy) = 1"
proof -
  have "next_ticket demo_busy = 3" "length (permits demo_busy) = 2" "length (lqueue demo_busy) = 1"
    by code_simp+
  with acquire_accounted_once [OF demo_reachable(1)] show ?thesis by simp
qed

text \<open>
  The router's view of capacity agrees with admission. An acquire is granted inline exactly
  when the snapshot shows room under the global limit and providerAtCapacity is false for the
  provider; otherwise it queues when the queue has room and is rejected when it has none.
\<close>

theorem acquire_outcome_from_snapshot:
  "fst (limiter_acquire c p s) =
     (let snap = limiter_snapshot_of c s in
      if ls_running snap < ls_maxRunning snap \<and> \<not> providerAtCapacity snap p
      then Granted (next_ticket s)
      else if ls_queued snap < ls_maxQueued snap then Queued (next_ticket s) else Rejected)"
  by (auto simp: limiter_acquire_def Let_def snapshot_capacity canRunNow_alt)
    (simp_all add: limiter_snapshot_of_def Let_def)

end
