(* ===== verification/Retry.thy ===== *)
theory Retry
  imports Prelude
begin

text \<open>
  Retry with exponential backoff behind a circuit breaker (src/src/retry.ts).

  The breaker is a shared mutable object, so the loop of withRetry is cut where it awaits: entry
  check, what a fulfilled attempt does, what a rejected attempt does. with_retry composes the three
  the way the loop does, with the outcomes of the operation and the clock readings as a function of
  the attempt; breaker_step lets calls interleave freely between the awaits. Delays are rational
  numbers of milliseconds.
\<close>

section \<open>Data\<close>

datatype breaker_state = CLOSED | OPEN | HALF_OPEN

record breaker =
  cb_state :: breaker_state
  cb_failures :: nat
  cb_lastFailureTime :: "time option"
  cb_resetTimeout :: int
  cb_failureThreshold :: nat

datatype error_code = Code_num int | Code_str string | Code_none

record js_error =
  err_code :: error_code
  err_message :: string

datatype thrown =
    CircuitOpen int
  | NonTransient js_error
  | Reopened js_error
  | Opened nat js_error
  | Rethrown js_error
  | AllAttemptsFailed

datatype state_event = StateChange breaker_state "js_error option"

record retry_options =
  ro_initialDelay :: rat
  ro_maxDelay :: rat
  ro_factor :: rat
  ro_isTransient :: "js_error option \<Rightarrow> bool"

datatype 'a attempt = Fulfilled 'a | Failed js_error time

section \<open>Operations\<close>

definition isDefaultTransient :: "js_error option \<Rightarrow> bool" where
  "isDefaultTransient e =
     (case e of
        None \<Rightarrow> False
      | Some err \<Rightarrow>
          if err_code err = Code_num 124 then True
          else if err_code err = Code_str ''ENOENT'' then False
          else if err_code err \<in> {Code_str ''ECONNRESET'', Code_str ''ETIMEDOUT'',
                  Code_str ''ECONNREFUSED'', Code_str ''EPIPE''} then True
          else False)"

definition createCircuitBreaker :: "int option \<Rightarrow> nat option \<Rightarrow> breaker" where
  "createCircuitBreaker resetTimeout failureThreshold =
     \<lparr>cb_state = CLOSED, cb_failures = 0, cb_lastFailureTime = None,
      cb_resetTimeout = nullish resetTimeout 60000,
      cb_failureThreshold = nullish failureThreshold 5\<rparr>"

definition default_retry_options :: retry_options where
  "default_retry_options = \<lparr>ro_initialDelay = 1000, ro_maxDelay = 30000, ro_factor = 2,
     ro_isTransient = isDefaultTransient\<rparr>"

text \<open>Math.ceil of a quotient by 1000.\<close>

definition seconds_ceil :: "int \<Rightarrow> int" where
  "seconds_ceil ms = - ((- ms) div 1000)"

definition breaker_enter ::
    "time \<Rightarrow> breaker \<Rightarrow> (thrown option \<times> breaker \<times> state_event list)" where
  "breaker_enter now b =
     (if cb_state b = OPEN then
        (let timeSinceFailure = now - nullish (cb_lastFailureTime b) 0 in
         if timeSinceFailure > cb_resetTimeout b
         then (None, b\<lparr>cb_state := HALF_OPEN\<rparr>, [StateChange HALF_OPEN None])
         else (Some (CircuitOpen (seconds_ceil (cb_resetTimeout b - timeSinceFailure))), b, []))
      else (None, b, []))"

definition attempt_fulfilled :: "breaker \<Rightarrow> breaker \<times> state_event list" where
  "attempt_fulfilled b =
     (if cb_failures b > 0 \<or> cb_state b = HALF_OPEN then
        (b\<lparr>cb_failures := 0, cb_lastFailureTime := None, cb_state := CLOSED\<rparr>,
         if cb_state b \<noteq> CLOSED then [StateChange CLOSED None] else [])
      else (b, []))"

definition backoff :: "retry_options \<Rightarrow> nat \<Rightarrow> rat" where
  "backoff opts attempt =
     min (ro_initialDelay opts * ro_factor opts ^ (attempt - 1)) (ro_maxDelay opts)"

text \<open>What the catch clause does: throw (Inl) or sleep for a delay (Inr) before the next attempt.\<close>

definition attempt_rejected ::
    "retry_options \<Rightarrow> nat \<Rightarrow> nat \<Rightarrow> js_error \<Rightarrow> time \<Rightarrow> breaker
       \<Rightarrow> (thrown + rat) \<times> breaker \<times> state_event list" where
  "attempt_rejected opts maxAttempts attempt err now b =
     (if \<not> ro_isTransient opts (Some err) then (Inl (NonTransient err), b, [])
      else
        (let b1 = b\<lparr>cb_failures := cb_failures b + 1, cb_lastFailureTime := Some now\<rparr> in
         if cb_state b1 = HALF_OPEN
         then (Inl (Reopened err), b1\<lparr>cb_state := OPEN\<rparr>, [StateChange OPEN (Some err)])
         else if cb_failures b1 \<ge> cb_failureThreshold b1
         then (Inl (Opened (cb_failures b1) err), b1\<lparr>cb_state := OPEN\<rparr>,
               if cb_state b1 = CLOSED then [StateChange OPEN (Some err)] else [])
         else if attempt = maxAttempts then (Inl (Rethrown err), b1, [])
         else (Inr (backoff opts attempt), b1, [])))"

record 'a retry_run =
  rr_result :: "thrown + 'a"
  rr_breaker :: breaker
  rr_events :: "state_event list"
  rr_delays :: "rat list"
  rr_attempts :: nat

text \<open>The for loop: attempt counts up, left counts the iterations that remain.\<close>

fun retry_loop ::
    "retry_options \<Rightarrow> nat \<Rightarrow> (nat \<Rightarrow> 'a attempt) \<Rightarrow> nat \<Rightarrow> nat \<Rightarrow> breaker \<Rightarrow> 'a retry_run" where
  "retry_loop opts maxAttempts oper attempt 0 b =
     \<lparr>rr_result = Inl AllAttemptsFailed, rr_breaker = b, rr_events = [], rr_delays = [],
      rr_attempts = 0\<rparr>"
| "retry_loop opts maxAttempts oper attempt (Suc left) b =
     (case oper attempt of
        Fulfilled v \<Rightarrow>
          (let (b', ev) = attempt_fulfilled b in
           \<lparr>rr_result = Inr v, rr_breaker = b', rr_events = ev, rr_delays = [], rr_attempts = 1\<rparr>)
      | Failed err now \<Rightarrow>
          (case attempt_rejected opts maxAttempts attempt err now b of
             (Inl th, b', ev) \<Rightarrow>
               \<lparr>rr_result = Inl th, rr_breaker = b', rr_events = ev, rr_delays = [],
                rr_attempts = 1\<rparr>
           | (Inr delay, b', ev) \<Rightarrow>
               (let r = retry_loop opts maxAttempts oper (attempt + 1) left b' in
                r\<lparr>rr_events := ev @ rr_events r, rr_delays := delay # rr_delays r,
                  rr_attempts := Suc (rr_attempts r)\<rparr>)))"

definition with_retry ::
    "retry_options \<Rightarrow> time \<Rightarrow> (nat \<Rightarrow> 'a attempt) \<Rightarrow> breaker \<Rightarrow> 'a retry_run" where
  "with_retry opts now oper b =
     (case breaker_enter now b of
        (Some th, b', ev) \<Rightarrow>
          \<lparr>rr_result = Inl th, rr_breaker = b', rr_events = ev, rr_delays = [], rr_attempts = 0\<rparr>
      | (None, b', ev) \<Rightarrow>
          (let n = cb_failureThreshold b'; r = retry_loop opts n oper 1 n b' in
           r\<lparr>rr_events := ev @ rr_events r\<rparr>))"

section \<open>The breaker under interleaved calls\<close>

definition breaker_inv :: "breaker \<Rightarrow> bool" where
  "breaker_inv b \<longleftrightarrow> 0 < cb_failureThreshold b \<and>
     (case cb_state b of
        CLOSED \<Rightarrow> cb_failures b < cb_failureThreshold b \<and> (cb_failures b = 0 \<longleftrightarrow> cb_lastFailureTime b = None)
      | _ \<Rightarrow> 0 < cb_failures b \<and> cb_lastFailureTime b \<noteq> None)"

inductive breaker_step :: "retry_options \<Rightarrow> breaker \<Rightarrow> breaker \<Rightarrow> bool" for opts where
  step_enter: "breaker_enter now b = (res, b', ev) \<Longrightarrow> breaker_step opts b b'"
| step_fulfilled: "attempt_fulfilled b = (b', ev) \<Longrightarrow> breaker_step opts b b'"
| step_rejected: "attempt_rejected opts n k err now b = (res, b', ev) \<Longrightarrow> breaker_step opts b b'"

inductive_cases breaker_step_E: "breaker_step opts b b'"

lemma enter_inv: "breaker_inv b \<Longrightarrow> breaker_enter now b = (res, b', ev) \<Longrightarrow> breaker_inv b'"
  by (auto simp: breaker_enter_def breaker_inv_def Let_def split: if_splits breaker_state.splits)

lemma fulfilled_inv:
  "breaker_inv b \<Longrightarrow> attempt_fulfilled b = (b', ev) \<Longrightarrow> breaker_inv b'"
  by (auto simp: attempt_fulfilled_def breaker_inv_def split: if_splits breaker_state.splits)

lemma rejected_inv:
  "breaker_inv b \<Longrightarrow> attempt_rejected opts n k err now b = (res, b', ev) \<Longrightarrow> breaker_inv b'"
  by (auto simp: attempt_rejected_def breaker_inv_def Let_def split: if_splits breaker_state.splits)

lemma breaker_step_inv: "breaker_inv b \<Longrightarrow> breaker_step opts b b' \<Longrightarrow> breaker_inv b'"
  by (erule breaker_step_E) (auto intro: enter_inv fulfilled_inv rejected_inv)

lemma create_inv:
  "nullish n 5 \<noteq> 0 \<Longrightarrow> breaker_inv (createCircuitBreaker r n)"
  by (simp add: breaker_inv_def createCircuitBreaker_def)

interpretation breaker_sys: inv_system
  "\<lambda>b. \<exists>r n. nullish n 5 \<noteq> 0 \<and> b = createCircuitBreaker r n" "breaker_step opts" breaker_inv for opts
  by unfold_locales (auto intro: create_inv breaker_step_inv)

definition breaker_reachable :: "retry_options \<Rightarrow> breaker \<Rightarrow> bool" where
  "breaker_reachable opts b =
     reach (\<lambda>b. \<exists>r n. nullish n 5 \<noteq> 0 \<and> b = createCircuitBreaker r n) (breaker_step opts) b"

lemma breaker_reachable_inv: "breaker_reachable opts b \<Longrightarrow> breaker_inv b"
  by (auto simp: breaker_reachable_def intro: breaker_sys.reach_inv)

section \<open>The sequential loop\<close>

lemma rejected_threshold:
  "attempt_rejected opts n k err now b = (res, b', ev) \<Longrightarrow>
     cb_failureThreshold b' = cb_failureThreshold b \<and> cb_resetTimeout b' = cb_resetTimeout b"
  by (auto simp: attempt_rejected_def Let_def split: if_splits)

lemma rejected_retry:
  "attempt_rejected opts n k err now b = (Inr d, b', ev) \<Longrightarrow>
     d = backoff opts k \<and> ev = [] \<and> cb_state b' = cb_state b \<and> cb_state b \<noteq> HALF_OPEN
     \<and> cb_failures b' = Suc (cb_failures b) \<and> ro_isTransient opts (Some err)"
  by (auto simp: attempt_rejected_def Let_def split: if_splits)

lemma rejected_throw:
  "attempt_rejected opts n k err now b = (Inl th, b', ev) \<Longrightarrow> th = Rethrown e \<Longrightarrow>
     k = n \<and> cb_state b \<noteq> HALF_OPEN \<and> Suc (cb_failures b) < cb_failureThreshold b"
  by (auto simp: attempt_rejected_def Let_def split: if_splits)

lemma rejected_never_exhausted:
  "attempt_rejected opts n k err now b = (Inl th, b', ev) \<Longrightarrow> th \<noteq> AllAttemptsFailed \<and> th \<noteq> CircuitOpen i"
  by (auto simp: attempt_rejected_def Let_def split: if_splits)

text \<open>The bookkeeping of one run: which attempts were made, which delays were slept.\<close>

definition run_ok :: "retry_options \<Rightarrow> nat \<Rightarrow> nat \<Rightarrow> 'a retry_run \<Rightarrow> bool" where
  "run_ok opts attempt left r \<longleftrightarrow> rr_attempts r \<le> left \<and> 0 < rr_attempts r
     \<and> rr_delays r = map (backoff opts) [attempt ..< attempt + rr_attempts r - 1]
     \<and> rr_result r \<noteq> Inl AllAttemptsFailed \<and> (\<forall>e. rr_result r \<noteq> Inl (Rethrown e))
     \<and> (\<forall>i. rr_result r \<noteq> Inl (CircuitOpen i))"

lemma upt_step: "0 < n \<Longrightarrow> [k ..< k + n] = k # [Suc k ..< k + n]"
  by (simp add: upt_conv_Cons)

lemma retry_loop_ok:
  assumes "breaker_inv b" and "cb_state b \<noteq> OPEN" and "cb_failureThreshold b = maxA"
    and "attempt + left = Suc maxA" and "cb_state b = CLOSED \<longrightarrow> attempt \<le> Suc (cb_failures b)"
    and "cb_state b = HALF_OPEN \<longrightarrow> 0 < left"
  shows "run_ok opts attempt left (retry_loop opts maxA oper attempt left b)"
  using assms
proof (induction left arbitrary: attempt b)
  case 0
  then show ?case by (cases "cb_state b") (auto simp: breaker_inv_def)
next
  case (Suc left)
  show ?case
  proof (cases "oper attempt")
    case (Fulfilled v)
    then show ?thesis by (simp add: run_ok_def split: prod.split)
  next
    case (Failed err now)
    obtain res b' ev where rej: "attempt_rejected opts maxA attempt err now b = (res, b', ev)"
      by (cases "attempt_rejected opts maxA attempt err now b") auto
    show ?thesis
    proof (cases res)
      case (Inl th)
      have "th \<noteq> Rethrown e" for e
        using rejected_throw [OF rej [unfolded Inl], of e] Suc.prems
        by (cases "cb_state b") auto
      then show ?thesis
        using Failed rej Inl rejected_never_exhausted [OF rej [unfolded Inl]] by (simp add: run_ok_def)
    next
      case (Inr d)
      note rt = rejected_retry [OF rej [unfolded Inr]]
      have cl: "cb_state b = CLOSED" using rt Suc.prems(2) by (cases "cb_state b") auto
      have "run_ok opts (Suc attempt) left (retry_loop opts maxA oper (Suc attempt) left b')"
        using Suc.prems rt cl rejected_threshold [OF rej] rejected_inv [OF Suc.prems(1) rej]
        by (intro Suc.IH) auto
      then show ?thesis
        using Failed rej Inr rt upt_step [of "rr_attempts (retry_loop opts maxA oper (Suc attempt) left b')" attempt]
        by (simp add: run_ok_def Let_def)
    qed
  qed
qed

lemma enter_closed: "cb_state b = CLOSED \<Longrightarrow> breaker_enter now b = (None, b, [])"
  by (simp add: breaker_enter_def)

lemma enter_admits:
  "breaker_enter now b = (None, b', ev) \<Longrightarrow> cb_state b' \<noteq> OPEN \<and> cb_failures b' = cb_failures b
     \<and> cb_failureThreshold b' = cb_failureThreshold b"
  by (auto simp: breaker_enter_def Let_def split: if_splits)

lemma all_fail_loop:
  assumes "cb_state b = CLOSED" and "cb_failureThreshold b = maxA" and "cb_failures b + m = maxA"
    and "0 < m" and "m \<le> left" and "attempt + left = Suc maxA"
    and "\<And>k. attempt \<le> k \<Longrightarrow> \<exists>err now. oper k = Failed err now \<and> ro_isTransient opts (Some err)"
  shows "\<exists>err. rr_result (retry_loop opts maxA oper attempt left b) = Inl (Opened maxA err)
     \<and> cb_state (rr_breaker (retry_loop opts maxA oper attempt left b)) = OPEN
     \<and> rr_attempts (retry_loop opts maxA oper attempt left b) = m
     \<and> rr_events (retry_loop opts maxA oper attempt left b) = [StateChange OPEN (Some err)]"
  using assms
proof (induction m arbitrary: attempt left b)
  case (Suc m)
  obtain err now where f: "oper attempt = Failed err now" "ro_isTransient opts (Some err)"
    using Suc.prems(7) [of attempt] by blast
  obtain l where l: "left = Suc l" using Suc.prems(5) by (cases left) auto
  define b' where "b' = b\<lparr>cb_failures := cb_failures b + 1, cb_lastFailureTime := Some now\<rparr>"
  show ?case
  proof (cases m)
    case 0
    then have "attempt_rejected opts maxA attempt err now b
        = (Inl (Opened maxA err), b'\<lparr>cb_state := OPEN\<rparr>, [StateChange OPEN (Some err)])"
      using Suc.prems f by (simp add: attempt_rejected_def b'_def)
    then show ?thesis using f l 0 by simp
  next
    case (Suc m')
    then have rej: "attempt_rejected opts maxA attempt err now b = (Inr (backoff opts attempt), b', [])"
      using Suc.prems f l by (simp add: attempt_rejected_def b'_def)
    have "\<exists>err. rr_result (retry_loop opts maxA oper (Suc attempt) l b') = Inl (Opened maxA err)
       \<and> cb_state (rr_breaker (retry_loop opts maxA oper (Suc attempt) l b')) = OPEN
       \<and> rr_attempts (retry_loop opts maxA oper (Suc attempt) l b') = m
       \<and> rr_events (retry_loop opts maxA oper (Suc attempt) l b') = [StateChange OPEN (Some err)]"
      using Suc.prems l Suc by (intro Suc.IH) (auto simp: b'_def)
    then show ?thesis using f l rej by (auto simp: Let_def)
  qed
qed simp

section \<open>Properties\<close>

lemma backoff_mono:
  assumes "0 \<le> ro_initialDelay opts" and "1 \<le> ro_factor opts" and "k \<le> l"
  shows "backoff opts k \<le> backoff opts l"
proof -
  have "ro_initialDelay opts * ro_factor opts ^ (k - 1) \<le> ro_initialDelay opts * ro_factor opts ^ (l - 1)"
    using assms by (intro mult_left_mono power_increasing) auto
  then show ?thesis by (simp add: backoff_def)
qed

lemma seconds_ceil_bounds: "ms \<le> 1000 * seconds_ceil ms \<and> 1000 * (seconds_ceil ms - 1) < ms"
proof -
  define q r where "q = (- ms) div 1000" and "r = (- ms) mod 1000"
  have "- ms = 1000 * q + r" "0 \<le> r" "r < 1000" by (simp_all add: q_def r_def)
  then show ?thesis unfolding seconds_ceil_def q_def [symmetric] by auto
qed

text \<open>
  An open circuit fails fast. Within the reset timeout after the last failure, withRetry never
  runs the operation, leaves the breaker as it is, and reports the remaining wait rounded up to
  whole seconds.
\<close>

theorem open_circuit_fails_fast:
  fixes oper :: "nat \<Rightarrow> 'a attempt"
  assumes "cb_state b = OPEN" and "cb_lastFailureTime b = Some t" and "now - t \<le> cb_resetTimeout b"
  shows "\<exists>secs. with_retry opts now oper b =
      \<lparr>rr_result = Inl (CircuitOpen secs), rr_breaker = b, rr_events = [], rr_delays = [],
       rr_attempts = 0\<rparr>
    \<and> cb_resetTimeout b - (now - t) \<le> 1000 * secs \<and> 1000 * (secs - 1) < cb_resetTimeout b - (now - t)"
  using assms seconds_ceil_bounds [of "cb_resetTimeout b - (now - t)"]
  by (simp add: with_retry_def breaker_enter_def Let_def)

text \<open>
  C37: one call on a circuit no other call touches. Starting from any breaker state the code can
  reach, withRetry makes at most failureThreshold attempts, sleeps exactly the backoff delays of the
  attempts that were retried, each at most maxDelay, and ends with the operation's value, a
  non-transient error, a re-opened or an opened circuit, or the fail-fast error: the two
  fall-through throws of the loop are never reached.
\<close>

theorem with_retry_bounded:
  fixes oper :: "nat \<Rightarrow> 'a attempt"
  assumes "breaker_reachable opts b" and "r = with_retry opts now oper b"
  shows "rr_attempts r \<le> cb_failureThreshold b
    \<and> rr_delays r = map (backoff opts) [1 ..< rr_attempts r]
    \<and> (\<forall>d\<in>set (rr_delays r). d \<le> ro_maxDelay opts)
    \<and> rr_result r \<noteq> Inl AllAttemptsFailed \<and> (\<forall>e. rr_result r \<noteq> Inl (Rethrown e))"
proof -
  note inv = breaker_reachable_inv [OF assms(1)]
  obtain th b' ev where en: "breaker_enter now b = (th, b', ev)"
    by (cases "breaker_enter now b") auto
  have le: "\<forall>d\<in>set (map (backoff opts) ks). d \<le> ro_maxDelay opts" for ks
    by (simp add: backoff_def)
  show ?thesis
  proof (cases th)
    case None
    note ad = enter_admits [OF en [unfolded None]] and inv' = enter_inv [OF inv en]
    let ?l = "retry_loop opts (cb_failureThreshold b) oper 1 (cb_failureThreshold b) b'"
    have "run_ok opts 1 (cb_failureThreshold b) ?l"
      using ad inv' by (intro retry_loop_ok) (auto simp: breaker_inv_def)
    then show ?thesis
      using None en ad le [of "[1 ..< rr_attempts ?l]"]
      by (simp add: assms(2) with_retry_def Let_def run_ok_def)
  next
    case (Some e)
    then have "e \<noteq> AllAttemptsFailed \<and> e \<noteq> Rethrown x" for x
      using en by (auto simp: breaker_enter_def Let_def split: if_splits)
    then show ?thesis using Some en by (simp add: assms(2) with_retry_def)
  qed
qed

definition demo_error :: js_error where
  "demo_error = \<lparr>err_code = Code_num 124, err_message = ''timed out''\<rparr>"

definition demo_breaker :: breaker where
  "demo_breaker = createCircuitBreaker None (Some 3)"

lemma demo_breaker_reachable: "breaker_reachable opts demo_breaker"
  unfolding breaker_reachable_def demo_breaker_def
  by (rule reach_init) (rule exI [of _ None], rule exI [of _ "Some 3"], simp)

theorem with_retry_bounded_witness:
  "rr_delays (with_retry default_retry_options 0 (\<lambda>_. Failed demo_error 7 :: nat attempt) demo_breaker)
     = [1000, 2000]
   \<and> rr_attempts (with_retry default_retry_options 0 (\<lambda>_. Failed demo_error 7 :: nat attempt)
       demo_breaker) \<le> 3"
proof -
  let ?r = "with_retry default_retry_options 0 (\<lambda>_. Failed demo_error 7 :: nat attempt) demo_breaker"
  have "rr_attempts ?r = 3" by code_simp
  with with_retry_bounded [OF demo_breaker_reachable refl, of default_retry_options 0
      "\<lambda>_. Failed demo_error 7 :: nat attempt"]
  show ?thesis by (simp add: backoff_def default_retry_options_def upt_rec)
qed

text \<open>
  C36: persistent transient failure opens the circuit. On a closed circuit with f recorded failures,
  an operation that always fails transiently is tried exactly threshold minus f times, then the call
  throws the opened-circuit error and the circuit is open, reported once to onStateChange.
\<close>

theorem persistent_failure_opens:
  fixes oper :: "nat \<Rightarrow> 'a attempt"
  assumes "breaker_reachable opts b" and "cb_state b = CLOSED"
    and "\<And>k. 1 \<le> k \<Longrightarrow> \<exists>err t. oper k = Failed err t \<and> ro_isTransient opts (Some err)"
  shows "\<exists>err. rr_result (with_retry opts now oper b) = Inl (Opened (cb_failureThreshold b) err)
    \<and> cb_state (rr_breaker (with_retry opts now oper b)) = OPEN
    \<and> rr_attempts (with_retry opts now oper b) = cb_failureThreshold b - cb_failures b
    \<and> rr_events (with_retry opts now oper b) = [StateChange OPEN (Some err)]"
proof -
  have lt: "cb_failures b < cb_failureThreshold b"
    using breaker_reachable_inv [OF assms(1)] assms(2) by (simp add: breaker_inv_def)
  show ?thesis
    using all_fail_loop [OF assms(2) refl, of "cb_failureThreshold b - cb_failures b"
        "cb_failureThreshold b" 1 oper opts] lt assms(3)
    by (simp add: with_retry_def enter_closed [OF assms(2)] Let_def)
qed

theorem persistent_failure_opens_witness:
  "\<exists>err. rr_result (with_retry default_retry_options 0 (\<lambda>_. Failed demo_error 7 :: nat attempt)
     demo_breaker) = Inl (Opened 3 err)"
proof -
  have "cb_state demo_breaker = CLOSED" "cb_failureThreshold demo_breaker = 3"
    "ro_isTransient default_retry_options (Some demo_error)"
    by code_simp+
  then show ?thesis
    using persistent_failure_opens [OF demo_breaker_reachable, of "\<lambda>_. Failed demo_error 7 :: nat attempt"
        default_retry_options 0] by auto
qed

text \<open>
  The half-open trial decides. Once the reset timeout has passed, the call is admitted in state
  HALF_OPEN; a transient failure of its first attempt re-opens the circuit at once, without a second
  attempt, and a success closes it and forgets the recorded failures.
\<close>

theorem half_open_trial_decides:
  fixes oper :: "nat \<Rightarrow> 'a attempt"
  assumes "breaker_reachable opts b" and "cb_state b = OPEN"
    and "now - nullish (cb_lastFailureTime b) 0 > cb_resetTimeout b"
  shows "with_retry opts now oper b =
    (case oper 1 of
       Fulfilled v \<Rightarrow>
         \<lparr>rr_result = Inr v,
          rr_breaker = b\<lparr>cb_failures := 0, cb_lastFailureTime := None, cb_state := CLOSED\<rparr>,
          rr_events = [StateChange HALF_OPEN None, StateChange CLOSED None],
          rr_delays = [], rr_attempts = 1\<rparr>
     | Failed err t \<Rightarrow>
         if ro_isTransient opts (Some err) then
           \<lparr>rr_result = Inl (Reopened err),
            rr_breaker = b\<lparr>cb_failures := Suc (cb_failures b), cb_lastFailureTime := Some t\<rparr>,
            rr_events = [StateChange HALF_OPEN None, StateChange OPEN (Some err)],
            rr_delays = [], rr_attempts = 1\<rparr>
         else
           \<lparr>rr_result = Inl (NonTransient err), rr_breaker = b\<lparr>cb_state := HALF_OPEN\<rparr>,
            rr_events = [StateChange HALF_OPEN None], rr_delays = [], rr_attempts = 1\<rparr>)"
proof -
  obtain n where n: "cb_failureThreshold b = Suc n"
    using breaker_reachable_inv [OF assms(1)] by (cases "cb_failureThreshold b") (auto simp: breaker_inv_def)
  have en: "breaker_enter now b = (None, b\<lparr>cb_state := HALF_OPEN\<rparr>, [StateChange HALF_OPEN None])"
    using assms(2,3) by (simp add: breaker_enter_def Let_def)
  show ?thesis
    using n assms(2)
    by (auto simp: with_retry_def en Let_def attempt_fulfilled_def attempt_rejected_def
        split: attempt.split)
qed

definition demo_open :: breaker where
  "demo_open = (let b = createCircuitBreaker None (Some 1) in
     fst (snd (attempt_rejected default_retry_options 1 1 demo_error 7 b)))"

lemma demo_open_reachable: "breaker_reachable default_retry_options demo_open"
  unfolding breaker_reachable_def
proof (rule reach_step)
  let ?b = "createCircuitBreaker None (Some 1)"
  show "reach (\<lambda>b. \<exists>r n. nullish n 5 \<noteq> 0 \<and> b = createCircuitBreaker r n)
      (breaker_step default_retry_options) ?b"
    by (rule reach_init) (rule exI [of _ None], rule exI [of _ "Some 1"], simp)
  obtain res b' ev
    where e: "attempt_rejected default_retry_options 1 1 demo_error 7 ?b = (res, b', ev)"
    by (cases "attempt_rejected default_retry_options 1 1 demo_error 7 ?b") auto
  then have "demo_open = b'" by (simp add: demo_open_def Let_def)
  with step_rejected [OF e] show "breaker_step default_retry_options ?b demo_open" by simp
qed

theorem half_open_trial_decides_witness:
  "rr_result (with_retry default_retry_options 60008 (\<lambda>_. Fulfilled (5::nat)) demo_open) = Inr 5
   \<and> cb_state demo_open = OPEN"
proof -
  have st: "cb_state demo_open = OPEN" and
    t: "60008 - nullish (cb_lastFailureTime demo_open) 0 > cb_resetTimeout demo_open"
    by code_simp+
  show ?thesis
    using half_open_trial_decides [OF demo_open_reachable st t, of "\<lambda>_. Fulfilled (5::nat)"] st by simp
qed

theorem open_circuit_fails_fast_witness:
  "\<exists>secs. rr_result (with_retry default_retry_options 30007 (\<lambda>_. Fulfilled (5::nat)) demo_open)
     = Inl (CircuitOpen secs)"
proof -
  have st: "cb_state demo_open = OPEN" and t: "cb_lastFailureTime demo_open = Some 7"
    and r: "30007 - 7 \<le> cb_resetTimeout demo_open"
    by code_simp+
  show ?thesis
    using open_circuit_fails_fast [OF st t r, of default_retry_options "\<lambda>_. Fulfilled (5::nat)"]
    by auto
qed

text \<open>
  Backoff schedule. With a non-negative initial delay and a factor of at least one the delays
  never decrease from attempt to attempt and never exceed maxDelay.
\<close>

theorem backoff_schedule:
  assumes "0 \<le> ro_initialDelay opts" and "1 \<le> ro_factor opts" and "k \<le> l"
  shows "backoff opts k \<le> backoff opts l \<and> backoff opts l \<le> ro_maxDelay opts"
  using backoff_mono [OF assms] by (simp add: backoff_def)

theorem backoff_schedule_witness:
  "backoff default_retry_options 5 \<le> backoff default_retry_options 6
   \<and> backoff default_retry_options 6 \<le> 30000"
  using backoff_schedule [of default_retry_options 5 6] by (simp add: default_retry_options_def)

end
