(* ===== verification/Text.thy ===== *)
theory Text
  imports Prelude
begin

text \<open>
  JavaScript text as UTF-16 code units, for the places where its width in bytes matters: the UTF-8
  length Buffer.byteLength reports, the JSON-escaped length JSON.stringify produces, and the
  normalisation and truncation of progress messages (truncateUtf8 and safeMessage of
  src/src/job-progress.ts).
\<close>

type_synonym jstext = "nat list"

definition lit :: "string \<Rightarrow> jstext" where
  "lit s = map of_char s"

text \<open>The decimal form of a number.\<close>

fun nat_text :: "nat \<Rightarrow> string" where
  "nat_text n = (if n < 10 then [char_of (48 + n)] else nat_text (n div 10) @ [char_of (48 + n mod 10)])"

section \<open>Byte lengths\<close>

definition hi_surrogate :: "nat \<Rightarrow> bool" where
  "hi_surrogate u \<longleftrightarrow> 55296 \<le> u \<and> u \<le> 56319"

definition lo_surrogate :: "nat \<Rightarrow> bool" where
  "lo_surrogate u \<longleftrightarrow> 56320 \<le> u \<and> u \<le> 57343"

definition unit_bytes :: "nat \<Rightarrow> nat" where
  "unit_bytes u = (if u < 128 then 1 else if u < 2048 then 2 else 3)"

text \<open>Buffer.byteLength: a surrogate pair is four bytes, a lone surrogate is written as U+FFFD.\<close>

fun utf8_len :: "jstext \<Rightarrow> nat" where
  "utf8_len [] = 0"
| "utf8_len [u] = unit_bytes u"
| "utf8_len (u # v # us) =
     (if hi_surrogate u \<and> lo_surrogate v then 4 + utf8_len us
      else unit_bytes u + utf8_len (v # us))"

text \<open>
  The bytes JSON.stringify writes between the quotes: two for an escaped quote, backslash or named
  control, six for another control or a lone surrogate.
\<close>

definition json_unit_bytes :: "nat \<Rightarrow> nat" where
  "json_unit_bytes u =
     (if u = 34 \<or> u = 92 \<or> u = 8 \<or> u = 9 \<or> u = 10 \<or> u = 12 \<or> u = 13 then 2
      else if u < 32 \<or> hi_surrogate u \<or> lo_surrogate u then 6
      else unit_bytes u)"

fun json_len :: "jstext \<Rightarrow> nat" where
  "json_len [] = 0"
| "json_len [u] = json_unit_bytes u"
| "json_len (u # v # us) =
     (if hi_surrogate u \<and> lo_surrogate v then 4 + json_len us
      else json_unit_bytes u + json_len (v # us))"

lemma unit_bytes_pos: "0 < unit_bytes u" "unit_bytes u \<le> 3"
  by (simp_all add: unit_bytes_def)

lemma utf8_len_append_le: "utf8_len (us @ vs) \<le> utf8_len us + utf8_len vs"
proof (induction us rule: utf8_len.induct)
  case (2 u)
  have "unit_bytes u = 3" if "hi_surrogate u" using that by (simp add: hi_surrogate_def unit_bytes_def)
  moreover have "2 \<le> unit_bytes w" if "lo_surrogate w" for w
    using that by (simp add: lo_surrogate_def unit_bytes_def)
  ultimately show ?case
  proof (cases vs)
    case (Cons w ws)
    show ?thesis
    proof (cases "hi_surrogate u \<and> lo_surrogate w")
      case True
      then have "unit_bytes u = 3" "unit_bytes w = 3"
        by (simp_all add: hi_surrogate_def lo_surrogate_def unit_bytes_def)
      moreover have "utf8_len ws + 1 \<le> utf8_len (w # ws)"
        using True calculation by (cases ws) (auto simp: lo_surrogate_def hi_surrogate_def)
      ultimately show ?thesis using Cons True by simp
    qed (use Cons in auto)
  qed simp
qed auto

lemma length_le_utf8_len: "length us \<le> utf8_len us"
proof (induction us rule: utf8_len.induct)
  case (2 u)
  then show ?case using unit_bytes_pos(1) [of u] by simp
next
  case (3 u v us)
  then show ?case using unit_bytes_pos(1) [of u] by auto
qed simp

lemma json_unit_bytes_le: "json_unit_bytes u \<le> 6"
  by (simp add: json_unit_bytes_def unit_bytes_def)

lemma json_len_le: "json_len us \<le> 6 * length us"
proof (induction us rule: json_len.induct)
  case (2 u)
  then show ?case using json_unit_bytes_le [of u] by simp
next
  case (3 u v us)
  then show ?case using json_unit_bytes_le [of u] by auto
qed simp

section \<open>Truncation\<close>

text \<open>The while loop of truncateUtf8, counting end down.\<close>

fun trunc_end :: "jstext \<Rightarrow> nat \<Rightarrow> nat \<Rightarrow> nat" where
  "trunc_end v maxBytes 0 = 0"
| "trunc_end v maxBytes (Suc e) =
     (if utf8_len (take (Suc e) v) + 3 > maxBytes then trunc_end v maxBytes e else Suc e)"

definition dots :: jstext where "dots = [46, 46, 46]"

definition truncateUtf8 :: "jstext \<Rightarrow> nat \<Rightarrow> jstext" where
  "truncateUtf8 v maxBytes =
     (if utf8_len v \<le> maxBytes then v else take (trunc_end v maxBytes (length v)) v @ dots)"

lemma trunc_end_fits: "3 \<le> maxBytes \<Longrightarrow> utf8_len (take (trunc_end v maxBytes e) v) + 3 \<le> maxBytes"
  by (induction e) auto

lemma truncateUtf8_fits: "3 \<le> maxBytes \<Longrightarrow> utf8_len (truncateUtf8 v maxBytes) \<le> maxBytes"
proof -
  assume "3 \<le> maxBytes"
  moreover have "utf8_len dots = 3"
    by (simp add: dots_def unit_bytes_def hi_surrogate_def)
  ultimately show ?thesis
    using trunc_end_fits [of maxBytes v "length v"]
      utf8_len_append_le [of "take (trunc_end v maxBytes (length v)) v" dots]
    by (simp add: truncateUtf8_def)
qed

section \<open>White space\<close>

definition is_ws :: "nat \<Rightarrow> bool" where
  "is_ws u \<longleftrightarrow> (9 \<le> u \<and> u \<le> 13) \<or> u = 32 \<or> u = 160 \<or> u = 5760 \<or> (8192 \<le> u \<and> u \<le> 8202)
     \<or> u = 8232 \<or> u = 8233 \<or> u = 8239 \<or> u = 8287 \<or> u = 12288 \<or> u = 65279"

definition is_break :: "nat \<Rightarrow> bool" where
  "is_break u \<longleftrightarrow> u = 13 \<or> u = 10 \<or> u = 9"

text \<open>A global replacement of one-or-more, and of two-or-more, by a space.\<close>

function replace_runs :: "(nat \<Rightarrow> bool) \<Rightarrow> jstext \<Rightarrow> jstext" where
  "replace_runs P [] = []"
| "replace_runs P (u # us) =
     (if P u then 32 # replace_runs P (dropWhile P us) else u # replace_runs P us)"
  by pat_completeness auto
termination
  by (relation "measure (\<lambda>(P, us). length us)") (auto simp: le_imp_less_Suc length_dropWhile_le)

function replace_long_runs :: "(nat \<Rightarrow> bool) \<Rightarrow> jstext \<Rightarrow> jstext" where
  "replace_long_runs P [] = []"
| "replace_long_runs P (u # us) =
     (if P u \<and> (case us of [] \<Rightarrow> False | v # _ \<Rightarrow> P v)
      then 32 # replace_long_runs P (dropWhile P us) else u # replace_long_runs P us)"
  by pat_completeness auto
termination
  by (relation "measure (\<lambda>(P, us). length us)") (auto simp: le_imp_less_Suc length_dropWhile_le)

definition js_trim :: "jstext \<Rightarrow> jstext" where
  "js_trim v = rev (dropWhile is_ws (rev (dropWhile is_ws v)))"

text \<open>Text no further pass changes: no breaks, no two adjacent blanks, none at the ends.\<close>

definition spaced :: "jstext \<Rightarrow> bool" where
  "spaced v \<longleftrightarrow> successively (\<lambda>a b. \<not> (is_ws a \<and> is_ws b)) v"

definition normal_text :: "jstext \<Rightarrow> bool" where
  "normal_text v \<longleftrightarrow> (\<forall>u\<in>set v. \<not> is_break u) \<and> spaced v
     \<and> (v \<noteq> [] \<longrightarrow> \<not> is_ws (hd v) \<and> \<not> is_ws (last v))"

lemma replace_runs_none: "u \<in> set (replace_runs P us) \<Longrightarrow> \<not> P 32 \<Longrightarrow> \<not> P u"
  by (induction P us rule: replace_runs.induct) (auto split: if_splits)

lemma replace_runs_id: "\<forall>u\<in>set us. \<not> P u \<Longrightarrow> replace_runs P us = us"
  by (induction P us rule: replace_runs.induct) auto

lemma replace_long_runs_set: "set (replace_long_runs P us) \<subseteq> insert 32 (set us)"
  by (induction P us rule: replace_long_runs.induct) (auto dest: set_dropWhileD)

lemma replace_long_runs_hd:
  "replace_long_runs P us = v # vs \<Longrightarrow> P v \<Longrightarrow> us \<noteq> [] \<and> P (hd us)"
  by (induction P us rule: replace_long_runs.induct) (auto split: if_splits)

lemma hd_dropWhile_ws: "dropWhile P us = v # vs \<Longrightarrow> \<not> P v"
  by (metis hd_dropWhile list.distinct(1) list.sel(1))

lemma replace_long_runs_spaced: "spaced (replace_long_runs is_ws us)"
proof (induction is_ws us rule: replace_long_runs.induct)
  case (2 u us)
  show ?case
  proof (cases "is_ws u \<and> (case us of [] \<Rightarrow> False | v # _ \<Rightarrow> is_ws v)")
    case True
    have "\<not> is_ws v" if "replace_long_runs is_ws (dropWhile is_ws us) = v # vs" for v vs
      using replace_long_runs_hd [OF that] hd_dropWhile_ws [of is_ws us]
      by (cases "dropWhile is_ws us") auto
    then show ?thesis
      using 2(1) [OF True] True
      by (cases "replace_long_runs is_ws (dropWhile is_ws us)") (auto simp: spaced_def)
  next
    case False
    have "\<not> (is_ws u \<and> is_ws v)" if "replace_long_runs is_ws us = v # vs" for v vs
      using replace_long_runs_hd [OF that] False by (cases us) auto
    then show ?thesis
      using 2(2) [OF False] False
      by (cases "replace_long_runs is_ws us") (auto simp: spaced_def simp del: replace_long_runs.simps(1))
  qed
qed (simp add: spaced_def)

lemma replace_long_runs_id: "spaced us \<Longrightarrow> replace_long_runs is_ws us = us"
proof (induction us)
  case (Cons u us)
  then show ?case by (cases us) (auto simp: spaced_def)
qed simp

lemma spaced_append1: "spaced (us @ vs) \<Longrightarrow> spaced us"
  by (simp add: spaced_def successively_append_iff)

lemma spaced_append2: "spaced (us @ vs) \<Longrightarrow> spaced vs"
  by (simp add: spaced_def successively_append_iff)

lemma js_trim_split: "\<exists>us ws. v = us @ js_trim v @ ws"
proof -
  have "v = takeWhile is_ws v @ dropWhile is_ws v" by simp
  moreover have "dropWhile is_ws v = js_trim v @ rev (takeWhile is_ws (rev (dropWhile is_ws v)))"
    unfolding js_trim_def by (metis rev_append rev_rev_ident takeWhile_dropWhile_id)
  ultimately show ?thesis by metis
qed

lemma js_trim_ends:
  assumes "js_trim v \<noteq> []"
  shows "\<not> is_ws (hd (js_trim v))" and "\<not> is_ws (last (js_trim v))"
proof -
  let ?d = "dropWhile is_ws v"
  have "?d = js_trim v @ rev (takeWhile is_ws (rev ?d))"
    unfolding js_trim_def by (metis rev_append rev_rev_ident takeWhile_dropWhile_id)
  then have "hd (js_trim v) = hd ?d" "?d \<noteq> []" using assms by (metis hd_append2, metis append_is_Nil_conv)
  then show "\<not> is_ws (hd (js_trim v))" using hd_dropWhile by metis
  show "\<not> is_ws (last (js_trim v))"
    using assms hd_dropWhile [of is_ws "rev ?d"] by (simp add: js_trim_def last_rev)
qed

lemma js_trim_id: "v \<noteq> [] \<longrightarrow> \<not> is_ws (hd v) \<and> \<not> is_ws (last v) \<Longrightarrow> js_trim v = v"
proof -
  assume ends: "v \<noteq> [] \<longrightarrow> \<not> is_ws (hd v) \<and> \<not> is_ws (last v)"
  then have "dropWhile is_ws v = v" by (cases v) auto
  moreover have "dropWhile is_ws (rev v) = rev v" using ends by (cases v rule: rev_cases) auto
  ultimately show ?thesis by (simp add: js_trim_def)
qed

definition normalize_text :: "jstext \<Rightarrow> jstext" where
  "normalize_text v = js_trim (replace_long_runs is_ws (replace_runs is_break v))"

lemma normalize_text_normal: "normal_text (normalize_text v)"
proof -
  let ?a = "replace_runs is_break v" and ?b = "replace_long_runs is_ws (replace_runs is_break v)"
  obtain us ws where sp: "?b = us @ normalize_text v @ ws"
    using js_trim_split [of ?b] by (auto simp: normalize_text_def)
  have "\<forall>u\<in>set ?a. \<not> is_break u" by (auto dest: replace_runs_none simp: is_break_def)
  then have "\<forall>u\<in>set ?b. \<not> is_break u"
    using replace_long_runs_set [of is_ws ?a] by (auto simp: is_break_def)
  then have "\<forall>u\<in>set (normalize_text v). \<not> is_break u" by (simp add: sp)
  moreover have "spaced (normalize_text v)"
    using replace_long_runs_spaced [of ?a] sp by (metis spaced_append1 spaced_append2)
  ultimately show ?thesis
    using js_trim_ends [of ?b] by (simp add: normal_text_def normalize_text_def)
qed

lemma normalize_text_id: "normal_text v \<Longrightarrow> normalize_text v = v"
  by (simp add: normal_text_def normalize_text_def replace_runs_id replace_long_runs_id js_trim_id)

lemma truncate_normal:
  assumes "normal_text v" and "v \<noteq> []"
  shows "normal_text (truncateUtf8 v m) \<and> truncateUtf8 v m \<noteq> []"
proof (cases "utf8_len v \<le> m")
  case False
  let ?p = "take (trunc_end v m (length v)) v"
  have "spaced ?p" using assms(1) spaced_append1 [of ?p "drop (trunc_end v m (length v)) v"]
    by (simp add: normal_text_def)
  then have "spaced (?p @ dots)"
    by (auto simp: spaced_def dots_def successively_append_iff is_ws_def)
  moreover have "\<forall>u\<in>set (?p @ dots). \<not> is_break u"
    using assms(1) by (auto simp: normal_text_def dots_def is_break_def dest: in_set_takeD)
  moreover have "\<not> is_ws (hd (?p @ dots))"
    using assms by (cases "trunc_end v m (length v)")
      (auto simp: normal_text_def dots_def is_ws_def hd_append)
  ultimately show ?thesis using False
    by (simp add: truncateUtf8_def normal_text_def dots_def is_ws_def)
qed (use assms in \<open>simp add: truncateUtf8_def\<close>)

section \<open>JSON values\<close>

text \<open>What JSON.parse returns: objects keep their members as an association list.\<close>

datatype json =
    JNull
  | JBool bool
  | JNum rat
  | JStr jstext
  | JArr "json list"
  | JObj "(string \<times> json) list"

fun jfield :: "json \<Rightarrow> string \<Rightarrow> json option" where
  "jfield (JObj ms) k = map_of ms k"
| "jfield _ k = None"

fun is_jobj :: "json \<Rightarrow> bool" where
  "is_jobj (JObj ms) = True"
| "is_jobj _ = False"

definition jstring_or_empty :: "json option \<Rightarrow> jstext" where
  "jstring_or_empty j = (case j of Some (JStr s) \<Rightarrow> s | _ \<Rightarrow> [])"

definition field_is :: "json \<Rightarrow> string \<Rightarrow> string \<Rightarrow> bool" where
  "field_is j k s = (jfield j k = Some (JStr (lit s)))"

definition jarray_or_empty :: "json option \<Rightarrow> json list" where
  "jarray_or_empty j = (case j of Some (JArr xs) \<Rightarrow> xs | _ \<Rightarrow> [])"

definition jobj_or_null :: "json option \<Rightarrow> json option" where
  "jobj_or_null j = (case j of Some (JObj ms) \<Rightarrow> Some (JObj ms) | _ \<Rightarrow> None)"

fun text_includes :: "jstext \<Rightarrow> jstext \<Rightarrow> bool" where
  "text_includes [] needle = (needle = [])"
| "text_includes (u # us) needle = (take (length needle) (u # us) = needle \<or> text_includes us needle)"

definition ascii_lower :: "jstext \<Rightarrow> jstext" where
  "ascii_lower = map (\<lambda>u. if 65 \<le> u \<and> u \<le> 90 then u + 32 else u)"

section \<open>Whole words\<close>

text \<open>
  The regular expression test for one of some words between word boundaries (an ASCII letter, digit
  or underscore on one side only).
\<close>

definition word_unit :: "nat \<Rightarrow> bool" where
  "word_unit u \<longleftrightarrow> (48 \<le> u \<and> u \<le> 57) \<or> (65 \<le> u \<and> u \<le> 90) \<or> (97 \<le> u \<and> u \<le> 122) \<or> u = 95"

definition word_starts :: "jstext \<Rightarrow> jstext \<Rightarrow> bool" where
  "word_starts v w \<longleftrightarrow> prefix w v \<and> (case drop (length w) v of [] \<Rightarrow> True | u # _ \<Rightarrow> \<not> word_unit u)"

fun word_from :: "jstext list \<Rightarrow> bool \<Rightarrow> jstext \<Rightarrow> bool" where
  "word_from ws inside [] = False"
| "word_from ws inside (u # us) =
     ((\<not> inside \<and> list_ex (word_starts (u # us)) ws) \<or> word_from ws (word_unit u) us)"

definition has_word :: "jstext list \<Rightarrow> jstext \<Rightarrow> bool" where
  "has_word ws v = word_from ws False v"

section \<open>Lines\<close>

text \<open>split("\\n") and join.\<close>

fun text_lines :: "jstext \<Rightarrow> jstext list" where
  "text_lines [] = [[]]"
| "text_lines (u # us) =
     (if u = 10 then [] # text_lines us
      else (case text_lines us of [] \<Rightarrow> [[u]] | l # ls \<Rightarrow> (u # l) # ls))"

fun join_text :: "jstext \<Rightarrow> jstext list \<Rightarrow> jstext" where
  "join_text sep [] = []"
| "join_text sep [t] = t"
| "join_text sep (t # ts) = t @ sep @ join_text sep ts"

lemma text_lines_ne [simp]: "text_lines v \<noteq> []"
  by (induction v) (auto split: list.splits)

lemma text_lines_append: "text_lines (v @ 10 # w) = text_lines v @ text_lines w"
  by (induction v) (auto split: list.splits simp: text_lines_ne)

lemma text_lines_line: "10 \<notin> set v \<Longrightarrow> text_lines v = [v]"
  by (induction v) auto

lemma text_lines_no_break: "l \<in> set (text_lines v) \<Longrightarrow> 10 \<notin> set l"
  by (induction v arbitrary: l) (auto split: if_splits list.splits)

lemma join_text_Cons: "join_text sep (t # ts) = (if ts = [] then t else t @ sep @ join_text sep ts)"
  by (cases ts) simp_all

lemma join_text_lines: "join_text [10] (text_lines v) = v"
  by (induction v) (auto simp: join_text_Cons split: list.splits)

lemma text_lines_join:
  "ls \<noteq> [] \<Longrightarrow> \<forall>l\<in>set ls. 10 \<notin> set l \<Longrightarrow> text_lines (join_text [10] ls) = ls"
  by (induction ls) (auto simp: join_text_Cons text_lines_append text_lines_line)

lemma join_text_append:
  "xs \<noteq> [] \<Longrightarrow> ys \<noteq> [] \<Longrightarrow> join_text sep (xs @ ys) = join_text sep xs @ sep @ join_text sep ys"
  by (induction xs) (auto simp: join_text_Cons)

end
