(* ===== verification/Progress.thy ===== *)
theory Progress
  imports Text
begin

text \<open>
  Bounded durable progress of a job (src/src/job-progress.ts): the event ring of
  JobProgressTracker with coalescing, sequence numbers and pruning, the per-provider signals read
  from structured output, cursor paging, and the stored projection with its validation.

  Timestamps are the millisecond instants their ISO strings denote. JSON.parse and the incremental
  UTF-8 decoder are outside the model: ingest takes the decoded text of a chunk and a parser for
  lines, parseStoredJobProgress takes what JSON.parse and Date.parse made of the stored fields.
\<close>

section \<open>Data\<close>

datatype phase = PQueued | PStarting | PThinking | PTool | PWriting | PCompleted | PFailed

datatype kind = KLifecycle | KReasoning | KToolStart | KToolError | KOutput | KTerminal | KActivity

datatype capability = CapStructured | CapActivityOnly | CapLifecycleOnly

datatype origin = FromGateway | FromProvider

record progress_event =
  ev_seq :: nat
  ev_ts :: time
  ev_phase :: phase
  ev_kind :: kind
  ev_message :: jstext
  ev_source :: origin

record stored_progress =
  sp_capability :: capability
  sp_lastActivityAt :: time
  sp_lastSeq :: nat
  sp_droppedCount :: nat
  sp_events :: "progress_event list"

record progress_snapshot =
  ps_capability :: capability
  ps_lastActivityAt :: time
  ps_lastSeq :: nat
  ps_highWaterSeq :: nat
  ps_nextAfterSeq :: nat
  ps_hasMore :: bool
  ps_droppedCount :: nat
  ps_events :: "progress_event list"

record tracker =
  tr_provider :: provider
  tr_capability :: capability
  tr_carry :: jstext
  tr_events :: "progress_event list"
  tr_lastSeq :: nat
  tr_droppedCount :: nat
  tr_lastActivityAt :: time

definition MAX_EVENT_MESSAGE_BYTES :: nat where "MAX_EVENT_MESSAGE_BYTES = 512"
definition MAX_EVENTS :: nat where "MAX_EVENTS = 64"
definition MAX_EVENTS_BYTES :: nat where "MAX_EVENTS_BYTES = 32 * 1024"
definition MAX_STORED_PROGRESS_BYTES :: nat where
  "MAX_STORED_PROGRESS_BYTES = MAX_EVENTS_BYTES + 8 * 1024"
definition MAX_PARTIAL_LINE_BYTES :: nat where "MAX_PARTIAL_LINE_BYTES = 64 * 1024"
definition COALESCE_WINDOW_MS :: int where "COALESCE_WINDOW_MS = 1000"

definition phase_name :: "phase \<Rightarrow> string" where
  "phase_name p = (case p of PQueued \<Rightarrow> ''queued'' | PStarting \<Rightarrow> ''starting''
     | PThinking \<Rightarrow> ''thinking'' | PTool \<Rightarrow> ''tool'' | PWriting \<Rightarrow> ''writing''
     | PCompleted \<Rightarrow> ''completed'' | PFailed \<Rightarrow> ''failed'')"

definition kind_name :: "kind \<Rightarrow> string" where
  "kind_name k = (case k of KLifecycle \<Rightarrow> ''lifecycle'' | KReasoning \<Rightarrow> ''reasoning''
     | KToolStart \<Rightarrow> ''tool_start'' | KToolError \<Rightarrow> ''tool_error'' | KOutput \<Rightarrow> ''output''
     | KTerminal \<Rightarrow> ''terminal'' | KActivity \<Rightarrow> ''activity'')"

definition capability_name :: "capability \<Rightarrow> string" where
  "capability_name c = (case c of CapStructured \<Rightarrow> ''structured''
     | CapActivityOnly \<Rightarrow> ''activity_only'' | CapLifecycleOnly \<Rightarrow> ''lifecycle_only'')"

definition origin_name :: "origin \<Rightarrow> string" where
  "origin_name s = (case s of FromGateway \<Rightarrow> ''gateway'' | FromProvider \<Rightarrow> ''provider'')"

section \<open>Messages and their size\<close>

definition safeMessage :: "jstext \<Rightarrow> jstext" where
  "safeMessage v =
     (let n = normalize_text v in
      truncateUtf8 (if n = [] then lit ''Provider activity'' else n) MAX_EVENT_MESSAGE_BYTES)"

definition projectEventMessage :: "kind \<Rightarrow> origin \<Rightarrow> jstext \<Rightarrow> jstext" where
  "projectEventMessage k src v =
     (if src = FromProvider \<and> k = KToolStart then lit ''Using a provider tool'' else safeMessage v)"

fun decimal_digits :: "nat \<Rightarrow> nat" where
  "decimal_digits n = (if n < 10 then 1 else Suc (decimal_digits (n div 10)))"

declare decimal_digits.simps [simp del]

text \<open>
  The bytes of JSON.stringify of an event: the punctuation and the six keys (62), the 24 characters
  of an ISO instant, the number, the three names and the escaped message.
\<close>

definition eventBytes :: "progress_event \<Rightarrow> nat" where
  "eventBytes e = 62 + 24 + decimal_digits (ev_seq e) + length (phase_name (ev_phase e))
     + length (kind_name (ev_kind e)) + length (origin_name (ev_source e)) + json_len (ev_message e)"

definition events_bytes :: "progress_event list \<Rightarrow> nat" where
  "events_bytes es = sum_list (map eventBytes es)"

section \<open>Provider signals\<close>

record signal =
  sg_phase :: phase
  sg_kind :: kind
  sg_message :: string

definition sig :: "phase \<Rightarrow> kind \<Rightarrow> string \<Rightarrow> signal option" where
  "sig p k m = Some \<lparr>sg_phase = p, sg_kind = k, sg_message = m\<rparr>"

text \<open>The for loop over the content blocks of an assistant event.\<close>

fun claude_blocks :: "json list \<Rightarrow> signal option" where
  "claude_blocks [] = None"
| "claude_blocks (b # bs) =
     (if \<not> is_jobj b then claude_blocks bs
      else if field_is b ''type'' ''tool_use'' then sig PTool KToolStart ''Using a provider tool''
      else if field_is b ''type'' ''thinking''
      then sig PThinking KReasoning ''Provider reasoning activity''
      else if field_is b ''type'' ''text'' then sig PWriting KOutput ''Provider is writing output''
      else claude_blocks bs)"

definition claudeSignal :: "json \<Rightarrow> signal option" where
  "claudeSignal e =
     (let ty = jstring_or_empty (jfield e ''type'') in
      if ty = lit ''system'' then sig PStarting KLifecycle ''Provider session initialized''
      else
        (let content = (case jobj_or_null (jfield e ''message'') of
               None \<Rightarrow> [] | Some m \<Rightarrow> jarray_or_empty (jfield m ''content''));
             found = (if ty = lit ''assistant'' then claude_blocks content else None) in
         case found of
           Some s \<Rightarrow> Some s
         | None \<Rightarrow>
             if ty = lit ''result'' then sig PWriting KOutput ''Provider produced a result''
             else None))"

definition codexSignal :: "json \<Rightarrow> signal option" where
  "codexSignal e =
     (let ty = jstring_or_empty (jfield e ''type'') in
      if ty = lit ''thread.started'' \<or> ty = lit ''turn.started''
      then sig PStarting KLifecycle ''Provider turn started''
      else if ty = lit ''turn.failed'' \<or> ty = lit ''error''
      then sig PTool KToolError ''Provider reported an error''
      else if ty = lit ''turn.completed''
      then sig PWriting KOutput ''Provider turn produced output''
      else if ty = lit ''item.started'' \<or> ty = lit ''item.completed'' \<or> ty = lit ''item.updated''
      then
        (let item = jobj_or_null (jfield e ''item'');
             itemType = (case item of None \<Rightarrow> [] | Some i \<Rightarrow> jstring_or_empty (jfield i ''type'')) in
         if itemType \<in> {lit ''command_execution'', lit ''mcp_tool_call'', lit ''file_change''} then
           (if ty = lit ''item.completed'' then
              (case item of
                 Some i \<Rightarrow> if field_is i ''status'' ''failed''
                   then sig PTool KToolError ''Provider tool reported an error'' else None
               | None \<Rightarrow> None)
            else if ty = lit ''item.updated'' then None
            else sig PTool KToolStart ''Using a provider tool'')
         else if itemType \<in> {lit ''reasoning'', lit ''analysis''}
         then sig PThinking KReasoning ''Provider reasoning activity''
         else if itemType = lit ''agent_message''
         then sig PWriting KOutput ''Provider is writing output''
         else None)
      else None)"

text \<open>The nullish fallback treats a JSON null like a missing member.\<close>

definition grokSignal :: "json \<Rightarrow> signal option" where
  "grokSignal e =
     (let rawType = (case jfield e ''type'' of
            None \<Rightarrow> jfield e ''event'' | Some JNull \<Rightarrow> jfield e ''event'' | Some v \<Rightarrow> Some v);
          ty = ascii_lower (jstring_or_empty rawType) in
      if text_includes ty (lit ''error'') then sig PTool KToolError ''Provider reported an error''
      else if text_includes ty (lit ''tool'') then sig PTool KToolStart ''Using a provider tool''
      else if text_includes ty (lit ''thought'') \<or> text_includes ty (lit ''reason'')
      then sig PThinking KReasoning ''Provider reasoning activity''
      else if text_includes ty (lit ''text'') \<or> text_includes ty (lit ''content'') \<or> text_includes ty (lit ''result'')
      then sig PWriting KOutput ''Provider is writing output''
      else None)"

definition geminiSignal :: "json \<Rightarrow> signal option" where
  "geminiSignal e =
     (let ty = (case jfield e ''type'' of Some (JStr s) \<Rightarrow> Some (JStr s) | _ \<Rightarrow> jfield e ''event'') in
      if ty = Some (JStr (lit ''init''))
      then sig PStarting KLifecycle ''Provider session initialized''
      else if ty = Some (JStr (lit ''step_update'')) then
        (case jobj_or_null (jfield e ''step_update'') of
           Some u \<Rightarrow> if field_is u ''step_type'' ''tool''
             then sig PTool KToolStart ''Using a provider tool''
             else sig PThinking KReasoning ''Provider reasoning activity''
         | None \<Rightarrow> sig PThinking KReasoning ''Provider reasoning activity'')
      else if ty = Some (JStr (lit ''message'')) then
        (if field_is e ''role'' ''assistant''
         then sig PWriting KOutput ''Provider is writing output'' else None)
      else if ty = Some (JStr (lit ''result''))
      then sig PWriting KOutput ''Provider produced a result''
      else None)"

definition mistralSignal :: "json \<Rightarrow> signal option" where
  "mistralSignal e =
     (let ty = jstring_or_empty (jfield e ''type'') in
      if ty = lit ''reasoning'' then sig PThinking KReasoning ''Provider reasoning activity''
      else if ty = lit ''effect'' then sig PTool KToolStart ''Using a provider tool''
      else if ty = lit ''message'' \<and> field_is e ''role'' ''assistant''
      then sig PWriting KOutput ''Provider is writing output''
      else None)"

definition cursorSignal :: "json \<Rightarrow> signal option" where
  "cursorSignal e =
     (let ty = jstring_or_empty (jfield e ''type'') in
      if ty = lit ''system'' \<and> field_is e ''subtype'' ''init''
      then sig PStarting KLifecycle ''Provider session initialized''
      else if ty = lit ''thinking'' then sig PThinking KReasoning ''Provider reasoning activity''
      else if ty = lit ''tool_call'' then
        (if field_is e ''subtype'' ''completed'' then None
         else sig PTool KToolStart ''Using a provider tool'')
      else if ty = lit ''assistant'' \<or> ty = lit ''result''
      then sig PWriting KOutput ''Provider is writing output''
      else None)"

definition structuredSignal :: "(jstext \<Rightarrow> json option) \<Rightarrow> provider \<Rightarrow> jstext \<Rightarrow> signal option" where
  "structuredSignal json_parse p line =
     (case json_parse line of
        None \<Rightarrow> None
      | Some v \<Rightarrow>
          if \<not> is_jobj v then None
          else if p = ''claude'' then claudeSignal v
          else if p = ''codex'' then codexSignal v
          else if p = ''gemini'' then geminiSignal v
          else if p = ''grok'' then grokSignal v
          else if p = ''mistral'' then mistralSignal v
          else if p = ''cursor'' then cursorSignal v
          else None)"

definition structuredCapability :: "provider \<Rightarrow> string option \<Rightarrow> bool" where
  "structuredCapability p fmt =
     ((p = ''claude'' \<and> fmt = Some ''stream-json'') \<or>
      (p = ''codex'' \<and> fmt = Some ''json'') \<or>
      (p = ''gemini'' \<and> fmt = Some ''stream-json'') \<or>
      (p = ''grok'' \<and> fmt = Some ''streaming-json'') \<or>
      (p = ''mistral'' \<and> fmt = Some ''streaming'') \<or>
      (p = ''cursor'' \<and> fmt = Some ''stream-json''))"

section \<open>The tracker\<close>

definition new_tracker ::
    "provider \<Rightarrow> string option \<Rightarrow> stored_progress option \<Rightarrow> time \<Rightarrow> capability option \<Rightarrow> tracker" where
  "new_tracker p fmt stored startedAt override =
     \<lparr>tr_provider = p,
      tr_capability = (case stored of
         Some s \<Rightarrow> sp_capability s
       | None \<Rightarrow> nullish override
           (if structuredCapability p fmt then CapStructured else CapActivityOnly)),
      tr_carry = [],
      tr_events = (case stored of Some s \<Rightarrow> sp_events s | None \<Rightarrow> []),
      tr_lastSeq = (case stored of Some s \<Rightarrow> sp_lastSeq s | None \<Rightarrow> 0),
      tr_droppedCount = (case stored of Some s \<Rightarrow> sp_droppedCount s | None \<Rightarrow> 0),
      tr_lastActivityAt = (case stored of Some s \<Rightarrow> sp_lastActivityAt s | None \<Rightarrow> startedAt)\<rparr>"

fun prune :: "progress_event list \<Rightarrow> nat \<Rightarrow> progress_event list \<times> nat" where
  "prune [] dropped = ([], dropped)"
| "prune (e # es) dropped =
     (if length (e # es) > MAX_EVENTS \<or> events_bytes (e # es) > MAX_EVENTS_BYTES
      then prune es (dropped + 1) else (e # es, dropped))"

definition coalesces :: "progress_event list \<Rightarrow> phase \<Rightarrow> kind \<Rightarrow> origin \<Rightarrow> time \<Rightarrow> bool" where
  "coalesces es p k src now =
     ((k = KActivity \<or> k = KOutput \<or> k = KReasoning) \<and> es \<noteq> [] \<and>
      ev_kind (last es) = k \<and> ev_phase (last es) = p \<and> ev_source (last es) = src \<and>
      now - ev_ts (last es) < COALESCE_WINDOW_MS)"

definition emit ::
    "phase \<Rightarrow> kind \<Rightarrow> jstext \<Rightarrow> origin \<Rightarrow> time \<Rightarrow> tracker \<Rightarrow> progress_event \<times> tracker" where
  "emit p k msg src now t =
     (let t1 = t\<lparr>tr_lastActivityAt := now\<rparr> in
      if coalesces (tr_events t1) p k src now then (last (tr_events t1), t1)
      else
        (let e = \<lparr>ev_seq = tr_lastSeq t1 + 1, ev_ts = now, ev_phase = p, ev_kind = k,
                  ev_message = projectEventMessage k src msg, ev_source = src\<rparr>;
             (es, dropped) = prune (tr_events t1 @ [e]) (tr_droppedCount t1) in
         (e, t1\<lparr>tr_lastSeq := tr_lastSeq t1 + 1, tr_events := es, tr_droppedCount := dropped\<rparr>)))"

text \<open>split on newlines, with the part after the last one as the new carry.\<close>

fun split_lines :: "jstext \<Rightarrow> jstext \<Rightarrow> jstext list \<times> jstext" where
  "split_lines acc [] = ([], rev acc)"
| "split_lines acc (u # us) =
     (if u = 10 then (let (ls, c) = split_lines [] us in (rev acc # ls, c))
      else split_lines (u # acc) us)"

definition provider_active :: "time \<Rightarrow> tracker \<Rightarrow> tracker" where
  "provider_active now t =
     snd (emit PThinking KActivity (lit ''Provider process is active'') FromProvider now t)"

fun ingest_lines ::
    "(jstext \<Rightarrow> json option) \<Rightarrow> time \<Rightarrow> jstext list \<Rightarrow> bool \<Rightarrow> tracker \<Rightarrow> bool \<times> tracker" where
  "ingest_lines json_parse now [] emitted t = (emitted, t)"
| "ingest_lines json_parse now (l # ls) emitted t =
     (case structuredSignal json_parse (tr_provider t) (js_trim l) of
        None \<Rightarrow> ingest_lines json_parse now ls emitted t
      | Some s \<Rightarrow> ingest_lines json_parse now ls True
          (snd (emit (sg_phase s) (sg_kind s) (lit (sg_message s)) FromProvider now t)))"

definition ingest ::
    "(jstext \<Rightarrow> json option) \<Rightarrow> bool \<Rightarrow> jstext \<Rightarrow> time \<Rightarrow> tracker \<Rightarrow> tracker" where
  "ingest json_parse is_stdout piece now t =
     (let t1 = t\<lparr>tr_lastActivityAt := now\<rparr> in
      if \<not> is_stdout \<or> tr_capability t1 \<noteq> CapStructured then provider_active now t1
      else
        (let carry = tr_carry t1 @ piece in
         if utf8_len carry > MAX_PARTIAL_LINE_BYTES
         then provider_active now (t1\<lparr>tr_carry := [], tr_droppedCount := tr_droppedCount t1 + 1\<rparr>)
         else
           (let (ls, rest) = split_lines [] carry;
                (emitted, t2) = ingest_lines json_parse now ls False (t1\<lparr>tr_carry := rest\<rparr>) in
            if emitted then t2 else provider_active now t2)))"

definition progress_page :: "tracker \<Rightarrow> int \<Rightarrow> int \<Rightarrow> progress_snapshot" where
  "progress_page t afterSeq limit =
     (let boundedLimit = nat (max 1 (min (int MAX_EVENTS) limit));
          cursor = nat (max 0 afterSeq);
          matching = filter (\<lambda>e. ev_seq e > cursor) (tr_events t);
          es = take boundedLimit matching in
      \<lparr>ps_capability = tr_capability t, ps_lastActivityAt = tr_lastActivityAt t,
       ps_lastSeq = tr_lastSeq t, ps_highWaterSeq = tr_lastSeq t,
       ps_nextAfterSeq = (if es = [] then cursor else ev_seq (last es)),
       ps_hasMore = (length matching > length es),
       ps_droppedCount = tr_droppedCount t, ps_events = es\<rparr>)"

definition serialize :: "tracker \<Rightarrow> stored_progress" where
  "serialize t =
     (let s = progress_page t 0 (int MAX_EVENTS) in
      \<lparr>sp_capability = ps_capability s, sp_lastActivityAt = ps_lastActivityAt s,
       sp_lastSeq = ps_lastSeq s, sp_droppedCount = ps_droppedCount s, sp_events = ps_events s\<rparr>)"

section \<open>The stored projection\<close>

text \<open>
  A stored value after JSON.parse: None where a member is absent or has another JSON type, and
  where Date.parse does not read a timestamp. raw_bytes is the byte length of the stored string.
\<close>

record raw_event =
  rw_seq :: "rat option"
  rw_ts :: "time option"
  rw_phase :: "string option"
  rw_kind :: "string option"
  rw_message :: "jstext option"
  rw_source :: "string option"

record raw_progress =
  raw_bytes :: nat
  raw_version :: "rat option"
  raw_capability :: "string option"
  raw_lastActivityAt :: "time option"
  raw_lastSeq :: "rat option"
  raw_droppedCount :: "rat option"
  raw_events :: "raw_event option list option"

definition whole_number :: "rat option \<Rightarrow> nat option" where
  "whole_number x = (case x of
     None \<Rightarrow> None
   | Some q \<Rightarrow> if of_int \<lfloor>q\<rfloor> = q \<and> q \<ge> 0 then Some (nat \<lfloor>q\<rfloor>) else None)"

definition find_name :: "('a \<Rightarrow> string) \<Rightarrow> 'a list \<Rightarrow> string option \<Rightarrow> 'a option" where
  "find_name name xs s = (case s of None \<Rightarrow> None | Some n \<Rightarrow> find (\<lambda>x. name x = n) xs)"

definition all_phases :: "phase list" where
  "all_phases = [PQueued, PStarting, PThinking, PTool, PWriting, PCompleted, PFailed]"

definition all_kinds :: "kind list" where
  "all_kinds = [KLifecycle, KReasoning, KToolStart, KToolError, KOutput, KTerminal, KActivity]"

definition isProgressEvent :: "raw_event option \<Rightarrow> progress_event option" where
  "isProgressEvent r =
     (case r of None \<Rightarrow> None | Some e \<Rightarrow>
      (case (whole_number (rw_seq e), rw_ts e, find_name phase_name all_phases (rw_phase e),
             find_name kind_name all_kinds (rw_kind e), rw_message e,
             find_name origin_name [FromGateway, FromProvider] (rw_source e)) of
         (Some s, Some ts, Some p, Some k, Some m, Some src) \<Rightarrow>
           if 0 < s \<and> 0 \<notin> set m \<and> utf8_len m \<le> MAX_EVENT_MESSAGE_BYTES
           then Some \<lparr>ev_seq = s, ev_ts = ts, ev_phase = p, ev_kind = k, ev_message = m,
                      ev_source = src\<rparr>
           else None
       | _ \<Rightarrow> None))"

text \<open>events.every(isProgressEvent), with the events read.\<close>

fun read_all_events :: "raw_event option list \<Rightarrow> progress_event list option" where
  "read_all_events [] = Some []"
| "read_all_events (r # rs) =
     (case isProgressEvent r of
        None \<Rightarrow> None
      | Some e \<Rightarrow> (case read_all_events rs of None \<Rightarrow> None | Some es \<Rightarrow> Some (e # es)))"

fun seq_increasing :: "progress_event list \<Rightarrow> bool" where
  "seq_increasing (e # f # es) = (ev_seq e < ev_seq f \<and> seq_increasing (f # es))"
| "seq_increasing _ = True"

definition parseStoredJobProgress :: "raw_progress option \<Rightarrow> stored_progress option" where
  "parseStoredJobProgress value =
     (case value of None \<Rightarrow> None | Some r \<Rightarrow>
      if raw_bytes r > MAX_STORED_PROGRESS_BYTES then None
      else if raw_version r \<noteq> Some 1 then None
      else
      (case (find_name capability_name [CapStructured, CapActivityOnly, CapLifecycleOnly]
               (raw_capability r),
             raw_lastActivityAt r, whole_number (raw_lastSeq r), whole_number (raw_droppedCount r),
             raw_events r) of
         (Some cap, Some act, Some lastSeq, Some dropped, Some raws) \<Rightarrow>
           if length raws > MAX_EVENTS then None
           else (case read_all_events raws of
                   None \<Rightarrow> None
                 | Some es \<Rightarrow>
                     if \<not> seq_increasing es
                       \<or> (if es = [] then 0 else ev_seq (last es)) > lastSeq
                       \<or> events_bytes es > MAX_EVENTS_BYTES then None
                     else Some \<lparr>sp_capability = cap, sp_lastActivityAt = act, sp_lastSeq = lastSeq,
                       sp_droppedCount = dropped,
                       sp_events = map (\<lambda>e. e\<lparr>ev_message :=
                          projectEventMessage (ev_kind e) (ev_source e) (ev_message e)\<rparr>) es\<rparr>)
       | _ \<Rightarrow> None))"

text \<open>What JSON.parse makes of the string serialize writes.\<close>

definition raw_of_event :: "progress_event \<Rightarrow> raw_event" where
  "raw_of_event e = \<lparr>rw_seq = Some (of_nat (ev_seq e)), rw_ts = Some (ev_ts e),
     rw_phase = Some (phase_name (ev_phase e)), rw_kind = Some (kind_name (ev_kind e)),
     rw_message = Some (ev_message e), rw_source = Some (origin_name (ev_source e))\<rparr>"

text \<open>Punctuation and keys of the stored object (88 bytes), one comma between two events.\<close>

definition stored_bytes :: "stored_progress \<Rightarrow> nat" where
  "stored_bytes s = 88 + 24 + length (capability_name (sp_capability s))
     + decimal_digits (sp_lastSeq s) + decimal_digits (sp_droppedCount s)
     + events_bytes (sp_events s) + (length (sp_events s) - 1)"

definition raw_of_stored :: "stored_progress \<Rightarrow> raw_progress" where
  "raw_of_stored s = \<lparr>raw_bytes = stored_bytes s, raw_version = Some 1,
     raw_capability = Some (capability_name (sp_capability s)),
     raw_lastActivityAt = Some (sp_lastActivityAt s),
     raw_lastSeq = Some (of_nat (sp_lastSeq s)), raw_droppedCount = Some (of_nat (sp_droppedCount s)),
     raw_events = Some (map (\<lambda>e. Some (raw_of_event e)) (sp_events s))\<rparr>"

section \<open>Messages\<close>

lemma safeMessage_fits: "utf8_len (safeMessage v) \<le> MAX_EVENT_MESSAGE_BYTES"
  unfolding safeMessage_def Let_def
  by (rule truncateUtf8_fits) (simp add: MAX_EVENT_MESSAGE_BYTES_def)

lemma tool_message_fits: "utf8_len (lit ''Using a provider tool'') \<le> MAX_EVENT_MESSAGE_BYTES"
  by (simp add: lit_def unit_bytes_def hi_surrogate_def MAX_EVENT_MESSAGE_BYTES_def)

lemma projected_fits: "utf8_len (projectEventMessage k src v) \<le> MAX_EVENT_MESSAGE_BYTES"
  by (simp add: projectEventMessage_def safeMessage_fits tool_message_fits)

lemma activity_normal: "normal_text (lit ''Provider activity'')"
  by (simp add: lit_def normal_text_def spaced_def is_break_def is_ws_def)

lemma safeMessage_normal: "normal_text (safeMessage v) \<and> safeMessage v \<noteq> []"
proof -
  let ?n = "if normalize_text v = [] then lit ''Provider activity'' else normalize_text v"
  have "normal_text ?n" using normalize_text_normal [of v] activity_normal by auto
  moreover have "?n \<noteq> []" by (simp add: lit_def)
  ultimately show ?thesis
    using truncate_normal [of ?n] unfolding safeMessage_def Let_def by blast
qed

lemma safeMessage_idem: "safeMessage (safeMessage v) = safeMessage v"
proof -
  have "normalize_text (safeMessage v) = safeMessage v" "safeMessage v \<noteq> []"
    using safeMessage_normal [of v] normalize_text_id by auto
  then show ?thesis
    using safeMessage_fits [of v]
    by (simp add: safeMessage_def [of "safeMessage v"] Let_def truncateUtf8_def)
qed

lemma projected_idem: "projectEventMessage k src (projectEventMessage k src v) = projectEventMessage k src v"
  by (simp add: projectEventMessage_def safeMessage_idem)

section \<open>Sizes\<close>

lemma decimal_digits_less: "n < 10 ^ k \<Longrightarrow> 0 < k \<Longrightarrow> decimal_digits n \<le> k"
proof (induction n arbitrary: k rule: decimal_digits.induct)
  case (1 n)
  show ?case
  proof (cases "n < 10")
    case True
    then show ?thesis using 1 by (simp add: decimal_digits.simps [of n])
  next
    case False
    then obtain j where j: "k = Suc j" "0 < j" using 1 by (cases k; cases "k - 1") auto
    then have "n div 10 < 10 ^ j" using 1(2) by (simp add: less_mult_imp_div_less mult.commute)
    then show ?thesis using 1(1) [OF False _ j(2)] False j by (simp add: decimal_digits.simps [of n])
  qed
qed

lemma name_lengths: "length (phase_name p) \<le> 9" "length (kind_name k) \<le> 10"
  "length (origin_name s) \<le> 8" "length (capability_name c) \<le> 14"
  by (simp_all add: phase_name_def kind_name_def origin_name_def capability_name_def
      split: phase.split kind.split origin.split capability.split)

lemma json_len_le_utf8: "json_len m \<le> 6 * utf8_len m"
  using json_len_le [of m] length_le_utf8_len [of m] by linarith

lemma eventBytes_bound:
  assumes "ev_seq e < 2 ^ 53" and "utf8_len (ev_message e) \<le> MAX_EVENT_MESSAGE_BYTES"
  shows "eventBytes e \<le> MAX_EVENTS_BYTES"
proof -
  have "ev_seq e < 10 ^ 16" using assms(1) by simp
  then have "decimal_digits (ev_seq e) \<le> 16" by (rule decimal_digits_less) simp
  moreover have "json_len (ev_message e) \<le> 3072"
    using json_len_le_utf8 [of "ev_message e"] assms(2) by (simp add: MAX_EVENT_MESSAGE_BYTES_def)
  moreover note name_lengths(1) [of "ev_phase e"] name_lengths(2) [of "ev_kind e"]
    name_lengths(3) [of "ev_source e"]
  ultimately show ?thesis unfolding eventBytes_def MAX_EVENTS_BYTES_def by linarith
qed

lemma events_bytes_Cons: "events_bytes (e # es) = eventBytes e + events_bytes es"
  by (simp add: events_bytes_def)

definition within_limits :: "progress_event list \<Rightarrow> bool" where
  "within_limits es \<longleftrightarrow> length es \<le> MAX_EVENTS \<and> events_bytes es \<le> MAX_EVENTS_BYTES"

lemma prune_drop:
  "\<exists>n. n \<le> length es \<and> prune es d = (drop n es, d + n) \<and> within_limits (drop n es)
     \<and> (0 < n \<longrightarrow> \<not> within_limits (drop (n - 1) es))"
proof (induction es arbitrary: d)
  case Nil
  then show ?case by (simp add: within_limits_def events_bytes_def)
next
  case (Cons e es)
  show ?case
  proof (cases "within_limits (e # es)")
    case True
    then show ?thesis by (intro exI [of _ 0]) (simp add: within_limits_def)
  next
    case False
    obtain n where n: "n \<le> length es" "prune es (d + 1) = (drop n es, d + 1 + n)"
      "within_limits (drop n es)" "0 < n \<longrightarrow> \<not> within_limits (drop (n - 1) es)"
      using Cons [of "d + 1"] by blast
    have "prune (e # es) d = (drop (Suc n) (e # es), d + Suc n)"
      using False n(2) by (auto simp: within_limits_def)
    moreover have "\<not> within_limits (drop (Suc n - 1) (e # es))"
      using False n(4) by (cases n) auto
    ultimately show ?thesis using n(1,3) by (intro exI [of _ "Suc n"]) simp
  qed
qed

lemma within_limits_single:
  "ev_seq e < 2 ^ 53 \<Longrightarrow> utf8_len (ev_message e) \<le> MAX_EVENT_MESSAGE_BYTES \<Longrightarrow> within_limits [e]"
  using eventBytes_bound [of e] by (simp add: within_limits_def MAX_EVENTS_def events_bytes_def)

section \<open>The tracker invariant\<close>

definition message_ok :: "progress_event \<Rightarrow> bool" where
  "message_ok e \<longleftrightarrow> utf8_len (ev_message e) \<le> MAX_EVENT_MESSAGE_BYTES
     \<and> projectEventMessage (ev_kind e) (ev_source e) (ev_message e) = ev_message e"

definition ring_ok :: "nat \<Rightarrow> progress_event list \<Rightarrow> bool" where
  "ring_ok lastSeq es \<longleftrightarrow> within_limits es \<and> sorted_wrt (<) (map ev_seq es)
     \<and> (\<forall>e\<in>set es. 0 < ev_seq e \<and> ev_seq e \<le> lastSeq \<and> message_ok e)"

definition tracker_inv :: "tracker \<Rightarrow> bool" where
  "tracker_inv t \<longleftrightarrow> ring_ok (tr_lastSeq t) (tr_events t)"

definition stored_inv :: "stored_progress \<Rightarrow> bool" where
  "stored_inv s \<longleftrightarrow> ring_ok (sp_lastSeq s) (sp_events s)"

lemma tracker_inv_cong [simp]:
  "tracker_inv (t\<lparr>tr_lastActivityAt := a\<rparr>) = tracker_inv t"
  "tracker_inv (t\<lparr>tr_carry := c\<rparr>) = tracker_inv t"
  "tracker_inv (t\<lparr>tr_droppedCount := d\<rparr>) = tracker_inv t"
  by (simp_all add: tracker_inv_def)

lemma sorted_wrt_drop: "sorted_wrt P es \<Longrightarrow> sorted_wrt P (drop n es)"
  using sorted_wrt_append [of P "take n es" "drop n es"] by simp

lemma ring_ok_snoc:
  assumes "ring_ok l es" and "e = \<lparr>ev_seq = l + 1, ev_ts = ts, ev_phase = p, ev_kind = k,
      ev_message = projectEventMessage k src msg, ev_source = src\<rparr>"
    and "within_limits (drop n (es @ [e]))"
  shows "ring_ok (l + 1) (drop n (es @ [e]))"
proof -
  have "sorted_wrt (<) (map ev_seq (es @ [e]))"
    using assms(1,2) by (auto simp: ring_ok_def sorted_wrt_append less_Suc_eq_le)
  then have "sorted_wrt (<) (map ev_seq (drop n (es @ [e])))"
    unfolding drop_map [symmetric] by (rule sorted_wrt_drop)
  moreover have "\<forall>x\<in>set (es @ [e]). 0 < ev_seq x \<and> ev_seq x \<le> l + 1 \<and> message_ok x"
    using assms(1,2) projected_fits projected_idem by (auto simp: ring_ok_def message_ok_def)
  ultimately show ?thesis
    using assms(3) by (auto simp: ring_ok_def dest: in_set_dropD)
qed

lemma emit_cases:
  obtains (coalesced) "coalesces (tr_events t) p k src now"
      "emit p k msg src now t = (last (tr_events t), t\<lparr>tr_lastActivityAt := now\<rparr>)"
  | (appended) e n where "\<not> coalesces (tr_events t) p k src now"
      "e = \<lparr>ev_seq = tr_lastSeq t + 1, ev_ts = now, ev_phase = p, ev_kind = k,
         ev_message = projectEventMessage k src msg, ev_source = src\<rparr>"
      "n \<le> length (tr_events t) + 1"
      "within_limits (drop n (tr_events t @ [e]))"
      "0 < n \<longrightarrow> \<not> within_limits (drop (n - 1) (tr_events t @ [e]))"
      "emit p k msg src now t = (e, t\<lparr>tr_lastActivityAt := now, tr_lastSeq := tr_lastSeq t + 1,
         tr_events := drop n (tr_events t @ [e]), tr_droppedCount := tr_droppedCount t + n\<rparr>)"
proof (cases "coalesces (tr_events t) p k src now")
  case True
  then show ?thesis using coalesced by (simp add: emit_def Let_def)
next
  case False
  define e where "e = \<lparr>ev_seq = tr_lastSeq t + 1, ev_ts = now, ev_phase = p, ev_kind = k,
    ev_message = projectEventMessage k src msg, ev_source = src\<rparr>"
  obtain n where "n \<le> length (tr_events t @ [e])"
    "prune (tr_events t @ [e]) (tr_droppedCount t)
       = (drop n (tr_events t @ [e]), tr_droppedCount t + n)"
    "within_limits (drop n (tr_events t @ [e]))"
    "0 < n \<longrightarrow> \<not> within_limits (drop (n - 1) (tr_events t @ [e]))"
    using prune_drop [of "tr_events t @ [e]" "tr_droppedCount t"] by blast
  with False show ?thesis
    by (intro appended [OF False e_def]) (simp_all add: emit_def Let_def e_def)
qed

lemma emit_inv: "tracker_inv t \<Longrightarrow> tracker_inv (snd (emit p k msg src now t))"
proof (cases rule: emit_cases [of t p k src now msg])
  case (appended e n)
  then show "tracker_inv t \<Longrightarrow> ?thesis"
    using ring_ok_snoc [OF _ appended(2,4)] by (simp add: tracker_inv_def)
qed simp

lemma emit_lastSeq: "tr_lastSeq t \<le> tr_lastSeq (snd (emit p k msg src now t))"
  by (cases rule: emit_cases [of t p k src now msg]) simp_all

lemma provider_active_inv: "tracker_inv t \<Longrightarrow> tracker_inv (provider_active now t)"
  by (simp add: provider_active_def emit_inv)

lemma provider_active_lastSeq: "tr_lastSeq t \<le> tr_lastSeq (provider_active now t)"
  by (simp add: provider_active_def emit_lastSeq)

lemma ingest_lines_inv: "tracker_inv t \<Longrightarrow> tracker_inv (snd (ingest_lines pj now ls b t))"
  by (induction ls arbitrary: b t) (auto split: option.split intro: emit_inv)

lemma ingest_lines_lastSeq: "tr_lastSeq t \<le> tr_lastSeq (snd (ingest_lines pj now ls b t))"
  by (induction ls arbitrary: b t) (auto split: option.split intro: order_trans [OF emit_lastSeq])

lemma ingest_inv: "tracker_inv t \<Longrightarrow> tracker_inv (ingest pj out piece now t)"
  by (auto simp: ingest_def Let_def split: prod.split
      intro!: provider_active_inv dest: ingest_lines_inv [of "t\<lparr>tr_lastActivityAt := now, tr_carry := c\<rparr>" for c])
    (metis ingest_lines_inv snd_conv tracker_inv_cong(1,2))+

lemma ingest_lastSeq: "tr_lastSeq t \<le> tr_lastSeq (ingest pj out piece now t)"
proof -
  have "tr_lastSeq t \<le> tr_lastSeq t2"
    if "ingest_lines pj now ls b (t\<lparr>tr_lastActivityAt := now, tr_carry := c\<rparr>) = (x, t2)" for ls b c x t2
    using ingest_lines_lastSeq [of "t\<lparr>tr_lastActivityAt := now, tr_carry := c\<rparr>" pj now ls b] that by simp
  then show ?thesis
    using provider_active_lastSeq
    by (auto simp: ingest_def Let_def split: prod.split intro: order_trans
        [OF _ provider_active_lastSeq])
qed

section \<open>Stored values that validation accepts\<close>

lemma seq_increasing_sorted: "seq_increasing es \<longleftrightarrow> sorted_wrt (<) (map ev_seq es)"
proof (induction es rule: seq_increasing.induct)
  case (1 e f es)
  then show ?case by (auto intro: less_trans)
qed simp_all

lemma read_all_events_ok:
  "read_all_events rs = Some es \<Longrightarrow> length es = length rs
     \<and> (\<forall>e\<in>set es. 0 < ev_seq e \<and> utf8_len (ev_message e) \<le> MAX_EVENT_MESSAGE_BYTES)"
proof (induction rs arbitrary: es)
  case (Cons r rs)
  then obtain e es' where r: "isProgressEvent r = Some e" "read_all_events rs = Some es'" "es = e # es'"
    by (auto split: option.splits)
  have "0 < ev_seq e \<and> utf8_len (ev_message e) \<le> MAX_EVENT_MESSAGE_BYTES"
    using r(1) by (auto simp: isProgressEvent_def split: option.splits if_splits)
  then show ?case using Cons.IH [OF r(2)] r(3) by auto
qed simp

definition reproject :: "progress_event \<Rightarrow> progress_event" where
  "reproject e = e\<lparr>ev_message := projectEventMessage (ev_kind e) (ev_source e) (ev_message e)\<rparr>"

lemma reproject_simps [simp]: "ev_seq (reproject e) = ev_seq e" "message_ok (reproject e)"
  by (simp_all add: reproject_def message_ok_def projected_fits projected_idem)

lemma sorted_last_le:
  "sorted_wrt (<) (map ev_seq es) \<Longrightarrow> e \<in> set es \<Longrightarrow> ev_seq e \<le> ev_seq (last es)"
  by (induction es) (auto intro: order.strict_implies_order)

lemma parse_unfold:
  assumes "parseStoredJobProgress v = Some s"
  obtains r es where "v = Some r" "read_all_events (the (raw_events r)) = Some es"
    "length es \<le> MAX_EVENTS" "sorted_wrt (<) (map ev_seq es)" "events_bytes es \<le> MAX_EVENTS_BYTES"
    "\<forall>e\<in>set es. 0 < ev_seq e \<and> ev_seq e \<le> sp_lastSeq s" "sp_events s = map reproject es"
proof -
  obtain r raws es where "v = Some r" "raw_events r = Some raws" "read_all_events raws = Some es"
    "length raws \<le> MAX_EVENTS" "seq_increasing es" "events_bytes es \<le> MAX_EVENTS_BYTES"
    "(if es = [] then 0 else ev_seq (last es)) \<le> sp_lastSeq s" "sp_events s = map reproject es"
    using assms
    by (auto simp: parseStoredJobProgress_def reproject_def [abs_def] split: option.splits if_splits)
  then show ?thesis
    using read_all_events_ok [of raws es] sorted_last_le [of es]
    by (intro that [of r es]) (auto simp: seq_increasing_sorted split: if_splits intro: order_trans)
qed

text \<open>
  Validation bounds the events as stored; the messages it returns are projected again, so only
  the number of events, their order and the message bound carry over to the hydrated ring.
\<close>

definition hydrated_ok :: "nat \<Rightarrow> progress_event list \<Rightarrow> bool" where
  "hydrated_ok lastSeq es \<longleftrightarrow> length es \<le> MAX_EVENTS \<and> sorted_wrt (<) (map ev_seq es)
     \<and> (\<forall>e\<in>set es. 0 < ev_seq e \<and> ev_seq e \<le> lastSeq \<and> message_ok e)"

lemma parse_hydrated_ok: "parseStoredJobProgress v = Some s \<Longrightarrow> hydrated_ok (sp_lastSeq s) (sp_events s)"
  by (erule parse_unfold) (auto simp: hydrated_ok_def comp_def)

section \<open>The tracker as a transition system\<close>

inductive tracker_step :: "tracker \<Rightarrow> tracker \<Rightarrow> bool" where
  step_emit: "tracker_step t (snd (emit p k msg src now t))"
| step_ingest: "tracker_step t (ingest json_parse is_stdout piece now t)"

inductive_cases tracker_step_E: "tracker_step t t'"

definition tracker_start :: "tracker \<Rightarrow> bool" where
  "tracker_start t = (\<exists>p fmt startedAt override. t = new_tracker p fmt None startedAt override)"

lemma tracker_start_inv: "tracker_start t \<Longrightarrow> tracker_inv t"
  by (auto simp: tracker_start_def new_tracker_def tracker_inv_def ring_ok_def within_limits_def
      events_bytes_def)

lemma tracker_step_inv: "tracker_inv t \<Longrightarrow> tracker_step t t' \<Longrightarrow> tracker_inv t'"
  by (erule tracker_step_E) (auto intro: emit_inv ingest_inv)

lemma tracker_step_lastSeq: "tracker_step t t' \<Longrightarrow> tr_lastSeq t \<le> tr_lastSeq t'"
  by (erule tracker_step_E) (auto intro: emit_lastSeq ingest_lastSeq)

interpretation tracker_sys: monotone_system tracker_start tracker_step tracker_inv tr_lastSeq
  by unfold_locales (auto intro: tracker_start_inv tracker_step_inv tracker_step_lastSeq)

section \<open>Paging\<close>

text \<open>A client that polls from a cursor until hasMore is false; polls bounds the number of polls.\<close>

fun poll_all :: "tracker \<Rightarrow> int \<Rightarrow> nat \<Rightarrow> int \<Rightarrow> progress_event list" where
  "poll_all t limit 0 cursor = []"
| "poll_all t limit (Suc polls) cursor =
     (let page = progress_page t cursor limit in
      ps_events page @
        (if ps_hasMore page then poll_all t limit polls (int (ps_nextAfterSeq page)) else []))"

lemma filter_after_take:
  assumes "sorted_wrt (<) (map ev_seq es)" and "0 < n" and "n < length es"
  shows "filter (\<lambda>e. ev_seq e > ev_seq (last (take n es))) es = drop n es"
proof -
  have ne: "take n es \<noteq> []" using assms by auto
  have "sorted_wrt (<) (map ev_seq (take n es) @ map ev_seq (drop n es))"
    using assms(1) by (metis append_take_drop_id map_append)
  then have "\<forall>x\<in>set (take n es). \<forall>y\<in>set (drop n es). ev_seq x < ev_seq y"
    and "sorted_wrt (<) (map ev_seq (take n es))"
    by (auto simp: sorted_wrt_append)
  then have "\<forall>y\<in>set (drop n es). ev_seq (last (take n es)) < ev_seq y"
    and "\<forall>x\<in>set (take n es). \<not> ev_seq (last (take n es)) < ev_seq x"
    using last_in_set [OF ne] sorted_last_le by (blast, fastforce simp: not_less)
  then have "filter (\<lambda>e. ev_seq e > ev_seq (last (take n es))) (take n es @ drop n es) = drop n es"
    unfolding filter_append by (simp add: filter_empty_conv)
  then show ?thesis by simp
qed

lemma filter_sorted: "sorted_wrt (<) (map ev_seq es) \<Longrightarrow> sorted_wrt (<) (map ev_seq (filter P es))"
  by (induction es) auto

lemma poll_all_complete:
  assumes "sorted_wrt (<) (map ev_seq (tr_events t))"
    and "length (filter (\<lambda>e. int (ev_seq e) > cursor) (tr_events t)) < polls"
    and "\<forall>e\<in>set (tr_events t). 0 < ev_seq e"
  shows "poll_all t limit polls cursor = filter (\<lambda>e. int (ev_seq e) > cursor) (tr_events t)"
  using assms(2)
proof (induction polls arbitrary: cursor)
  case (Suc polls)
  define m where "m = filter (\<lambda>e. ev_seq e > nat (max 0 cursor)) (tr_events t)"
  define n where "n = nat (max 1 (min (int MAX_EVENTS) limit))"
  have all: "filter (\<lambda>e. int (ev_seq e) > cursor) (tr_events t) = m"
    unfolding m_def using assms(3) by (intro filter_cong) auto
  have srt: "sorted_wrt (<) (map ev_seq m)" unfolding m_def using assms(1) by (rule filter_sorted)
  have n: "0 < n" by (simp add: n_def)
  have page: "ps_events (progress_page t cursor limit) = take n m"
    "ps_hasMore (progress_page t cursor limit) = (length m > length (take n m))"
    "take n m \<noteq> [] \<Longrightarrow> ps_nextAfterSeq (progress_page t cursor limit) = ev_seq (last (take n m))"
    unfolding progress_page_def Let_def m_def [symmetric] n_def [symmetric] by simp_all
  show ?case
  proof (cases "n < length m")
    case True
    define c where "c = ev_seq (last (take n m))"
    have ne: "take n m \<noteq> []" using True n by auto
    then have "last (take n m) \<in> set m" by (blast intro: in_set_takeD last_in_set)
    then have "nat (max 0 cursor) < c" unfolding c_def m_def by simp
    then have "filter (\<lambda>e. int (ev_seq e) > int c) (tr_events t) = filter (\<lambda>e. ev_seq e > c) m"
      unfolding m_def filter_filter by (intro filter_cong) (rule refl, linarith)
    also have "\<dots> = drop n m" using filter_after_take [OF srt n True] by (simp only: c_def)
    finally have r: "filter (\<lambda>e. int (ev_seq e) > int c) (tr_events t) = drop n m" .
    have "length (drop n m) < polls" using Suc.prems True n unfolding all length_drop by linarith
    then have "poll_all t limit polls (int c) = drop n m" using Suc.IH [of "int c"] r by simp
    then have "poll_all t limit (Suc polls) cursor = take n m @ drop n m"
      using True page ne by (simp add: c_def)
    then show ?thesis by (simp only: all append_take_drop_id)
  next
    case False
    then show ?thesis by (simp add: all page)
  qed
qed simp

section \<open>Round trip of the stored projection\<close>

lemma whole_number_of_nat [simp]: "whole_number (Some (of_nat n)) = Some n"
  by (simp add: whole_number_def)

lemma find_names [simp]:
  "find_name phase_name all_phases (Some (phase_name p)) = Some p"
  "find_name kind_name all_kinds (Some (kind_name k)) = Some k"
  "find_name origin_name [FromGateway, FromProvider] (Some (origin_name s)) = Some s"
  "find_name capability_name [CapStructured, CapActivityOnly, CapLifecycleOnly]
     (Some (capability_name c)) = Some c"
  by (simp_all add: find_name_def all_phases_def phase_name_def all_kinds_def kind_name_def
      origin_name_def capability_name_def split: phase.split kind.split origin.split capability.split)

lemma isProgressEvent_raw:
  "0 < ev_seq e \<Longrightarrow> message_ok e \<Longrightarrow> 0 \<notin> set (ev_message e) \<Longrightarrow>
     isProgressEvent (Some (raw_of_event e)) = Some e"
  by (simp add: isProgressEvent_def raw_of_event_def message_ok_def)

lemma read_all_raw:
  "(\<forall>e\<in>set es. 0 < ev_seq e \<and> message_ok e \<and> 0 \<notin> set (ev_message e)) \<Longrightarrow>
     read_all_events (map (\<lambda>e. Some (raw_of_event e)) es) = Some es"
  by (induction es) (simp_all add: isProgressEvent_raw)

lemma serialize_fields:
  assumes "tracker_inv t"
  shows "serialize t = \<lparr>sp_capability = tr_capability t, sp_lastActivityAt = tr_lastActivityAt t,
    sp_lastSeq = tr_lastSeq t, sp_droppedCount = tr_droppedCount t, sp_events = tr_events t\<rparr>"
proof -
  have "filter (\<lambda>e. 0 < ev_seq e) (tr_events t) = tr_events t"
    using assms by (auto simp: tracker_inv_def ring_ok_def filter_id_conv)
  moreover have "length (tr_events t) \<le> MAX_EVENTS"
    using assms by (simp add: tracker_inv_def ring_ok_def within_limits_def)
  ultimately show ?thesis
    by (simp add: serialize_def progress_page_def Let_def MAX_EVENTS_def)
qed

lemma decimal_digits_53: "n < 2 ^ 53 \<Longrightarrow> decimal_digits n \<le> 16"
  by (rule decimal_digits_less) simp_all

lemma stored_bytes_bound:
  assumes "within_limits (sp_events s)" and "sp_lastSeq s < 2 ^ 53" and "sp_droppedCount s < 2 ^ 53"
  shows "stored_bytes s \<le> MAX_STORED_PROGRESS_BYTES"
  using assms(1) decimal_digits_53 [OF assms(2)] decimal_digits_53 [OF assms(3)]
    name_lengths(4) [of "sp_capability s"]
  unfolding stored_bytes_def within_limits_def MAX_STORED_PROGRESS_BYTES_def MAX_EVENTS_BYTES_def
    MAX_EVENTS_def by linarith

lemma reproject_id: "message_ok e \<Longrightarrow> reproject e = e"
  by (simp add: reproject_def message_ok_def)

section \<open>Properties\<close>

definition demo_tracker :: tracker where
  "demo_tracker =
     snd (emit PWriting KOutput (lit ''b'') FromGateway 2
      (snd (emit PStarting KLifecycle (lit ''a'') FromGateway 1
        (new_tracker ''codex'' (Some ''json'') None 0 None))))"

lemma demo_tracker_reach: "reach tracker_start tracker_step demo_tracker"
  unfolding demo_tracker_def
  by (rule reach_step, rule reach_step, rule reach_init)
    (auto simp: tracker_start_def intro: step_emit)

lemma demo_tracker_value:
  "demo_tracker = \<lparr>tr_provider = ''codex'', tr_capability = CapStructured, tr_carry = [],
     tr_events = [\<lparr>ev_seq = 1, ev_ts = 1, ev_phase = PStarting, ev_kind = KLifecycle,
        ev_message = [97], ev_source = FromGateway\<rparr>,
       \<lparr>ev_seq = 2, ev_ts = 2, ev_phase = PWriting, ev_kind = KOutput,
        ev_message = [98], ev_source = FromGateway\<rparr>],
     tr_lastSeq = 2, tr_droppedCount = 0, tr_lastActivityAt = 2\<rparr>"
  by (simp add: demo_tracker_def new_tracker_def structuredCapability_def emit_def coalesces_def
      lit_def projectEventMessage_def safeMessage_def normalize_text_def js_trim_def is_ws_def
      is_break_def truncateUtf8_def unit_bytes_def MAX_EVENT_MESSAGE_BYTES_def MAX_EVENTS_def
      MAX_EVENTS_BYTES_def events_bytes_def eventBytes_def decimal_digits.simps phase_name_def
      kind_name_def origin_name_def json_unit_bytes_def hi_surrogate_def lo_surrogate_def Let_def)

text \<open>
  C33: the durable progress of a job stays bounded and ordered. After any history of lifecycle events
  and provider output, the ring holds at most 64 events and 32 KiB of serialised events, every
  message at most 512 bytes, and the sequence numbers strictly increase up to lastSeq.
\<close>

theorem progress_bounded:
  assumes "reach tracker_start tracker_step t"
  shows "length (tr_events t) \<le> 64 \<and> events_bytes (tr_events t) \<le> 32768
    \<and> (\<forall>e\<in>set (tr_events t). utf8_len (ev_message e) \<le> 512 \<and> ev_seq e \<le> tr_lastSeq t)
    \<and> sorted_wrt (<) (map ev_seq (tr_events t))"
  using tracker_sys.reach_inv [OF assms]
  by (auto simp: tracker_inv_def ring_ok_def within_limits_def message_ok_def MAX_EVENTS_def
      MAX_EVENTS_BYTES_def MAX_EVENT_MESSAGE_BYTES_def)

theorem progress_bounded_witness:
  "map ev_seq (tr_events demo_tracker) = [1, 2] \<and> events_bytes (tr_events demo_tracker) \<le> 32768"
  using progress_bounded [OF demo_tracker_reach] by (simp add: demo_tracker_value)

text \<open>
  An emitted event is never lost. Unless it coalesces into the last event (same kind, phase and
  source within a second), an emit takes the next sequence number, is the last retained event, and
  only the oldest events are dropped, each counted in droppedCount, and none that the limits would
  have allowed to stay.
\<close>

theorem emit_retains_newest:
  assumes "tracker_inv t" and "tr_lastSeq t + 1 < 2 ^ 53"
    and "\<not> coalesces (tr_events t) p k src now"
  shows "\<exists>n \<le> length (tr_events t).
    emit p k msg src now t =
      (let e = \<lparr>ev_seq = tr_lastSeq t + 1, ev_ts = now, ev_phase = p, ev_kind = k,
                ev_message = projectEventMessage k src msg, ev_source = src\<rparr> in
       (e, t\<lparr>tr_lastActivityAt := now, tr_lastSeq := tr_lastSeq t + 1,
             tr_events := drop n (tr_events t) @ [e], tr_droppedCount := tr_droppedCount t + n\<rparr>))
    \<and> (0 < n \<longrightarrow> \<not> within_limits (drop (n - 1) (tr_events t) @
          [\<lparr>ev_seq = tr_lastSeq t + 1, ev_ts = now, ev_phase = p, ev_kind = k,
            ev_message = projectEventMessage k src msg, ev_source = src\<rparr>]))"
proof (cases rule: emit_cases [of t p k src now msg])
  case coalesced
  then show ?thesis using assms(3) by simp
next
  case (appended e n)
  have "within_limits [e]"
    using assms(2) appended(2) projected_fits by (intro within_limits_single) simp_all
  then have "n \<le> length (tr_events t)"
    using appended(3,5) by (cases "n = length (tr_events t) + 1") auto
  then show ?thesis using appended(2,5,6) by (intro exI [of _ n]) (simp add: Let_def)
qed

theorem emit_retains_newest_witness:
  "\<exists>n \<le> 2. tr_lastSeq (snd (emit PStarting KLifecycle (lit ''c'') FromGateway 3 demo_tracker)) = 3
     \<and> tr_droppedCount (snd (emit PStarting KLifecycle (lit ''c'') FromGateway 3 demo_tracker)) = n"
  using emit_retains_newest [OF tracker_sys.reach_inv [OF demo_tracker_reach], of PStarting KLifecycle
      FromGateway 3 "lit ''c''"]
  by (auto simp: demo_tracker_value coalesces_def Let_def)

text \<open>
  C34: cursor paging is complete and free of duplicates. A client that keeps polling with the returned
  nextAfterSeq while hasMore holds receives exactly the retained events after its first cursor, in
  order, for every page size, including non-positive ones.
\<close>

theorem paging_complete:
  assumes "reach tracker_start tracker_step t"
  shows "poll_all t limit (length (tr_events t) + 1) cursor
    = filter (\<lambda>e. int (ev_seq e) > cursor) (tr_events t)"
  using tracker_sys.reach_inv [OF assms]
  by (intro poll_all_complete) (auto simp: tracker_inv_def ring_ok_def intro: le_imp_less_Suc)

theorem paging_complete_witness:
  "map ev_seq (poll_all demo_tracker 1 3 (- 1)) = [1, 2]"
  using paging_complete [OF demo_tracker_reach, of 1 "- 1"]
  by (simp add: demo_tracker_value numeral_3_eq_3 del: poll_all.simps)

text \<open>
  C35: progress survives storage. The stored form of a reachable tracker, read back by the validating
  parser, is accepted and equal to what was written, provided no message holds a NUL character and
  the counters are exact JavaScript integers.
\<close>

theorem progress_roundtrip:
  assumes "reach tracker_start tracker_step t" and "tr_lastSeq t < 2 ^ 53"
    and "tr_droppedCount t < 2 ^ 53" and "\<forall>e\<in>set (tr_events t). 0 \<notin> set (ev_message e)"
  shows "parseStoredJobProgress (Some (raw_of_stored (serialize t))) = Some (serialize t)"
proof -
  let ?es = "tr_events t"
  have inv: "tracker_inv t" by (rule tracker_sys.reach_inv [OF assms(1)])
  then have ok: "within_limits ?es" "seq_increasing ?es"
    "\<forall>e\<in>set ?es. 0 < ev_seq e \<and> ev_seq e \<le> tr_lastSeq t \<and> message_ok e"
    by (auto simp: tracker_inv_def ring_ok_def seq_increasing_sorted)
  have "read_all_events (map (\<lambda>e. Some (raw_of_event e)) ?es) = Some ?es"
    using ok(3) assms(4) by (intro read_all_raw) auto
  moreover have "map (\<lambda>e. e\<lparr>ev_message := projectEventMessage (ev_kind e) (ev_source e) (ev_message e)\<rparr>) ?es
      = ?es"
    using ok(3) by (intro map_idI) (auto simp: message_ok_def)
  moreover have "stored_bytes (serialize t) \<le> MAX_STORED_PROGRESS_BYTES"
    using ok(1) assms(2,3) by (intro stored_bytes_bound) (simp_all add: serialize_fields [OF inv])
  moreover have "(if ?es = [] then 0 else ev_seq (last ?es)) \<le> tr_lastSeq t"
    using ok(3) by simp
  ultimately show ?thesis
    using ok(1,2)
    by (simp add: parseStoredJobProgress_def raw_of_stored_def serialize_fields [OF inv]
        within_limits_def)
qed

theorem progress_roundtrip_witness:
  "parseStoredJobProgress (Some (raw_of_stored (serialize demo_tracker))) = Some (serialize demo_tracker)
   \<and> length (sp_events (serialize demo_tracker)) = 2"
  using progress_roundtrip [OF demo_tracker_reach]
    serialize_fields [OF tracker_sys.reach_inv [OF demo_tracker_reach]]
  by (simp add: demo_tracker_value)

definition fixed_phrases :: "string set" where
  "fixed_phrases = {''Provider session initialized'', ''Using a provider tool'',
    ''Provider reasoning activity'', ''Provider is writing output'', ''Provider produced a result'',
    ''Provider turn started'', ''Provider reported an error'', ''Provider turn produced output'',
    ''Provider tool reported an error''}"

definition fixed_signal :: "signal option \<Rightarrow> bool" where
  "fixed_signal x = (case x of None \<Rightarrow> True | Some s \<Rightarrow> sg_message s \<in> fixed_phrases)"

lemma fixed_sigs [simp]:
  "fixed_signal None"
  "fixed_signal (sig p k ''Provider session initialized'')"
  "fixed_signal (sig p k ''Using a provider tool'')"
  "fixed_signal (sig p k ''Provider reasoning activity'')"
  "fixed_signal (sig p k ''Provider is writing output'')"
  "fixed_signal (sig p k ''Provider produced a result'')"
  "fixed_signal (sig p k ''Provider turn started'')"
  "fixed_signal (sig p k ''Provider reported an error'')"
  "fixed_signal (sig p k ''Provider turn produced output'')"
  "fixed_signal (sig p k ''Provider tool reported an error'')"
  by (simp_all add: fixed_signal_def sig_def fixed_phrases_def)

lemma fixed_if: "fixed_signal x \<Longrightarrow> fixed_signal y \<Longrightarrow> fixed_signal (if b then x else y)"
  by simp

lemma fixed_case: "(\<And>v. fixed_signal (f v)) \<Longrightarrow> fixed_signal n \<Longrightarrow> fixed_signal (case x of None \<Rightarrow> n | Some v \<Rightarrow> f v)"
  by (cases x) simp_all

lemma fixed_or_else: "fixed_signal x \<Longrightarrow> fixed_signal n \<Longrightarrow> fixed_signal (case x of None \<Rightarrow> n | Some v \<Rightarrow> Some v)"
  by (cases x) simp_all

lemma fixed_blocks: "fixed_signal (claude_blocks bs)"
  by (induction bs) (simp_all add: fixed_if)

lemmas fixed_intros = fixed_if fixed_or_else fixed_case fixed_sigs fixed_blocks

lemma provider_signals_fixed:
  "fixed_signal (claudeSignal e)" "fixed_signal (codexSignal e)" "fixed_signal (geminiSignal e)"
  "fixed_signal (grokSignal e)" "fixed_signal (mistralSignal e)" "fixed_signal (cursorSignal e)"
  unfolding claudeSignal_def codexSignal_def geminiSignal_def grokSignal_def mistralSignal_def
    cursorSignal_def Let_def
  by (intro fixed_intros)+

text \<open>
  No provider text reaches durable progress. Whatever a provider writes on its structured output,
  the message of a signal read from it is one of nine fixed phrases: tool names, arguments, paths and
  model text are never copied.
\<close>

theorem provider_signal_messages_fixed:
  assumes "structuredSignal json_parse p line = Some s"
  shows "sg_message s \<in> {''Provider session initialized'', ''Using a provider tool'',
    ''Provider reasoning activity'', ''Provider is writing output'', ''Provider produced a result'',
    ''Provider turn started'', ''Provider reported an error'', ''Provider turn produced output'',
    ''Provider tool reported an error''}"
proof -
  have "fixed_signal (structuredSignal json_parse p line)"
    unfolding structuredSignal_def by (intro fixed_intros provider_signals_fixed)
  then show ?thesis using assms by (simp add: fixed_signal_def fixed_phrases_def)
qed

theorem provider_signal_messages_fixed_witness:
  "\<exists>s. structuredSignal (\<lambda>_. Some (JObj [(''type'', JStr (lit ''effect''))])) ''mistral'' [] = Some s
     \<and> sg_message s \<in> {''Provider session initialized'', ''Using a provider tool'',
    ''Provider reasoning activity'', ''Provider is writing output'', ''Provider produced a result'',
    ''Provider turn started'', ''Provider reported an error'', ''Provider turn produced output'',
    ''Provider tool reported an error''}"
proof -
  let ?s = "\<lparr>sg_phase = PTool, sg_kind = KToolStart, sg_message = ''Using a provider tool''\<rparr>"
  have "structuredSignal (\<lambda>_. Some (JObj [(''type'', JStr (lit ''effect''))])) ''mistral'' [] = Some ?s"
    by (simp add: structuredSignal_def mistralSignal_def jstring_or_empty_def sig_def lit_def)
  with provider_signal_messages_fixed [OF this] show ?thesis by blast
qed

end
