(* ===== verification/Identity.thy ===== *)
theory Identity
  imports Text
begin

text \<open>
  Who owns what: the ownership principal of a request and the access rule on rows
  (src/src/request-context.ts), the durable identity of a Personal Agent Config Kit execution and
  its session attempt (src/src/personal-config-types.ts), the admission rule for Claude MCP
  artifacts (src/src/mcp-artifact-admission.ts) and the record of a job's working directory
  (src/src/job-cwd-scope.ts). An absent or undefined value is None; a thrown TypeError is Inl.
\<close>

section \<open>Request context and row access\<close>

datatype transport_kind = Stdio | Http_transport
datatype auth_kind = Auth_disabled | Auth_gateway_bearer | Auth_oauth

record request_context =
  rc_transport :: "transport_kind option"
  rc_authKind :: "auth_kind option"
  rc_authScopes :: "string list"
  rc_authClientId :: "string option"
  rc_authPrincipal :: "string option"

definition resolveOwnerPrincipal :: "request_context option \<Rightarrow> principal" where
  "resolveOwnerPrincipal ctx =
     (case ctx of
        None \<Rightarrow> ''local''
      | Some c \<Rightarrow>
          if rc_authPrincipal c \<noteq> None \<and> rc_authPrincipal c \<noteq> Some [] then the (rc_authPrincipal c)
          else if rc_authKind c = Some Auth_gateway_bearer then ''gateway-bearer''
          else ''local'')"

definition principalCanAccess :: "principal option \<Rightarrow> principal \<Rightarrow> bool" where
  "principalCanAccess rowOwner caller =
     (if rowOwner = Some caller then True
      else if rowOwner = None \<and> caller = ''local'' then True
      else False)"

text \<open>
  The SQL fragment as data, and what a WHERE clause does with it: a comparison with NULL is
  unknown (None) and a row is kept only when the condition is true.
\<close>

datatype scope_sql = Owner_eq_or_null principal | Owner_eq principal

definition principalScopeSql :: "principal \<Rightarrow> scope_sql" where
  "principalScopeSql caller = (if caller = ''local'' then Owner_eq_or_null caller else Owner_eq caller)"

definition sql_eq :: "'a option \<Rightarrow> 'a \<Rightarrow> bool option" where
  "sql_eq col v = (case col of None \<Rightarrow> None | Some x \<Rightarrow> Some (x = v))"

definition sql_or :: "bool option \<Rightarrow> bool option \<Rightarrow> bool option" where
  "sql_or a b = (if a = Some True \<or> b = Some True then Some True
     else if a = Some False \<and> b = Some False then Some False else None)"

fun scope_keeps :: "scope_sql \<Rightarrow> principal option \<Rightarrow> bool" where
  "scope_keeps (Owner_eq_or_null v) col = (sql_or (sql_eq col v) (Some (col = None)) = Some True)"
| "scope_keeps (Owner_eq v) col = (sql_eq col v = Some True)"

definition isRemotePrincipal :: "request_context option \<Rightarrow> bool" where
  "isRemotePrincipal ctx =
     (case ctx of None \<Rightarrow> False
      | Some c \<Rightarrow> rc_transport c = Some Http_transport \<or> rc_authKind c = Some Auth_oauth)"

section \<open>Strings\<close>

definition blank_char :: "char \<Rightarrow> bool" where
  "blank_char c = is_ws (of_char c)"

lemma of_char_less: "(of_char c :: nat) < 256"
  using of_char_mod_256 [of c, where 'a = nat] by (metis mod_less_divisor zero_less_numeral)

lemma of_char_eq_iff: "n < 256 \<Longrightarrow> (of_char c = (n :: nat)) = (c = char_of n)"
  by (metis char_of_char mod_less of_char_of)

text \<open>The Latin-1 blanks as characters, for evaluation.\<close>

lemma blank_char_code [code]:
  "blank_char c = (c \<in> {CHR 0x09, CHR 0x0A, CHR 0x0B, CHR 0x0C, CHR 0x0D, CHR 0x20, CHR 0xA0})"
proof -
  define u where "u = (of_char c :: nat)"
  have "u < 256" using of_char_less [of c] by (simp add: u_def)
  then have "is_ws u = (u = 9 \<or> u = 10 \<or> u = 11 \<or> u = 12 \<or> u = 13 \<or> u = 32 \<or> u = 160)"
    by (auto simp: is_ws_def)
  then show ?thesis
    by (simp add: blank_char_def u_def of_char_eq_iff char_of_def bit_0)
qed

definition str_trim :: "string \<Rightarrow> string" where
  "str_trim s = rev (dropWhile blank_char (rev (dropWhile blank_char s)))"

definition isNonEmptyString :: "string \<Rightarrow> bool" where
  "isNonEmptyString s = (str_trim s \<noteq> [])"

definition hex_char :: "char \<Rightarrow> bool" where
  "hex_char c \<longleftrightarrow> (48 \<le> (of_char c :: nat) \<and> (of_char c :: nat) \<le> 57)
     \<or> (97 \<le> (of_char c :: nat) \<and> (of_char c :: nat) \<le> 102)
     \<or> (65 \<le> (of_char c :: nat) \<and> (of_char c :: nat) \<le> 70)"

text \<open>A regular expression that is a sequence of single-character classes anchored at both ends.\<close>

fun match_classes :: "(char \<Rightarrow> bool) list \<Rightarrow> string \<Rightarrow> bool" where
  "match_classes [] [] = True"
| "match_classes (p # ps) (c # cs) = (p c \<and> match_classes ps cs)"
| "match_classes _ _ = False"

definition dash :: "char \<Rightarrow> bool" where "dash c = (c = CHR ''-'')"

definition version_char :: "char \<Rightarrow> bool" where
  "version_char c = (49 \<le> (of_char c :: nat) \<and> (of_char c :: nat) \<le> 56)"

definition variant_char :: "char \<Rightarrow> bool" where
  "variant_char c = (c \<in> {CHR ''8'', CHR ''9'', CHR ''a'', CHR ''b'', CHR ''A'', CHR ''B''})"

definition KIT_NATIVE_SESSION_ID :: "(char \<Rightarrow> bool) list" where
  "KIT_NATIVE_SESSION_ID = replicate 8 hex_char @ [dash] @ replicate 4 hex_char @ [dash]
     @ [version_char] @ replicate 3 hex_char @ [dash] @ [variant_char] @ replicate 3 hex_char
     @ [dash] @ replicate 12 hex_char"

definition VIBE_NATIVE_SESSION_ID :: "(char \<Rightarrow> bool) list" where
  "VIBE_NATIVE_SESSION_ID = replicate 8 hex_char @ [dash] @ replicate 4 hex_char @ [dash]
     @ replicate 4 hex_char @ [dash] @ replicate 4 hex_char @ [dash] @ replicate 12 hex_char"

definition isKitNativeSessionId :: "string \<Rightarrow> bool" where
  "isKitNativeSessionId v = match_classes KIT_NATIVE_SESSION_ID v"

definition isVibeNativeSessionId :: "string \<Rightarrow> bool" where
  "isVibeNativeSessionId v = match_classes VIBE_NATIVE_SESSION_ID v"

definition isKitNativeSessionIdForProvider :: "string option \<Rightarrow> string \<Rightarrow> bool" where
  "isKitNativeSessionIdForProvider p v =
     (if p = Some ''mistral'' then isVibeNativeSessionId v else isKitNativeSessionId v)"

section \<open>Kit executions\<close>

record kit_ref =
  ke_version :: int
  ke_releaseId :: string
  ke_configStamp :: string
  ke_scopeRoot :: "string option"
  ke_scopeHead :: "string option"
  ke_contextIdentity :: string

datatype attempt_kind = Durable | Direct

text \<open>An attempt's timestamps are the instants Date.parse reads, None when it reads none.\<close>

record kit_attempt =
  ka_id :: string
  ka_kind :: attempt_kind
  ka_acquiredAt :: "time option"
  ka_expiresAt :: "time option"
  ka_expectedNativeSessionId :: "string option"

record kit_binding =
  kb_execution :: kit_ref
  kb_nativeSessionId :: "string option"
  kb_resumeEligible :: bool
  kb_attempt :: "kit_attempt option"

definition isKitExecutionRef :: "kit_ref \<Rightarrow> bool" where
  "isKitExecutionRef e =
     (ke_version e = 1 \<and> isNonEmptyString (ke_releaseId e) \<and> isNonEmptyString (ke_configStamp e) \<and>
      (case ke_scopeRoot e of None \<Rightarrow> True | Some r \<Rightarrow> isNonEmptyString r) \<and>
      (case ke_scopeHead e of None \<Rightarrow> True | Some h \<Rightarrow> isNonEmptyString h) \<and>
      isNonEmptyString (ke_contextIdentity e))"

definition isKitSessionAttempt :: "kit_attempt \<Rightarrow> bool" where
  "isKitSessionAttempt a =
     (isNonEmptyString (ka_id a) \<and>
      (case (ka_acquiredAt a, ka_expiresAt a) of (Some x, Some y) \<Rightarrow> y > x | _ \<Rightarrow> False) \<and>
      (case ka_expectedNativeSessionId a of None \<Rightarrow> True | Some v \<Rightarrow> isKitNativeSessionId v))"

definition cloneKitSessionAttempt :: "kit_attempt \<Rightarrow> string + kit_attempt" where
  "cloneKitSessionAttempt a =
     (if \<not> isKitSessionAttempt a then Inl ''Invalid Personal Agent Config Kit session attempt''
      else Inr (a\<lparr>ka_expectedNativeSessionId := None\<rparr>))"

definition isKitSessionAttemptActive :: "kit_attempt \<Rightarrow> time \<Rightarrow> bool" where
  "isKitSessionAttemptActive a now = (case ka_expiresAt a of None \<Rightarrow> False | Some e \<Rightarrow> e > now)"

definition isKitSessionBinding :: "kit_binding \<Rightarrow> bool" where
  "isKitSessionBinding b =
     (isKitExecutionRef (kb_execution b) \<and>
      (case kb_nativeSessionId b of None \<Rightarrow> True | Some v \<Rightarrow> isKitNativeSessionId v) \<and>
      (case kb_attempt b of None \<Rightarrow> True | Some a \<Rightarrow> isKitSessionAttempt a))"

definition cloneKitExecutionRef :: "kit_ref \<Rightarrow> string + kit_ref" where
  "cloneKitExecutionRef e =
     (if \<not> isKitExecutionRef e then Inl ''Invalid Personal Agent Config Kit execution reference''
      else Inr \<lparr>ke_version = 1, ke_releaseId = ke_releaseId e, ke_configStamp = ke_configStamp e,
        ke_scopeRoot = ke_scopeRoot e, ke_scopeHead = ke_scopeHead e,
        ke_contextIdentity = ke_contextIdentity e\<rparr>)"

definition cloneKitSessionBinding :: "kit_binding \<Rightarrow> string + kit_binding" where
  "cloneKitSessionBinding b =
     (if \<not> isKitSessionBinding b then Inl ''Invalid Personal Agent Config Kit session binding''
      else
        (case cloneKitExecutionRef (kb_execution b) of
           Inl e \<Rightarrow> Inl e
         | Inr x \<Rightarrow>
            (case kb_attempt b of
               None \<Rightarrow> Inr \<lparr>kb_execution = x, kb_nativeSessionId = None, kb_resumeEligible = False,
                 kb_attempt = None\<rparr>
             | Some a \<Rightarrow>
                 (case cloneKitSessionAttempt a of
                    Inl e \<Rightarrow> Inl e
                  | Inr a' \<Rightarrow> Inr \<lparr>kb_execution = x, kb_nativeSessionId = None,
                      kb_resumeEligible = False, kb_attempt = Some a'\<rparr>))))"

text \<open>JSON.stringify of the identity array, kept as the array: the text determines it.\<close>

type_synonym kit_identity = "int \<times> string \<times> string \<times> string option \<times> string option \<times> string"

definition kitExecutionIdentity :: "kit_ref \<Rightarrow> string + kit_identity" where
  "kitExecutionIdentity e =
     (case cloneKitExecutionRef e of
        Inl err \<Rightarrow> Inl err
      | Inr x \<Rightarrow> Inr (ke_version x, ke_releaseId x, ke_configStamp x, ke_scopeRoot x, ke_scopeHead x,
          ke_contextIdentity x))"

definition personalKitJobRequestKey :: "string \<Rightarrow> string" where
  "personalKitJobRequestKey jobId = ''kit:'' @ jobId"

definition sameKitExecutionRef :: "kit_ref \<Rightarrow> kit_ref \<Rightarrow> string + bool" where
  "sameKitExecutionRef l r =
     (case kitExecutionIdentity l of
        Inl e \<Rightarrow> Inl e
      | Inr x \<Rightarrow> (case kitExecutionIdentity r of Inl e \<Rightarrow> Inl e | Inr y \<Rightarrow> Inr (x = y)))"

datatype scope_key =
    Scope_only "string option"
  | Scope_pointer "string option" string string

definition kitScopeKey :: "string option \<Rightarrow> string option \<Rightarrow> string option \<Rightarrow> string + scope_key" where
  "kitScopeKey scopeRoot configStamp owner =
     (if (case scopeRoot of None \<Rightarrow> False | Some r \<Rightarrow> \<not> isNonEmptyString r)
      then Inl ''Kit scope root must be a non-empty canonical path or null''
      else if configStamp = None \<and> owner = None then Inr (Scope_only scopeRoot)
      else if \<not> isNonEmptyString (nullish configStamp [])
      then Inl ''Kit active pointer requires a non-empty config stamp''
      else if \<not> isNonEmptyString (nullish owner [])
      then Inl ''Kit active pointer requires a non-empty owner principal''
      else Inr (Scope_pointer scopeRoot (nullish configStamp []) (nullish owner [])))"

section \<open>Artifact admission and working directories\<close>

record artifact_input =
  ai_cli :: string
  ai_transport :: "string option"
  ai_ownerHostname :: "string option"
  ai_mcpArtifactPath :: "string option"
  ai_mcpArtifactScope :: "string option"
  ai_kitExecution :: "kit_ref option"

definition hasNonEmptyString :: "string option \<Rightarrow> bool" where
  "hasNonEmptyString v = (case v of None \<Rightarrow> False | Some s \<Rightarrow> isNonEmptyString s)"

definition assertMcpArtifactAdmissionInvariant :: "artifact_input \<Rightarrow> string option" where
  "assertMcpArtifactAdmissionInvariant i =
     (let hasPath = (ai_mcpArtifactPath i \<noteq> None); hasScope = (ai_mcpArtifactScope i \<noteq> None) in
      if ai_kitExecution i \<noteq> None \<and> (hasPath \<or> hasScope)
      then Some ''Personal Agent Config Kit jobs cannot carry Claude MCP artifact provenance''
      else if \<not> hasPath \<and> \<not> hasScope then None
      else if \<not> hasNonEmptyString (ai_mcpArtifactPath i) \<or> \<not> hasNonEmptyString (ai_mcpArtifactScope i)
      then Some ''Claude MCP artifact provenance requires non-empty path and scope''
      else if ai_cli i \<noteq> ''claude''
      then Some ''Claude MCP artifact provenance requires the Claude provider''
      else if nullish (ai_transport i) ''process'' \<noteq> ''process''
      then Some ''Claude MCP artifact provenance requires process transport''
      else if \<not> hasNonEmptyString (ai_ownerHostname i)
      then Some ''Claude MCP artifact provenance requires an origin hostname''
      else None)"

datatype cwd_scope = Cwd_caller | Cwd_workspace | Cwd_worktree | Cwd_neutral | Cwd_unknown

record cwd_record =
  cwd_scope_of :: cwd_scope
  cwd_path :: "string option"
  cwd_alias :: "string option"

record cwd_resolution =
  cr_worktreePath :: "string option"
  cr_effectiveWorkingDir :: "string option"
  cr_workspaceAlias :: "string option"

definition describeJobCwd :: "string option \<Rightarrow> cwd_resolution option \<Rightarrow> cwd_record" where
  "describeJobCwd cwd resolution =
     (case cwd of
        None \<Rightarrow> \<lparr>cwd_scope_of = Cwd_neutral, cwd_path = None, cwd_alias = None\<rparr>
      | Some d \<Rightarrow>
         (case resolution of
            None \<Rightarrow> \<lparr>cwd_scope_of = Cwd_unknown, cwd_path = Some d, cwd_alias = None\<rparr>
          | Some r \<Rightarrow>
              if cr_worktreePath r \<noteq> None
              then \<lparr>cwd_scope_of = Cwd_worktree, cwd_path = Some d, cwd_alias = cr_workspaceAlias r\<rparr>
              else if cr_effectiveWorkingDir r \<noteq> None \<and> cr_effectiveWorkingDir r = Some d
              then \<lparr>cwd_scope_of = Cwd_caller, cwd_path = Some d, cwd_alias = cr_workspaceAlias r\<rparr>
              else \<lparr>cwd_scope_of = (if cr_workspaceAlias r = None then Cwd_unknown else Cwd_workspace),
                     cwd_path = Some d, cwd_alias = cr_workspaceAlias r\<rparr>))"

definition parseJobCwdScope :: "string option \<Rightarrow> cwd_scope option" where
  "parseJobCwdScope v =
     (if v = Some ''caller'' then Some Cwd_caller
      else if v = Some ''workspace'' then Some Cwd_workspace
      else if v = Some ''worktree'' then Some Cwd_worktree
      else if v = Some ''neutral'' then Some Cwd_neutral
      else if v = Some ''unknown'' then Some Cwd_unknown
      else None)"

section \<open>Laws\<close>

lemma principalCanAccess_iff:
  "principalCanAccess row caller \<longleftrightarrow> row = Some caller \<or> (row = None \<and> caller = ''local'')"
  by (simp add: principalCanAccess_def)

lemma owner_nonempty: "resolveOwnerPrincipal ctx \<noteq> []"
  by (auto simp: resolveOwnerPrincipal_def split: option.split)

lemma clone_ref_id: "isKitExecutionRef e \<Longrightarrow> cloneKitExecutionRef e = Inr e"
  by (cases e) (simp add: cloneKitExecutionRef_def isKitExecutionRef_def)

lemma same_ref_iff:
  "isKitExecutionRef l \<Longrightarrow> isKitExecutionRef r \<Longrightarrow> sameKitExecutionRef l r = Inr (l = r)"
  by (cases l; cases r) (auto simp: sameKitExecutionRef_def kitExecutionIdentity_def clone_ref_id)

lemma match_classes_length: "match_classes ps s \<Longrightarrow> length s = length ps"
  by (induction ps s rule: match_classes.induct) auto

lemma match_classes_mono:
  "match_classes ps s \<Longrightarrow> list_all2 (\<lambda>p q. \<forall>c. p c \<longrightarrow> q c) ps qs \<Longrightarrow> match_classes qs s"
  by (induction ps s arbitrary: qs rule: match_classes.induct) (auto simp: list_all2_Cons1)

lemma match_classes_set: "match_classes ps s \<Longrightarrow> c \<in> set s \<Longrightarrow> \<exists>p\<in>set ps. p c"
  by (induction ps s rule: match_classes.induct) auto

lemma version_hex: "version_char c \<Longrightarrow> hex_char c"
  by (simp add: version_char_def hex_char_def)

lemma variant_hex: "variant_char c \<Longrightarrow> hex_char c"
  by (auto simp: variant_char_def hex_char_def)

lemma strict_is_vibe: "isKitNativeSessionId v \<Longrightarrow> isVibeNativeSessionId v"
  unfolding isKitNativeSessionId_def isVibeNativeSessionId_def
  by (erule match_classes_mono)
    (simp add: KIT_NATIVE_SESSION_ID_def VIBE_NATIVE_SESSION_ID_def version_hex variant_hex
      eval_nat_numeral)

lemma vibe_shape:
  assumes "isVibeNativeSessionId v"
  shows "length v = 36" and "\<forall>c\<in>set v. hex_char c \<or> c = CHR ''-''" and "hex_char (hd v)"
proof -
  note m = assms [unfolded isVibeNativeSessionId_def]
  show "length v = 36" using match_classes_length [OF m] by (simp add: VIBE_NATIVE_SESSION_ID_def)
  show "\<forall>c\<in>set v. hex_char c \<or> c = CHR ''-''"
    using match_classes_set [OF m] by (auto simp: VIBE_NATIVE_SESSION_ID_def dash_def)
  show "hex_char (hd v)"
    using m by (cases v) (simp_all add: VIBE_NATIVE_SESSION_ID_def eval_nat_numeral)
qed

section \<open>Properties\<close>

text \<open>
  C38: one ownership rule, two spellings. The SQL prefilter keeps exactly the rows the access
  predicate allows, legacy rows without an owner included, for every caller.
\<close>

theorem scope_sql_agrees:
  "scope_keeps (principalScopeSql caller) rowOwner = principalCanAccess rowOwner caller"
  by (auto simp: principalScopeSql_def principalCanAccess_def sql_eq_def sql_or_def split: option.split)

text \<open>
  Isolation of principals. Rows stamped for one request are accessible to exactly the requests
  that resolve to the same principal; a row without an owner is accessible to local callers only.
\<close>

theorem stamped_rows_isolated:
  "principalCanAccess (Some (resolveOwnerPrincipal c1)) (resolveOwnerPrincipal c2)
     = (resolveOwnerPrincipal c1 = resolveOwnerPrincipal c2)
   \<and> principalCanAccess None (resolveOwnerPrincipal c2) = (resolveOwnerPrincipal c2 = ''local'')"
  by (simp add: principalCanAccess_iff eq_commute)

text \<open>
  Native session ids are safe as arguments. Whatever provider-scoped guard applies, an accepted
  id has 36 characters, all hexadecimal digits or dashes, and does not start with a dash, so it can
  be taken neither for a flag nor for shell or path syntax; the strict guard accepts a subset.
\<close>

theorem native_session_id_charset:
  assumes "isKitNativeSessionIdForProvider p v"
  shows "length v = 36 \<and> list_all (\<lambda>c. hex_char c \<or> c = CHR ''-'') v \<and> hd v \<noteq> CHR ''-''
    \<and> isVibeNativeSessionId v"
proof -
  have vibe: "isVibeNativeSessionId v"
    using assms strict_is_vibe by (auto simp: isKitNativeSessionIdForProvider_def split: if_splits)
  moreover have "hd v \<noteq> CHR ''-''" using vibe_shape(3) [OF vibe] by (auto simp: hex_char_def)
  ultimately show ?thesis using vibe_shape [OF vibe] by (simp add: list_all_iff)
qed

theorem native_session_id_charset_witness:
  "length ''0a1b2c3d-0a1b-4a1b-8a1b-0a1b2c3d4e5f'' = 36
   \<and> isVibeNativeSessionId ''0a1b2c3d-0a1b-4a1b-8a1b-0a1b2c3d4e5f''"
proof -
  have "isKitNativeSessionIdForProvider (Some ''claude'') ''0a1b2c3d-0a1b-4a1b-8a1b-0a1b2c3d4e5f''"
    by code_simp
  from native_session_id_charset [OF this] show ?thesis by blast
qed

text \<open>
  Durable Kit bindings carry no provider handle. Cloning a binding for storage either rejects it
  or yields the same execution with the native session id, the resume marker and the attempt's
  expected native id cleared, and cloning again changes nothing.
\<close>

theorem stored_binding_has_no_native_state:
  "case cloneKitSessionBinding b of
     Inl _ \<Rightarrow> \<not> isKitSessionBinding b
   | Inr c \<Rightarrow> kb_execution c = kb_execution b \<and> kb_nativeSessionId c = None \<and> kb_resumeEligible c = False
       \<and> map_option ka_expectedNativeSessionId (kb_attempt c) \<in> {None, Some None}
       \<and> map_option ka_id (kb_attempt c) = map_option ka_id (kb_attempt b)
       \<and> cloneKitSessionBinding c = Inr c"
proof (cases "isKitSessionBinding b")
  case True
  then have r: "cloneKitExecutionRef (kb_execution b) = Inr (kb_execution b)"
    by (simp add: isKitSessionBinding_def clone_ref_id)
  show ?thesis
  proof (cases "kb_attempt b")
    case None
    then show ?thesis using True r
      by (simp add: cloneKitSessionBinding_def isKitSessionBinding_def)
  next
    case (Some a)
    then have "isKitSessionAttempt a" using True by (simp add: isKitSessionBinding_def)
    moreover from this have "isKitSessionAttempt (a\<lparr>ka_expectedNativeSessionId := None\<rparr>)"
      by (simp add: isKitSessionAttempt_def)
    ultimately show ?thesis using True r Some
      by (simp add: cloneKitSessionBinding_def isKitSessionBinding_def cloneKitSessionAttempt_def)
  qed
qed (simp add: cloneKitSessionBinding_def)

end
