(* ===== verification/Job_Store.thy ===== *)
theory Job_Store
  imports Identity
begin

text \<open>
  The durable job rows and the in-process store MemoryJobStore (src/src/job-store.ts): admission,
  the status transitions guarded by the row's current status, capture accounting, Kit attempt fences
  and finalisation, MCP artifact acknowledgement, deduplication lookup, pinning and eviction.

  A row is polymorphic in the type of its flags: bool here, a nullable-free integer column in the
  SQLite theory. Timestamps are the instants their ISO strings denote (the strings compare like
  them); the clock reading is an argument. Ids, JSON columns and text are strings.
\<close>

section \<open>Rows\<close>

datatype job_status = SQueued | SRunning | SCompleted | SFailed | SCanceled | SOrphaned

datatype job_transport = TProcess | THttp

datatype capture_status = Captured_whole | Captured_to_limit | Not_captured

datatype args_json = Redacted_args | Args "string list"

record 'b capture_cols =
  cap_status :: "capture_status option"
  cap_outputDroppedBytes :: nat
  cap_nativeTranscript :: "string option"
  cap_nativeTranscriptBytes :: nat
  cap_nativeTranscriptTruncated :: 'b
  cap_nativeTranscriptDroppedBytes :: nat
  cap_error :: "string option"

record 'b job_row =
  jr_id :: string
  jr_correlationId :: string
  jr_requestKey :: string
  jr_cli :: string
  jr_args :: args_json
  jr_outputFormat :: "string option"
  jr_compressResponse :: "'b option"
  jr_status :: job_status
  jr_exitCode :: "int option"
  jr_stdout :: string
  jr_stderr :: string
  jr_outputTruncated :: 'b
  jr_error :: "string option"
  jr_errorCategory :: "string option"
  jr_retryable :: "'b option"
  jr_startedAt :: time
  jr_finishedAt :: "time option"
  jr_pid :: "nat option"
  jr_expiresAt :: time
  jr_ownerPrincipal :: "principal option"
  jr_transport :: job_transport
  jr_httpStatus :: "int option"
  jr_payloadJson :: "string option"
  jr_ownerInstance :: "string option"
  jr_ownerHostname :: "string option"
  jr_mcpArtifactPath :: "string option"
  jr_mcpArtifactScope :: "string option"
  jr_mcpCleanupPending :: 'b
  jr_leaseDeadline :: "time option"
  jr_kitExecution :: "kit_ref option"
  jr_kitSessionId :: "string option"
  jr_kitFinalized :: 'b
  jr_kitFinalizedAt :: "time option"
  jr_progressJson :: "string option"
  jr_cwd :: "cwd_record option"
  jr_replayContext :: "string option"
  jr_captureFormat :: "string option"
  jr_capture :: "'b capture_cols"

type_synonym mem_row = "bool job_row"

definition FAR_FUTURE :: time where "FAR_FUTURE = 253402300799999"

definition KIT_FAILURE_WITHHELD :: string where
  "KIT_FAILURE_WITHHELD =
     ''Personal Agent Config Kit provider execution failed; detailed output is withheld''"

definition CAPTURE_ACCOUNTING_RECOVERY_ERROR :: string where
  "CAPTURE_ACCOUNTING_RECOVERY_ERROR = ''Gateway stopped before capture accounting completed''"

definition open_status :: "job_status \<Rightarrow> bool" where
  "open_status st = (st = SQueued \<or> st = SRunning)"

definition terminal_status :: "job_status \<Rightarrow> bool" where
  "terminal_status st = (st = SCompleted \<or> st = SFailed \<or> st = SCanceled)"

definition retentionExpiry :: "time \<Rightarrow> int option \<Rightarrow> time" where
  "retentionExpiry now retention = (case retention of None \<Rightarrow> FAR_FUTURE | Some r \<Rightarrow> now + r)"

section \<open>Inputs\<close>

record start_input =
  si_id :: string
  si_correlationId :: string
  si_requestKey :: string
  si_cli :: string
  si_args :: "string list"
  si_outputFormat :: "string option"
  si_compressResponse :: "bool option"
  si_startedAt :: time
  si_pid :: "nat option"
  si_ownerPrincipal :: "principal option"
  si_ownerInstance :: "string option"
  si_ownerHostname :: "string option"
  si_mcpArtifactPath :: "string option"
  si_mcpArtifactScope :: "string option"
  si_transport :: "job_transport option"
  si_payloadJson :: "string option"
  si_kitExecution :: "kit_ref option"
  si_kitSessionId :: "string option"
  si_validationAdmission :: bool
  si_cwd :: "cwd_record option"
  si_replayContext :: "string option"
  si_captureFormat :: "string option"

record capture_input =
  ci_captureStatus :: capture_status
  ci_outputDroppedBytes :: nat
  ci_nativeTranscript :: "string option"
  ci_nativeTranscriptBytes :: nat
  ci_nativeTranscriptTruncated :: bool
  ci_nativeTranscriptDroppedBytes :: nat
  ci_captureError :: "string option"

text \<open>An absent httpStatus (None) differs from an explicit null (Some None).\<close>

record completion =
  jc_id :: string
  jc_status :: job_status
  jc_exitCode :: "int option"
  jc_stdout :: string
  jc_stderr :: string
  jc_outputTruncated :: bool
  jc_error :: "string option"
  jc_errorCategory :: "string option"
  jc_retryable :: "bool option"
  jc_finishedAt :: time
  jc_httpStatus :: "int option option"
  jc_progressJson :: "string option"
  jc_capture :: "capture_input option"

datatype fence_state = Admitted | Recovered

record kit_fence =
  kf_attemptId :: string
  kf_state :: fence_state
  kf_cli :: string
  kf_kitExecution :: kit_ref
  kf_kitSessionId :: string
  kf_ownerPrincipal :: "principal option"
  kf_fencedAt :: time

datatype fence_result = Reserved | Already_recovered | Conflict

record store_cfg =
  sc_retentionMs :: "int option"
  sc_dedupWindowMs :: int
  sc_leaseTtlMs :: int

record mem_store =
  ms_rows :: "(string, mem_row) js_map"
  ms_fences :: "(string, kit_fence) js_map"

definition mem_empty :: mem_store where
  "mem_empty = \<lparr>ms_rows = [], ms_fences = []\<rparr>"

section \<open>Admission\<close>

definition transport_name :: "job_transport \<Rightarrow> string" where
  "transport_name t = (case t of TProcess \<Rightarrow> ''process'' | THttp \<Rightarrow> ''http'')"

definition start_artifact :: "start_input \<Rightarrow> artifact_input" where
  "start_artifact i = \<lparr>ai_cli = si_cli i, ai_transport = map_option transport_name (si_transport i),
     ai_ownerHostname = si_ownerHostname i, ai_mcpArtifactPath = si_mcpArtifactPath i,
     ai_mcpArtifactScope = si_mcpArtifactScope i, ai_kitExecution = si_kitExecution i\<rparr>"

definition truthy :: "string option \<Rightarrow> bool" where
  "truthy v = (v \<noteq> None \<and> v \<noteq> Some [])"

definition empty_capture :: "'b \<Rightarrow> 'b capture_cols" where
  "empty_capture no = \<lparr>cap_status = None, cap_outputDroppedBytes = 0, cap_nativeTranscript = None,
     cap_nativeTranscriptBytes = 0, cap_nativeTranscriptTruncated = no,
     cap_nativeTranscriptDroppedBytes = 0, cap_error = None\<rparr>"

text \<open>The row a new job gets; no and yes are the two flag values of the backend.\<close>

definition new_row :: "(bool \<Rightarrow> 'b) \<Rightarrow> store_cfg \<Rightarrow> time \<Rightarrow> start_input \<Rightarrow> 'b job_row" where
  "new_row flag cfg now i =
     (let kit = (si_kitExecution i \<noteq> None) in
      \<lparr>jr_id = si_id i, jr_correlationId = si_correlationId i,
       jr_requestKey = (if kit then personalKitJobRequestKey (si_id i) else si_requestKey i),
       jr_cli = si_cli i,
       jr_args = (if kit then Redacted_args else Args (si_args i)),
       jr_outputFormat = si_outputFormat i,
       jr_compressResponse = map_option flag (si_compressResponse i),
       jr_status = SQueued, jr_exitCode = None, jr_stdout = [], jr_stderr = [],
       jr_outputTruncated = flag False, jr_error = None, jr_errorCategory = None,
       jr_retryable = None, jr_startedAt = si_startedAt i, jr_finishedAt = None,
       jr_pid = si_pid i, jr_expiresAt = FAR_FUTURE,
       jr_ownerPrincipal = si_ownerPrincipal i,
       jr_transport = nullish (si_transport i) TProcess,
       jr_httpStatus = None,
       jr_payloadJson = (if kit then None else si_payloadJson i),
       jr_ownerInstance = si_ownerInstance i, jr_ownerHostname = si_ownerHostname i,
       jr_mcpArtifactPath = (if kit then None else si_mcpArtifactPath i),
       jr_mcpArtifactScope = (if kit then None else si_mcpArtifactScope i),
       jr_mcpCleanupPending =
         flag (\<not> kit \<and> truthy (si_mcpArtifactPath i) \<and> truthy (si_mcpArtifactScope i)),
       jr_leaseDeadline = Some (now + sc_leaseTtlMs cfg),
       jr_kitExecution = si_kitExecution i, jr_kitSessionId = si_kitSessionId i,
       jr_kitFinalized = flag False, jr_kitFinalizedAt = None, jr_progressJson = None,
       jr_cwd = (if kit then None else si_cwd i),
       jr_replayContext = (if kit then None else si_replayContext i),
       jr_captureFormat = (if kit then None else si_captureFormat i),
       jr_capture = empty_capture (flag False)\<rparr>)"

definition insertKitAttemptFence :: "kit_fence \<Rightarrow> mem_store \<Rightarrow> (string + bool) \<times> mem_store" where
  "insertKitAttemptFence f s =
     (if js_get (ms_fences s) (kf_attemptId f) \<noteq> None then (Inr False, s)
      else
        (case cloneKitExecutionRef (kf_kitExecution f) of
           Inl e \<Rightarrow> (Inl e, s)
         | Inr x \<Rightarrow>
             (Inr True, s\<lparr>ms_fences := js_set (ms_fences s) (kf_attemptId f)
                (f\<lparr>kf_kitExecution := x\<rparr>)\<rparr>)))"

definition start_fence :: "start_input \<Rightarrow> kit_ref \<Rightarrow> string \<Rightarrow> kit_fence" where
  "start_fence i x session = \<lparr>kf_attemptId = si_id i, kf_state = Admitted, kf_cli = si_cli i,
     kf_kitExecution = x, kf_kitSessionId = session, kf_ownerPrincipal = si_ownerPrincipal i,
     kf_fencedAt = si_startedAt i\<rparr>"

definition mem_recordStart :: "store_cfg \<Rightarrow> time \<Rightarrow> start_input \<Rightarrow> mem_store \<Rightarrow> string option \<times> mem_store" where
  "mem_recordStart cfg now i s =
     (case assertMcpArtifactAdmissionInvariant (start_artifact i) of
        Some e \<Rightarrow> (Some e, s)
      | None \<Rightarrow>
         (let (err, s1) =
            (case si_kitExecution i of
               None \<Rightarrow> (None, s)
             | Some x \<Rightarrow>
                 (let session = str_trim (nullish (si_kitSessionId i) []) in
                  if session = [] then (Some ''Kit job admission requires a gateway kitSessionId'', s)
                  else
                    (case insertKitAttemptFence (start_fence i x session) s of
                       (Inl e, s') \<Rightarrow> (Some e, s')
                     | (Inr False, s') \<Rightarrow>
                         (Some (''Kit job id '' @ si_id i
                            @ '' is already admitted or permanently recovered''), s')
                     | (Inr True, s') \<Rightarrow> (None, s')))) in
          case err of
            Some e \<Rightarrow> (Some e, s1)
          | None \<Rightarrow>
              if si_validationAdmission i
              then (Some ''Validation job admission requires a durable validation-run store'', s1)
              else (None, s1\<lparr>ms_rows := js_set (ms_rows s1) (si_id i) (new_row id cfg now i)\<rparr>)))"

text \<open>A caller without a principal (None) never matches a recovered fence.\<close>

definition recoveredFenceOwnerMatches :: "principal option \<Rightarrow> principal option \<Rightarrow> bool" where
  "recoveredFenceOwnerMatches stored caller =
     (case caller of None \<Rightarrow> False | Some c \<Rightarrow> principalCanAccess stored c)"

text \<open>
  existing and input are compared with sameKitExecutionRef; both references are valid where it is
  called (the stored one was cloned, and input was refused by the clone otherwise).
\<close>

definition fenceUnadmittedKitAttempt :: "kit_fence \<Rightarrow> mem_store \<Rightarrow> (string + fence_result) \<times> mem_store" where
  "fenceUnadmittedKitAttempt f s =
     (case insertKitAttemptFence (f\<lparr>kf_state := Recovered\<rparr>) s of
        (Inl e, s') \<Rightarrow> (Inl e, s')
      | (Inr True, s') \<Rightarrow> (Inr Reserved, s')
      | (Inr False, s') \<Rightarrow>
          (case js_get (ms_fences s') (kf_attemptId f) of
             None \<Rightarrow> (Inr Conflict, s')
           | Some ex \<Rightarrow>
               if kf_state ex = Recovered \<and> kf_cli ex = kf_cli f
                  \<and> kf_kitSessionId ex = kf_kitSessionId f
                  \<and> recoveredFenceOwnerMatches (kf_ownerPrincipal ex) (kf_ownerPrincipal f)
               then (case sameKitExecutionRef (kf_kitExecution ex) (kf_kitExecution f) of
                       Inl e \<Rightarrow> (Inl e, s')
                     | Inr same \<Rightarrow> (Inr (if same then Already_recovered else Conflict), s'))
               else (Inr Conflict, s')))"

section \<open>Guarded row updates\<close>

text \<open>get the row, return false when it is absent or the guard fails, else write the fields.\<close>

definition mem_update :: "string \<Rightarrow> (mem_row \<Rightarrow> bool) \<Rightarrow> (mem_row \<Rightarrow> mem_row) \<Rightarrow> mem_store \<Rightarrow> bool \<times> mem_store" where
  "mem_update k guard upd s =
     (case js_get (ms_rows s) k of
        None \<Rightarrow> (False, s)
      | Some r \<Rightarrow> if guard r then (True, s\<lparr>ms_rows := js_set (ms_rows s) k (upd r)\<rparr>) else (False, s))"

definition mem_markRunning :: "store_cfg \<Rightarrow> time \<Rightarrow> string \<Rightarrow> nat option \<Rightarrow> mem_store \<Rightarrow> bool \<times> mem_store" where
  "mem_markRunning cfg now k pid =
     mem_update k (\<lambda>r. jr_status r = SQueued)
       (\<lambda>r. r\<lparr>jr_status := SRunning, jr_pid := pid, jr_leaseDeadline := Some (now + sc_leaseTtlMs cfg)\<rparr>)"

definition heartbeat_row :: "store_cfg \<Rightarrow> time \<Rightarrow> string \<Rightarrow> 'b job_row \<Rightarrow> 'b job_row" where
  "heartbeat_row cfg now inst r =
     (if jr_ownerInstance r = Some inst \<and> open_status (jr_status r)
      then r\<lparr>jr_leaseDeadline := Some (now + sc_leaseTtlMs cfg)\<rparr> else r)"

definition mem_heartbeat :: "store_cfg \<Rightarrow> time \<Rightarrow> string \<Rightarrow> mem_store \<Rightarrow> nat \<times> mem_store" where
  "mem_heartbeat cfg now inst s =
     (length (filter (\<lambda>(k, r). jr_ownerInstance r = Some inst \<and> open_status (jr_status r)) (ms_rows s)),
      s\<lparr>ms_rows := map (\<lambda>(k, r). (k, heartbeat_row cfg now inst r)) (ms_rows s)\<rparr>)"

definition swept_status :: "job_status \<Rightarrow> bool" where
  "swept_status st = (st = SCompleted \<or> st = SFailed \<or> st = SCanceled \<or> st = SOrphaned)"

definition mem_selectPendingCleanups :: "string \<Rightarrow> mem_store \<Rightarrow> (string \<times> string \<times> string) list" where
  "mem_selectPendingCleanups host s =
     map (\<lambda>(k, r). (jr_id r, the (jr_mcpArtifactScope r), the (jr_mcpArtifactPath r)))
       (filter (\<lambda>(k, r). jr_ownerHostname r = Some host \<and> jr_cli r = ''claude''
           \<and> jr_transport r = TProcess \<and> jr_mcpCleanupPending r \<and> jr_mcpArtifactPath r \<noteq> None
           \<and> jr_mcpArtifactScope r \<noteq> None \<and> swept_status (jr_status r)) (ms_rows s))"

definition mem_acknowledgeCleanup :: "string \<Rightarrow> string \<Rightarrow> string \<Rightarrow> string \<Rightarrow> mem_store \<Rightarrow> bool \<times> mem_store" where
  "mem_acknowledgeCleanup k host scope path =
     mem_update k
       (\<lambda>r. jr_ownerHostname r = Some host \<and> jr_mcpArtifactScope r = Some scope
          \<and> jr_mcpArtifactPath r = Some path \<and> jr_mcpCleanupPending r \<and> swept_status (jr_status r))
       (\<lambda>r. r\<lparr>jr_mcpCleanupPending := False\<rparr>)"

definition mem_recordOutput ::
    "string \<Rightarrow> string \<Rightarrow> string \<Rightarrow> bool \<Rightarrow> job_status list \<Rightarrow> mem_store \<Rightarrow> bool \<times> mem_store" where
  "mem_recordOutput k out err trunc expected =
     mem_update k (\<lambda>r. jr_status r \<in> set expected)
       (\<lambda>r. r\<lparr>jr_stdout := if jr_kitExecution r \<noteq> None then [] else out,
              jr_stderr := if jr_kitExecution r \<noteq> None then [] else err,
              jr_outputTruncated := trunc\<rparr>)"

definition mem_recordProgress :: "string \<Rightarrow> string \<Rightarrow> mem_store \<Rightarrow> mem_store" where
  "mem_recordProgress k p s = snd (mem_update k (\<lambda>_. True) (\<lambda>r. r\<lparr>jr_progressJson := Some p\<rparr>) s)"

definition mem_recordProgressIfStatus :: "string \<Rightarrow> job_status \<Rightarrow> string \<Rightarrow> mem_store \<Rightarrow> bool \<times> mem_store" where
  "mem_recordProgressIfStatus k st p =
     mem_update k (\<lambda>r. jr_status r = st) (\<lambda>r. r\<lparr>jr_progressJson := Some p\<rparr>)"

definition capture_of :: "(bool \<Rightarrow> 'b) \<Rightarrow> capture_input \<Rightarrow> 'b capture_cols" where
  "capture_of flag c = \<lparr>cap_status = Some (ci_captureStatus c),
     cap_outputDroppedBytes = ci_outputDroppedBytes c,
     cap_nativeTranscript = ci_nativeTranscript c,
     cap_nativeTranscriptBytes = ci_nativeTranscriptBytes c,
     cap_nativeTranscriptTruncated = flag (ci_nativeTranscriptTruncated c),
     cap_nativeTranscriptDroppedBytes = ci_nativeTranscriptDroppedBytes c,
     cap_error = ci_captureError c\<rparr>"

definition mem_recordCapture :: "string \<Rightarrow> string \<Rightarrow> capture_input \<Rightarrow> mem_store \<Rightarrow> bool \<times> mem_store" where
  "mem_recordCapture k inst c =
     mem_update k
       (\<lambda>r. \<not> (jr_ownerInstance r \<noteq> Some inst
          \<or> (cap_status (jr_capture r) \<noteq> None
             \<and> \<not> (cap_status (jr_capture r) = Some Not_captured
                 \<and> cap_error (jr_capture r) = Some CAPTURE_ACCOUNTING_RECOVERY_ERROR))
          \<or> jr_kitExecution r \<noteq> None
          \<or> jr_status r = SQueued \<or> jr_status r = SRunning \<or> jr_status r = SOrphaned))
       (\<lambda>r. r\<lparr>jr_capture := capture_of id c\<rparr>)"

definition mem_complete_row :: "store_cfg \<Rightarrow> completion \<Rightarrow> mem_row \<Rightarrow> mem_row" where
  "mem_complete_row cfg i r =
     (let kit = (jr_kitExecution r \<noteq> None);
          r1 = r\<lparr>jr_status := jc_status i, jr_exitCode := jc_exitCode i,
             jr_stdout := (if kit then [] else jc_stdout i),
             jr_stderr := (if kit then [] else jc_stderr i),
             jr_outputTruncated := jc_outputTruncated i,
             jr_error := (if kit then (if jc_status i = SCompleted then None else Some KIT_FAILURE_WITHHELD)
                          else jc_error i),
             jr_errorCategory := jc_errorCategory i, jr_retryable := jc_retryable i,
             jr_finishedAt := Some (jc_finishedAt i),
             jr_expiresAt := retentionExpiry (jc_finishedAt i) (sc_retentionMs cfg),
             jr_leaseDeadline := None,
             jr_httpStatus := (case jc_httpStatus i of None \<Rightarrow> jr_httpStatus r | Some h \<Rightarrow> h),
             jr_progressJson := (case jc_progressJson i of None \<Rightarrow> jr_progressJson r | Some p \<Rightarrow> Some p)\<rparr> in
      case jc_capture i of
        Some c \<Rightarrow> if \<not> kit \<and> cap_status (jr_capture r) = None
                  then r1\<lparr>jr_capture := capture_of id c\<rparr> else r1
      | None \<Rightarrow> r1)"

definition completable :: "job_status \<Rightarrow> bool" where
  "completable st = (st = SQueued \<or> st = SRunning \<or> st = SOrphaned)"

definition mem_recordComplete :: "store_cfg \<Rightarrow> completion \<Rightarrow> mem_store \<Rightarrow> bool \<times> mem_store" where
  "mem_recordComplete cfg i =
     mem_update (jc_id i) (\<lambda>r. completable (jr_status r)) (mem_complete_row cfg i)"

definition mem_getById :: "string \<Rightarrow> mem_store \<Rightarrow> mem_row option" where
  "mem_getById k s = js_get (ms_rows s) k"

section \<open>Deduplication lookup\<close>

definition reusable :: "time \<Rightarrow> 'b job_row \<Rightarrow> bool" where
  "reusable now r = (jr_status r = SRunning \<or> jr_status r = SCompleted \<or>
     (jr_status r = SQueued \<and> jr_leaseDeadline r \<noteq> None \<and> the (jr_leaseDeadline r) \<ge> now))"

fun best_match :: "store_cfg \<Rightarrow> time \<Rightarrow> string \<Rightarrow> mem_row option \<Rightarrow> (string \<times> mem_row) list \<Rightarrow> mem_row option" where
  "best_match cfg now key best [] = best"
| "best_match cfg now key best ((k, r) # rs) =
     (if jr_requestKey r \<noteq> key then best_match cfg now key best rs
      else if \<not> reusable now r then best_match cfg now key best rs
      else if jr_startedAt r < now - sc_dedupWindowMs cfg then best_match cfg now key best rs
      else if (case best of None \<Rightarrow> True | Some b \<Rightarrow> jr_startedAt r > jr_startedAt b)
      then best_match cfg now key (Some r) rs
      else best_match cfg now key best rs)"

definition mem_findByRequestKey :: "store_cfg \<Rightarrow> time \<Rightarrow> string \<Rightarrow> mem_store \<Rightarrow> mem_row option" where
  "mem_findByRequestKey cfg now key s = best_match cfg now key None (ms_rows s)"

section \<open>Kit finalisation, pins, eviction\<close>

record pending_kit =
  pk_jobId :: string
  pk_cli :: string
  pk_status :: job_status
  pk_kitSessionId :: string
  pk_kitExecution :: kit_ref
  pk_finishedAt :: time
  pk_exitCode :: "int option"
  pk_ownerPrincipal :: "principal option"

definition toPendingKitFinalization :: "mem_row \<Rightarrow> pending_kit option" where
  "toPendingKitFinalization r =
     (if jr_status r = SQueued \<or> jr_status r = SRunning \<or> jr_status r = SOrphaned
         \<or> jr_kitFinalized r \<or> jr_kitExecution r = None \<or> \<not> truthy (jr_kitSessionId r)
         \<or> jr_finishedAt r = None
      then None
      else Some \<lparr>pk_jobId = jr_id r, pk_cli = jr_cli r, pk_status = jr_status r,
        pk_kitSessionId = the (jr_kitSessionId r), pk_kitExecution = the (jr_kitExecution r),
        pk_finishedAt = the (jr_finishedAt r), pk_exitCode = jr_exitCode r,
        pk_ownerPrincipal = jr_ownerPrincipal r\<rparr>)"

record kit_release =
  kr_jobId :: string
  kr_cli :: string
  kr_kitSessionId :: string
  kr_kitExecution :: kit_ref
  kr_ownerPrincipal :: "principal option"

definition toAcknowledgedKitAttemptRelease :: "mem_row \<Rightarrow> kit_release option" where
  "toAcknowledgedKitAttemptRelease r =
     (if jr_status r = SQueued \<or> jr_status r = SRunning \<or> jr_status r = SOrphaned
         \<or> \<not> jr_kitFinalized r \<or> jr_kitExecution r = None \<or> \<not> truthy (jr_kitSessionId r)
      then None
      else Some \<lparr>kr_jobId = jr_id r, kr_cli = jr_cli r, kr_kitSessionId = the (jr_kitSessionId r),
        kr_kitExecution = the (jr_kitExecution r), kr_ownerPrincipal = jr_ownerPrincipal r\<rparr>)"

definition mem_getPendingKitFinalizations :: "mem_store \<Rightarrow> pending_kit list" where
  "mem_getPendingKitFinalizations s =
     sort_key (\<lambda>p. (pk_finishedAt p, pk_jobId p))
       (List.map_filter toPendingKitFinalization (map snd (ms_rows s)))"

definition mem_getAcknowledgedReleases :: "mem_store \<Rightarrow> kit_release list" where
  "mem_getAcknowledgedReleases s =
     sort_key kr_jobId (List.map_filter toAcknowledgedKitAttemptRelease (map snd (ms_rows s)))"

definition mem_markKitTerminalFinalized :: "time \<Rightarrow> string \<Rightarrow> string \<Rightarrow> mem_store \<Rightarrow> bool \<times> mem_store" where
  "mem_markKitTerminalFinalized now k session =
     mem_update k
       (\<lambda>r. \<not> (jr_status r = SQueued \<or> jr_status r = SRunning \<or> jr_status r = SOrphaned
          \<or> jr_kitExecution r = None \<or> jr_kitSessionId r \<noteq> Some session))
       (\<lambda>r. if \<not> jr_kitFinalized r then r\<lparr>jr_kitFinalized := True, jr_kitFinalizedAt := Some now\<rparr> else r)"

definition kit_pinned :: "mem_row \<Rightarrow> bool" where
  "kit_pinned r = (jr_kitExecution r \<noteq> None \<and> (open_status (jr_status r) \<or> \<not> jr_kitFinalized r))"

definition mem_getPinnedKitReleaseIds :: "mem_store \<Rightarrow> string list" where
  "mem_getPinnedKitReleaseIds s =
     sort (remdups (map (\<lambda>(k, r). ke_releaseId (the (jr_kitExecution r)))
       (filter (\<lambda>(k, r). kit_pinned r) (ms_rows s))))"

definition evictable :: "time \<Rightarrow> mem_row \<Rightarrow> bool" where
  "evictable now r = (jr_expiresAt r < now \<and> (jr_kitExecution r = None \<or> jr_kitFinalized r)
     \<and> \<not> jr_mcpCleanupPending r)"

definition mem_evictExpired :: "store_cfg \<Rightarrow> time \<Rightarrow> mem_store \<Rightarrow> nat \<times> mem_store" where
  "mem_evictExpired cfg now s =
     (if sc_retentionMs cfg = None then (0, s)
      else (length (filter (\<lambda>(k, r). evictable now r) (ms_rows s)),
            s\<lparr>ms_rows := filter (\<lambda>(k, r). \<not> evictable now r) (ms_rows s)\<rparr>))"

section \<open>The contract of a store of job rows\<close>

text \<open>
  What the manager relies on, whatever the backend: the two guarded transitions report whether they
  took effect, take effect exactly on the statuses they may leave, and touch no other job; a sweep
  only orphans open rows.
\<close>

locale job_rows =
  fixes ok :: "'s \<Rightarrow> bool"
    and status_of :: "'s \<Rightarrow> string \<Rightarrow> job_status option"
    and complete :: "completion \<Rightarrow> 's \<Rightarrow> bool \<times> 's"
    and mark_running :: "string \<times> nat option \<times> time \<Rightarrow> 's \<Rightarrow> bool \<times> 's"
    and sweep :: "'w \<Rightarrow> 's \<Rightarrow> 's"
  assumes complete_ok: "ok s \<Longrightarrow> ok (snd (complete i s))"
    and complete_result: "ok s \<Longrightarrow>
      fst (complete i s) = (\<exists>st. status_of s (jc_id i) = Some st \<and> completable st)"
    and complete_status: "ok s \<Longrightarrow> status_of (snd (complete i s)) k =
      (if k = jc_id i \<and> fst (complete i s) then Some (jc_status i) else status_of s k)"
    and running_ok: "ok s \<Longrightarrow> ok (snd (mark_running m s))"
    and running_result: "ok s \<Longrightarrow> fst (mark_running m s) = (status_of s (fst m) = Some SQueued)"
    and running_status: "ok s \<Longrightarrow> status_of (snd (mark_running m s)) k =
      (if k = fst m \<and> fst (mark_running m s) then Some SRunning else status_of s k)"
    and sweep_ok: "ok s \<Longrightarrow> ok (sweep w s)"
    and sweep_status: "ok s \<Longrightarrow> status_of (sweep w s) k = status_of s k
      \<or> (\<exists>st. status_of s k = Some st \<and> open_status st \<and> status_of (sweep w s) k = Some SOrphaned)"
begin

lemma first_completion_wins:
  "ok s \<Longrightarrow> fst (complete i s) \<Longrightarrow> terminal_status (jc_status i) \<Longrightarrow> jc_id j = jc_id i \<Longrightarrow>
     \<not> fst (complete j (snd (complete i s)))"
  by (auto simp: complete_result complete_status complete_ok terminal_status_def completable_def)

lemma completion_beats_launch:
  "ok s \<Longrightarrow> fst (complete i s) \<Longrightarrow> terminal_status (jc_status i) \<Longrightarrow> fst m = jc_id i \<Longrightarrow>
     \<not> fst (mark_running m (snd (complete i s)))"
  by (auto simp: running_result complete_status complete_ok terminal_status_def)

lemma terminal_step:
  assumes "ok s" and "status_of s k = Some st" and "terminal_status st"
  shows "status_of (snd (complete i s)) k = Some st" and "status_of (snd (mark_running m s)) k = Some st"
    and "status_of (sweep w s) k = Some st"
  using assms sweep_status [OF assms(1), of w k]
  by (auto simp: complete_status complete_result running_status running_result terminal_status_def
      completable_def open_status_def)

lemma terminal_final:
  assumes "ok s" and "status_of s k = Some st" and "terminal_status st"
  shows "ok (fold (\<lambda>x s. case x of Inl i \<Rightarrow> snd (complete i s)
           | Inr (Inl m) \<Rightarrow> snd (mark_running m s) | Inr (Inr w) \<Rightarrow> sweep w s) xs s)
    \<and> status_of (fold (\<lambda>x s. case x of Inl i \<Rightarrow> snd (complete i s)
           | Inr (Inl m) \<Rightarrow> snd (mark_running m s) | Inr (Inr w) \<Rightarrow> sweep w s) xs s) k = Some st"
  using assms
proof (induction xs arbitrary: s)
  case (Cons x xs)
  define s' where "s' = (case x of Inl i \<Rightarrow> snd (complete i s)
     | Inr (Inl m) \<Rightarrow> snd (mark_running m s) | Inr (Inr w) \<Rightarrow> sweep w s)"
  have "ok s'" "status_of s' k = Some st"
    using Cons.prems terminal_step complete_ok running_ok sweep_ok
    by (auto simp: s'_def split: sum.split)
  then show ?case using Cons.IH [of s'] Cons.prems(3) by (simp add: s'_def)
qed simp

lemma swept_job_never_launches:
  "ok s \<Longrightarrow> status_of (sweep w s) (fst m) = Some SOrphaned \<Longrightarrow> \<not> fst (mark_running m (sweep w s))"
  by (simp add: running_result sweep_ok)

end

section \<open>Invariant of the in-process store\<close>

definition kit_private :: "(bool \<Rightarrow> 'b) \<Rightarrow> 'b job_row \<Rightarrow> bool" where
  "kit_private flag r \<longleftrightarrow> (jr_kitExecution r \<noteq> None \<longrightarrow>
     jr_args r = Redacted_args \<and> jr_stdout r = [] \<and> jr_stderr r = [] \<and> jr_payloadJson r = None
     \<and> jr_mcpArtifactPath r = None \<and> jr_mcpArtifactScope r = None \<and> jr_mcpCleanupPending r = flag False
     \<and> jr_cwd r = None \<and> jr_replayContext r = None \<and> jr_captureFormat r = None
     \<and> jr_capture r = empty_capture (flag False)
     \<and> jr_requestKey r = personalKitJobRequestKey (jr_id r)
     \<and> jr_error r \<in> {None, Some KIT_FAILURE_WITHHELD})"

definition lifecycle_ok :: "(bool \<Rightarrow> 'b) \<Rightarrow> 'b job_row \<Rightarrow> bool" where
  "lifecycle_ok flag r \<longleftrightarrow>
     (open_status (jr_status r) \<longrightarrow> jr_expiresAt r = FAR_FUTURE \<and> jr_finishedAt r = None
        \<and> jr_leaseDeadline r \<noteq> None \<and> jr_capture r = empty_capture (flag False))
     \<and> (completable (jr_status r) \<longrightarrow> jr_httpStatus r = None)
     \<and> (\<not> open_status (jr_status r) \<longrightarrow> jr_finishedAt r \<noteq> None \<and> jr_leaseDeadline r = None)
     \<and> (jr_kitFinalized r \<noteq> flag False \<longrightarrow> terminal_status (jr_status r) \<and> jr_kitExecution r \<noteq> None)"

definition row_ok :: "(bool \<Rightarrow> 'b) \<Rightarrow> 'b job_row \<Rightarrow> bool" where
  "row_ok flag r \<longleftrightarrow> kit_private flag r \<and> lifecycle_ok flag r"

definition mem_inv :: "mem_store \<Rightarrow> bool" where
  "mem_inv s \<longleftrightarrow> js_wf (ms_rows s)
     \<and> (\<forall>k r. js_get (ms_rows s) k = Some r \<longrightarrow> jr_id r = k \<and> row_ok id r)
     \<and> (\<forall>k r. js_get (ms_rows s) k = Some r \<and> jr_kitExecution r \<noteq> None \<longrightarrow>
          map_option kf_state (js_get (ms_fences s) k) = Some Admitted)"

lemma mem_invD:
  "mem_inv s \<Longrightarrow> js_get (ms_rows s) k = Some r \<Longrightarrow> jr_id r = k \<and> kit_private id r \<and> lifecycle_ok id r"
  by (simp add: mem_inv_def row_ok_def)

lemma mem_update_inv:
  assumes "mem_inv s"
    and "\<And>r. guard r \<Longrightarrow> jr_id r = k \<Longrightarrow> row_ok id r \<Longrightarrow> jr_id (upd r) = k \<and> row_ok id (upd r)
           \<and> jr_kitExecution (upd r) = jr_kitExecution r"
  shows "mem_inv (snd (mem_update k guard upd s))"
proof (cases "js_get (ms_rows s) k")
  case (Some r)
  then have "jr_id r = k" "row_ok id r"
    and kit: "jr_kitExecution r \<noteq> None \<longrightarrow> map_option kf_state (js_get (ms_fences s) k) = Some Admitted"
    using assms(1) unfolding mem_inv_def by blast+
  show ?thesis
  proof (cases "guard r")
    case True
    let ?rows = "js_set (ms_rows s) k (upd r)"
    have new: "jr_id (upd r) = k" "row_ok id (upd r)" "jr_kitExecution (upd r) = jr_kitExecution r"
      using assms(2) True \<open>jr_id r = k\<close> \<open>row_ok id r\<close> by auto
    have "jr_id x = m \<and> row_ok id x \<and> (jr_kitExecution x \<noteq> None \<longrightarrow>
        map_option kf_state (js_get (ms_fences s) m) = Some Admitted)"
      if "js_get ?rows m = Some x" for m x
    proof (cases "m = k")
      case True
      then have "x = upd r" using that by (metis js_get_set option.inject)
      then show ?thesis using new True kit by simp
    next
      case False
      then have "js_get (ms_rows s) m = Some x" using that by (metis js_get_set)
      then show ?thesis using assms(1) unfolding mem_inv_def by blast
    qed
    moreover have "js_wf ?rows" using assms(1) by (auto simp: mem_inv_def)
    ultimately show ?thesis
      using Some True unfolding mem_inv_def mem_update_def by (simp del: js_get_set)
  qed (use assms(1) Some in \<open>simp add: mem_update_def\<close>)
qed (use assms in \<open>simp add: mem_update_def\<close>)

lemma new_row_fields:
  "jr_id (new_row flag cfg now i) = si_id i"
  "jr_kitExecution (new_row flag cfg now i) = si_kitExecution i"
  "jr_status (new_row flag cfg now i) = SQueued"
  by (simp_all add: new_row_def Let_def)

lemma new_row_ok: "row_ok flag (new_row flag cfg now i)"
  by (cases "si_kitExecution i")
    (simp_all add: row_ok_def kit_private_def lifecycle_ok_def new_row_def Let_def open_status_def)

lemma complete_row_fields:
  "jr_id (mem_complete_row cfg i r) = jr_id r"
  "jr_kitExecution (mem_complete_row cfg i r) = jr_kitExecution r"
  "jr_status (mem_complete_row cfg i r) = jc_status i"
  by (simp_all add: mem_complete_row_def Let_def split: option.split)

lemma complete_row_private:
  "kit_private id r \<Longrightarrow> kit_private id (mem_complete_row cfg i r)"
  by (cases "jr_kitExecution r"; cases "jc_capture i")
    (simp_all add: kit_private_def mem_complete_row_def Let_def)

lemma complete_row_lifecycle:
  assumes "lifecycle_ok id r" and "completable (jr_status r)" and "\<not> open_status (jc_status i)"
    and "terminal_status (jc_status i)"
  shows "lifecycle_ok id (mem_complete_row cfg i r)"
proof -
  have nf: "\<not> jr_kitFinalized r"
    using assms(1,2) by (auto simp: lifecycle_ok_def completable_def terminal_status_def)
  have "\<not> completable (jc_status i)"
    using assms(4) by (auto simp: terminal_status_def completable_def)
  with nf assms(3) show ?thesis
    by (cases "jc_capture i") (simp_all add: lifecycle_ok_def mem_complete_row_def Let_def)
qed

lemma complete_row_ok:
  "row_ok id r \<Longrightarrow> completable (jr_status r) \<Longrightarrow> terminal_status (jc_status i) \<Longrightarrow>
     row_ok id (mem_complete_row cfg i r)"
  using complete_row_private complete_row_lifecycle
  by (auto simp: row_ok_def open_status_def terminal_status_def)

section \<open>Every operation keeps the invariant\<close>

lemma row_ok_output:
  "row_ok id r \<Longrightarrow> row_ok id (r\<lparr>jr_stdout := if jr_kitExecution r \<noteq> None then [] else out,
     jr_stderr := if jr_kitExecution r \<noteq> None then [] else err, jr_outputTruncated := trunc\<rparr>)"
  by (cases "jr_kitExecution r") (simp_all add: row_ok_def kit_private_def lifecycle_ok_def)

lemma row_ok_progress: "row_ok id r \<Longrightarrow> row_ok id (r\<lparr>jr_progressJson := p\<rparr>)"
  by (simp add: row_ok_def kit_private_def lifecycle_ok_def)

lemma row_ok_cleanup: "row_ok id r \<Longrightarrow> row_ok id (r\<lparr>jr_mcpCleanupPending := False\<rparr>)"
  by (simp add: row_ok_def kit_private_def lifecycle_ok_def)

lemma row_ok_running:
  "row_ok id r \<Longrightarrow> jr_status r = SQueued \<Longrightarrow>
     row_ok id (r\<lparr>jr_status := SRunning, jr_pid := p, jr_leaseDeadline := Some d\<rparr>)"
  by (auto simp: row_ok_def kit_private_def lifecycle_ok_def open_status_def completable_def
      terminal_status_def)

lemma row_ok_capture:
  "row_ok id r \<Longrightarrow> jr_kitExecution r = None \<Longrightarrow> \<not> open_status (jr_status r) \<Longrightarrow>
     row_ok id (r\<lparr>jr_capture := c\<rparr>)"
  by (auto simp: row_ok_def kit_private_def lifecycle_ok_def)

lemma row_ok_finalized:
  "row_ok id r \<Longrightarrow> terminal_status (jr_status r) \<Longrightarrow> jr_kitExecution r \<noteq> None \<Longrightarrow>
     row_ok id (if \<not> jr_kitFinalized r then r\<lparr>jr_kitFinalized := True, jr_kitFinalizedAt := t\<rparr> else r)"
  by (auto simp: row_ok_def kit_private_def lifecycle_ok_def)

lemma row_ok_heartbeat: "row_ok id r \<Longrightarrow> row_ok id (heartbeat_row cfg now inst r)"
  by (auto simp: heartbeat_row_def row_ok_def kit_private_def lifecycle_ok_def)

lemma status_split: "terminal_status st \<longleftrightarrow> \<not> (st = SQueued \<or> st = SRunning \<or> st = SOrphaned)"
  by (cases st) (simp_all add: terminal_status_def)

lemma mem_markRunning_inv [inv_intros]: "mem_inv s \<Longrightarrow> mem_inv (snd (mem_markRunning cfg now k pid s))"
  unfolding mem_markRunning_def by (rule mem_update_inv) (auto intro: row_ok_running)

lemma mem_acknowledge_inv [inv_intros]: "mem_inv s \<Longrightarrow> mem_inv (snd (mem_acknowledgeCleanup k h sc p s))"
  unfolding mem_acknowledgeCleanup_def by (rule mem_update_inv) (auto intro: row_ok_cleanup)

lemma mem_recordOutput_inv [inv_intros]: "mem_inv s \<Longrightarrow> mem_inv (snd (mem_recordOutput k x y b sts s))"
  unfolding mem_recordOutput_def
  by (rule mem_update_inv) (use row_ok_output in simp_all)

lemma mem_recordProgress_inv [inv_intros]: "mem_inv s \<Longrightarrow> mem_inv (mem_recordProgress k p s)"
  unfolding mem_recordProgress_def by (rule mem_update_inv) (auto intro: row_ok_progress)

lemma mem_recordProgressIf_inv [inv_intros]:
  "mem_inv s \<Longrightarrow> mem_inv (snd (mem_recordProgressIfStatus k st p s))"
  unfolding mem_recordProgressIfStatus_def by (rule mem_update_inv) (auto intro: row_ok_progress)

lemma mem_recordCapture_inv [inv_intros]: "mem_inv s \<Longrightarrow> mem_inv (snd (mem_recordCapture k inst c s))"
  unfolding mem_recordCapture_def
  by (rule mem_update_inv) (auto intro: row_ok_capture simp: open_status_def)

lemma mem_recordComplete_inv [inv_intros]:
  "mem_inv s \<Longrightarrow> terminal_status (jc_status i) \<Longrightarrow> mem_inv (snd (mem_recordComplete cfg i s))"
  unfolding mem_recordComplete_def
  by (rule mem_update_inv) (auto simp: complete_row_fields intro: complete_row_ok)

lemma mem_markKitFinalized_inv [inv_intros]:
  "mem_inv s \<Longrightarrow> mem_inv (snd (mem_markKitTerminalFinalized now k ses s))"
  unfolding mem_markKitTerminalFinalized_def status_split [symmetric]
  by (rule mem_update_inv) (use row_ok_finalized in \<open>auto simp: status_split\<close>)

lemma mem_rows_inv:
  assumes "mem_inv s" and "js_wf rows"
    and "\<And>k r. js_get rows k = Some r \<Longrightarrow> \<exists>r0. js_get (ms_rows s) k = Some r0 \<and> jr_id r = jr_id r0
           \<and> jr_kitExecution r = jr_kitExecution r0 \<and> (row_ok id r0 \<longrightarrow> row_ok id r)"
  shows "mem_inv (s\<lparr>ms_rows := rows\<rparr>)"
  unfolding mem_inv_def
proof (intro conjI allI impI)
  show "js_wf (ms_rows (s\<lparr>ms_rows := rows\<rparr>))" using assms(2) by simp
  fix k r
  show "jr_id r = k" "row_ok id r" if "js_get (ms_rows (s\<lparr>ms_rows := rows\<rparr>)) k = Some r"
    using that assms(1) assms(3) [of k r] unfolding mem_inv_def by auto
  show "map_option kf_state (js_get (ms_fences (s\<lparr>ms_rows := rows\<rparr>)) k) = Some Admitted"
    if "js_get (ms_rows (s\<lparr>ms_rows := rows\<rparr>)) k = Some r \<and> jr_kitExecution r \<noteq> None"
    using that assms(1) assms(3) [of k r] unfolding mem_inv_def by auto
qed

lemma mem_heartbeat_inv [inv_intros]:
  assumes "mem_inv s"
  shows "mem_inv (snd (mem_heartbeat cfg now inst s))"
  unfolding mem_heartbeat_def snd_conv
proof (rule mem_rows_inv [OF assms])
  show "js_wf (map (\<lambda>(k, r). (k, heartbeat_row cfg now inst r)) (ms_rows s))"
    using assms by (simp only: js_wf_map mem_inv_def)
  fix k r
  assume "js_get (map (\<lambda>(k, r). (k, heartbeat_row cfg now inst r)) (ms_rows s)) k = Some r"
  then obtain r0 where "js_get (ms_rows s) k = Some r0" "r = heartbeat_row cfg now inst r0"
    by (auto simp only: js_get_map map_option_eq_Some)
  then show "\<exists>r0. js_get (ms_rows s) k = Some r0 \<and> jr_id r = jr_id r0
      \<and> jr_kitExecution r = jr_kitExecution r0 \<and> (row_ok id r0 \<longrightarrow> row_ok id r)"
    using row_ok_heartbeat by (auto simp: heartbeat_row_def)
qed

lemma mem_evict_inv [inv_intros]:
  assumes "mem_inv s"
  shows "mem_inv (snd (mem_evictExpired cfg now s))"
proof -
  have wf: "js_wf (ms_rows s)" using assms by (simp only: mem_inv_def)
  have "mem_inv (s\<lparr>ms_rows := filter (\<lambda>(k, r). \<not> evictable now r) (ms_rows s)\<rparr>)"
    using js_get_filter [OF wf, of "\<lambda>r. \<not> evictable now r"] js_wf_filter [OF wf]
    by (intro mem_rows_inv [OF assms]) (auto split: option.splits if_splits)
  with assms show ?thesis by (simp add: mem_evictExpired_def)
qed

lemma mem_fences_inv:
  assumes "mem_inv s" and "\<And>k v. js_get (ms_fences s) k = Some v \<Longrightarrow> js_get fs k = Some v"
  shows "mem_inv (s\<lparr>ms_fences := fs\<rparr>)"
proof -
  have "map_option kf_state (js_get fs k) = Some Admitted"
    if "js_get (ms_rows s) k = Some r" "jr_kitExecution r \<noteq> None" for k r
  proof -
    have "map_option kf_state (js_get (ms_fences s) k) = Some Admitted"
      using assms(1) that unfolding mem_inv_def by blast
    then obtain f where "js_get (ms_fences s) k = Some f" "kf_state f = Admitted"
      by (auto simp only: map_option_eq_Some)
    then show ?thesis using assms(2) by simp
  qed
  then show ?thesis using assms(1) unfolding mem_inv_def by simp
qed

lemma insertFence_cases:
  obtains (dup) "js_get (ms_fences s) (kf_attemptId f) \<noteq> None" "insertKitAttemptFence f s = (Inr False, s)"
  | (bad) e where "insertKitAttemptFence f s = (Inl e, s)"
  | (fresh) x where "js_get (ms_fences s) (kf_attemptId f) = None"
      "cloneKitExecutionRef (kf_kitExecution f) = Inr x"
      "insertKitAttemptFence f s
         = (Inr True, s\<lparr>ms_fences := js_set (ms_fences s) (kf_attemptId f) (f\<lparr>kf_kitExecution := x\<rparr>)\<rparr>)"
  by (cases "cloneKitExecutionRef (kf_kitExecution f)"; cases "js_get (ms_fences s) (kf_attemptId f)")
    (simp_all add: insertKitAttemptFence_def)

lemma insertFence_inv: "mem_inv s \<Longrightarrow> mem_inv (snd (insertKitAttemptFence f s))"
  by (cases rule: insertFence_cases [of s f]) (auto intro!: mem_fences_inv split: if_splits)

lemma fenceUnadmitted_inv [inv_intros]: "mem_inv s \<Longrightarrow> mem_inv (snd (fenceUnadmittedKitAttempt f s))"
  using insertFence_inv [of s "f\<lparr>kf_state := Recovered\<rparr>"]
  by (auto simp: fenceUnadmittedKitAttempt_def split: prod.splits sum.splits bool.splits option.splits)

section \<open>Admission and reachable stores\<close>

lemma recordStart_cases:
  obtains (refused) e s' where "mem_recordStart cfg now i s = (Some e, s')" "ms_rows s' = ms_rows s"
      "s' = s \<or> (\<exists>x ses. si_kitExecution i = Some x \<and> s' = snd (insertKitAttemptFence (start_fence i x ses) s))"
  | (plain) "si_kitExecution i = None" "\<not> si_validationAdmission i"
      "mem_recordStart cfg now i s
         = (None, s\<lparr>ms_rows := js_set (ms_rows s) (si_id i) (new_row id cfg now i)\<rparr>)"
  | (kit) x y ses where "si_kitExecution i = Some x" "ses \<noteq> []"
      "js_get (ms_fences s) (si_id i) = None" "cloneKitExecutionRef x = Inr y"
      "mem_recordStart cfg now i s
         = (None, s\<lparr>ms_fences := js_set (ms_fences s) (si_id i) ((start_fence i x ses)\<lparr>kf_kitExecution := y\<rparr>),
              ms_rows := js_set (ms_rows s) (si_id i) (new_row id cfg now i)\<rparr>)"
proof (cases "assertMcpArtifactAdmissionInvariant (start_artifact i)")
  case (Some e)
  then show ?thesis by (intro refused [of e s]) (simp_all add: mem_recordStart_def)
next
  case ok: None
  show ?thesis
  proof (cases "si_kitExecution i")
    case None
    then show ?thesis using ok plain refused [of _ s]
      by (cases "si_validationAdmission i") (simp_all add: mem_recordStart_def)
  next
    case (Some x)
    define ses where "ses = str_trim (nullish (si_kitSessionId i) [])"
    show ?thesis
    proof (cases "ses = []")
      case True
      then show ?thesis using ok Some refused [of _ s]
        by (simp add: mem_recordStart_def ses_def Let_def)
    next
      case False
      have att: "kf_attemptId (start_fence i x ses) = si_id i" by (simp add: start_fence_def)
      show ?thesis
      proof (cases rule: insertFence_cases [of s "start_fence i x ses"])
        case dup
        then show ?thesis using ok Some False refused [of _ s]
          by (simp add: mem_recordStart_def ses_def Let_def)
      next
        case (bad e)
        then show ?thesis using ok Some False refused [of _ s]
          by (simp add: mem_recordStart_def ses_def Let_def)
      next
        case (fresh y)
        let ?s' = "s\<lparr>ms_fences := js_set (ms_fences s) (si_id i) ((start_fence i x ses)\<lparr>kf_kitExecution := y\<rparr>)\<rparr>"
        have ins: "insertKitAttemptFence (start_fence i x ses) s = (Inr True, ?s')"
          using fresh(3) by (simp add: att)
        show ?thesis
        proof (cases "si_validationAdmission i")
          case True
          have "?s' = snd (insertKitAttemptFence (start_fence i x ses) s)" by (simp add: ins)
          then have "?s' = s \<or> (\<exists>x ses. si_kitExecution i = Some x
              \<and> ?s' = snd (insertKitAttemptFence (start_fence i x ses) s))"
            using Some by blast
          with True show ?thesis using ok Some False ins
            by (intro refused [of _ ?s']) (simp_all add: mem_recordStart_def ses_def [symmetric] Let_def)
        next
          case nv: False
          have "cloneKitExecutionRef x = Inr y" using fresh(2) by (simp add: start_fence_def)
          then show ?thesis using ok Some False nv ins fresh(1) att
            by (intro kit [of x ses y]) (simp_all add: mem_recordStart_def ses_def [symmetric] Let_def)
        qed
      qed
    qed
  qed
qed

lemma mem_inv_put:
  assumes "mem_inv s" and "jr_id r = k" and "row_ok id r"
    and "jr_kitExecution r \<noteq> None \<longrightarrow> map_option kf_state (js_get (ms_fences s) k) = Some Admitted"
  shows "mem_inv (s\<lparr>ms_rows := js_set (ms_rows s) k r\<rparr>)"
  using assms unfolding mem_inv_def by auto

lemma recordStart_inv [inv_intros]:
  assumes "mem_inv s"
  shows "mem_inv (snd (mem_recordStart cfg now i s))"
proof (cases rule: recordStart_cases [of cfg now i s])
  case (refused e s')
  then show ?thesis using assms insertFence_inv by auto
next
  case plain
  then show ?thesis
    using mem_inv_put [OF assms, of "new_row id cfg now i" "si_id i"]
    by (simp add: new_row_fields new_row_ok)
next
  case (kit x y ses)
  let ?f = "(start_fence i x ses)\<lparr>kf_kitExecution := y\<rparr>"
  have "mem_inv (s\<lparr>ms_fences := js_set (ms_fences s) (si_id i) ?f\<rparr>)"
    using kit(3) by (intro mem_fences_inv [OF assms]) auto
  from mem_inv_put [OF this, of "new_row id cfg now i" "si_id i"] show ?thesis
    using kit(5) by (simp add: new_row_fields new_row_ok start_fence_def)
qed

text \<open>
  One call of the store at some clock reading. Job ids are fresh UUIDs, so an admission names an id
  no row has; a completion carries a terminal status, as every caller's does.
\<close>

inductive mem_step :: "store_cfg \<Rightarrow> mem_store \<Rightarrow> mem_store \<Rightarrow> bool" for cfg where
  ms_start: "js_get (ms_rows s) (si_id i) = None \<Longrightarrow> mem_step cfg s (snd (mem_recordStart cfg now i s))"
| ms_fence: "mem_step cfg s (snd (fenceUnadmittedKitAttempt f s))"
| ms_running: "mem_step cfg s (snd (mem_markRunning cfg now k pid s))"
| ms_heartbeat: "mem_step cfg s (snd (mem_heartbeat cfg now inst s))"
| ms_cleanup: "mem_step cfg s (snd (mem_acknowledgeCleanup k host scope path s))"
| ms_output: "mem_step cfg s (snd (mem_recordOutput k x y b sts s))"
| ms_progress: "mem_step cfg s (mem_recordProgress k p s)"
| ms_progress_if: "mem_step cfg s (snd (mem_recordProgressIfStatus k st p s))"
| ms_capture: "mem_step cfg s (snd (mem_recordCapture k inst c s))"
| ms_complete: "terminal_status (jc_status i) \<Longrightarrow> mem_step cfg s (snd (mem_recordComplete cfg i s))"
| ms_finalized: "mem_step cfg s (snd (mem_markKitTerminalFinalized now k ses s))"
| ms_evict: "mem_step cfg s (snd (mem_evictExpired cfg now s))"

inductive_cases mem_step_E: "mem_step cfg s s'"

lemma mem_step_inv: "mem_inv s \<Longrightarrow> mem_step cfg s s' \<Longrightarrow> mem_inv s'"
  by (erule mem_step_E) (auto intro: inv_intros)

lemma mem_empty_inv: "mem_inv mem_empty"
  by (simp add: mem_inv_def mem_empty_def)

interpretation mem_sys: inv_system "\<lambda>s. s = mem_empty" "mem_step cfg" mem_inv for cfg
  by unfold_locales (auto simp: mem_empty_inv intro: mem_step_inv)

definition mem_reachable :: "store_cfg \<Rightarrow> mem_store \<Rightarrow> bool" where
  "mem_reachable cfg s = reach (\<lambda>s. s = mem_empty) (mem_step cfg) s"

lemma mem_reachable_inv: "mem_reachable cfg s \<Longrightarrow> mem_inv s"
  by (auto simp: mem_reachable_def intro: mem_sys.reach_inv)

lemma mem_reachable_empty: "mem_reachable cfg mem_empty"
  by (simp add: mem_reachable_def reach_init)

lemma mem_reachable_step: "mem_reachable cfg s \<Longrightarrow> mem_step cfg s s' \<Longrightarrow> mem_reachable cfg s'"
  by (auto simp: mem_reachable_def intro: reach_step)

section \<open>The in-process store meets the contract\<close>

definition mem_status :: "mem_store \<Rightarrow> string \<Rightarrow> job_status option" where
  "mem_status s k = map_option jr_status (js_get (ms_rows s) k)"

lemma mem_update_result: "fst (mem_update k g u s) = (\<exists>r. js_get (ms_rows s) k = Some r \<and> g r)"
  by (auto simp: mem_update_def split: option.split)

lemma mem_update_get:
  "js_get (ms_rows (snd (mem_update k g u s))) x
     = (if x = k \<and> fst (mem_update k g u s) then map_option u (js_get (ms_rows s) k)
        else js_get (ms_rows s) x)"
  by (auto simp: mem_update_def split: option.split)

text \<open>recoverStaleJobs of this store returns without effect.\<close>

definition mem_recoverStaleJobs :: "int \<times> int \<times> string list \<Rightarrow> mem_store \<Rightarrow> mem_store" where
  "mem_recoverStaleJobs w s = s"

interpretation mem_rows: job_rows "\<lambda>s. True" mem_status "mem_recordComplete cfg"
    "\<lambda>(k, pid, now). mem_markRunning cfg now k pid" mem_recoverStaleJobs for cfg
proof (unfold_locales, goal_cases)
  case (2 s i)
  show ?case by (auto simp: mem_recordComplete_def mem_update_result mem_status_def)
next
  case (3 s i k)
  show ?case
    by (auto simp: mem_recordComplete_def mem_status_def mem_update_get mem_update_result
        complete_row_fields)
next
  case (5 s m)
  show ?case by (cases m) (auto simp: mem_markRunning_def mem_update_result mem_status_def)
next
  case (6 s m k)
  show ?case
    by (cases m) (auto simp: mem_markRunning_def mem_status_def mem_update_get mem_update_result)
qed (simp_all add: mem_recoverStaleJobs_def)

section \<open>Fences persist\<close>

lemma mem_update_fences [simp]: "ms_fences (snd (mem_update k g u s)) = ms_fences s"
  by (simp add: mem_update_def split: option.split)

lemma insertFence_keeps:
  "js_get (ms_fences s) k = Some f \<Longrightarrow> js_get (ms_fences (snd (insertKitAttemptFence g s))) k = Some f"
  by (cases rule: insertFence_cases [of s g]) auto

lemma recordStart_fences_keep:
  "js_get (ms_fences s) k = Some f \<Longrightarrow> js_get (ms_fences (snd (mem_recordStart cfg now i s))) k = Some f"
  by (cases rule: recordStart_cases [of cfg now i s]) (auto dest: insertFence_keeps)

lemma fenceUnadmitted_state: "snd (fenceUnadmittedKitAttempt f s)
    = snd (insertKitAttemptFence (f\<lparr>kf_state := Recovered\<rparr>) s)"
  by (simp add: fenceUnadmittedKitAttempt_def split: prod.split sum.split bool.split option.split)

lemma mem_step_fences:
  "mem_step cfg s s' \<Longrightarrow> js_get (ms_fences s) k = Some f \<Longrightarrow> js_get (ms_fences s') k = Some f"
  by (erule mem_step_E)
    (auto simp: mem_markRunning_def mem_heartbeat_def mem_acknowledgeCleanup_def mem_recordOutput_def
      mem_recordProgress_def mem_recordProgressIfStatus_def mem_recordCapture_def
      mem_recordComplete_def mem_markKitTerminalFinalized_def mem_evictExpired_def
      fenceUnadmitted_state intro: recordStart_fences_keep insertFence_keeps)

lemma mem_steps_fences:
  "(mem_step cfg)\<^sup>*\<^sup>* s s' \<Longrightarrow> js_get (ms_fences s) k = Some f \<Longrightarrow> js_get (ms_fences s') k = Some f"
  by (induction rule: rtranclp_induct) (auto intro: mem_step_fences)

lemma fenced_kit_start_refused:
  assumes "js_get (ms_fences s) (si_id i) = Some f" and "si_kitExecution i = Some x"
  shows "fst (mem_recordStart cfg now i s) \<noteq> None \<and> snd (mem_recordStart cfg now i s) = s"
proof (cases rule: recordStart_cases [of cfg now i s])
  case (refused e s')
  have "snd (insertKitAttemptFence (start_fence i y ses) s) = s" for y ses
    using assms(1) by (simp add: insertKitAttemptFence_def start_fence_def)
  with refused show ?thesis by auto
qed (use assms in simp_all)

section \<open>Deduplication and eviction\<close>

definition dedup_match :: "store_cfg \<Rightarrow> time \<Rightarrow> string \<Rightarrow> mem_row \<Rightarrow> bool" where
  "dedup_match cfg now key r \<longleftrightarrow> jr_requestKey r = key \<and> reusable now r
     \<and> jr_startedAt r \<ge> now - sc_dedupWindowMs cfg"

lemma best_match_spec:
  "case best_match cfg now key best rows of
     None \<Rightarrow> best = None \<and> (\<forall>r\<in>snd ` set rows. \<not> dedup_match cfg now key r)
   | Some b \<Rightarrow> (best = Some b \<or> b \<in> snd ` set rows \<and> dedup_match cfg now key b)
       \<and> (\<forall>b0. best = Some b0 \<longrightarrow> jr_startedAt b0 \<le> jr_startedAt b)
       \<and> (\<forall>r\<in>snd ` set rows. dedup_match cfg now key r \<longrightarrow> jr_startedAt r \<le> jr_startedAt b)"
proof (induction rows arbitrary: best)
  case (Cons x rows)
  obtain k r where x: "x = (k, r)" by (cases x)
  show ?case
  proof (cases "dedup_match cfg now key r \<and> (case best of None \<Rightarrow> True | Some b \<Rightarrow> jr_startedAt r > jr_startedAt b)")
    case True
    then have "best_match cfg now key best (x # rows) = best_match cfg now key (Some r) rows"
      by (auto simp: x dedup_match_def)
    then show ?thesis using Cons [of "Some r"] True
      by (auto simp: x split: option.splits)
  next
    case False
    then have "best_match cfg now key best (x # rows) = best_match cfg now key best rows"
      by (auto simp: x dedup_match_def)
    then show ?thesis using Cons [of best] False
      by (auto simp: x split: option.splits)
  qed
qed (auto split: option.split)

lemma evict_keeps:
  assumes "mem_inv s" and "js_get (ms_rows s) k = Some r" and "\<not> evictable now r"
  shows "js_get (ms_rows (snd (mem_evictExpired cfg now s))) k = Some r"
proof -
  have "js_wf (ms_rows s)" using assms(1) by (simp only: mem_inv_def)
  from js_get_filter [OF this, of "\<lambda>r. \<not> evictable now r" k] assms show ?thesis
    by (simp add: mem_evictExpired_def)
qed

lemma evict_subset:
  assumes "js_get (ms_rows (snd (mem_evictExpired cfg now s))) k = Some r" and "mem_inv s"
  shows "js_get (ms_rows s) k = Some r"
proof -
  have "js_wf (ms_rows s)" using assms(2) by (simp only: mem_inv_def)
  from js_get_filter [OF this, of "\<lambda>r. \<not> evictable now r" k] assms show ?thesis
    by (auto simp: mem_evictExpired_def split: if_splits option.splits)
qed

lemma pinned_set:
  assumes "js_wf (ms_rows s)"
  shows "x \<in> set (mem_getPinnedKitReleaseIds s) \<longleftrightarrow>
    (\<exists>k r. js_get (ms_rows s) k = Some r \<and> kit_pinned r \<and> ke_releaseId (the (jr_kitExecution r)) = x)"
  using assms by (force simp: mem_getPinnedKitReleaseIds_def map_of_eq_Some_iff)

lemma pinned_not_evictable: "mem_inv s \<Longrightarrow> js_get (ms_rows s) k = Some r \<Longrightarrow> kit_pinned r \<Longrightarrow> \<not> evictable now r"
  using mem_invD [of s k r]
  by (auto simp: kit_pinned_def evictable_def lifecycle_ok_def open_status_def terminal_status_def)

section \<open>Properties\<close>

definition demo_cfg :: store_cfg where
  "demo_cfg = \<lparr>sc_retentionMs = Some 100, sc_dedupWindowMs = 60, sc_leaseTtlMs = 30\<rparr>"

definition demo_ref :: kit_ref where
  "demo_ref = \<lparr>ke_version = 1, ke_releaseId = ''r1'', ke_configStamp = ''c'', ke_scopeRoot = None,
     ke_scopeHead = None, ke_contextIdentity = ''x''\<rparr>"

definition demo_start :: "string \<Rightarrow> kit_ref option \<Rightarrow> start_input" where
  "demo_start k kit = \<lparr>si_id = k, si_correlationId = k, si_requestKey = ''key'', si_cli = ''codex'',
     si_args = [''secret''], si_outputFormat = None, si_compressResponse = None, si_startedAt = 10,
     si_pid = None, si_ownerPrincipal = Some ''local'', si_ownerInstance = Some ''g1'',
     si_ownerHostname = None, si_mcpArtifactPath = None, si_mcpArtifactScope = None,
     si_transport = None, si_payloadJson = Some ''p'', si_kitExecution = kit,
     si_kitSessionId = Some ''s'', si_validationAdmission = False, si_cwd = None,
     si_replayContext = None, si_captureFormat = None\<rparr>"

definition demo_completion :: "string \<Rightarrow> completion" where
  "demo_completion k = \<lparr>jc_id = k, jc_status = SCompleted, jc_exitCode = Some 0, jc_stdout = ''out'',
     jc_stderr = [], jc_outputTruncated = False, jc_error = None, jc_errorCategory = None,
     jc_retryable = None, jc_finishedAt = 20, jc_httpStatus = None, jc_progressJson = None,
     jc_capture = None\<rparr>"

definition demo_store :: mem_store where
  "demo_store = snd (mem_recordStart demo_cfg 10 (demo_start ''b'' None)
     (snd (mem_recordStart demo_cfg 10 (demo_start ''a'' (Some demo_ref)) mem_empty)))"

definition demo_done :: mem_store where
  "demo_done = snd (mem_recordComplete demo_cfg (demo_completion ''a'') demo_store)"

lemma demo_store_reachable: "mem_reachable demo_cfg demo_store"
proof -
  have "js_get (ms_rows mem_empty) (si_id (demo_start ''a'' (Some demo_ref))) = None"
    by (simp add: mem_empty_def)
  moreover have "js_get (ms_rows (snd (mem_recordStart demo_cfg 10 (demo_start ''a'' (Some demo_ref))
      mem_empty))) (si_id (demo_start ''b'' None)) = None"
    by code_simp
  ultimately show ?thesis
    unfolding demo_store_def by (blast intro: mem_reachable_step mem_reachable_empty ms_start)
qed

lemma demo_done_reachable: "mem_reachable demo_cfg demo_done"
proof -
  have "terminal_status (jc_status (demo_completion ''a''))"
    by (simp add: terminal_status_def demo_completion_def)
  then show ?thesis unfolding demo_done_def
    by (blast intro: mem_reachable_step demo_store_reachable ms_complete)
qed



text \<open>
  A Kit job keeps nothing private at rest. In every reachable store a row with a Kit execution
  holds no argv, output, payload, artifact provenance, directory, replay context or capture; its
  request key is the opaque one derived from its id, and its error is the fixed withheld text.
\<close>

theorem kit_rows_private:
  assumes "mem_reachable cfg s" and "mem_getById k s = Some r" and "jr_kitExecution r \<noteq> None"
  shows "jr_args r = Redacted_args \<and> jr_stdout r = [] \<and> jr_stderr r = [] \<and> jr_payloadJson r = None
    \<and> jr_mcpArtifactPath r = None \<and> jr_mcpArtifactScope r = None \<and> jr_cwd r = None
    \<and> jr_replayContext r = None \<and> cap_nativeTranscript (jr_capture r) = None
    \<and> jr_requestKey r = ''kit:'' @ k \<and> (\<forall>e. jr_error r = Some e \<longrightarrow> e = KIT_FAILURE_WITHHELD)"
  using mem_invD [OF mem_reachable_inv [OF assms(1)] assms(2) [unfolded mem_getById_def]] assms(3)
  by (auto simp: kit_private_def empty_capture_def personalKitJobRequestKey_def)

theorem kit_rows_private_witness:
  "\<exists>r. mem_getById ''a'' demo_done = Some r \<and> jr_status r = SCompleted \<and> jr_stdout r = []
     \<and> jr_args r = Redacted_args"
proof -
  have "\<exists>r. mem_getById ''a'' demo_done = Some r \<and> jr_kitExecution r \<noteq> None \<and> jr_status r = SCompleted"
  proof -
    have "map_option (\<lambda>r. (jr_kitExecution r = None, jr_status r)) (mem_getById ''a'' demo_done)
        = Some (False, SCompleted)" by code_simp
    then show ?thesis by auto
  qed
  then show ?thesis using kit_rows_private [OF demo_done_reachable] by blast
qed

text \<open>
  C12: a Kit attempt id is used once. Once an attempt id has a fence (its job was admitted, or it was
  recovered without one), then after any further calls of the store no Kit job is admitted under
  that id, the refused admission changes nothing, and the fence still says what it said.
\<close>

theorem kit_attempt_single_use:
  assumes "js_get (ms_fences s) k = Some f" and "(mem_step cfg)\<^sup>*\<^sup>* s s'"
    and "si_id i = k" and "si_kitExecution i \<noteq> None"
  shows "js_get (ms_fences s') k = Some f
    \<and> fst (mem_recordStart cfg now i s') \<noteq> None \<and> snd (mem_recordStart cfg now i s') = s'"
proof -
  have "js_get (ms_fences s') (si_id i) = Some f"
    using mem_steps_fences [OF assms(2,1)] assms(3) by simp
  then show ?thesis using fenced_kit_start_refused assms(3,4) by blast
qed

theorem kit_attempt_single_use_witness:
  "fst (mem_recordStart demo_cfg 50 (demo_start ''a'' (Some demo_ref)) demo_done) \<noteq> None"
proof -
  have "\<exists>f. js_get (ms_fences demo_done) ''a'' = Some f"
  proof -
    have "map_option kf_state (js_get (ms_fences demo_done) ''a'') = Some Admitted" by code_simp
    then show ?thesis by auto
  qed
  then show ?thesis
    using kit_attempt_single_use [of demo_done "''a''" _ demo_cfg demo_done "demo_start ''a'' (Some demo_ref)" 50]
    by (auto simp: demo_start_def)
qed

text \<open>
  C13: eviction never loses work or pins. In every reachable store, at any time before the year
  10000, eviction keeps every queued or running row, every row whose artifact cleanup is owed and
  every Kit row not yet finalised, so the set of pinned Kit releases does not change; what it
  removes has expired.
\<close>

theorem eviction_keeps_obligations:
  assumes "mem_reachable cfg s" and "now \<le> FAR_FUTURE" and "mem_getById k s = Some r"
  shows "(mem_getById k (snd (mem_evictExpired cfg now s)) = None \<longrightarrow>
        \<not> open_status (jr_status r) \<and> \<not> jr_mcpCleanupPending r \<and> jr_expiresAt r < now
        \<and> (jr_kitExecution r = None \<or> jr_kitFinalized r))
    \<and> set (mem_getPinnedKitReleaseIds (snd (mem_evictExpired cfg now s)))
        = set (mem_getPinnedKitReleaseIds s)"
proof -
  note inv = mem_reachable_inv [OF assms(1)]
  let ?e = "snd (mem_evictExpired cfg now s)"
  have "evictable now r" if "mem_getById k ?e = None"
    using evict_keeps [OF inv assms(3) [unfolded mem_getById_def], of now cfg] that
    by (cases "evictable now r") (simp_all add: mem_getById_def)
  moreover have "\<not> open_status (jr_status r)" if "evictable now r"
    using that assms(2) mem_invD [OF inv assms(3) [unfolded mem_getById_def]]
    by (auto simp: evictable_def lifecycle_ok_def)
  moreover have "x \<in> set (mem_getPinnedKitReleaseIds ?e) \<longleftrightarrow> x \<in> set (mem_getPinnedKitReleaseIds s)" for x
  proof -
    have wf: "js_wf (ms_rows s)" "js_wf (ms_rows ?e)"
      using inv mem_evict_inv [OF inv] unfolding mem_inv_def by blast+
    show ?thesis
      unfolding pinned_set [OF wf(1)] pinned_set [OF wf(2)]
      using evict_subset [OF _ inv] evict_keeps [OF inv] pinned_not_evictable [OF inv] by blast
  qed
  ultimately show ?thesis by (auto simp: evictable_def)
qed

theorem eviction_keeps_obligations_witness:
  "mem_getById ''b'' (snd (mem_evictExpired demo_cfg 1000 demo_done)) \<noteq> None
   \<and> set (mem_getPinnedKitReleaseIds (snd (mem_evictExpired demo_cfg 1000 demo_done))) = {''r1''}"
proof -
  have d: "map_option jr_status (mem_getById ''b'' demo_done) = Some SQueued"
    "mem_getPinnedKitReleaseIds demo_done = [''r1'']"
    by code_simp+
  then obtain r where r: "mem_getById ''b'' demo_done = Some r" "jr_status r = SQueued" by auto
  show ?thesis
    using eviction_keeps_obligations [OF demo_done_reachable _ r(1), of 1000] r(2) d(2)
    by (auto simp: FAR_FUTURE_def open_status_def)
qed

text \<open>
  The deduplication lookup is exact. It returns a row precisely when some row with the key is
  reusable (running, completed, or queued under a live lease) and started within the window, and
  then a most recently started one of those.
\<close>

theorem dedup_lookup_exact:
  "case mem_findByRequestKey cfg now key s of
     None \<Rightarrow> (\<forall>r\<in>snd ` set (ms_rows s). \<not> dedup_match cfg now key r)
   | Some b \<Rightarrow> b \<in> snd ` set (ms_rows s) \<and> dedup_match cfg now key b
       \<and> (\<forall>r\<in>snd ` set (ms_rows s). dedup_match cfg now key r \<longrightarrow> jr_startedAt r \<le> jr_startedAt b)"
  using best_match_spec [where cfg = cfg and now = now and key = key and best = None and rows = "ms_rows s"]
  by (auto simp: mem_findByRequestKey_def split: option.splits)

theorem dedup_lookup_exact_witness:
  "map_option jr_id (mem_findByRequestKey demo_cfg 30 ''key'' demo_store) = Some ''b''
   \<and> map_option (dedup_match demo_cfg 30 ''key'') (mem_findByRequestKey demo_cfg 30 ''key'' demo_store) = Some True"
proof -
  have m: "map_option jr_id (mem_findByRequestKey demo_cfg 30 ''key'' demo_store) = Some ''b''" by code_simp
  then obtain b where "mem_findByRequestKey demo_cfg 30 ''key'' demo_store = Some b" by auto
  then show ?thesis
    using m dedup_lookup_exact [where cfg = demo_cfg and now = 30 and key = "''key''" and s = demo_store]
    by simp
qed

text \<open>
  A finished Kit job is either pending or acknowledged. In every reachable store, for a terminal
  Kit row with a session, exactly one of the two recovery lists has it: the pending one until
  markKitTerminalFinalized succeeds for it, the acknowledged one from then on.
\<close>

theorem kit_finalization_partition:
  assumes "mem_reachable cfg s" and "mem_getById k s = Some r" and "terminal_status (jr_status r)"
    and "jr_kitExecution r \<noteq> None" and "jr_kitSessionId r = Some ses" and "ses \<noteq> []"
  shows "(toPendingKitFinalization r \<noteq> None) = (\<not> jr_kitFinalized r)
    \<and> (toAcknowledgedKitAttemptRelease r \<noteq> None) = jr_kitFinalized r
    \<and> fst (mem_markKitTerminalFinalized now k ses s)
    \<and> (\<exists>r'. mem_getById k (snd (mem_markKitTerminalFinalized now k ses s)) = Some r'
          \<and> toPendingKitFinalization r' = None \<and> toAcknowledgedKitAttemptRelease r' \<noteq> None)"
proof -
  have lc: "lifecycle_ok id r"
    using mem_invD [OF mem_reachable_inv [OF assms(1)] assms(2) [unfolded mem_getById_def]] by simp
  have nst: "jr_status r \<noteq> SQueued" "jr_status r \<noteq> SRunning" "jr_status r \<noteq> SOrphaned"
    using assms(3) by (auto simp: terminal_status_def)
  then have fin: "jr_finishedAt r \<noteq> None" using lc by (auto simp: lifecycle_ok_def open_status_def)
  have res: "fst (mem_markKitTerminalFinalized now k ses s)"
    using assms(2,4,5) nst by (simp add: mem_markKitTerminalFinalized_def mem_update_result mem_getById_def)
  let ?r' = "if \<not> jr_kitFinalized r then r\<lparr>jr_kitFinalized := True, jr_kitFinalizedAt := Some now\<rparr> else r"
  have "mem_getById k (snd (mem_markKitTerminalFinalized now k ses s)) = Some ?r'"
    using res assms(2) unfolding mem_markKitTerminalFinalized_def mem_getById_def mem_update_get by simp
  moreover have "toPendingKitFinalization ?r' = None" "toAcknowledgedKitAttemptRelease ?r' \<noteq> None"
    using assms(4,5,6) nst
    by (auto simp: toPendingKitFinalization_def toAcknowledgedKitAttemptRelease_def truthy_def)
  ultimately show ?thesis
    using res fin nst assms(4-6)
    by (auto simp: toPendingKitFinalization_def toAcknowledgedKitAttemptRelease_def truthy_def)
qed

theorem kit_finalization_partition_witness:
  "fst (mem_markKitTerminalFinalized 30 ''a'' ''s'' demo_done)
   \<and> map pk_jobId (mem_getPendingKitFinalizations demo_done) = [''a'']"
proof -
  have "map_option (\<lambda>r. (jr_status r, jr_kitExecution r = None, jr_kitSessionId r)) (mem_getById ''a'' demo_done)
      = Some (SCompleted, False, Some ''s'')" by code_simp
  then obtain r where r: "mem_getById ''a'' demo_done = Some r" "jr_status r = SCompleted"
    "jr_kitExecution r \<noteq> None" "jr_kitSessionId r = Some ''s''" by auto
  have "fst (mem_markKitTerminalFinalized 30 ''a'' ''s'' demo_done)"
    using kit_finalization_partition [OF demo_done_reachable r(1) _ r(3,4), of 30] r(2)
    by (simp add: terminal_status_def)
  moreover have "map pk_jobId (mem_getPendingKitFinalizations demo_done) = [''a'']" by code_simp
  ultimately show ?thesis by (rule conjI)
qed

end
