(* ===== verification/Job_Store_Sql.thy ===== *)
theory Job_Store_Sql
  imports Job_Store
begin

text \<open>
  The SQLite job store (class SqliteJobStore of src/src/job-store.ts). The jobs table is a list of
  rows with integer flags; each SQL text of the file is one definition: an UPDATE is its WHERE
  condition and its SET list, applied to every row, with the number of changed rows. rowToRecord
  reads a row back. The refinement at the end relates the table to the in-process store.
\<close>

section \<open>Tables\<close>

type_synonym sql_row = "int job_row"

record gateway_instance =
  gi_instanceId :: string
  gi_hostname :: "string option"
  gi_lastHeartbeat :: time

record sql_store =
  ss_jobs :: "sql_row list"
  ss_fences :: "kit_fence list"
  ss_instances :: "gateway_instance list"

definition sql_empty :: sql_store where
  "sql_empty = \<lparr>ss_jobs = [], ss_fences = [], ss_instances = []\<rparr>"

definition flag01 :: "bool \<Rightarrow> int" where
  "flag01 b = (if b then 1 else 0)"

definition parseDurableBoolean :: "int \<Rightarrow> bool" where
  "parseDurableBoolean v = (v = 1)"

definition js_Boolean :: "int \<Rightarrow> bool" where
  "js_Boolean v = (v \<noteq> 0)"

definition parseKitSessionId :: "string option \<Rightarrow> string option" where
  "parseKitSessionId v = (case v of None \<Rightarrow> None | Some s \<Rightarrow>
     (let t = str_trim s in if t \<noteq> [] then Some t else None))"

definition parseKitExecution :: "kit_ref option \<Rightarrow> kit_ref option" where
  "parseKitExecution v = (case v of None \<Rightarrow> None | Some e \<Rightarrow>
     (case cloneKitExecutionRef e of Inl _ \<Rightarrow> None | Inr x \<Rightarrow> Some x))"

definition read_capture :: "int capture_cols \<Rightarrow> bool capture_cols" where
  "read_capture c = \<lparr>cap_status = cap_status c, cap_outputDroppedBytes = cap_outputDroppedBytes c,
     cap_nativeTranscript = cap_nativeTranscript c,
     cap_nativeTranscriptBytes = cap_nativeTranscriptBytes c,
     cap_nativeTranscriptTruncated = parseDurableBoolean (cap_nativeTranscriptTruncated c),
     cap_nativeTranscriptDroppedBytes = cap_nativeTranscriptDroppedBytes c,
     cap_error = cap_error c\<rparr>"

definition rowToRecord :: "sql_row \<Rightarrow> mem_row" where
  "rowToRecord r = \<lparr>jr_id = jr_id r, jr_correlationId = jr_correlationId r,
     jr_requestKey = jr_requestKey r, jr_cli = jr_cli r, jr_args = jr_args r,
     jr_outputFormat = jr_outputFormat r,
     jr_compressResponse = map_option js_Boolean (jr_compressResponse r),
     jr_status = jr_status r, jr_exitCode = jr_exitCode r, jr_stdout = jr_stdout r,
     jr_stderr = jr_stderr r, jr_outputTruncated = js_Boolean (jr_outputTruncated r),
     jr_error = jr_error r, jr_errorCategory = jr_errorCategory r,
     jr_retryable = map_option js_Boolean (jr_retryable r), jr_startedAt = jr_startedAt r,
     jr_finishedAt = jr_finishedAt r, jr_pid = jr_pid r, jr_expiresAt = jr_expiresAt r,
     jr_ownerPrincipal = jr_ownerPrincipal r, jr_transport = jr_transport r,
     jr_httpStatus = jr_httpStatus r, jr_payloadJson = jr_payloadJson r,
     jr_ownerInstance = jr_ownerInstance r, jr_ownerHostname = jr_ownerHostname r,
     jr_mcpArtifactPath = jr_mcpArtifactPath r, jr_mcpArtifactScope = jr_mcpArtifactScope r,
     jr_mcpCleanupPending = parseDurableBoolean (jr_mcpCleanupPending r),
     jr_leaseDeadline = jr_leaseDeadline r,
     jr_kitExecution = parseKitExecution (jr_kitExecution r),
     jr_kitSessionId = parseKitSessionId (jr_kitSessionId r),
     jr_kitFinalized = parseDurableBoolean (jr_kitFinalized r),
     jr_kitFinalizedAt = jr_kitFinalizedAt r, jr_progressJson = jr_progressJson r,
     jr_cwd = jr_cwd r, jr_replayContext = jr_replayContext r,
     jr_captureFormat = jr_captureFormat r, jr_capture = read_capture (jr_capture r)\<rparr>"

section \<open>Statements\<close>

definition sql_update :: "(sql_row \<Rightarrow> bool) \<Rightarrow> (sql_row \<Rightarrow> sql_row) \<Rightarrow> sql_store \<Rightarrow> nat \<times> sql_store" where
  "sql_update cond set_cols s =
     (length (filter cond (ss_jobs s)),
      s\<lparr>ss_jobs := map (\<lambda>r. if cond r then set_cols r else r) (ss_jobs s)\<rparr>)"

definition sql_insert_fence :: "kit_fence \<Rightarrow> sql_store \<Rightarrow> (string + bool) \<times> sql_store" where
  "sql_insert_fence f s =
     (case cloneKitExecutionRef (kf_kitExecution f) of
        Inl e \<Rightarrow> (Inl e, s)
      | Inr x \<Rightarrow>
          if kf_attemptId f \<in> kf_attemptId ` set (ss_fences s) then (Inr False, s)
          else (Inr True, s\<lparr>ss_fences := ss_fences s @ [f\<lparr>kf_kitExecution := x\<rparr>]\<rparr>))"

text \<open>INSERT INTO jobs: a duplicate primary key raises.\<close>

definition sql_insert :: "sql_row \<Rightarrow> sql_store \<Rightarrow> string option \<times> sql_store" where
  "sql_insert r s =
     (if jr_id r \<in> jr_id ` set (ss_jobs s) then (Some ''UNIQUE constraint failed: jobs.id'', s)
      else (None, s\<lparr>ss_jobs := ss_jobs s @ [r]\<rparr>))"

text \<open>
  recordStart without a validation admission: a lone insert, or the fence and the row in one
  transaction that rolls back on any error.
\<close>

definition sql_recordStart :: "store_cfg \<Rightarrow> time \<Rightarrow> start_input \<Rightarrow> sql_store \<Rightarrow> string option \<times> sql_store" where
  "sql_recordStart cfg now i s =
     (case assertMcpArtifactAdmissionInvariant (start_artifact i) of
        Some e \<Rightarrow> (Some e, s)
      | None \<Rightarrow>
         (case si_kitExecution i of
            None \<Rightarrow> sql_insert (new_row flag01 cfg now i) s
          | Some x \<Rightarrow>
              (let session = str_trim (nullish (si_kitSessionId i) []) in
               if session = [] then (Some ''Kit job admission requires a gateway kitSessionId'', s)
               else
                 (case sql_insert_fence (start_fence i x session) s of
                    (Inl e, _) \<Rightarrow> (Some e, s)
                  | (Inr False, _) \<Rightarrow>
                      (Some (''Kit job id '' @ si_id i
                         @ '' is already admitted or permanently recovered''), s)
                  | (Inr True, s1) \<Rightarrow>
                      (case sql_insert (new_row flag01 cfg now i) s1 of
                         (Some e, _) \<Rightarrow> (Some e, s)
                       | (None, s2) \<Rightarrow> (None, s2))))))"

definition SQL_UPDATE_OUTPUT ::
    "string \<Rightarrow> string \<Rightarrow> string \<Rightarrow> int \<Rightarrow> job_status list \<Rightarrow> sql_store \<Rightarrow> nat \<times> sql_store" where
  "SQL_UPDATE_OUTPUT k out err trunc expected =
     sql_update (\<lambda>r. jr_id r = k \<and> jr_status r \<in> set expected)
       (\<lambda>r. r\<lparr>jr_stdout := if jr_kitExecution r = None then out else [],
              jr_stderr := if jr_kitExecution r = None then err else [],
              jr_outputTruncated := trunc\<rparr>)"

definition SQL_UPDATE_PROGRESS :: "string \<Rightarrow> string \<Rightarrow> sql_store \<Rightarrow> nat \<times> sql_store" where
  "SQL_UPDATE_PROGRESS k p = sql_update (\<lambda>r. jr_id r = k) (\<lambda>r. r\<lparr>jr_progressJson := Some p\<rparr>)"

definition SQL_UPDATE_PROGRESS_IF_STATUS ::
    "string \<Rightarrow> job_status \<Rightarrow> string \<Rightarrow> sql_store \<Rightarrow> nat \<times> sql_store" where
  "SQL_UPDATE_PROGRESS_IF_STATUS k st p =
     sql_update (\<lambda>r. jr_id r = k \<and> jr_status r = st) (\<lambda>r. r\<lparr>jr_progressJson := Some p\<rparr>)"

definition SQL_UPDATE_CAPTURE :: "string \<Rightarrow> string \<Rightarrow> capture_input \<Rightarrow> sql_store \<Rightarrow> nat \<times> sql_store" where
  "SQL_UPDATE_CAPTURE k inst c =
     sql_update
       (\<lambda>r. jr_id r = k \<and> jr_ownerInstance r = Some inst \<and> jr_kitExecution r = None
          \<and> (cap_status (jr_capture r) = None
             \<or> (cap_status (jr_capture r) = Some Not_captured
                \<and> cap_error (jr_capture r) = Some CAPTURE_ACCOUNTING_RECOVERY_ERROR))
          \<and> jr_status r \<notin> {SQueued, SRunning, SOrphaned})
       (\<lambda>r. r\<lparr>jr_capture := capture_of flag01 c\<rparr>)"

definition SQL_RECONCILE_CAPTURE_ACCOUNTING :: "sql_store \<Rightarrow> nat \<times> sql_store" where
  "SQL_RECONCILE_CAPTURE_ACCOUNTING s =
     sql_update
       (\<lambda>r. jr_status r \<notin> {SQueued, SRunning} \<and> jr_kitExecution r = None
          \<and> cap_status (jr_capture r) = None \<and> jr_ownerInstance r \<noteq> None
          \<and> the (jr_ownerInstance r) \<notin> gi_instanceId ` set (ss_instances s))
       (\<lambda>r. r\<lparr>jr_capture := (jr_capture r)\<lparr>cap_status := Some Not_captured,
          cap_error := Some CAPTURE_ACCOUNTING_RECOVERY_ERROR\<rparr>\<rparr>) s"

definition sql_complete_row :: "store_cfg \<Rightarrow> completion \<Rightarrow> sql_row \<Rightarrow> sql_row" where
  "sql_complete_row cfg i r =
     r\<lparr>jr_status := jc_status i, jr_exitCode := jc_exitCode i,
       jr_stdout := (if jr_kitExecution r = None then jc_stdout i else []),
       jr_stderr := (if jr_kitExecution r = None then jc_stderr i else []),
       jr_outputTruncated := flag01 (jc_outputTruncated i),
       jr_error := (if jr_kitExecution r = None then jc_error i
                    else if jc_status i = SCompleted then None else Some KIT_FAILURE_WITHHELD),
       jr_errorCategory := jc_errorCategory i,
       jr_retryable := map_option flag01 (jc_retryable i),
       jr_finishedAt := Some (jc_finishedAt i),
       jr_expiresAt := retentionExpiry (jc_finishedAt i) (sc_retentionMs cfg),
       jr_httpStatus := nullish (jc_httpStatus i) None,
       jr_leaseDeadline := None,
       jr_progressJson := (case jc_progressJson i of None \<Rightarrow> jr_progressJson r | Some p \<Rightarrow> Some p),
       jr_capture :=
         (if jr_kitExecution r = None \<and> cap_status (jr_capture r) = None \<and> jc_capture i \<noteq> None
          then capture_of flag01 (the (jc_capture i)) else jr_capture r)\<rparr>"

definition SQL_UPDATE_COMPLETE :: "store_cfg \<Rightarrow> completion \<Rightarrow> sql_store \<Rightarrow> nat \<times> sql_store" where
  "SQL_UPDATE_COMPLETE cfg i =
     sql_update (\<lambda>r. jr_id r = jc_id i \<and> jr_status r \<in> {SQueued, SRunning, SOrphaned})
       (sql_complete_row cfg i)"

definition SQL_MARK_KIT_TERMINAL_FINALIZED :: "time \<Rightarrow> string \<Rightarrow> string \<Rightarrow> sql_store \<Rightarrow> nat \<times> sql_store" where
  "SQL_MARK_KIT_TERMINAL_FINALIZED now k ses =
     sql_update
       (\<lambda>r. jr_id r = k \<and> jr_kitSessionId r = Some ses \<and> jr_kitExecution r \<noteq> None
          \<and> jr_status r \<in> {SCompleted, SFailed, SCanceled})
       (\<lambda>r. r\<lparr>jr_kitFinalized := 1,
              jr_kitFinalizedAt := (case jr_kitFinalizedAt r of None \<Rightarrow> Some now | Some t \<Rightarrow> Some t)\<rparr>)"

definition SQL_MARK_RUNNING :: "store_cfg \<Rightarrow> time \<Rightarrow> string \<Rightarrow> nat option \<Rightarrow> sql_store \<Rightarrow> nat \<times> sql_store" where
  "SQL_MARK_RUNNING cfg now k pid =
     sql_update (\<lambda>r. jr_id r = k \<and> jr_status r = SQueued)
       (\<lambda>r. r\<lparr>jr_status := SRunning, jr_pid := pid, jr_leaseDeadline := Some (now + sc_leaseTtlMs cfg)\<rparr>)"

definition SQL_HEARTBEAT_JOBS :: "store_cfg \<Rightarrow> time \<Rightarrow> string \<Rightarrow> sql_store \<Rightarrow> nat \<times> sql_store" where
  "SQL_HEARTBEAT_JOBS cfg now inst =
     sql_update (\<lambda>r. jr_ownerInstance r = Some inst \<and> jr_status r \<in> {SQueued, SRunning})
       (\<lambda>r. r\<lparr>jr_leaseDeadline := Some (now + sc_leaseTtlMs cfg)\<rparr>)"

definition SQL_ACKNOWLEDGE_MCP_ARTIFACT_CLEANUP ::
    "string \<Rightarrow> string \<Rightarrow> string \<Rightarrow> string \<Rightarrow> sql_store \<Rightarrow> nat \<times> sql_store" where
  "SQL_ACKNOWLEDGE_MCP_ARTIFACT_CLEANUP k host scope path =
     sql_update
       (\<lambda>r. jr_id r = k \<and> jr_ownerHostname r = Some host \<and> jr_mcpArtifactScope r = Some scope
          \<and> jr_mcpArtifactPath r = Some path \<and> jr_mcpCleanupPending r = 1
          \<and> jr_status r \<in> {SCompleted, SFailed, SCanceled, SOrphaned})
       (\<lambda>r. r\<lparr>jr_mcpCleanupPending := 0\<rparr>)"

definition SQL_DELETE_EXPIRED :: "time \<Rightarrow> sql_store \<Rightarrow> nat \<times> sql_store" where
  "SQL_DELETE_EXPIRED now s =
     (let dead = (\<lambda>r. jr_expiresAt r < now \<and> (jr_kitExecution r = None \<or> jr_kitFinalized r = 1)
            \<and> jr_mcpCleanupPending r = 0) in
      (length (filter dead (ss_jobs s)), s\<lparr>ss_jobs := filter (\<lambda>r. \<not> dead r) (ss_jobs s)\<rparr>))"

definition SQL_ADVANCE_LEASE :: "int \<Rightarrow> time \<Rightarrow> string list \<Rightarrow> sql_store \<Rightarrow> nat \<times> sql_store" where
  "SQL_ADVANCE_LEASE leaseTtl now ids =
     sql_update (\<lambda>r. jr_status r \<in> {SQueued, SRunning} \<and> jr_id r \<in> set ids)
       (\<lambda>r. r\<lparr>jr_leaseDeadline := Some (now + leaseTtl), jr_pid := None\<rparr>)"

definition lease_expired :: "time \<Rightarrow> 'b job_row \<Rightarrow> bool" where
  "lease_expired now r = (case jr_leaseDeadline r of None \<Rightarrow> True | Some d \<Rightarrow> d < now)"

definition orphan_candidate :: "time \<Rightarrow> int \<Rightarrow> string list \<Rightarrow> sql_row \<Rightarrow> bool" where
  "orphan_candidate now httpGrace exclude r =
     (jr_status r \<in> {SQueued, SRunning} \<and> lease_expired now r
      \<and> (jr_transport r \<noteq> THttp \<or> jr_startedAt r < now - httpGrace) \<and> jr_id r \<notin> set exclude)"

definition orphan_row :: "time \<Rightarrow> time \<Rightarrow> sql_row \<Rightarrow> sql_row" where
  "orphan_row now expires r =
     r\<lparr>jr_status := SOrphaned,
       jr_stdout := (if jr_kitExecution r = None then jr_stdout r else []),
       jr_stderr := (if jr_kitExecution r = None then jr_stderr r else []),
       jr_payloadJson := (if jr_kitExecution r = None then jr_payloadJson r else None),
       jr_error := (if jr_kitExecution r = None
          then Some (nullish (jr_error r) ''owning gateway instance is no longer alive'')
          else Some KIT_FAILURE_WITHHELD),
       jr_finishedAt := (case jr_finishedAt r of None \<Rightarrow> Some now | Some t \<Rightarrow> Some t),
       jr_expiresAt := expires, jr_leaseDeadline := None\<rparr>"

definition SQL_ORPHAN_EXPIRED :: "time \<Rightarrow> time \<Rightarrow> int \<Rightarrow> string list \<Rightarrow> sql_store \<Rightarrow> sql_row list \<times> sql_store" where
  "SQL_ORPHAN_EXPIRED now expires httpGrace exclude s =
     (map (orphan_row now expires) (filter (orphan_candidate now httpGrace exclude) (ss_jobs s)),
      snd (sql_update (orphan_candidate now httpGrace exclude) (orphan_row now expires) s))"

section \<open>Methods\<close>

definition sql_markRunning :: "store_cfg \<Rightarrow> time \<Rightarrow> string \<Rightarrow> nat option \<Rightarrow> sql_store \<Rightarrow> bool \<times> sql_store" where
  "sql_markRunning cfg now k pid s = (let (n, s') = SQL_MARK_RUNNING cfg now k pid s in (n > 0, s'))"

definition sql_heartbeat :: "store_cfg \<Rightarrow> time \<Rightarrow> string \<Rightarrow> sql_store \<Rightarrow> (bool \<times> nat) \<times> sql_store" where
  "sql_heartbeat cfg now inst s =
     (let refreshed = list_ex (\<lambda>g. gi_instanceId g = inst) (ss_instances s);
          s1 = s\<lparr>ss_instances := map (\<lambda>g. if gi_instanceId g = inst then g\<lparr>gi_lastHeartbeat := now\<rparr> else g)
                 (ss_instances s)\<rparr>;
          (n, s2) = SQL_HEARTBEAT_JOBS cfg now inst s1 in
      ((refreshed, n), s2))"

definition sql_registerInstance :: "time \<Rightarrow> string \<Rightarrow> string option \<Rightarrow> sql_store \<Rightarrow> sql_store" where
  "sql_registerInstance now inst host s =
     (if inst \<in> gi_instanceId ` set (ss_instances s)
      then s\<lparr>ss_instances := map (\<lambda>g. if gi_instanceId g = inst
             then g\<lparr>gi_hostname := host, gi_lastHeartbeat := now\<rparr> else g) (ss_instances s)\<rparr>
      else s\<lparr>ss_instances := ss_instances s @
             [\<lparr>gi_instanceId = inst, gi_hostname = host, gi_lastHeartbeat = now\<rparr>]\<rparr>)"

definition sql_deregisterInstance :: "string \<Rightarrow> sql_store \<Rightarrow> sql_store" where
  "sql_deregisterInstance inst s =
     s\<lparr>ss_instances := filter (\<lambda>g. gi_instanceId g \<noteq> inst) (ss_instances s)\<rparr>"

definition sql_recoverStaleJobs ::
    "store_cfg \<Rightarrow> time \<Rightarrow> int \<Rightarrow> int \<Rightarrow> string list \<Rightarrow> sql_store \<Rightarrow> sql_row list \<times> sql_store" where
  "sql_recoverStaleJobs cfg now leaseTtl httpGrace liveIds s =
     (let s1 = (if liveIds \<noteq> [] then snd (SQL_ADVANCE_LEASE leaseTtl now liveIds s) else s) in
      SQL_ORPHAN_EXPIRED now (retentionExpiry now (sc_retentionMs cfg)) httpGrace liveIds s1)"

definition sql_gcInstances :: "time \<Rightarrow> int \<Rightarrow> sql_store \<Rightarrow> nat \<times> sql_store" where
  "sql_gcInstances now gcMs s =
     (let gone = (\<lambda>g. gi_lastHeartbeat g < now - gcMs);
          s1 = s\<lparr>ss_instances := filter (\<lambda>g. \<not> gone g) (ss_instances s)\<rparr> in
      (length (filter gone (ss_instances s)), snd (SQL_RECONCILE_CAPTURE_ACCOUNTING s1)))"

definition sql_recordOutput ::
    "string \<Rightarrow> string \<Rightarrow> string \<Rightarrow> bool \<Rightarrow> job_status list \<Rightarrow> sql_store \<Rightarrow> bool \<times> sql_store" where
  "sql_recordOutput k out err trunc expected s =
     (let (n, s') = SQL_UPDATE_OUTPUT k out err (flag01 trunc) expected s in (n > 0, s'))"

definition sql_recordProgressIfStatus ::
    "string \<Rightarrow> job_status \<Rightarrow> string \<Rightarrow> sql_store \<Rightarrow> bool \<times> sql_store" where
  "sql_recordProgressIfStatus k st p s =
     (let (n, s') = SQL_UPDATE_PROGRESS_IF_STATUS k st p s in (n = 1, s'))"

definition sql_recordCapture :: "string \<Rightarrow> string \<Rightarrow> capture_input \<Rightarrow> sql_store \<Rightarrow> bool \<times> sql_store" where
  "sql_recordCapture k inst c s = (let (n, s') = SQL_UPDATE_CAPTURE k inst c s in (n = 1, s'))"

definition sql_recordComplete :: "store_cfg \<Rightarrow> completion \<Rightarrow> sql_store \<Rightarrow> bool \<times> sql_store" where
  "sql_recordComplete cfg i s = (let (n, s') = SQL_UPDATE_COMPLETE cfg i s in (n = 1, s'))"

definition sql_getById :: "string \<Rightarrow> sql_store \<Rightarrow> mem_row option" where
  "sql_getById k s = map_option rowToRecord (find (\<lambda>r. jr_id r = k) (ss_jobs s))"

definition sql_markKitTerminalFinalized :: "time \<Rightarrow> string \<Rightarrow> string \<Rightarrow> sql_store \<Rightarrow> bool \<times> sql_store" where
  "sql_markKitTerminalFinalized now k ses s =
     (let (n, s') = SQL_MARK_KIT_TERMINAL_FINALIZED now k ses s in (n > 0, s'))"

definition sql_acknowledgeCleanup ::
    "string \<Rightarrow> string \<Rightarrow> string \<Rightarrow> string \<Rightarrow> sql_store \<Rightarrow> bool \<times> sql_store" where
  "sql_acknowledgeCleanup k host scope path s =
     (let (n, s') = SQL_ACKNOWLEDGE_MCP_ARTIFACT_CLEANUP k host scope path s in (n = 1, s'))"

definition sql_evictExpired :: "store_cfg \<Rightarrow> time \<Rightarrow> sql_store \<Rightarrow> nat \<times> sql_store" where
  "sql_evictExpired cfg now s =
     (if sc_retentionMs cfg = None then (0, s) else SQL_DELETE_EXPIRED now s)"

definition sql_fenceUnadmittedKitAttempt :: "kit_fence \<Rightarrow> sql_store \<Rightarrow> (string + fence_result) \<times> sql_store" where
  "sql_fenceUnadmittedKitAttempt f s =
     (case sql_insert_fence (f\<lparr>kf_state := Recovered\<rparr>) s of
        (Inl e, s') \<Rightarrow> (Inl e, s')
      | (Inr True, s') \<Rightarrow> (Inr Reserved, s')
      | (Inr False, s') \<Rightarrow>
          (case find (\<lambda>g. kf_attemptId g = kf_attemptId f) (ss_fences s') of
             None \<Rightarrow> (Inr Conflict, s')
           | Some ex \<Rightarrow>
               (case parseKitExecution (Some (kf_kitExecution ex)) of
                  None \<Rightarrow> (Inr Conflict, s')
                | Some ref \<Rightarrow>
                    if kf_state ex = Recovered \<and> kf_cli ex = kf_cli f
                       \<and> kf_kitSessionId ex = kf_kitSessionId f
                       \<and> recoveredFenceOwnerMatches (kf_ownerPrincipal ex) (kf_ownerPrincipal f)
                    then (case sameKitExecutionRef ref (kf_kitExecution f) of
                            Inl e \<Rightarrow> (Inl e, s')
                          | Inr same \<Rightarrow> (Inr (if same then Already_recovered else Conflict), s'))
                    else (Inr Conflict, s'))))"

section \<open>The table as an in-process store\<close>

definition sql_abs :: "sql_store \<Rightarrow> mem_store" where
  "sql_abs s = \<lparr>ms_rows = map (\<lambda>r. (jr_id r, rowToRecord r)) (ss_jobs s),
     ms_fences = map (\<lambda>f. (kf_attemptId f, f)) (ss_fences s)\<rparr>"

text \<open>What a column can hold, given the statements that write it.\<close>

definition columns_ok :: "sql_row \<Rightarrow> bool" where
  "columns_ok r \<longleftrightarrow> jr_mcpCleanupPending r \<in> {0, 1} \<and> jr_kitFinalized r \<in> {0, 1}
     \<and> (jr_kitFinalized r = 1) = (jr_kitFinalizedAt r \<noteq> None)
     \<and> parseKitSessionId (jr_kitSessionId r) = jr_kitSessionId r
     \<and> parseKitExecution (jr_kitExecution r) = jr_kitExecution r"

definition sql_inv :: "sql_store \<Rightarrow> bool" where
  "sql_inv s \<longleftrightarrow> distinct (map jr_id (ss_jobs s)) \<and> distinct (map kf_attemptId (ss_fences s))
     \<and> (\<forall>r\<in>set (ss_jobs s). columns_ok r) \<and> (\<forall>f\<in>set (ss_fences s). isKitExecutionRef (kf_kitExecution f))
     \<and> mem_inv (sql_abs s)"

lemma rowToRecord_simps [simp]:
  "jr_id (rowToRecord r) = jr_id r" "jr_status (rowToRecord r) = jr_status r"
  "jr_ownerInstance (rowToRecord r) = jr_ownerInstance r"
  "jr_ownerHostname (rowToRecord r) = jr_ownerHostname r"
  "jr_mcpArtifactPath (rowToRecord r) = jr_mcpArtifactPath r"
  "jr_mcpArtifactScope (rowToRecord r) = jr_mcpArtifactScope r"
  "jr_expiresAt (rowToRecord r) = jr_expiresAt r" "jr_httpStatus (rowToRecord r) = jr_httpStatus r"
  "jr_leaseDeadline (rowToRecord r) = jr_leaseDeadline r"
  "jr_mcpCleanupPending (rowToRecord r) = (jr_mcpCleanupPending r = 1)"
  "jr_kitFinalized (rowToRecord r) = (jr_kitFinalized r = 1)"
  "jr_kitFinalizedAt (rowToRecord r) = jr_kitFinalizedAt r"
  "cap_status (jr_capture (rowToRecord r)) = cap_status (jr_capture r)"
  "cap_error (jr_capture (rowToRecord r)) = cap_error (jr_capture r)"
  by (simp_all add: rowToRecord_def parseDurableBoolean_def read_capture_def)

lemma columns_kit [simp]:
  "columns_ok r \<Longrightarrow> jr_kitExecution (rowToRecord r) = jr_kitExecution r"
  "columns_ok r \<Longrightarrow> jr_kitSessionId (rowToRecord r) = jr_kitSessionId r"
  by (simp_all add: rowToRecord_def columns_ok_def)

lemma find_map_get: "js_get (map (\<lambda>r. (f r, g r)) rs) k = map_option g (find (\<lambda>r. f r = k) rs)"
  by (induction rs) auto

lemma find_unique_split:
  assumes "distinct (map f rs)"
  obtains (none) "find (\<lambda>r. f r = k) rs = None" "\<forall>r\<in>set rs. f r \<noteq> k"
  | (some) us r vs where "rs = us @ r # vs" "f r = k" "\<forall>x\<in>set us \<union> set vs. f x \<noteq> k"
      "find (\<lambda>r. f r = k) rs = Some r"
proof (cases "find (\<lambda>r. f r = k) rs")
  case None
  then show ?thesis using none by (auto simp: find_None_iff)
next
  case (Some r)
  then obtain us vs where "rs = us @ r # vs" "f r = k"
    using find_Some_iff [of "\<lambda>r. f r = k" rs r] by (metis id_take_nth_drop)
  moreover from this have "\<forall>x\<in>set us \<union> set vs. f x \<noteq> k"
    using assms by (fastforce simp: image_iff)
  ultimately show ?thesis using some Some by blast
qed

lemma js_set_map:
  assumes "\<forall>x\<in>set us. f x \<noteq> k" and "f r = k"
  shows "js_set (map (\<lambda>r. (f r, g r)) (us @ r # vs)) k v = map (\<lambda>r. (f r, g r)) us @ (k, v) # map (\<lambda>r. (f r, g r)) vs"
  using assms by (induction us) auto

lemma sql_update_refines:
  assumes "distinct (map jr_id (ss_jobs s))"
    and cond: "\<And>r. r \<in> set (ss_jobs s) \<Longrightarrow> cond r = (jr_id r = k \<and> g (rowToRecord r))"
    and upd: "\<And>r. r \<in> set (ss_jobs s) \<Longrightarrow> jr_id r = k \<Longrightarrow> g (rowToRecord r) \<Longrightarrow>
           jr_id (u r) = k \<and> rowToRecord (u r) = v (rowToRecord r)"
  shows "fst (sql_update cond u s) = (if fst (mem_update k g v (sql_abs s)) then 1 else 0)"
    and "sql_abs (snd (sql_update cond u s)) = snd (mem_update k g v (sql_abs s))"
    and "distinct (map jr_id (ss_jobs (snd (sql_update cond u s))))"
proof -
  have "fst (sql_update cond u s) = (if fst (mem_update k g v (sql_abs s)) then 1 else 0)
    \<and> sql_abs (snd (sql_update cond u s)) = snd (mem_update k g v (sql_abs s))
    \<and> distinct (map jr_id (ss_jobs (snd (sql_update cond u s))))"
    using assms(1)
  proof (cases rule: find_unique_split [where k = k])
    case none
    then have "\<forall>r\<in>set (ss_jobs s). \<not> cond r" using cond by auto
    then have "filter cond (ss_jobs s) = []" "map (\<lambda>r. if cond r then u r else r) (ss_jobs s) = ss_jobs s"
      by (auto simp: filter_empty_conv intro: map_idI)
    then show ?thesis using none(1) assms(1)
      by (simp add: sql_update_def mem_update_def sql_abs_def find_map_get)
  next
    case (some us r vs)
    have rin: "r \<in> set (ss_jobs s)" using some(1) by simp
    have others: "\<forall>x\<in>set us \<union> set vs. \<not> cond x" using some(1,3) cond by auto
    then have m: "map (\<lambda>r. if cond r then u r else r) us = us"
      "map (\<lambda>r. if cond r then u r else r) vs = vs" "filter cond us = []" "filter cond vs = []"
      by (auto simp: filter_empty_conv intro: map_idI)
    have get: "js_get (ms_rows (sql_abs s)) k = Some (rowToRecord r)"
      by (simp add: sql_abs_def find_map_get some(4))
    show ?thesis
    proof (cases "g (rowToRecord r)")
      case True
      then have "cond r" "jr_id (u r) = k" "rowToRecord (u r) = v (rowToRecord r)"
        using cond [OF rin] upd [OF rin] some(2) by auto
      then show ?thesis
        using True get m assms(1) some(1-3) js_set_map [where us = us and f = jr_id and k = k and r = r and g = rowToRecord and vs = vs]
        by (simp add: sql_update_def mem_update_def sql_abs_def)
    next
      case False
      then have "\<not> cond r" using cond [OF rin] by simp
      then show ?thesis
        using False get m assms(1) some(1) by (simp add: sql_update_def mem_update_def sql_abs_def)
    qed
  qed
  then show "fst (sql_update cond u s) = (if fst (mem_update k g v (sql_abs s)) then 1 else 0)"
    and "sql_abs (snd (sql_update cond u s)) = snd (mem_update k g v (sql_abs s))"
    and "distinct (map jr_id (ss_jobs (snd (sql_update cond u s))))"
    by simp_all
qed

lemma sql_update_columns:
  assumes "\<forall>r\<in>set (ss_jobs s). columns_ok r"
    and "\<And>r. columns_ok r \<Longrightarrow> cond r \<Longrightarrow> columns_ok (u r)"
  shows "\<forall>r\<in>set (ss_jobs (snd (sql_update cond u s))). columns_ok r"
  using assms by (auto simp: sql_update_def)

lemma sql_update_fences [simp]:
  "ss_fences (snd (sql_update cond u s)) = ss_fences s"
  "ss_instances (snd (sql_update cond u s)) = ss_instances s"
  by (simp_all add: sql_update_def)

text \<open>One guarded UPDATE by primary key refines one guarded update of the in-process store.\<close>

lemma guarded_update:
  assumes inv: "sql_inv s"
    and cond: "\<And>r. columns_ok r \<Longrightarrow> cond r = (jr_id r = k \<and> g (rowToRecord r))"
    and upd: "\<And>r. columns_ok r \<Longrightarrow> row_ok id (rowToRecord r) \<Longrightarrow> jr_id r = k \<Longrightarrow> g (rowToRecord r) \<Longrightarrow>
           jr_id (u r) = k \<and> rowToRecord (u r) = v (rowToRecord r) \<and> columns_ok (u r)"
    and meminv: "mem_inv (snd (mem_update k g v (sql_abs s)))"
  shows "fst (sql_update cond u s) = (if fst (mem_update k g v (sql_abs s)) then 1 else 0)"
    and "sql_abs (snd (sql_update cond u s)) = snd (mem_update k g v (sql_abs s))"
    and "sql_inv (snd (sql_update cond u s))"
proof -
  have d: "distinct (map jr_id (ss_jobs s))" and c: "\<forall>r\<in>set (ss_jobs s). columns_ok r"
    and m: "mem_inv (sql_abs s)" using inv by (auto simp: sql_inv_def)
  have rok: "row_ok id (rowToRecord r)" if "r \<in> set (ss_jobs s)" for r
  proof -
    have "js_get (ms_rows (sql_abs s)) (jr_id r) = Some (rowToRecord r)"
      using find_unique [OF d that]
      by (simp add: sql_abs_def find_map_get)
    then show ?thesis using mem_invD [OF m] by (auto simp: row_ok_def)
  qed
  note ref = sql_update_refines [OF d, of cond k g u v]
  show 1: "fst (sql_update cond u s) = (if fst (mem_update k g v (sql_abs s)) then 1 else 0)"
    and 2: "sql_abs (snd (sql_update cond u s)) = snd (mem_update k g v (sql_abs s))"
    using ref cond upd c rok by blast+
  have "\<forall>r\<in>set (ss_jobs (snd (sql_update cond u s))). columns_ok r"
    using c cond upd rok by (auto simp: sql_update_def)
  then show "sql_inv (snd (sql_update cond u s))"
    using ref(3) cond upd c rok inv meminv by (simp add: sql_inv_def 2)
qed

section \<open>The shared calls\<close>

datatype store_call =
    CStart time start_input
  | CFence kit_fence
  | CRunning time string "nat option"
  | CHeartbeat time string
  | CCleanup string string string string
  | COutput string string string bool "job_status list"
  | CProgress string string
  | CProgressIf string job_status string
  | CCapture string string capture_input
  | CComplete completion
  | CFinalized time string string
  | CEvict time
  | CGet string

datatype call_result =
    RBool bool
  | RError "string option"
  | RFence "string + fence_result"
  | RCount nat
  | RRow "mem_row option"
  | RDone

fun mem_call :: "store_cfg \<Rightarrow> store_call \<Rightarrow> mem_store \<Rightarrow> call_result \<times> mem_store" where
  "mem_call cfg (CStart now i) s = apfst RError (mem_recordStart cfg now i s)"
| "mem_call cfg (CFence f) s = apfst RFence (fenceUnadmittedKitAttempt f s)"
| "mem_call cfg (CRunning now k pid) s = apfst RBool (mem_markRunning cfg now k pid s)"
| "mem_call cfg (CHeartbeat now inst) s = apfst RCount (mem_heartbeat cfg now inst s)"
| "mem_call cfg (CCleanup k host scope path) s = apfst RBool (mem_acknowledgeCleanup k host scope path s)"
| "mem_call cfg (COutput k out err b sts) s = apfst RBool (mem_recordOutput k out err b sts s)"
| "mem_call cfg (CProgress k p) s = (RDone, mem_recordProgress k p s)"
| "mem_call cfg (CProgressIf k st p) s = apfst RBool (mem_recordProgressIfStatus k st p s)"
| "mem_call cfg (CCapture k inst c) s = apfst RBool (mem_recordCapture k inst c s)"
| "mem_call cfg (CComplete i) s = apfst RBool (mem_recordComplete cfg i s)"
| "mem_call cfg (CFinalized now k ses) s = apfst RBool (mem_markKitTerminalFinalized now k ses s)"
| "mem_call cfg (CEvict now) s = apfst RCount (mem_evictExpired cfg now s)"
| "mem_call cfg (CGet k) s = (RRow (mem_getById k s), s)"

fun sql_call :: "store_cfg \<Rightarrow> store_call \<Rightarrow> sql_store \<Rightarrow> call_result \<times> sql_store" where
  "sql_call cfg (CStart now i) s = apfst RError (sql_recordStart cfg now i s)"
| "sql_call cfg (CFence f) s = apfst RFence (sql_fenceUnadmittedKitAttempt f s)"
| "sql_call cfg (CRunning now k pid) s = apfst RBool (sql_markRunning cfg now k pid s)"
| "sql_call cfg (CHeartbeat now inst) s = apfst (RCount \<circ> snd) (sql_heartbeat cfg now inst s)"
| "sql_call cfg (CCleanup k host scope path) s = apfst RBool (sql_acknowledgeCleanup k host scope path s)"
| "sql_call cfg (COutput k out err b sts) s = apfst RBool (sql_recordOutput k out err b sts s)"
| "sql_call cfg (CProgress k p) s = (RDone, snd (SQL_UPDATE_PROGRESS k p s))"
| "sql_call cfg (CProgressIf k st p) s = apfst RBool (sql_recordProgressIfStatus k st p s)"
| "sql_call cfg (CCapture k inst c) s = apfst RBool (sql_recordCapture k inst c s)"
| "sql_call cfg (CComplete i) s = apfst RBool (sql_recordComplete cfg i s)"
| "sql_call cfg (CFinalized now k ses) s = apfst RBool (sql_markKitTerminalFinalized now k ses s)"
| "sql_call cfg (CEvict now) s = apfst RCount (sql_evictExpired cfg now s)"
| "sql_call cfg (CGet k) s = (RRow (sql_getById k s), s)"

text \<open>
  The calls the manager makes: a new job has a fresh id and no validation admission, Kit references
  passed the guard, gateway session ids are trimmed, a completion is terminal.
\<close>

fun call_ok :: "store_call \<Rightarrow> sql_store \<Rightarrow> bool" where
  "call_ok (CStart now i) s = (si_id i \<notin> jr_id ` set (ss_jobs s) \<and> \<not> si_validationAdmission i
     \<and> (case si_kitExecution i of None \<Rightarrow> True | Some x \<Rightarrow> isKitExecutionRef x)
     \<and> parseKitSessionId (si_kitSessionId i) = si_kitSessionId i)"
| "call_ok (CFence f) s = isKitExecutionRef (kf_kitExecution f)"
| "call_ok (CComplete i) s = terminal_status (jc_status i)"
| "call_ok _ s = True"

lemma flag01_simps [simp]:
  "(flag01 b = 1) = b" "(flag01 b = 0) = (\<not> b)" "js_Boolean (flag01 b) = b"
  "parseDurableBoolean (flag01 b) = b" "flag01 b \<in> {0, 1}"
  by (simp_all add: flag01_def js_Boolean_def parseDurableBoolean_def)

lemma read_capture_of [simp]: "read_capture (capture_of flag01 c) = capture_of id c"
  by (simp add: read_capture_def capture_of_def)

lemma read_empty [simp]: "read_capture (empty_capture (flag01 False)) = empty_capture False"
  by (simp add: read_capture_def empty_capture_def)

lemma map_flag [simp]: "map_option js_Boolean (map_option flag01 b) = b"
  by (cases b) simp_all

lemma apfst_eq: "apfst f x = (f (fst x), snd x)"
  by (cases x) simp

section \<open>Each call refines\<close>

definition refines :: "store_cfg \<Rightarrow> store_call \<Rightarrow> sql_store \<Rightarrow> bool" where
  "refines cfg c s \<longleftrightarrow> mem_call cfg c (sql_abs s) = (fst (sql_call cfg c s), sql_abs (snd (sql_call cfg c s)))
     \<and> sql_inv (snd (sql_call cfg c s))"

lemma refinesI:
  assumes "fst (sql_call cfg c s) = fst (mem_call cfg c (sql_abs s))"
    and "sql_abs (snd (sql_call cfg c s)) = snd (mem_call cfg c (sql_abs s))"
    and "sql_inv (snd (sql_call cfg c s))"
  shows "refines cfg c s"
  using assms by (simp add: refines_def prod_eq_iff)

lemma sql_inv_mem: "sql_inv s \<Longrightarrow> mem_inv (sql_abs s)"
  by (simp add: sql_inv_def)

lemma rowToRecord_upd:
  "rowToRecord (r\<lparr>jr_status := st\<rparr>) = (rowToRecord r)\<lparr>jr_status := st\<rparr>"
  "rowToRecord (r\<lparr>jr_pid := p\<rparr>) = (rowToRecord r)\<lparr>jr_pid := p\<rparr>"
  "rowToRecord (r\<lparr>jr_leaseDeadline := d\<rparr>) = (rowToRecord r)\<lparr>jr_leaseDeadline := d\<rparr>"
  "rowToRecord (r\<lparr>jr_mcpCleanupPending := n\<rparr>) = (rowToRecord r)\<lparr>jr_mcpCleanupPending := (n = 1)\<rparr>"
  "rowToRecord (r\<lparr>jr_stdout := x\<rparr>) = (rowToRecord r)\<lparr>jr_stdout := x\<rparr>"
  "rowToRecord (r\<lparr>jr_stderr := x\<rparr>) = (rowToRecord r)\<lparr>jr_stderr := x\<rparr>"
  "rowToRecord (r\<lparr>jr_outputTruncated := n\<rparr>) = (rowToRecord r)\<lparr>jr_outputTruncated := js_Boolean n\<rparr>"
  "rowToRecord (r\<lparr>jr_progressJson := j\<rparr>) = (rowToRecord r)\<lparr>jr_progressJson := j\<rparr>"
  "rowToRecord (r\<lparr>jr_capture := c\<rparr>) = (rowToRecord r)\<lparr>jr_capture := read_capture c\<rparr>"
  "rowToRecord (r\<lparr>jr_exitCode := e\<rparr>) = (rowToRecord r)\<lparr>jr_exitCode := e\<rparr>"
  "rowToRecord (r\<lparr>jr_error := e'\<rparr>) = (rowToRecord r)\<lparr>jr_error := e'\<rparr>"
  "rowToRecord (r\<lparr>jr_errorCategory := e'\<rparr>) = (rowToRecord r)\<lparr>jr_errorCategory := e'\<rparr>"
  "rowToRecord (r\<lparr>jr_retryable := b\<rparr>) = (rowToRecord r)\<lparr>jr_retryable := map_option js_Boolean b\<rparr>"
  "rowToRecord (r\<lparr>jr_finishedAt := t\<rparr>) = (rowToRecord r)\<lparr>jr_finishedAt := t\<rparr>"
  "rowToRecord (r\<lparr>jr_expiresAt := t'\<rparr>) = (rowToRecord r)\<lparr>jr_expiresAt := t'\<rparr>"
  "rowToRecord (r\<lparr>jr_httpStatus := h\<rparr>) = (rowToRecord r)\<lparr>jr_httpStatus := h\<rparr>"
  "rowToRecord (r\<lparr>jr_payloadJson := j\<rparr>) = (rowToRecord r)\<lparr>jr_payloadJson := j\<rparr>"
  "rowToRecord (r\<lparr>jr_kitFinalized := n\<rparr>) = (rowToRecord r)\<lparr>jr_kitFinalized := (n = 1)\<rparr>"
  "rowToRecord (r\<lparr>jr_kitFinalizedAt := t\<rparr>) = (rowToRecord r)\<lparr>jr_kitFinalizedAt := t\<rparr>"
  by (simp_all add: rowToRecord_def parseDurableBoolean_def)

lemma refines_guarded:
  assumes inv: "sql_inv s"
    and sql: "sql_call cfg c s = (RBool b, snd (sql_update cond u s))"
      "b = (0 < fst (sql_update cond u s)) \<or> b = (fst (sql_update cond u s) = 1)"
    and mem: "mem_call cfg c (sql_abs s) = apfst RBool (mem_update k g v (sql_abs s))"
    and cond: "\<And>r. columns_ok r \<Longrightarrow> cond r = (jr_id r = k \<and> g (rowToRecord r))"
    and upd: "\<And>r. columns_ok r \<Longrightarrow> row_ok id (rowToRecord r) \<Longrightarrow> jr_id r = k \<Longrightarrow> g (rowToRecord r) \<Longrightarrow>
           jr_id (u r) = k \<and> rowToRecord (u r) = v (rowToRecord r) \<and> columns_ok (u r)"
    and meminv: "mem_inv (snd (mem_call cfg c (sql_abs s)))"
  shows "refines cfg c s"
proof -
  have "mem_inv (snd (mem_update k g v (sql_abs s)))" using meminv by (simp add: mem apfst_eq)
  note gu = guarded_update [OF inv cond upd this]
  have "b = fst (mem_update k g v (sql_abs s))"
    using sql(2) by (simp add: gu(1) split: if_splits)
  then show ?thesis by (intro refinesI) (simp_all add: sql(1) mem apfst_eq gu(2,3))
qed

lemma columns_ok_upd [simp]:
  "columns_ok (r\<lparr>jr_status := st\<rparr>) = columns_ok r"
  "columns_ok (r\<lparr>jr_pid := p\<rparr>) = columns_ok r"
  "columns_ok (r\<lparr>jr_leaseDeadline := d\<rparr>) = columns_ok r"
  "columns_ok (r\<lparr>jr_stdout := x\<rparr>) = columns_ok r"
  "columns_ok (r\<lparr>jr_stderr := x\<rparr>) = columns_ok r"
  "columns_ok (r\<lparr>jr_outputTruncated := n\<rparr>) = columns_ok r"
  "columns_ok (r\<lparr>jr_progressJson := j\<rparr>) = columns_ok r"
  "columns_ok (r\<lparr>jr_capture := c\<rparr>) = columns_ok r"
  "columns_ok (r\<lparr>jr_exitCode := e\<rparr>) = columns_ok r"
  "columns_ok (r\<lparr>jr_error := e'\<rparr>) = columns_ok r"
  "columns_ok (r\<lparr>jr_errorCategory := e'\<rparr>) = columns_ok r"
  "columns_ok (r\<lparr>jr_retryable := b\<rparr>) = columns_ok r"
  "columns_ok (r\<lparr>jr_finishedAt := t\<rparr>) = columns_ok r"
  "columns_ok (r\<lparr>jr_expiresAt := t'\<rparr>) = columns_ok r"
  "columns_ok (r\<lparr>jr_httpStatus := h\<rparr>) = columns_ok r"
  "columns_ok (r\<lparr>jr_payloadJson := j\<rparr>) = columns_ok r"
  "columns_ok r \<Longrightarrow> columns_ok (r\<lparr>jr_mcpCleanupPending := 0\<rparr>)"
  by (auto simp: columns_ok_def)

lemma refine_running: "sql_inv s \<Longrightarrow> refines cfg (CRunning now k pid) s"
  by (rule refines_guarded [where cond = "\<lambda>r. jr_id r = k \<and> jr_status r = SQueued" and k = k
        and u = "\<lambda>r. r\<lparr>jr_status := SRunning, jr_pid := pid, jr_leaseDeadline := Some (now + sc_leaseTtlMs cfg)\<rparr>"],
      assumption, simp add: sql_markRunning_def SQL_MARK_RUNNING_def apfst_eq case_prod_beta, simp,
      simp add: mem_markRunning_def)
    (simp_all add: rowToRecord_upd apfst_eq mem_markRunning_inv sql_inv_mem)

lemma refine_cleanup: "sql_inv s \<Longrightarrow> refines cfg (CCleanup k host scope path) s"
  by (rule refines_guarded [where cond = "\<lambda>r. jr_id r = k \<and> jr_ownerHostname r = Some host
        \<and> jr_mcpArtifactScope r = Some scope \<and> jr_mcpArtifactPath r = Some path
        \<and> jr_mcpCleanupPending r = 1 \<and> jr_status r \<in> {SCompleted, SFailed, SCanceled, SOrphaned}"
        and k = k and u = "\<lambda>r. r\<lparr>jr_mcpCleanupPending := 0\<rparr>"],
      assumption, simp add: sql_acknowledgeCleanup_def SQL_ACKNOWLEDGE_MCP_ARTIFACT_CLEANUP_def
        apfst_eq case_prod_beta, simp, simp add: mem_acknowledgeCleanup_def)
    (simp_all add: rowToRecord_upd apfst_eq mem_acknowledge_inv sql_inv_mem swept_status_def)

lemma refine_progress_if: "sql_inv s \<Longrightarrow> refines cfg (CProgressIf k st p) s"
  by (rule refines_guarded [where cond = "\<lambda>r. jr_id r = k \<and> jr_status r = st" and k = k
        and u = "\<lambda>r. r\<lparr>jr_progressJson := Some p\<rparr>"],
      assumption, simp add: sql_recordProgressIfStatus_def SQL_UPDATE_PROGRESS_IF_STATUS_def apfst_eq
        case_prod_beta, simp, simp add: mem_recordProgressIfStatus_def)
    (simp_all add: rowToRecord_upd apfst_eq mem_recordProgressIf_inv sql_inv_mem)

lemma refine_output: "sql_inv s \<Longrightarrow> refines cfg (COutput k out err b sts) s"
  by (rule refines_guarded [where cond = "\<lambda>r. jr_id r = k \<and> jr_status r \<in> set sts" and k = k
        and u = "\<lambda>r. r\<lparr>jr_stdout := if jr_kitExecution r = None then out else [],
              jr_stderr := if jr_kitExecution r = None then err else [],
              jr_outputTruncated := flag01 b\<rparr>"],
      assumption, simp add: sql_recordOutput_def SQL_UPDATE_OUTPUT_def apfst_eq case_prod_beta, simp,
      simp add: mem_recordOutput_def)
    (simp_all add: rowToRecord_upd apfst_eq mem_recordOutput_inv sql_inv_mem)

lemma refine_capture: "sql_inv s \<Longrightarrow> refines cfg (CCapture k inst c) s"
  by (rule refines_guarded [where cond = "\<lambda>r. jr_id r = k \<and> jr_ownerInstance r = Some inst
          \<and> jr_kitExecution r = None \<and> (cap_status (jr_capture r) = None
             \<or> (cap_status (jr_capture r) = Some Not_captured
                \<and> cap_error (jr_capture r) = Some CAPTURE_ACCOUNTING_RECOVERY_ERROR))
          \<and> jr_status r \<notin> {SQueued, SRunning, SOrphaned}" and k = k
        and u = "\<lambda>r. r\<lparr>jr_capture := capture_of flag01 c\<rparr>"],
      assumption, simp add: sql_recordCapture_def SQL_UPDATE_CAPTURE_def apfst_eq case_prod_beta, simp,
      simp add: mem_recordCapture_def)
    (auto simp: rowToRecord_upd apfst_eq mem_recordCapture_inv sql_inv_mem)

lemma completable_row_http:
  "row_ok id (rowToRecord r) \<Longrightarrow> completable (jr_status r) \<Longrightarrow> jr_httpStatus r = None"
  by (simp add: row_ok_def lifecycle_ok_def)

lemma complete_row_refines:
  assumes "columns_ok r" and "row_ok id (rowToRecord r)" and "completable (jr_status r)"
  shows "rowToRecord (sql_complete_row cfg i r) = mem_complete_row cfg i (rowToRecord r)"
proof -
  have h: "jr_httpStatus r = None" by (rule completable_row_http [OF assms(2,3)])
  have k: "parseKitExecution (jr_kitExecution r) = jr_kitExecution r"
    using assms(1) by (simp add: columns_ok_def)
  show ?thesis
    using h k
    by (cases "jr_kitExecution r"; intro job_row.equality)
      (simp_all add: sql_complete_row_def mem_complete_row_def Let_def rowToRecord_def nullish_def
        read_capture_def [of "jr_capture r"] split: option.split)
qed

lemma sql_complete_row_simps [simp]:
  "jr_id (sql_complete_row cfg i r) = jr_id r"
  "columns_ok (sql_complete_row cfg i r) = columns_ok r"
  by (simp_all add: sql_complete_row_def)

lemma completable_set: "(st \<in> {SQueued, SRunning, SOrphaned}) = completable st"
  by (auto simp: completable_def)

lemma refine_complete:
  assumes "sql_inv s" and "terminal_status (jc_status i)"
  shows "refines cfg (CComplete i) s"
  by (rule refines_guarded [OF assms(1), where cond = "\<lambda>r. jr_id r = jc_id i \<and> jr_status r \<in> {SQueued, SRunning, SOrphaned}"
        and k = "jc_id i" and u = "sql_complete_row cfg i" and v = "mem_complete_row cfg i"
        and g = "\<lambda>r. completable (jr_status r)"],
      simp add: sql_recordComplete_def SQL_UPDATE_COMPLETE_def apfst_eq case_prod_beta, simp,
      simp add: mem_recordComplete_def)
    (simp_all only: completable_set rowToRecord_simps complete_row_refines sql_complete_row_simps,
      simp add: apfst_eq mem_recordComplete_inv sql_inv_mem assms)

lemma mark_row_refines:
  assumes "columns_ok r"
  shows "rowToRecord (r\<lparr>jr_kitFinalized := 1,
            jr_kitFinalizedAt := (case jr_kitFinalizedAt r of None \<Rightarrow> Some now | Some t \<Rightarrow> Some t)\<rparr>)
      = (if \<not> jr_kitFinalized (rowToRecord r)
         then (rowToRecord r)\<lparr>jr_kitFinalized := True, jr_kitFinalizedAt := Some now\<rparr> else rowToRecord r)"
    and "columns_ok (r\<lparr>jr_kitFinalized := 1,
            jr_kitFinalizedAt := (case jr_kitFinalizedAt r of None \<Rightarrow> Some now | Some t \<Rightarrow> Some t)\<rparr>)"
proof -
  have fin: "(jr_kitFinalized r = 1) = (jr_kitFinalizedAt r \<noteq> None)"
    using assms by (auto simp: columns_ok_def)
  then show "rowToRecord (r\<lparr>jr_kitFinalized := 1,
            jr_kitFinalizedAt := (case jr_kitFinalizedAt r of None \<Rightarrow> Some now | Some t \<Rightarrow> Some t)\<rparr>)
      = (if \<not> jr_kitFinalized (rowToRecord r)
         then (rowToRecord r)\<lparr>jr_kitFinalized := True, jr_kitFinalizedAt := Some now\<rparr> else rowToRecord r)"
    by (cases "jr_kitFinalizedAt r") (simp_all add: rowToRecord_def parseDurableBoolean_def)
  show "columns_ok (r\<lparr>jr_kitFinalized := 1,
            jr_kitFinalizedAt := (case jr_kitFinalizedAt r of None \<Rightarrow> Some now | Some t \<Rightarrow> Some t)\<rparr>)"
    using assms by (auto simp: columns_ok_def split: option.split)
qed

lemma terminal_set: "(st \<in> {SCompleted, SFailed, SCanceled}) = (\<not> (st = SQueued \<or> st = SRunning \<or> st = SOrphaned))"
  by (cases st) simp_all

lemma refine_finalized: "sql_inv s \<Longrightarrow> refines cfg (CFinalized now k ses) s"
  by (rule refines_guarded [where cond = "\<lambda>r. jr_id r = k \<and> jr_kitSessionId r = Some ses
          \<and> jr_kitExecution r \<noteq> None \<and> jr_status r \<in> {SCompleted, SFailed, SCanceled}" and k = k
        and u = "\<lambda>r. r\<lparr>jr_kitFinalized := 1,
              jr_kitFinalizedAt := (case jr_kitFinalizedAt r of None \<Rightarrow> Some now | Some t \<Rightarrow> Some t)\<rparr>"],
      assumption, simp add: sql_markKitTerminalFinalized_def SQL_MARK_KIT_TERMINAL_FINALIZED_def
        apfst_eq case_prod_beta, simp, simp add: mem_markKitTerminalFinalized_def,
      unfold terminal_set)
    (auto simp only: mark_row_refines columns_kit rowToRecord_simps, auto simp: apfst_eq mem_markKitFinalized_inv sql_inv_mem)

end
