(* ===== verification/Store_Refinement.thy ===== *)
theory Store_Refinement
  imports Job_Store_Sql
begin

text \<open>
  The SQLite store refines the in-process one: every shared call returns the same result and leaves
  tables that read back as the same rows and fences. The durable-only operations, the orphan sweep
  above all, keep the invariant, and the SQLite store meets the contract of Job_Store with the sweep
  as its sweep.
\<close>

section \<open>The remaining shared calls\<close>

lemma sql_inv_rows:
  "sql_inv s \<Longrightarrow> r \<in> set (ss_jobs s) \<Longrightarrow> columns_ok r \<and> row_ok id (rowToRecord r)"
proof -
  assume inv: "sql_inv s" and r: "r \<in> set (ss_jobs s)"
  have "distinct (map jr_id (ss_jobs s))" using inv by (simp add: sql_inv_def)
  from find_unique [OF this r] have "js_get (ms_rows (sql_abs s)) (jr_id r) = Some (rowToRecord r)"
    by (simp add: sql_abs_def find_map_get)
  then show ?thesis
    using mem_invD [OF sql_inv_mem [OF inv]] inv r by (auto simp: sql_inv_def row_ok_def)
qed

lemma refine_progress: "sql_inv s \<Longrightarrow> refines cfg (CProgress k p) s"
proof -
  assume inv: "sql_inv s"
  have m: "mem_inv (snd (mem_update k (\<lambda>_. True) (\<lambda>r. r\<lparr>jr_progressJson := Some p\<rparr>) (sql_abs s)))"
    using mem_recordProgress_inv [OF sql_inv_mem [OF inv]] by (simp add: mem_recordProgress_def)
  have "sql_abs (snd (SQL_UPDATE_PROGRESS k p s)) = mem_recordProgress k p (sql_abs s)
      \<and> sql_inv (snd (SQL_UPDATE_PROGRESS k p s))"
    unfolding SQL_UPDATE_PROGRESS_def mem_recordProgress_def
    using guarded_update(2,3) [OF inv _ _ m, of "\<lambda>r. jr_id r = k" "\<lambda>r. r\<lparr>jr_progressJson := Some p\<rparr>"]
    by (simp add: rowToRecord_upd)
  then show ?thesis by (simp add: refines_def)
qed

lemma refine_get: "sql_inv s \<Longrightarrow> refines cfg (CGet k) s"
  by (simp add: refines_def sql_getById_def mem_getById_def sql_abs_def find_map_get)

text \<open>An UPDATE without a key changes every matching row; it keeps the ids.\<close>

lemma sql_inv_map:
  assumes "sql_inv s" and "\<And>r. jr_id (f r) = jr_id r"
    and "\<And>r. r \<in> set (ss_jobs s) \<Longrightarrow> columns_ok (f r) \<and> row_ok id (rowToRecord (f r))
           \<and> jr_kitExecution (f r) = jr_kitExecution r"
    and "ss_jobs s' = map f (ss_jobs s)" and "ss_fences s' = ss_fences s"
  shows "sql_inv s'"
proof -
  have ids: "map jr_id (ss_jobs s') = map jr_id (ss_jobs s)" using assms(2,4) by simp
  have abs: "ms_rows (sql_abs s') = map (\<lambda>r. (jr_id r, rowToRecord (f r))) (ss_jobs s)"
    "ms_fences (sql_abs s') = ms_fences (sql_abs s)"
    using assms(2,4,5) by (simp_all add: sql_abs_def)
  have "mem_inv ((sql_abs s)\<lparr>ms_rows := ms_rows (sql_abs s')\<rparr>)"
  proof (rule mem_rows_inv [OF sql_inv_mem [OF assms(1)]])
    have "map fst (ms_rows (sql_abs s')) = map jr_id (ss_jobs s)" by (simp add: abs comp_def)
    then show "js_wf (ms_rows (sql_abs s'))" using assms(1) by (simp add: sql_inv_def)
    fix k r
    assume "js_get (ms_rows (sql_abs s')) k = Some r"
    then obtain x where x: "find (\<lambda>r. jr_id r = k) (ss_jobs s) = Some x" "r = rowToRecord (f x)"
      by (auto simp: abs find_map_get)
    then have "x \<in> set (ss_jobs s)" by (auto simp: find_Some_iff)
    then have "columns_ok (f x)" "row_ok id (rowToRecord (f x))" "columns_ok x"
      "jr_kitExecution (f x) = jr_kitExecution x"
      using assms(3) sql_inv_rows [OF assms(1)] by auto
    then show "\<exists>r0. js_get (ms_rows (sql_abs s)) k = Some r0 \<and> jr_id r = jr_id r0
        \<and> jr_kitExecution r = jr_kitExecution r0 \<and> (row_ok id r0 \<longrightarrow> row_ok id r)"
      using x assms(2) by (auto simp: sql_abs_def find_map_get)
  qed
  moreover have "(sql_abs s)\<lparr>ms_rows := ms_rows (sql_abs s')\<rparr> = sql_abs s'" using abs(2) by simp
  moreover have "\<forall>r\<in>set (ss_jobs s'). columns_ok r" using assms(3,4) by auto
  ultimately show ?thesis
    using assms(1,5) unfolding sql_inv_def ids by simp
qed

lemma heartbeat_row_sql:
  "(if jr_ownerInstance r = Some inst \<and> jr_status r \<in> {SQueued, SRunning}
    then r\<lparr>jr_leaseDeadline := Some (now + sc_leaseTtlMs cfg)\<rparr> else r) = heartbeat_row cfg now inst r"
  by (simp add: heartbeat_row_def open_status_def)

lemma rowToRecord_heartbeat: "rowToRecord (heartbeat_row cfg now inst r) = heartbeat_row cfg now inst (rowToRecord r)"
  by (simp add: heartbeat_row_def rowToRecord_upd)

lemma sql_heartbeat_eq:
  "ss_jobs (snd (sql_heartbeat cfg now inst s)) = map (heartbeat_row cfg now inst) (ss_jobs s)"
  "ss_fences (snd (sql_heartbeat cfg now inst s)) = ss_fences s"
  "snd (fst (sql_heartbeat cfg now inst s))
     = length (filter (\<lambda>r. jr_ownerInstance r = Some inst \<and> open_status (jr_status r)) (ss_jobs s))"
  unfolding sql_heartbeat_def Let_def SQL_HEARTBEAT_JOBS_def sql_update_def heartbeat_row_sql
  by (simp_all add: open_status_def)

lemma length_filter_map: "length (filter P (map f xs)) = length (filter (P \<circ> f) xs)"
  by (induction xs) simp_all

lemma refine_heartbeat: "sql_inv s \<Longrightarrow> refines cfg (CHeartbeat now inst) s"
proof -
  assume inv: "sql_inv s"
  have "sql_inv (snd (sql_heartbeat cfg now inst s))"
    using sql_inv_rows [OF inv] row_ok_heartbeat
    by (intro sql_inv_map [OF inv _ _ sql_heartbeat_eq(1,2)])
      (auto simp: rowToRecord_heartbeat, auto simp: heartbeat_row_def)
  moreover have "sql_abs (snd (sql_heartbeat cfg now inst s)) = snd (mem_heartbeat cfg now inst (sql_abs s))"
    by (simp add: sql_abs_def sql_heartbeat_eq mem_heartbeat_def rowToRecord_heartbeat)
      (simp add: heartbeat_row_def)
  moreover have "snd (fst (sql_heartbeat cfg now inst s)) = fst (mem_heartbeat cfg now inst (sql_abs s))"
    by (simp add: sql_heartbeat_eq(3) mem_heartbeat_def sql_abs_def length_filter_map comp_def)
  ultimately show ?thesis by (simp add: refines_def prod_eq_iff apfst_eq)
qed

lemma evictable_row:
  "columns_ok r \<Longrightarrow> evictable now (rowToRecord r) = (jr_expiresAt r < now
     \<and> (jr_kitExecution r = None \<or> jr_kitFinalized r = 1) \<and> jr_mcpCleanupPending r = 0)"
  by (auto simp: evictable_def) (auto simp: columns_ok_def)

lemma filter_map_pairs:
  "(\<And>r. r \<in> set rs \<Longrightarrow> P (F r) = Q r) \<Longrightarrow>
     filter (\<lambda>(k, v). P v) (map (\<lambda>r. (f r, F r)) rs) = map (\<lambda>r. (f r, F r)) (filter Q rs)"
  by (induction rs) auto

lemma refine_evict: "sql_inv s \<Longrightarrow> refines cfg (CEvict now) s"
proof (cases "sc_retentionMs cfg = None")
  case False
  then obtain ret where ret: "sc_retentionMs cfg = Some ret" by auto
  assume inv: "sql_inv s"
  let ?s' = "snd (SQL_DELETE_EXPIRED now s)"
  let ?dead = "\<lambda>r. jr_expiresAt r < now \<and> (jr_kitExecution r = None \<or> jr_kitFinalized r = 1)
     \<and> jr_mcpCleanupPending r = 0"
  have row: "evictable now (rowToRecord r) = ?dead r" if "r \<in> set (ss_jobs s)" for r
    using evictable_row sql_inv_rows [OF inv that] by blast
  have "filter (\<lambda>(k, r). evictable now r) (ms_rows (sql_abs s))
      = map (\<lambda>r. (jr_id r, rowToRecord r)) (filter ?dead (ss_jobs s))"
    "filter (\<lambda>(k, r). \<not> evictable now r) (ms_rows (sql_abs s))
      = map (\<lambda>r. (jr_id r, rowToRecord r)) (filter (\<lambda>r. \<not> ?dead r) (ss_jobs s))"
    unfolding sql_abs_def using row by (auto intro!: filter_map_pairs)
  then have eq: "fst (SQL_DELETE_EXPIRED now s) = fst (mem_evictExpired cfg now (sql_abs s))"
    "sql_abs ?s' = snd (mem_evictExpired cfg now (sql_abs s))"
    by (simp_all add: ret SQL_DELETE_EXPIRED_def mem_evictExpired_def Let_def sql_abs_def)
  have "mem_inv (sql_abs ?s')" unfolding eq by (rule mem_evict_inv [OF sql_inv_mem [OF inv]])
  moreover have "ss_jobs ?s' = filter (\<lambda>r. \<not> ?dead r) (ss_jobs s)" "ss_fences ?s' = ss_fences s"
    by (simp_all add: SQL_DELETE_EXPIRED_def Let_def)
  ultimately have "sql_inv ?s'"
    using inv by (auto simp: sql_inv_def intro: distinct_map_filter)
  then show ?thesis using eq by (intro refinesI) (simp_all add: ret sql_evictExpired_def apfst_eq)
qed (simp add: refines_def sql_evictExpired_def mem_evictExpired_def)

section \<open>Fences and admission\<close>

lemma sql_fence_get: "js_get (ms_fences (sql_abs s)) k = find (\<lambda>f. kf_attemptId f = k) (ss_fences s)"
  by (simp add: sql_abs_def find_map_get option.map_ident)

lemma find_None_image: "find (\<lambda>f. g f = k) xs = None \<longleftrightarrow> k \<notin> g ` set xs"
  by (auto simp: find_None_iff)

lemma valid_clone: "isKitExecutionRef x \<Longrightarrow> cloneKitExecutionRef x = Inr x"
  by (rule clone_ref_id)

text \<open>With a valid reference the two fence inserts agree.\<close>

lemma insert_fence_refines:
  assumes "sql_inv s" and "isKitExecutionRef (kf_kitExecution f)"
  shows "insertKitAttemptFence f (sql_abs s) = (fst (sql_insert_fence f s), sql_abs (snd (sql_insert_fence f s)))"
    and "sql_inv (snd (sql_insert_fence f s))"
proof -
  note cl = valid_clone [OF assms(2)]
  have "insertKitAttemptFence f (sql_abs s) = (fst (sql_insert_fence f s), sql_abs (snd (sql_insert_fence f s)))
    \<and> sql_inv (snd (sql_insert_fence f s))"
  proof (cases "kf_attemptId f \<in> kf_attemptId ` set (ss_fences s)")
    case True
    then have "js_get (ms_fences (sql_abs s)) (kf_attemptId f) \<noteq> None"
      unfolding sql_fence_get using find_None_image by metis
    then show ?thesis using True cl assms(1) by (simp add: insertKitAttemptFence_def sql_insert_fence_def)
  next
    case False
    let ?s' = "s\<lparr>ss_fences := ss_fences s @ [f]\<rparr>"
    have none: "js_get (ms_fences (sql_abs s)) (kf_attemptId f) = None"
      unfolding sql_fence_get using False find_None_image by metis
    have "js_set (ms_fences (sql_abs s)) (kf_attemptId f) f = ms_fences (sql_abs s) @ [(kf_attemptId f, f)]"
      using False by (intro js_set_fresh) (auto simp: sql_abs_def)
    then have "insertKitAttemptFence f (sql_abs s) = (Inr True, sql_abs ?s')"
      using none cl by (simp add: insertKitAttemptFence_def) (simp add: sql_abs_def)
    moreover from this have "mem_inv (sql_abs ?s')"
      using insertFence_inv [OF sql_inv_mem [OF assms(1)], of f] by simp
    moreover have "sql_insert_fence f s = (Inr True, ?s')"
      using False cl by (simp add: sql_insert_fence_def)
    ultimately show ?thesis using assms False by (auto simp: sql_inv_def)
  qed
  then show "insertKitAttemptFence f (sql_abs s) = (fst (sql_insert_fence f s), sql_abs (snd (sql_insert_fence f s)))"
    and "sql_inv (snd (sql_insert_fence f s))" by blast+
qed

lemma refine_fence: "sql_inv s \<Longrightarrow> isKitExecutionRef (kf_kitExecution f) \<Longrightarrow> refines cfg (CFence f) s"
proof -
  assume inv: "sql_inv s" and v: "isKitExecutionRef (kf_kitExecution f)"
  define g where "g = f\<lparr>kf_state := Recovered\<rparr>"
  have vg: "isKitExecutionRef (kf_kitExecution g)" using v by (simp add: g_def)
  note ins = insert_fence_refines [OF inv vg]
  obtain x s' where xs: "sql_insert_fence g s = (x, s')" by (cases "sql_insert_fence g s")
  have inv': "sql_inv s'" using ins(2) xs by simp
  have ex: "parseKitExecution (Some (kf_kitExecution e)) = Some (kf_kitExecution e)"
    if "find (\<lambda>h. kf_attemptId h = kf_attemptId f) (ss_fences s') = Some e" for e
  proof -
    have "e \<in> set (ss_fences s')" using that by (auto simp: find_Some_iff)
    then have "isKitExecutionRef (kf_kitExecution e)" using inv' by (auto simp: sql_inv_def)
    then show ?thesis by (simp add: parseKitExecution_def valid_clone)
  qed
  have "fenceUnadmittedKitAttempt f (sql_abs s)
      = (fst (sql_fenceUnadmittedKitAttempt f s), sql_abs (snd (sql_fenceUnadmittedKitAttempt f s)))
    \<and> sql_inv (snd (sql_fenceUnadmittedKitAttempt f s))"
    using ins(1) xs inv' ex
    by (auto simp: fenceUnadmittedKitAttempt_def sql_fenceUnadmittedKitAttempt_def g_def [symmetric]
        sql_fence_get split: sum.split bool.split option.split)
  then show ?thesis by (simp add: refines_def apfst_eq)
qed

lemma new_row_reads:
  assumes "parseKitSessionId (si_kitSessionId i) = si_kitSessionId i"
    and "case si_kitExecution i of None \<Rightarrow> True | Some x \<Rightarrow> isKitExecutionRef x"
  shows "rowToRecord (new_row flag01 cfg now i) = new_row id cfg now i"
    and "columns_ok (new_row flag01 cfg now i)"
proof -
  have k: "parseKitExecution (si_kitExecution i) = si_kitExecution i"
    using assms(2) by (auto simp: parseKitExecution_def valid_clone split: option.splits)
  have m: "map_option (\<lambda>b. js_Boolean (flag01 b)) x = x" for x by (cases x) simp_all
  show "rowToRecord (new_row flag01 cfg now i) = new_row id cfg now i"
    by (rule job_row.equality)
      (simp_all add: rowToRecord_def new_row_def Let_def k assms(1) m comp_def option.map_id)
  show "columns_ok (new_row flag01 cfg now i)"
    by (simp add: columns_ok_def new_row_def Let_def k assms(1) flag01_def)
qed

lemma insert_row_refines:
  assumes inv: "sql_inv s" and fresh: "jr_id r \<notin> jr_id ` set (ss_jobs s)" and "columns_ok r"
    and "mem_inv ((sql_abs s)\<lparr>ms_rows := js_set (ms_rows (sql_abs s)) (jr_id r) (rowToRecord r)\<rparr>)"
  shows "sql_insert r s = (None, s\<lparr>ss_jobs := ss_jobs s @ [r]\<rparr>)"
    and "sql_abs (s\<lparr>ss_jobs := ss_jobs s @ [r]\<rparr>)
      = (sql_abs s)\<lparr>ms_rows := js_set (ms_rows (sql_abs s)) (jr_id r) (rowToRecord r)\<rparr>"
    and "sql_inv (s\<lparr>ss_jobs := ss_jobs s @ [r]\<rparr>)"
proof -
  have "js_set (ms_rows (sql_abs s)) (jr_id r) (rowToRecord r) = ms_rows (sql_abs s) @ [(jr_id r, rowToRecord r)]"
    using fresh by (intro js_set_fresh) (auto simp: sql_abs_def)
  then show abs: "sql_abs (s\<lparr>ss_jobs := ss_jobs s @ [r]\<rparr>)
      = (sql_abs s)\<lparr>ms_rows := js_set (ms_rows (sql_abs s)) (jr_id r) (rowToRecord r)\<rparr>"
    by (simp add: sql_abs_def)
  show "sql_insert r s = (None, s\<lparr>ss_jobs := ss_jobs s @ [r]\<rparr>)" using fresh by (simp add: sql_insert_def)
  show "sql_inv (s\<lparr>ss_jobs := ss_jobs s @ [r]\<rparr>)"
    using inv fresh assms(3,4) unfolding sql_inv_def abs by auto
qed

lemma refine_start:
  assumes inv: "sql_inv s" and ok: "call_ok (CStart now i) s"
  shows "refines cfg (CStart now i) s"
proof -
  have fresh: "si_id i \<notin> jr_id ` set (ss_jobs s)" and nv: "\<not> si_validationAdmission i"
    and kit: "case si_kitExecution i of None \<Rightarrow> True | Some x \<Rightarrow> isKitExecutionRef x"
    and ses: "parseKitSessionId (si_kitSessionId i) = si_kitSessionId i"
    using ok by auto
  let ?r = "new_row flag01 cfg now i"
  note row = new_row_reads [OF ses kit, of cfg now]
  have rid: "jr_id ?r = si_id i" by (simp add: new_row_fields)
  have meminv: "mem_inv (snd (mem_recordStart cfg now i (sql_abs s)))"
    by (rule recordStart_inv [OF sql_inv_mem [OF inv]])
  have "mem_recordStart cfg now i (sql_abs s)
      = (fst (sql_recordStart cfg now i s), sql_abs (snd (sql_recordStart cfg now i s)))
    \<and> sql_inv (snd (sql_recordStart cfg now i s))"
  proof (cases "assertMcpArtifactAdmissionInvariant (start_artifact i)")
    case (Some e)
    then show ?thesis using inv by (simp add: mem_recordStart_def sql_recordStart_def)
  next
    case art: None
    show ?thesis
    proof (cases "si_kitExecution i")
      case None
      have mem: "mem_recordStart cfg now i (sql_abs s) = (None, (sql_abs s)\<lparr>ms_rows :=
          js_set (ms_rows (sql_abs s)) (jr_id ?r) (rowToRecord ?r)\<rparr>)"
        using art None nv by (simp add: mem_recordStart_def row rid)
      note ins = insert_row_refines [OF inv fresh [folded rid] row(2)]
      show ?thesis using mem meminv ins art None by (simp add: sql_recordStart_def)
    next
      case (Some x)
      define ses' where "ses' = str_trim (nullish (si_kitSessionId i) [])"
      have v: "isKitExecutionRef (kf_kitExecution (start_fence i x ses'))"
        using kit Some by (simp add: start_fence_def)
      note fe = insert_fence_refines [OF inv v]
      obtain b s1 where f: "sql_insert_fence (start_fence i x ses') s = (b, s1)"
        by (cases "sql_insert_fence (start_fence i x ses') s")
      have s1: "ss_jobs s1 = ss_jobs s" and un: "b \<noteq> Inr True \<Longrightarrow> s1 = s"
        using f by (auto simp: sql_insert_fence_def split: sum.splits if_splits)
      show ?thesis
      proof (cases "ses' = [] \<or> b \<noteq> Inr True")
        case True
        then show ?thesis using art Some f fe inv un
          by (auto simp: mem_recordStart_def sql_recordStart_def ses'_def [symmetric] Let_def
              split: sum.split bool.split)
      next
        case False
        then have mem: "mem_recordStart cfg now i (sql_abs s) = (None, (sql_abs s1)\<lparr>ms_rows :=
            js_set (ms_rows (sql_abs s1)) (jr_id ?r) (rowToRecord ?r)\<rparr>)"
          using art Some nv fe(1) f by (simp add: mem_recordStart_def ses'_def [symmetric] Let_def row rid)
        have inv1: "sql_inv s1" using fe(2) f by simp
        have fresh1: "jr_id ?r \<notin> jr_id ` set (ss_jobs s1)" using fresh by (simp add: rid s1)
        note ins = insert_row_refines [OF inv1 fresh1 row(2)]
        show ?thesis using mem meminv ins art Some f False
          by (simp add: sql_recordStart_def ses'_def [symmetric] Let_def)
      qed
    qed
  qed
  then show ?thesis by (simp add: refines_def apfst_eq)
qed

lemmas refine_calls = refine_fence refine_running refine_heartbeat refine_cleanup refine_output
  refine_progress refine_progress_if refine_capture refine_complete refine_finalized refine_evict
  refine_get

lemma call_refines: "sql_inv s \<Longrightarrow> call_ok c s \<Longrightarrow> refines cfg c s"
  by (cases c) (auto intro: refine_calls refine_start)

section \<open>The durable-only operations keep the invariant\<close>

lemma row_ok_lease: "row_ok id r \<Longrightarrow> open_status (jr_status r) \<Longrightarrow>
    row_ok id (r\<lparr>jr_leaseDeadline := Some d, jr_pid := p\<rparr>)"
  by (auto simp: row_ok_def kit_private_def lifecycle_ok_def)

lemma advance_lease_inv:
  assumes "sql_inv s"
  shows "sql_inv (snd (SQL_ADVANCE_LEASE ttl now ids s))"
proof -
  let ?f = "\<lambda>r :: sql_row. if jr_status r \<in> {SQueued, SRunning} \<and> jr_id r \<in> set ids
     then r\<lparr>jr_leaseDeadline := Some (now + ttl), jr_pid := None\<rparr> else r"
  show ?thesis
  proof (rule sql_inv_map [OF assms, of ?f])
    fix r assume "r \<in> set (ss_jobs s)"
    then show "columns_ok (?f r) \<and> row_ok id (rowToRecord (?f r)) \<and> jr_kitExecution (?f r) = jr_kitExecution r"
      using sql_inv_rows [OF assms] row_ok_lease [of "rowToRecord r"]
      by (auto simp: rowToRecord_upd open_status_def)
  qed (simp_all add: SQL_ADVANCE_LEASE_def sql_update_def)
qed

lemma orphan_row_reads:
  assumes "columns_ok r" and "row_ok id (rowToRecord r)" and "open_status (jr_status r)"
  shows "row_ok id (rowToRecord (orphan_row now expires r))" and "columns_ok (orphan_row now expires r)"
proof -
  let ?m = "rowToRecord r"
  have m: "rowToRecord (orphan_row now expires r) = ?m\<lparr>jr_status := SOrphaned,
       jr_stdout := (if jr_kitExecution ?m = None then jr_stdout ?m else []),
       jr_stderr := (if jr_kitExecution ?m = None then jr_stderr ?m else []),
       jr_payloadJson := (if jr_kitExecution ?m = None then jr_payloadJson ?m else None),
       jr_error := (if jr_kitExecution ?m = None
          then Some (nullish (jr_error ?m) ''owning gateway instance is no longer alive'')
          else Some KIT_FAILURE_WITHHELD),
       jr_finishedAt := (case jr_finishedAt ?m of None \<Rightarrow> Some now | Some t \<Rightarrow> Some t),
       jr_expiresAt := expires, jr_leaseDeadline := None\<rparr>"
  proof -
    have "parseKitExecution (jr_kitExecution r) = jr_kitExecution r" using assms(1) by (simp add: columns_ok_def)
    then show ?thesis
      by (intro job_row.equality) (simp_all add: orphan_row_def rowToRecord_def)
  qed
  have nf: "\<not> jr_kitFinalized ?m" and http: "jr_httpStatus ?m = None"
    and priv: "kit_private id ?m"
    using assms(2,3) by (auto simp: row_ok_def lifecycle_ok_def open_status_def terminal_status_def
        completable_def)
  show "row_ok id (rowToRecord (orphan_row now expires r))"
    unfolding m using nf http priv
    by (cases "jr_kitExecution ?m")
      (simp_all add: row_ok_def lifecycle_ok_def kit_private_def open_status_def completable_def
        terminal_status_def split: option.split)
  show "columns_ok (orphan_row now expires r)" using assms(1) by (simp add: orphan_row_def)
qed

lemma orphan_expired_inv:
  assumes "sql_inv s"
  shows "sql_inv (snd (SQL_ORPHAN_EXPIRED now expires grace ex s))"
proof -
  let ?f = "\<lambda>r. if orphan_candidate now grace ex r then orphan_row now expires r else r"
  show ?thesis
  proof (rule sql_inv_map [OF assms, of ?f])
    fix r assume r: "r \<in> set (ss_jobs s)"
    have "open_status (jr_status r)" if "orphan_candidate now grace ex r"
      using that by (auto simp: orphan_candidate_def open_status_def)
    then show "columns_ok (?f r) \<and> row_ok id (rowToRecord (?f r)) \<and> jr_kitExecution (?f r) = jr_kitExecution r"
      using sql_inv_rows [OF assms r] orphan_row_reads [of r] by (auto simp: orphan_row_def)
  qed (simp_all add: SQL_ORPHAN_EXPIRED_def sql_update_def orphan_row_def)
qed

lemma recover_inv: "sql_inv s \<Longrightarrow> sql_inv (snd (sql_recoverStaleJobs cfg now ttl grace ids s))"
  by (simp add: sql_recoverStaleJobs_def Let_def orphan_expired_inv advance_lease_inv)

lemma sql_inv_instances: "sql_inv (s\<lparr>ss_instances := g\<rparr>) = sql_inv s"
  by (simp add: sql_inv_def sql_abs_def)

lemma row_ok_capture_terminal:
  "row_ok id r \<Longrightarrow> jr_kitExecution r = None \<Longrightarrow> \<not> open_status (jr_status r) \<Longrightarrow> row_ok id (r\<lparr>jr_capture := c\<rparr>)"
  by (rule row_ok_capture)

lemma reconcile_inv:
  assumes "sql_inv s"
  shows "sql_inv (snd (SQL_RECONCILE_CAPTURE_ACCOUNTING s))"
proof -
  let ?c = "\<lambda>r :: sql_row. jr_status r \<notin> {SQueued, SRunning} \<and> jr_kitExecution r = None
     \<and> cap_status (jr_capture r) = None \<and> jr_ownerInstance r \<noteq> None
     \<and> the (jr_ownerInstance r) \<notin> gi_instanceId ` set (ss_instances s)"
  let ?f = "\<lambda>r. if ?c r then r\<lparr>jr_capture := (jr_capture r)\<lparr>cap_status := Some Not_captured,
     cap_error := Some CAPTURE_ACCOUNTING_RECOVERY_ERROR\<rparr>\<rparr> else r"
  show ?thesis
  proof (rule sql_inv_map [OF assms, of ?f])
    fix r assume "r \<in> set (ss_jobs s)"
    then show "columns_ok (?f r) \<and> row_ok id (rowToRecord (?f r)) \<and> jr_kitExecution (?f r) = jr_kitExecution r"
      using sql_inv_rows [OF assms] row_ok_capture_terminal [of "rowToRecord r"]
      by (auto simp: rowToRecord_upd open_status_def)
  qed (simp_all add: SQL_RECONCILE_CAPTURE_ACCOUNTING_def sql_update_def)
qed

lemma gc_inv: "sql_inv s \<Longrightarrow> sql_inv (snd (sql_gcInstances now ms s))"
  by (simp add: sql_gcInstances_def Let_def reconcile_inv sql_inv_instances)

lemma register_inv: "sql_inv s \<Longrightarrow> sql_inv (sql_registerInstance now inst host s)"
  by (simp add: sql_registerInstance_def sql_inv_instances)

lemma deregister_inv: "sql_inv s \<Longrightarrow> sql_inv (sql_deregisterInstance inst s)"
  by (simp add: sql_deregisterInstance_def sql_inv_instances)

section \<open>Reachable tables\<close>

inductive sql_step :: "store_cfg \<Rightarrow> sql_store \<Rightarrow> sql_store \<Rightarrow> bool" for cfg where
  ss_call: "call_ok c s \<Longrightarrow> sql_step cfg s (snd (sql_call cfg c s))"
| ss_recover: "sql_step cfg s (snd (sql_recoverStaleJobs cfg now ttl grace ids s))"
| ss_gc: "sql_step cfg s (snd (sql_gcInstances now ms s))"
| ss_register: "sql_step cfg s (sql_registerInstance now inst host s)"
| ss_deregister: "sql_step cfg s (sql_deregisterInstance inst s)"

inductive_cases sql_step_E: "sql_step cfg s s'"

lemma sql_step_inv: "sql_inv s \<Longrightarrow> sql_step cfg s s' \<Longrightarrow> sql_inv s'"
  by (erule sql_step_E)
    (auto intro: recover_inv gc_inv register_inv deregister_inv dest: call_refines simp: refines_def)

lemma sql_empty_inv: "sql_inv sql_empty"
  by (simp add: sql_inv_def sql_empty_def sql_abs_def mem_inv_def)

interpretation sql_sys: inv_system "\<lambda>s. s = sql_empty" "sql_step cfg" sql_inv for cfg
  by unfold_locales (auto simp: sql_empty_inv intro: sql_step_inv)

definition sql_reachable :: "store_cfg \<Rightarrow> sql_store \<Rightarrow> bool" where
  "sql_reachable cfg s = reach (\<lambda>s. s = sql_empty) (sql_step cfg) s"

lemma sql_reachable_inv: "sql_reachable cfg s \<Longrightarrow> sql_inv s"
  by (auto simp: sql_reachable_def intro: sql_sys.reach_inv)

lemma sql_reachable_empty: "sql_reachable cfg sql_empty"
  by (simp add: sql_reachable_def reach_init)

lemma sql_reachable_step: "sql_reachable cfg s \<Longrightarrow> sql_step cfg s s' \<Longrightarrow> sql_reachable cfg s'"
  by (auto simp: sql_reachable_def intro: reach_step)

fun mem_run :: "store_cfg \<Rightarrow> store_call list \<Rightarrow> mem_store \<Rightarrow> call_result list \<times> mem_store" where
  "mem_run cfg [] s = ([], s)"
| "mem_run cfg (c # cs) s =
     (let (r, s1) = mem_call cfg c s; (rs, s2) = mem_run cfg cs s1 in (r # rs, s2))"

fun sql_run :: "store_cfg \<Rightarrow> store_call list \<Rightarrow> sql_store \<Rightarrow> call_result list \<times> sql_store" where
  "sql_run cfg [] s = ([], s)"
| "sql_run cfg (c # cs) s =
     (let (r, s1) = sql_call cfg c s; (rs, s2) = sql_run cfg cs s1 in (r # rs, s2))"

fun calls_ok :: "store_cfg \<Rightarrow> store_call list \<Rightarrow> sql_store \<Rightarrow> bool" where
  "calls_ok cfg [] s = True"
| "calls_ok cfg (c # cs) s = (call_ok c s \<and> calls_ok cfg cs (snd (sql_call cfg c s)))"

lemma run_refines:
  "sql_inv s \<Longrightarrow> calls_ok cfg cs s \<Longrightarrow>
     mem_run cfg cs (sql_abs s) = (fst (sql_run cfg cs s), sql_abs (snd (sql_run cfg cs s)))"
proof (induction cs arbitrary: s)
  case (Cons c cs)
  obtain r s1 where c: "sql_call cfg c s = (r, s1)" by (cases "sql_call cfg c s")
  have "mem_call cfg c (sql_abs s) = (r, sql_abs s1)" "sql_inv s1"
    using call_refines [OF Cons.prems(1), of c cfg] Cons.prems(2) c by (simp_all add: refines_def)
  then show ?case using Cons.IH [of s1] Cons.prems(2) c by (simp add: case_prod_beta)
qed simp

section \<open>The SQLite store meets the contract\<close>

definition sql_status :: "sql_store \<Rightarrow> string \<Rightarrow> job_status option" where
  "sql_status s k = map_option jr_status (find (\<lambda>r. jr_id r = k) (ss_jobs s))"

lemma sql_status_abs: "sql_status s k = mem_status (sql_abs s) k"
  by (simp add: sql_status_def mem_status_def sql_abs_def find_map_get option.map_comp comp_def)

lemma find_map_same_id:
  "(\<And>r. jr_id (f r) = jr_id r) \<Longrightarrow>
     find (\<lambda>r. jr_id r = k) (map f rs) = map_option f (find (\<lambda>r. jr_id r = k) rs)"
  by (induction rs) auto

definition advance_row :: "int \<Rightarrow> time \<Rightarrow> string list \<Rightarrow> sql_row \<Rightarrow> sql_row" where
  "advance_row ttl now ids r = (if jr_status r \<in> {SQueued, SRunning} \<and> jr_id r \<in> set ids
     then r\<lparr>jr_leaseDeadline := Some (now + ttl), jr_pid := None\<rparr> else r)"

definition sweep_row :: "store_cfg \<Rightarrow> time \<Rightarrow> int \<Rightarrow> int \<Rightarrow> string list \<Rightarrow> sql_row \<Rightarrow> sql_row" where
  "sweep_row cfg now ttl grace ids r =
     (let r1 = advance_row ttl now ids r in
      if orphan_candidate now grace ids r1
      then orphan_row now (retentionExpiry now (sc_retentionMs cfg)) r1 else r1)"

lemma sweep_row_id: "jr_id (sweep_row cfg now ttl grace ids r) = jr_id r"
  by (simp add: sweep_row_def advance_row_def orphan_row_def Let_def)

lemma recover_jobs:
  "ss_jobs (snd (sql_recoverStaleJobs cfg now ttl grace ids s)) = map (sweep_row cfg now ttl grace ids) (ss_jobs s)"
proof (cases "ids = []")
  case True
  then have "sweep_row cfg now ttl grace ids r = (if orphan_candidate now grace ids r
      then orphan_row now (retentionExpiry now (sc_retentionMs cfg)) r else r)" for r
    by (simp add: sweep_row_def advance_row_def)
  with True show ?thesis
    by (simp add: sql_recoverStaleJobs_def SQL_ORPHAN_EXPIRED_def sql_update_def)
next
  case False
  then show ?thesis
    by (simp add: sql_recoverStaleJobs_def SQL_ORPHAN_EXPIRED_def SQL_ADVANCE_LEASE_def sql_update_def
        sweep_row_def advance_row_def Let_def)
qed

lemma sweep_row_status:
  "jr_status (sweep_row cfg now ttl grace ids r) =
     (if open_status (jr_status r) \<and> lease_expired now r \<and> jr_id r \<notin> set ids
         \<and> (jr_transport r \<noteq> THttp \<or> jr_startedAt r < now - grace)
      then SOrphaned else jr_status r)"
  by (auto simp: sweep_row_def advance_row_def orphan_candidate_def orphan_row_def open_status_def
      lease_expired_def Let_def)

lemma keyed_update:
  assumes "distinct (map jr_id (ss_jobs s))" and "\<And>r. cond r = (jr_id r = k \<and> g r)"
    and "\<And>r. jr_id (u r) = jr_id r"
  shows "fst (sql_update cond u s)
      = (case find (\<lambda>r. jr_id r = k) (ss_jobs s) of None \<Rightarrow> 0 | Some r \<Rightarrow> if g r then 1 else 0)"
    and "find (\<lambda>r. jr_id r = x) (ss_jobs (snd (sql_update cond u s)))
      = map_option (\<lambda>r. if cond r then u r else r) (find (\<lambda>r. jr_id r = x) (ss_jobs s))"
    and "distinct (map jr_id (ss_jobs (snd (sql_update cond u s))))"
proof -
  show "fst (sql_update cond u s)
      = (case find (\<lambda>r. jr_id r = k) (ss_jobs s) of None \<Rightarrow> 0 | Some r \<Rightarrow> if g r then 1 else 0)"
    using assms(1)
  proof (cases rule: find_unique_split [where k = k])
    case none
    then show ?thesis using assms(2) by (auto simp: sql_update_def filter_empty_conv)
  next
    case (some us r vs)
    then have "filter cond us = []" "filter cond vs = []" using assms(2) by (auto simp: filter_empty_conv)
    then show ?thesis using some assms(2) by (simp add: sql_update_def)
  qed
  show "find (\<lambda>r. jr_id r = x) (ss_jobs (snd (sql_update cond u s)))
      = map_option (\<lambda>r. if cond r then u r else r) (find (\<lambda>r. jr_id r = x) (ss_jobs s))"
    using find_map_same_id [of "\<lambda>r. if cond r then u r else r" x "ss_jobs s"] assms(3)
    by (simp add: sql_update_def)
  have "map jr_id (ss_jobs (snd (sql_update cond u s))) = map jr_id (ss_jobs s)"
    using assms(3) by (simp add: sql_update_def)
  then show "distinct (map jr_id (ss_jobs (snd (sql_update cond u s))))" using assms(1) by simp
qed

definition ids_ok :: "sql_store \<Rightarrow> bool" where
  "ids_ok s = distinct (map jr_id (ss_jobs s))"

definition sql_sweep :: "store_cfg \<Rightarrow> time \<times> int \<times> int \<times> string list \<Rightarrow> sql_store \<Rightarrow> sql_store" where
  "sql_sweep cfg w s = (case w of (now, ttl, grace, ids) \<Rightarrow> snd (sql_recoverStaleJobs cfg now ttl grace ids s))"

lemma sql_sweep_status:
  "sql_status (sql_sweep cfg (now, ttl, grace, ids) s) k
     = map_option (\<lambda>r. jr_status (sweep_row cfg now ttl grace ids r)) (find (\<lambda>r. jr_id r = k) (ss_jobs s))"
  unfolding sql_sweep_def sql_status_def prod.case recover_jobs
  by (simp add: find_map_same_id [OF sweep_row_id] option.map_comp comp_def)

lemma complete_upd:
  assumes "ids_ok s"
  shows "fst (SQL_UPDATE_COMPLETE cfg i s) = (case find (\<lambda>r. jr_id r = jc_id i) (ss_jobs s) of
      None \<Rightarrow> 0 | Some r \<Rightarrow> if completable (jr_status r) then 1 else 0)"
    and "sql_status (snd (SQL_UPDATE_COMPLETE cfg i s)) x
      = map_option (\<lambda>r. if jr_id r = jc_id i \<and> completable (jr_status r) then jc_status i else jr_status r)
          (find (\<lambda>r. jr_id r = x) (ss_jobs s))"
    and "ids_ok (snd (SQL_UPDATE_COMPLETE cfg i s))"
proof -
  have st: "jr_status (sql_complete_row cfg i r) = jc_status i" for r by (simp add: sql_complete_row_def)
  note ku = keyed_update [OF assms [unfolded ids_ok_def], where k = "jc_id i"
      and cond = "\<lambda>r. jr_id r = jc_id i \<and> completable (jr_status r)"
      and g = "\<lambda>r. completable (jr_status r)" and u = "sql_complete_row cfg i"]
  show "fst (SQL_UPDATE_COMPLETE cfg i s) = (case find (\<lambda>r. jr_id r = jc_id i) (ss_jobs s) of
      None \<Rightarrow> 0 | Some r \<Rightarrow> if completable (jr_status r) then 1 else 0)"
    and "sql_status (snd (SQL_UPDATE_COMPLETE cfg i s)) x
      = map_option (\<lambda>r. if jr_id r = jc_id i \<and> completable (jr_status r) then jc_status i else jr_status r)
          (find (\<lambda>r. jr_id r = x) (ss_jobs s))"
    and "ids_ok (snd (SQL_UPDATE_COMPLETE cfg i s))"
    unfolding SQL_UPDATE_COMPLETE_def completable_set
    using ku by (simp_all add: sql_status_def ids_ok_def option.map_comp comp_def st if_distrib [of jr_status]
        cong: if_cong)
qed

lemma running_upd:
  assumes "ids_ok s"
  shows "fst (SQL_MARK_RUNNING cfg now k pid s) = (case find (\<lambda>r. jr_id r = k) (ss_jobs s) of
      None \<Rightarrow> 0 | Some r \<Rightarrow> if jr_status r = SQueued then 1 else 0)"
    and "sql_status (snd (SQL_MARK_RUNNING cfg now k pid s)) x
      = map_option (\<lambda>r. if jr_id r = k \<and> jr_status r = SQueued then SRunning else jr_status r)
          (find (\<lambda>r. jr_id r = x) (ss_jobs s))"
    and "ids_ok (snd (SQL_MARK_RUNNING cfg now k pid s))"
proof -
  note ku = keyed_update [OF assms [unfolded ids_ok_def], where k = k
      and cond = "\<lambda>r. jr_id r = k \<and> jr_status r = SQueued" and g = "\<lambda>r. jr_status r = SQueued"
      and u = "\<lambda>r. r\<lparr>jr_status := SRunning, jr_pid := pid, jr_leaseDeadline := Some (now + sc_leaseTtlMs cfg)\<rparr>"]
  show "fst (SQL_MARK_RUNNING cfg now k pid s) = (case find (\<lambda>r. jr_id r = k) (ss_jobs s) of
      None \<Rightarrow> 0 | Some r \<Rightarrow> if jr_status r = SQueued then 1 else 0)"
    and "sql_status (snd (SQL_MARK_RUNNING cfg now k pid s)) x
      = map_option (\<lambda>r. if jr_id r = k \<and> jr_status r = SQueued then SRunning else jr_status r)
          (find (\<lambda>r. jr_id r = x) (ss_jobs s))"
    and "ids_ok (snd (SQL_MARK_RUNNING cfg now k pid s))"
    unfolding SQL_MARK_RUNNING_def
    using ku by (simp_all add: sql_status_def ids_ok_def option.map_comp comp_def if_distrib [of jr_status]
        cong: if_cong)
qed

lemma found_id: "find (\<lambda>r. jr_id r = k) rs = Some r \<Longrightarrow> jr_id r = k"
  by (auto simp: find_Some_iff)

interpretation sql_rows: job_rows ids_ok sql_status "sql_recordComplete cfg"
    "\<lambda>(k, pid, now). sql_markRunning cfg now k pid" "sql_sweep cfg" for cfg
proof (unfold_locales, goal_cases)
  case (1 s i)
  then show ?case by (simp add: sql_recordComplete_def case_prod_beta complete_upd)
next
  case (2 s i)
  then show ?case
    by (auto simp: sql_recordComplete_def case_prod_beta complete_upd sql_status_def split: option.split)
next
  case (3 s i k)
  have e: "sql_recordComplete cfg i s
      = (fst (SQL_UPDATE_COMPLETE cfg i s) = 1, snd (SQL_UPDATE_COMPLETE cfg i s))"
    by (simp add: sql_recordComplete_def case_prod_beta)
  show ?case
  proof (cases "find (\<lambda>r. jr_id r = k) (ss_jobs s)")
    case None
    then show ?thesis
      by (cases "k = jc_id i") (simp_all add: e complete_upd [OF 3] sql_status_def [of s])
  next
    case (Some r)
    then show ?thesis using found_id [OF Some]
      by (cases "k = jc_id i") (simp_all add: e complete_upd [OF 3] sql_status_def [of s])
  qed
next
  case (4 s m)
  then show ?case by (simp add: sql_markRunning_def case_prod_beta running_upd)
next
  case (5 s m)
  then show ?case
    by (auto simp: sql_markRunning_def case_prod_beta running_upd sql_status_def split: option.split)
next
  case (6 s m k)
  obtain k' pid now where m: "m = (k', pid, now)" by (cases m) auto
  have e: "sql_markRunning cfg now k' pid s
      = (fst (SQL_MARK_RUNNING cfg now k' pid s) > 0, snd (SQL_MARK_RUNNING cfg now k' pid s))"
    by (simp add: sql_markRunning_def case_prod_beta)
  show ?case
  proof (cases "find (\<lambda>r. jr_id r = k) (ss_jobs s)")
    case None
    then show ?thesis
      by (cases "k = k'") (simp_all add: m e running_upd [OF 6] sql_status_def [of s])
  next
    case (Some r)
    then show ?thesis using found_id [OF Some]
      by (cases "k = k'") (simp_all add: m e running_upd [OF 6] sql_status_def [of s])
  qed
next
  case (7 s w)
  then show ?case
    by (cases w) (simp add: ids_ok_def sql_sweep_def recover_jobs comp_def sweep_row_id)
next
  case (8 s w k)
  obtain now ttl grace ids where w: "w = (now, ttl, grace, ids)" by (cases w) auto
  show ?case
  proof (cases "find (\<lambda>r. jr_id r = k) (ss_jobs s)")
    case None
    then show ?thesis by (simp add: w sql_sweep_status sql_status_def [of s])
  next
    case (Some r)
    then show ?thesis by (simp add: w sql_sweep_status sweep_row_status sql_status_def [of s])
  qed
qed

section \<open>Properties\<close>

definition demo_calls :: "store_call list" where
  "demo_calls = [CStart 10 (demo_start ''a'' (Some demo_ref)), CStart 10 (demo_start ''b'' None),
     CRunning 11 ''a'' (Some 7), COutput ''b'' ''x'' [] False [SQueued, SRunning],
     CHeartbeat 12 ''g1'', CComplete (demo_completion ''a''), CComplete (demo_completion ''a''),
     CFinalized 21 ''a'' ''s'', CGet ''b'', CEvict 500]"

definition demo_table :: sql_store where
  "demo_table = snd (sql_call demo_cfg (CStart 10 (demo_start ''b'' None))
     (snd (sql_call demo_cfg (CStart 10 (demo_start ''a'' (Some demo_ref))) sql_empty)))"

lemma demo_table_reachable: "sql_reachable demo_cfg demo_table"
proof -
  have "call_ok (CStart 10 (demo_start ''a'' (Some demo_ref))) sql_empty"
    "call_ok (CStart 10 (demo_start ''b'' None))
       (snd (sql_call demo_cfg (CStart 10 (demo_start ''a'' (Some demo_ref))) sql_empty))"
    by code_simp+
  then show ?thesis
    unfolding demo_table_def by (blast intro: sql_reachable_step sql_reachable_empty ss_call)
qed



text \<open>
  C7: the sweep orphans exactly the dead jobs. A job is orphaned precisely when it is queued or
  running, its lease is missing or in the past, it was not confirmed alive, and it is a process job
  or an HTTP job past its grace; every other job keeps its status.
\<close>

theorem sweep_orphans_exactly_expired:
  assumes "sql_reachable cfg s" and "r \<in> set (ss_jobs s)"
  shows "sql_status (snd (sql_recoverStaleJobs cfg now ttl grace ids s)) (jr_id r) =
    Some (if open_status (jr_status r) \<and> lease_expired now r \<and> jr_id r \<notin> set ids
            \<and> (jr_transport r \<noteq> THttp \<or> jr_startedAt r < now - grace)
          then SOrphaned else jr_status r)"
proof -
  have "distinct (map jr_id (ss_jobs s))" using sql_reachable_inv [OF assms(1)] by (simp add: sql_inv_def)
  from find_unique [OF this assms(2)] show ?thesis
    using sql_sweep_status [of cfg now ttl grace ids s "jr_id r"]
    by (simp add: sql_sweep_def sweep_row_status)
qed

theorem sweep_orphans_exactly_expired_witness:
  "sql_status (snd (sql_recoverStaleJobs demo_cfg 41 30 0 [] demo_table)) ''b'' = Some SOrphaned
   \<and> sql_status (snd (sql_recoverStaleJobs demo_cfg 40 30 0 [] demo_table)) ''b'' = Some SQueued"
proof -
  have "\<exists>r\<in>set (ss_jobs demo_table). jr_id r = ''b'' \<and> jr_status r = SQueued
      \<and> jr_leaseDeadline r = Some 40 \<and> jr_transport r = TProcess"
    by code_simp
  then obtain r where r: "r \<in> set (ss_jobs demo_table)" "jr_id r = ''b''" "jr_status r = SQueued"
    "jr_leaseDeadline r = Some 40" "jr_transport r = TProcess" by blast
  show ?thesis
    using sweep_orphans_exactly_expired [OF demo_table_reachable r(1), of 41 30 0 "[]"]
      sweep_orphans_exactly_expired [OF demo_table_reachable r(1), of 40 30 0 "[]"] r(2-5)
    by (simp add: open_status_def lease_expired_def)
qed

text \<open>
  A heartbeat protects its jobs. After the owning instance's heartbeat, a sweep at any time up to
  the end of the lease leaves every open job of that instance with its status.
\<close>

theorem heartbeat_protects_jobs:
  assumes "sql_reachable cfg s" and "r \<in> set (ss_jobs s)" and "jr_ownerInstance r = Some inst"
    and "open_status (jr_status r)" and "later \<le> now + sc_leaseTtlMs cfg"
  shows "sql_status (snd (sql_recoverStaleJobs cfg later ttl grace ids (snd (sql_heartbeat cfg now inst s))))
      (jr_id r) = Some (jr_status r)"
proof -
  let ?s = "snd (sql_heartbeat cfg now inst s)"
  have d: "distinct (map jr_id (ss_jobs s))" using sql_reachable_inv [OF assms(1)] by (simp add: sql_inv_def)
  have id: "jr_id (heartbeat_row cfg now inst x) = jr_id x" for x :: sql_row by (simp add: heartbeat_row_def)
  have "find (\<lambda>x. jr_id x = jr_id r) (ss_jobs ?s) = Some (heartbeat_row cfg now inst r)"
    by (simp add: sql_heartbeat_eq find_map_same_id [OF id] find_unique [OF d assms(2)])
  then have "sql_status (sql_sweep cfg (later, ttl, grace, ids) ?s) (jr_id r)
      = Some (jr_status (sweep_row cfg later ttl grace ids (heartbeat_row cfg now inst r)))"
    by (simp add: sql_sweep_status)
  moreover have "heartbeat_row cfg now inst r = r\<lparr>jr_leaseDeadline := Some (now + sc_leaseTtlMs cfg)\<rparr>"
    using assms(3,4) by (simp add: heartbeat_row_def)
  ultimately show ?thesis
    using assms(5) by (simp add: sql_sweep_def sweep_row_status lease_expired_def)
qed

theorem heartbeat_protects_jobs_witness:
  "sql_status (snd (sql_recoverStaleJobs demo_cfg 65 30 0 [] (snd (sql_heartbeat demo_cfg 35 ''g1'' demo_table))))
     ''b'' = Some SQueued"
proof -
  have "\<exists>r\<in>set (ss_jobs demo_table). jr_id r = ''b'' \<and> jr_status r = SQueued \<and> jr_ownerInstance r = Some ''g1''"
    by code_simp
  then obtain r where r: "r \<in> set (ss_jobs demo_table)" "jr_id r = ''b''" "jr_status r = SQueued"
    "jr_ownerInstance r = Some ''g1''" by blast
  show ?thesis
    using heartbeat_protects_jobs [OF demo_table_reachable r(1,4), of 65 35 30 0 "[]"] r(2,3)
    by (simp add: open_status_def demo_cfg_def)
qed

text \<open>
  A recovered job is never launched, but its result is not lost. When a sweep has orphaned a job,
  marking it running is refused, while a terminal completion that arrives later is stored.
\<close>

theorem orphaned_job_fenced_but_completable:
  assumes "sql_reachable cfg s"
    and "sql_status (snd (sql_recoverStaleJobs cfg now ttl grace ids s)) k = Some SOrphaned"
    and "s' = snd (sql_recoverStaleJobs cfg now ttl grace ids s)" and "jc_id i = k"
  shows "fst (sql_markRunning cfg t k pid s') = False \<and> fst (sql_recordComplete cfg i s') = True
    \<and> sql_status (snd (sql_recordComplete cfg i s')) k = Some (jc_status i)"
proof -
  have ok: "ids_ok s'" using sql_reachable_inv [OF assms(1)] recover_inv
    unfolding assms(3) ids_ok_def sql_inv_def by blast
  have st: "sql_status s' k = Some SOrphaned" using assms(2,3) by simp
  have "\<not> fst (sql_markRunning cfg t k pid s')"
    using sql_rows.running_result [OF ok, of cfg "(k, pid, t)"] st by simp
  moreover have "fst (sql_recordComplete cfg i s')"
    using sql_rows.complete_result [OF ok, of cfg i] st assms(4) by (simp add: completable_def)
  ultimately show ?thesis
    using sql_rows.complete_status [OF ok, of cfg i k] assms(4) by simp
qed

theorem orphaned_job_fenced_but_completable_witness:
  "fst (sql_recordComplete demo_cfg (demo_completion ''b'')
     (snd (sql_recoverStaleJobs demo_cfg 41 30 0 [] demo_table))) = True"
proof -
  have "sql_status (snd (sql_recoverStaleJobs demo_cfg 41 30 0 [] demo_table)) ''b'' = Some SOrphaned"
    by code_simp
  then show ?thesis
    using orphaned_job_fenced_but_completable [OF demo_table_reachable _ refl, of 41 30 0 "[]" "''b''"
        "demo_completion ''b''"]
    by (simp add: demo_completion_def)
qed

end
