(* ===== verification/Pricing.thy ===== *)
theory Pricing
  imports Prelude
begin

text \<open>
  Model prices (src/src/pricing.ts): the per-million rates, the brand lookup getPricing, the
  brand-free family lookup modelIdToFamily, the published API catalog, the router's getModelCost and
  the one cost composer composeCost. Dollar amounts and token counts are rationals. Model ids are
  strings of Latin-1 characters, so that toLowerCase is a function of single characters.
\<close>

section \<open>Strings\<close>

definition lower_char :: "char \<Rightarrow> char" where
  "lower_char c = (let n = of_char c :: nat in
     if (65 \<le> n \<and> n \<le> 90) \<or> (192 \<le> n \<and> n \<le> 222 \<and> n \<noteq> 215) then char_of (n + 32) else c)"

definition lower :: "string \<Rightarrow> string" where
  "lower s = map lower_char s"

fun str_includes :: "string \<Rightarrow> string \<Rightarrow> bool" where
  "str_includes [] n = (n = [])"
| "str_includes (c # s) n = (prefix n (c # s) \<or> str_includes s n)"

lemma str_includes_sublist: "str_includes s n = sublist n s"
  by (induction s) (auto simp: sublist_Cons_right)

section \<open>Rates\<close>

record price =
  pp_inputUsd :: rat
  pp_outputUsd :: rat
  pp_cacheReadMultiplier :: rat

definition ANTHROPIC_SONNET :: price where
  "ANTHROPIC_SONNET = \<lparr>pp_inputUsd = 3, pp_outputUsd = 15, pp_cacheReadMultiplier = 1 / 10\<rparr>"

definition ANTHROPIC_OPUS :: price where
  "ANTHROPIC_OPUS = \<lparr>pp_inputUsd = 15, pp_outputUsd = 75, pp_cacheReadMultiplier = 1 / 10\<rparr>"

definition ANTHROPIC_HAIKU :: price where
  "ANTHROPIC_HAIKU = \<lparr>pp_inputUsd = 1, pp_outputUsd = 5, pp_cacheReadMultiplier = 1 / 10\<rparr>"

definition OPENAI_GPT5 :: price where
  "OPENAI_GPT5 = \<lparr>pp_inputUsd = 5 / 4, pp_outputUsd = 10, pp_cacheReadMultiplier = 1 / 2\<rparr>"

definition GEMINI_25_PRO :: price where
  "GEMINI_25_PRO = \<lparr>pp_inputUsd = 5 / 4, pp_outputUsd = 10, pp_cacheReadMultiplier = 1 / 10\<rparr>"

definition GEMINI_FLASH :: price where
  "GEMINI_FLASH = \<lparr>pp_inputUsd = 3 / 10, pp_outputUsd = 5 / 2, pp_cacheReadMultiplier = 1 / 10\<rparr>"

definition GEMINI_3_PRO :: price where
  "GEMINI_3_PRO = \<lparr>pp_inputUsd = 2, pp_outputUsd = 12, pp_cacheReadMultiplier = 1 / 10\<rparr>"

definition GROK_4 :: price where
  "GROK_4 = \<lparr>pp_inputUsd = 5 / 4, pp_outputUsd = 5 / 2, pp_cacheReadMultiplier = 16 / 100\<rparr>"

definition GROK_BUILD :: price where
  "GROK_BUILD = \<lparr>pp_inputUsd = 1, pp_outputUsd = 2, pp_cacheReadMultiplier = 1 / 5\<rparr>"

definition GROK_4_5 :: price where
  "GROK_4_5 = \<lparr>pp_inputUsd = 2, pp_outputUsd = 6, pp_cacheReadMultiplier = 1 / 4\<rparr>"

definition MISTRAL_MEDIUM :: price where
  "MISTRAL_MEDIUM = \<lparr>pp_inputUsd = 3 / 2, pp_outputUsd = 15 / 2, pp_cacheReadMultiplier = 1 / 10\<rparr>"

definition MISTRAL_DEVSTRAL :: price where
  "MISTRAL_DEVSTRAL = \<lparr>pp_inputUsd = 1 / 10, pp_outputUsd = 3 / 10, pp_cacheReadMultiplier = 1 / 10\<rparr>"

definition ZERO_price :: price where
  "ZERO_price = \<lparr>pp_inputUsd = 0, pp_outputUsd = 0, pp_cacheReadMultiplier = 0\<rparr>"

lemmas rates = ANTHROPIC_SONNET_def ANTHROPIC_OPUS_def ANTHROPIC_HAIKU_def OPENAI_GPT5_def
  GEMINI_25_PRO_def GEMINI_FLASH_def GEMINI_3_PRO_def GROK_4_def GROK_BUILD_def GROK_4_5_def
  MISTRAL_MEDIUM_def MISTRAL_DEVSTRAL_def

section \<open>Lookup by brand\<close>

definition gemini_specialty :: "string \<Rightarrow> bool" where
  "gemini_specialty l = (str_includes l ''lite'' \<or> str_includes l ''image'' \<or> str_includes l ''audio''
     \<or> str_includes l ''tts'')"

definition getPricing :: "string \<Rightarrow> string \<Rightarrow> price" where
  "getPricing cli model = (let l = lower model in
     if cli = ''claude'' then
       if str_includes l ''sonnet'' then ANTHROPIC_SONNET
       else if str_includes l ''opus'' then ANTHROPIC_OPUS
       else if str_includes l ''haiku'' then ANTHROPIC_HAIKU
       else ANTHROPIC_SONNET
     else if cli = ''codex'' then
       if str_includes l ''gpt-5'' \<or> str_includes l ''o3'' then OPENAI_GPT5 else ZERO_price
     else if cli = ''gemini'' then
       if gemini_specialty l then ZERO_price
       else if str_includes l ''2.5-flash'' then GEMINI_FLASH
       else if str_includes l ''2.5-pro'' then GEMINI_25_PRO
       else if str_includes l ''gemini-3'' \<and> str_includes l ''pro'' then GEMINI_3_PRO
       else ZERO_price
     else if cli = ''grok'' then
       if str_includes l ''grok-build'' \<or> str_includes l ''grok-code'' then GROK_BUILD
       else if str_includes l ''grok-4.5'' then GROK_4_5
       else if str_includes l ''grok-4'' \<or> str_includes l ''grok-3'' \<or> str_includes l ''grok-latest'' then GROK_4
       else ZERO_price
     else if cli = ''mistral'' then
       if str_includes l ''devstral-small'' then MISTRAL_DEVSTRAL
       else if str_includes l ''mistral-medium-3.5'' then MISTRAL_MEDIUM
       else ZERO_price
     else ZERO_price)"

definition estimateCacheSavingsUsd :: "string \<Rightarrow> string \<Rightarrow> rat \<Rightarrow> rat" where
  "estimateCacheSavingsUsd cli model cacheReadTokens =
     (if cacheReadTokens \<le> 0 then 0
      else let p = getPricing cli model in
        if pp_inputUsd p = 0 then 0
        else cacheReadTokens * (pp_inputUsd p * (1 - pp_cacheReadMultiplier p) / 1000000))"

section \<open>Lookup by model family\<close>

definition modelIdToFamily :: "string \<Rightarrow> string" where
  "modelIdToFamily model = (let l = lower model in
     if str_includes l ''sonnet'' then ''claude-sonnet''
     else if str_includes l ''opus'' then ''claude-opus''
     else if str_includes l ''haiku'' then ''claude-haiku''
     else if str_includes l ''gpt-5'' \<or> str_includes l ''o3'' then ''openai-gpt5''
     else if \<not> gemini_specialty l \<and> str_includes l ''2.5-flash'' then ''gemini-2.5-flash''
     else if \<not> gemini_specialty l \<and> str_includes l ''2.5-pro'' then ''gemini-2.5-pro''
     else if \<not> gemini_specialty l \<and> str_includes l ''gemini-3'' \<and> str_includes l ''pro'' then ''gemini-3-pro''
     else if str_includes l ''grok-build'' \<or> str_includes l ''grok-code'' then ''grok-build''
     else if str_includes l ''grok-4.5'' then ''grok-4.5''
     else if str_includes l ''grok-4'' \<or> str_includes l ''grok-3'' \<or> str_includes l ''grok-latest'' then ''grok-4''
     else if str_includes l ''devstral-small'' then ''mistral-devstral''
     else if str_includes l ''mistral-medium-3.5'' then ''mistral-medium''
     else ''unknown'')"

definition FAMILY_PRICING :: "(string, price) js_map" where
  "FAMILY_PRICING =
    [(''claude-sonnet'', ANTHROPIC_SONNET), (''claude-opus'', ANTHROPIC_OPUS),
     (''claude-haiku'', ANTHROPIC_HAIKU), (''openai-gpt5'', OPENAI_GPT5),
     (''gemini-2.5-pro'', GEMINI_25_PRO), (''gemini-2.5-flash'', GEMINI_FLASH),
     (''gemini-3-pro'', GEMINI_3_PRO), (''grok-4'', GROK_4), (''grok-4.5'', GROK_4_5),
     (''grok-build'', GROK_BUILD), (''mistral-medium'', MISTRAL_MEDIUM),
     (''mistral-devstral'', MISTRAL_DEVSTRAL)]"

section \<open>The API catalog and the router's price\<close>

datatype accounting = Inclusive | Disjoint

datatype price_source = From_table | From_catalog | From_unknown

record catalog_entry =
  ce_inputUsdPerMTok :: rat
  ce_outputUsdPerMTok :: rat
  ce_cacheReadMultiplier :: rat
  ce_accountingMode :: "accounting option"
  ce_family :: "string option"

type_synonym api_catalog = "(string, catalog_entry) js_map"

definition API_CATALOG :: api_catalog where
  "API_CATALOG =
    [(''openai/gpt-5.5'', \<lparr>ce_inputUsdPerMTok = 5 / 4, ce_outputUsdPerMTok = 10,
        ce_cacheReadMultiplier = 1 / 2, ce_accountingMode = None, ce_family = Some ''openai-gpt5''\<rparr>),
     (''anthropic/claude-sonnet-4.5'', \<lparr>ce_inputUsdPerMTok = 3, ce_outputUsdPerMTok = 15,
        ce_cacheReadMultiplier = 1 / 10, ce_accountingMode = Some Disjoint,
        ce_family = Some ''claude-sonnet''\<rparr>),
     (''google/gemini-2.5-flash'', \<lparr>ce_inputUsdPerMTok = 3 / 10, ce_outputUsdPerMTok = 5 / 2,
        ce_cacheReadMultiplier = 1 / 10, ce_accountingMode = None, ce_family = Some ''gemini-2.5-flash''\<rparr>),
     (''grok-build-0.1'', \<lparr>ce_inputUsdPerMTok = 1, ce_outputUsdPerMTok = 2,
        ce_cacheReadMultiplier = 1 / 5, ce_accountingMode = None, ce_family = Some ''grok-build''\<rparr>),
     (''grok-4'', \<lparr>ce_inputUsdPerMTok = 5 / 4, ce_outputUsdPerMTok = 5 / 2,
        ce_cacheReadMultiplier = 16 / 100, ce_accountingMode = None, ce_family = Some ''grok-4''\<rparr>)]"

record model_cost =
  mc_inputUsdPerMTok :: rat
  mc_outputUsdPerMTok :: rat
  mc_cacheReadMultiplier :: rat
  mc_cacheWriteUsdPerMTok :: rat
  mc_accountingMode :: accounting
  mc_family :: string
  mc_source :: price_source
  mc_asOf :: string

definition tableModelCost :: "string \<Rightarrow> price \<Rightarrow> model_cost" where
  "tableModelCost family rate =
    \<lparr>mc_inputUsdPerMTok = pp_inputUsd rate, mc_outputUsdPerMTok = pp_outputUsd rate,
     mc_cacheReadMultiplier = pp_cacheReadMultiplier rate, mc_cacheWriteUsdPerMTok = pp_inputUsd rate,
     mc_accountingMode = (if prefix ''claude-'' family then Disjoint else Inclusive),
     mc_family = family, mc_source = From_table, mc_asOf = ''2026-06-13''\<rparr>"

definition catalogModelCost :: "string \<Rightarrow> catalog_entry \<Rightarrow> model_cost" where
  "catalogModelCost model e = (let family = nullish (ce_family e) (modelIdToFamily model) in
    \<lparr>mc_inputUsdPerMTok = ce_inputUsdPerMTok e, mc_outputUsdPerMTok = ce_outputUsdPerMTok e,
     mc_cacheReadMultiplier = ce_cacheReadMultiplier e, mc_cacheWriteUsdPerMTok = ce_inputUsdPerMTok e,
     mc_accountingMode = nullish (ce_accountingMode e) Inclusive,
     mc_family = (if family = ''unknown'' then lower model else family),
     mc_source = From_catalog, mc_asOf = ''2026-07-11''\<rparr>)"

definition UNKNOWN_MODEL_COST :: model_cost where
  "UNKNOWN_MODEL_COST =
    \<lparr>mc_inputUsdPerMTok = 0, mc_outputUsdPerMTok = 0, mc_cacheReadMultiplier = 0,
     mc_cacheWriteUsdPerMTok = 0, mc_accountingMode = Inclusive, mc_family = ''unknown'',
     mc_source = From_unknown, mc_asOf = ''2026-06-13''\<rparr>"

definition getModelCost :: "api_catalog \<Rightarrow> bool \<Rightarrow> string \<Rightarrow> model_cost" where
  "getModelCost catalog preferCatalog model =
    (let family = modelIdToFamily model; familyRate = js_get FAMILY_PRICING family in
     case js_get catalog (lower model) of
       Some e \<Rightarrow> (case familyRate of
           None \<Rightarrow> catalogModelCost model e
         | Some r \<Rightarrow> if preferCatalog then catalogModelCost model e else tableModelCost family r)
     | None \<Rightarrow> (case familyRate of
           Some r \<Rightarrow> tableModelCost family r
         | None \<Rightarrow> UNKNOWN_MODEL_COST))"

section \<open>The cost composer\<close>

datatype cost_basis = Provider_reported | Derived_from_tokens | Preflight_estimate

datatype confidence = Conf_low | Conf_medium | Conf_high

record token_counts =
  tc_inputTokens :: rat
  tc_outputTokens :: rat
  tc_cacheReadTokens :: "rat option"
  tc_cacheCreationTokens :: "rat option"
  tc_reasoningTokens :: "rat option"
  tc_reportedCostUsd :: "rat option"

record token_estimate =
  te_inputTokens :: rat
  te_outputTokens :: rat
  te_cacheReadTokens :: "rat option"
  te_cacheWriteTokens :: "rat option"

record cost_result =
  cr_costUsd :: rat
  cr_costBasis :: cost_basis
  cr_confidence :: confidence

definition composeTotalUsd :: "rat \<Rightarrow> rat \<Rightarrow> rat \<Rightarrow> rat \<Rightarrow> rat \<Rightarrow> model_cost \<Rightarrow> bool \<Rightarrow> rat" where
  "composeTotalUsd input output cacheRead cacheWrite reasoning mc whole =
    (let M = 1000000;
         outputCost = (output + reasoning) * mc_outputUsdPerMTok mc / M;
         cacheWriteCost = cacheWrite * mc_cacheWriteUsdPerMTok mc / M in
     if mc_accountingMode mc = Disjoint then
       let fresh = (if whole then input - cacheRead - cacheWrite else input);
           freshCost = fresh * mc_inputUsdPerMTok mc / M;
           cacheReadCost = cacheRead * mc_inputUsdPerMTok mc * mc_cacheReadMultiplier mc / M in
       freshCost + cacheWriteCost + cacheReadCost + outputCost
     else
       let baseCost = input * mc_inputUsdPerMTok mc / M;
           discount = cacheRead * mc_inputUsdPerMTok mc * (1 - mc_cacheReadMultiplier mc) / M in
       baseCost + cacheWriteCost + outputCost - discount)"

definition estimated_cost :: "token_estimate \<Rightarrow> model_cost \<Rightarrow> cost_result" where
  "estimated_cost est mc =
    \<lparr>cr_costUsd = composeTotalUsd (te_inputTokens est) (te_outputTokens est)
        (nullish (te_cacheReadTokens est) 0) (nullish (te_cacheWriteTokens est) 0) 0 mc True,
     cr_costBasis = Preflight_estimate, cr_confidence = Conf_low\<rparr>"

definition composeCost :: "token_counts option \<Rightarrow> token_estimate \<Rightarrow> model_cost \<Rightarrow> cost_result" where
  "composeCost counts est mc = (case counts of
     None \<Rightarrow> estimated_cost est mc
   | Some c \<Rightarrow> (case tc_reportedCostUsd c of
       Some usd \<Rightarrow> \<lparr>cr_costUsd = usd, cr_costBasis = Provider_reported, cr_confidence = Conf_high\<rparr>
     | None \<Rightarrow>
         if mc_source mc \<noteq> From_unknown then
           \<lparr>cr_costUsd = composeTotalUsd (tc_inputTokens c) (tc_outputTokens c)
              (nullish (tc_cacheReadTokens c) 0) (nullish (tc_cacheCreationTokens c) 0)
              (nullish (tc_reasoningTokens c) 0) mc False,
            cr_costBasis = Derived_from_tokens, cr_confidence = Conf_high\<rparr>
         else estimated_cost est mc))"

section \<open>Lemmas\<close>

text \<open>The brand whose CLI runs a family's models.\<close>

definition family_brand :: "string \<Rightarrow> string" where
  "family_brand f =
     (if prefix ''claude-'' f then ''claude'' else if prefix ''openai-'' f then ''codex''
      else if prefix ''gemini-'' f then ''gemini'' else if prefix ''grok-'' f then ''grok''
      else if prefix ''mistral-'' f then ''mistral'' else [])"

definition fair_rates :: "model_cost \<Rightarrow> bool" where
  "fair_rates mc \<longleftrightarrow> 0 \<le> mc_inputUsdPerMTok mc \<and> 0 \<le> mc_outputUsdPerMTok mc
     \<and> 0 \<le> mc_cacheReadMultiplier mc \<and> mc_cacheReadMultiplier mc \<le> 1
     \<and> mc_cacheWriteUsdPerMTok mc = mc_inputUsdPerMTok mc"

definition priced :: "model_cost \<Rightarrow> bool" where
  "priced mc \<longleftrightarrow> 0 < mc_inputUsdPerMTok mc \<and> 0 < mc_outputUsdPerMTok mc
     \<and> 0 < mc_cacheReadMultiplier mc \<and> mc_cacheReadMultiplier mc < 1
     \<and> mc_cacheWriteUsdPerMTok mc = mc_inputUsdPerMTok mc"

definition catalog_priced :: "api_catalog \<Rightarrow> bool" where
  "catalog_priced cat = list_all (\<lambda>(k, e). 0 < ce_inputUsdPerMTok e \<and> 0 < ce_outputUsdPerMTok e
     \<and> 0 < ce_cacheReadMultiplier e \<and> ce_cacheReadMultiplier e < 1) cat"

lemma api_catalog_priced: "catalog_priced API_CATALOG"
  by (simp add: catalog_priced_def API_CATALOG_def)

lemma family_rate_pos:
  assumes "js_get FAMILY_PRICING f = Some r"
  shows "0 < pp_inputUsd r \<and> 0 < pp_outputUsd r \<and> 0 < pp_cacheReadMultiplier r \<and> pp_cacheReadMultiplier r < 1"
proof -
  have "list_all (\<lambda>(f, r). 0 < pp_inputUsd r \<and> 0 < pp_outputUsd r \<and> 0 < pp_cacheReadMultiplier r
      \<and> pp_cacheReadMultiplier r < 1) FAMILY_PRICING"
    by (simp add: FAMILY_PRICING_def rates)
  with assms show ?thesis by (auto simp: list_all_iff dest!: map_of_SomeD)
qed

lemma priced_table: "js_get FAMILY_PRICING f = Some r \<Longrightarrow> priced (tableModelCost f r)"
  using family_rate_pos [of f r] by (simp add: priced_def tableModelCost_def)

lemma priced_catalog:
  "catalog_priced cat \<Longrightarrow> js_get cat k = Some e \<Longrightarrow> priced (catalogModelCost m e)"
  by (auto simp: priced_def catalogModelCost_def catalog_priced_def list_all_iff Let_def dest!: map_of_SomeD)

lemma family_brands:
  "family_brand ''claude-sonnet'' = ''claude''"
  "family_brand ''claude-opus'' = ''claude''"
  "family_brand ''claude-haiku'' = ''claude''"
  "family_brand ''openai-gpt5'' = ''codex''"
  "family_brand ''gemini-2.5-pro'' = ''gemini''"
  "family_brand ''gemini-2.5-flash'' = ''gemini''"
  "family_brand ''gemini-3-pro'' = ''gemini''"
  "family_brand ''grok-4'' = ''grok''"
  "family_brand ''grok-4.5'' = ''grok''"
  "family_brand ''grok-build'' = ''grok''"
  "family_brand ''mistral-medium'' = ''mistral''"
  "family_brand ''mistral-devstral'' = ''mistral''"
  by (simp_all add: family_brand_def)

lemma brand_prices:
  "getPricing ''claude'' model = (let l = lower model in
     if str_includes l ''sonnet'' then ANTHROPIC_SONNET
     else if str_includes l ''opus'' then ANTHROPIC_OPUS
     else if str_includes l ''haiku'' then ANTHROPIC_HAIKU else ANTHROPIC_SONNET)"
  "getPricing ''codex'' model = (let l = lower model in
     if str_includes l ''gpt-5'' \<or> str_includes l ''o3'' then OPENAI_GPT5 else ZERO_price)"
  "getPricing ''gemini'' model = (let l = lower model in
     if gemini_specialty l then ZERO_price
     else if str_includes l ''2.5-flash'' then GEMINI_FLASH
     else if str_includes l ''2.5-pro'' then GEMINI_25_PRO
     else if str_includes l ''gemini-3'' \<and> str_includes l ''pro'' then GEMINI_3_PRO else ZERO_price)"
  "getPricing ''grok'' model = (let l = lower model in
     if str_includes l ''grok-build'' \<or> str_includes l ''grok-code'' then GROK_BUILD
     else if str_includes l ''grok-4.5'' then GROK_4_5
     else if str_includes l ''grok-4'' \<or> str_includes l ''grok-3'' \<or> str_includes l ''grok-latest'' then GROK_4
     else ZERO_price)"
  "getPricing ''mistral'' model = (let l = lower model in
     if str_includes l ''devstral-small'' then MISTRAL_DEVSTRAL
     else if str_includes l ''mistral-medium-3.5'' then MISTRAL_MEDIUM else ZERO_price)"
  by (simp_all add: getPricing_def)

lemma family_rates:
  "js_get FAMILY_PRICING ''claude-sonnet'' = Some ANTHROPIC_SONNET"
  "js_get FAMILY_PRICING ''claude-opus'' = Some ANTHROPIC_OPUS"
  "js_get FAMILY_PRICING ''claude-haiku'' = Some ANTHROPIC_HAIKU"
  "js_get FAMILY_PRICING ''openai-gpt5'' = Some OPENAI_GPT5"
  "js_get FAMILY_PRICING ''gemini-2.5-pro'' = Some GEMINI_25_PRO"
  "js_get FAMILY_PRICING ''gemini-2.5-flash'' = Some GEMINI_FLASH"
  "js_get FAMILY_PRICING ''gemini-3-pro'' = Some GEMINI_3_PRO"
  "js_get FAMILY_PRICING ''grok-4'' = Some GROK_4"
  "js_get FAMILY_PRICING ''grok-4.5'' = Some GROK_4_5"
  "js_get FAMILY_PRICING ''grok-build'' = Some GROK_BUILD"
  "js_get FAMILY_PRICING ''mistral-medium'' = Some MISTRAL_MEDIUM"
  "js_get FAMILY_PRICING ''mistral-devstral'' = Some MISTRAL_DEVSTRAL"
  "js_get FAMILY_PRICING ''unknown'' = None"
  by (simp_all add: FAMILY_PRICING_def)

definition rate_matches :: "string \<Rightarrow> string \<Rightarrow> bool" where
  "rate_matches model f \<longleftrightarrow> js_get FAMILY_PRICING f = None
     \<or> js_get FAMILY_PRICING f = Some (getPricing (family_brand f) model)"

lemma if_case: "(c \<Longrightarrow> P a) \<Longrightarrow> (\<not> c \<Longrightarrow> P b) \<Longrightarrow> P (if c then a else b)"
  by simp

lemma rate_matches_family: "rate_matches model (modelIdToFamily model)"
  unfolding modelIdToFamily_def Let_def
  by (intro if_case [where P = "rate_matches model"])
    (simp_all only: rate_matches_def family_rates family_brands brand_prices Let_def
      if_True if_False simp_thms option.inject option.distinct de_Morgan_conj de_Morgan_disj)

lemma brand_rate:
  "js_get FAMILY_PRICING (modelIdToFamily model) = Some r \<Longrightarrow>
     getPricing (family_brand (modelIdToFamily model)) model = r"
  using rate_matches_family [of model] by (auto simp: rate_matches_def)

definition known_rate :: "string \<Rightarrow> bool" where
  "known_rate f \<longleftrightarrow> (js_get FAMILY_PRICING f = None) = (f = ''unknown'')"

lemma known_rate_family: "known_rate (modelIdToFamily model)"
  unfolding modelIdToFamily_def Let_def
  by (intro if_case [where P = known_rate]) (simp_all add: known_rate_def family_rates)

lemma unknown_family_unpriced:
  "js_get FAMILY_PRICING (modelIdToFamily m) = None \<longleftrightarrow> modelIdToFamily m = ''unknown''"
  using known_rate_family [of m] by (simp add: known_rate_def)

lemma source_simps [simp]:
  "mc_source (tableModelCost f r) = From_table"
  "mc_source (catalogModelCost m e) = From_catalog"
  "mc_source UNKNOWN_MODEL_COST = From_unknown"
  by (simp_all add: tableModelCost_def catalogModelCost_def UNKNOWN_MODEL_COST_def Let_def)

lemma cache_read_discount:
  "composeTotalUsd i out 0 cw rs mc True - composeTotalUsd i out cr cw rs mc True
     = cr * (mc_inputUsdPerMTok mc * (1 - mc_cacheReadMultiplier mc) / 1000000)"
  by (simp add: composeTotalUsd_def Let_def field_simps)

section \<open>Properties\<close>

text \<open>
  An unpriced model is never mistaken for a free one. The router's price has source unknown
  exactly when the model is in neither the catalog nor the family table; with a catalog of positive
  rates every other model has positive input, output and cache-write rates and a real cache discount.
\<close>

theorem unpriced_iff_unknown:
  assumes "catalog_priced cat"
  shows "if js_get cat (lower model) = None \<and> modelIdToFamily model = ''unknown''
    then getModelCost cat pref model = UNKNOWN_MODEL_COST
    else mc_source (getModelCost cat pref model) \<noteq> From_unknown \<and> priced (getModelCost cat pref model)"
  using assms unknown_family_unpriced [of model]
  by (auto simp: getModelCost_def Let_def priced_table priced_catalog split: option.split)

theorem unpriced_iff_unknown_witness:
  "getModelCost API_CATALOG True ''grok-composer-2.5-fast'' = UNKNOWN_MODEL_COST
   \<and> priced (getModelCost API_CATALOG False ''Claude-Opus-4'')"
proof -
  have "modelIdToFamily ''grok-composer-2.5-fast'' = ''unknown''"
    "js_get API_CATALOG (lower ''grok-composer-2.5-fast'') = None"
    "modelIdToFamily ''Claude-Opus-4'' \<noteq> ''unknown''"
    by code_simp+
  then show ?thesis
    using unpriced_iff_unknown [OF api_catalog_priced, where model = "''grok-composer-2.5-fast''" and pref = True]
      unpriced_iff_unknown [OF api_catalog_priced, where model = "''Claude-Opus-4''" and pref = False]
    by simp
qed

text \<open>
  One price table. For every model whose family is priced, the brand lookup of the CLI that runs
  the family gives the family's rate, and the cost the composer takes off for cache reads equals the
  savings the cache statistics report for that CLI, in both accounting modes.
\<close>

theorem cache_savings_agree:
  assumes "js_get FAMILY_PRICING (modelIdToFamily model) = Some r" and "0 \<le> cr"
  defines "cli \<equiv> family_brand (modelIdToFamily model)"
    and "mc \<equiv> tableModelCost (modelIdToFamily model) r"
  shows "getPricing cli model = r
    \<and> composeTotalUsd i out 0 cw rs mc True - composeTotalUsd i out cr cw rs mc True
        = estimateCacheSavingsUsd cli model cr"
proof -
  have g: "getPricing cli model = r" unfolding cli_def by (rule brand_rate [OF assms(1)])
  moreover have "estimateCacheSavingsUsd cli model cr
      = cr * (pp_inputUsd r * (1 - pp_cacheReadMultiplier r) / 1000000)"
    using assms(2) family_rate_pos [OF assms(1)] by (simp add: estimateCacheSavingsUsd_def g Let_def)
  ultimately show ?thesis
    by (simp add: cache_read_discount mc_def tableModelCost_def)
qed

theorem cache_savings_agree_witness:
  "getPricing ''grok'' ''grok-4.5'' = GROK_4_5
   \<and> composeTotalUsd 100 10 0 0 0 (tableModelCost ''grok-4.5'' GROK_4_5) True
       - composeTotalUsd 100 10 40 0 0 (tableModelCost ''grok-4.5'' GROK_4_5) True
     = estimateCacheSavingsUsd ''grok'' ''grok-4.5'' 40"
proof -
  have f: "modelIdToFamily ''grok-4.5'' = ''grok-4.5''" "family_brand ''grok-4.5'' = ''grok''" by code_simp+
  have r: "js_get FAMILY_PRICING ''grok-4.5'' = Some GROK_4_5" by (simp add: FAMILY_PRICING_def)
  show ?thesis
    using cache_savings_agree [where model = "''grok-4.5''" and r = GROK_4_5 and cr = 40 and i = 100
        and out = 10 and cw = 0 and rs = 0] r
    by (simp add: f)
qed

text \<open>
  The composer's cost is sane. With fair rates and cache tokens that are part of the prompt, the
  cost of a whole-prompt count is never negative and never above the cost without caching, and for a
  disjoint family the whole-prompt figure equals the figure from the fresh-only count.
\<close>

theorem composed_cost_bounds:
  assumes "fair_rates mc" and "0 \<le> cr" "0 \<le> cw" "cr + cw \<le> i" "0 \<le> out" "0 \<le> rs"
  shows "0 \<le> composeTotalUsd i out cr cw rs mc True
    \<and> composeTotalUsd i out cr cw rs mc True \<le> composeTotalUsd i out 0 cw rs mc True
    \<and> (mc_accountingMode mc = Inclusive
        \<or> composeTotalUsd i out cr cw rs mc True = composeTotalUsd (i - cr - cw) out cr cw rs mc False)"
proof -
  let ?p = "mc_inputUsdPerMTok mc" and ?q = "mc_cacheReadMultiplier mc"
  note fair = assms(1) [unfolded fair_rates_def]
  have d: "0 \<le> cr * (?p * (1 - ?q) / 1000000)" using fair assms(2) by simp
  have o: "0 \<le> (out + rs) * mc_outputUsdPerMTok mc" using fair assms by simp
  have f: "0 \<le> (i - cr - cw) * ?p" "0 \<le> cw * ?p" "0 \<le> cr * ?p" "0 \<le> cr * ?p * ?q"
    using fair assms by (simp_all add: mult_nonneg_nonneg)
  have "0 \<le> composeTotalUsd i out cr cw rs mc True * 1000000"
  proof (cases "mc_accountingMode mc")
    case Disjoint
    then have "composeTotalUsd i out cr cw rs mc True * 1000000
        = (i - cr - cw) * ?p + cr * ?p * ?q + cw * ?p + (out + rs) * mc_outputUsdPerMTok mc"
      using fair by (simp add: composeTotalUsd_def Let_def field_simps)
    then show ?thesis using f o by linarith
  next
    case Inclusive
    then have "composeTotalUsd i out cr cw rs mc True * 1000000
        = (i - cr - cw) * ?p + cr * ?p * ?q + 2 * (cw * ?p) + (out + rs) * mc_outputUsdPerMTok mc"
      using fair by (simp add: composeTotalUsd_def Let_def field_simps)
    then show ?thesis using f o by linarith
  qed
  moreover have "mc_accountingMode mc = Inclusive
        \<or> composeTotalUsd i out cr cw rs mc True = composeTotalUsd (i - cr - cw) out cr cw rs mc False"
    by (cases "mc_accountingMode mc") (simp_all add: composeTotalUsd_def Let_def)
  ultimately show ?thesis using d cache_read_discount [of i out cw rs mc cr] by simp
qed

theorem composed_cost_bounds_witness:
  "0 \<le> composeTotalUsd 100 10 30 20 5 (tableModelCost ''claude-opus'' ANTHROPIC_OPUS) True"
  using composed_cost_bounds [of "tableModelCost ''claude-opus'' ANTHROPIC_OPUS" 30 20 100 10 5]
  by (simp add: fair_rates_def tableModelCost_def ANTHROPIC_OPUS_def)

end
