(* ===== verification/Token_Estimator.thy ===== *)
theory Token_Estimator
  imports Text Pricing
begin

text \<open>
  The pre-flight input-token estimate of the router (src/src/token-estimator.ts): the content
  classifier, the family multipliers, and the two signals that are stored instead of the prompt. The
  arithmetic is exact: the rounding of JavaScript's doubles is not modelled.
\<close>

section \<open>Content classes\<close>

datatype content_type = Prose | Source_code | Cjk

definition cjk_unit :: "nat \<Rightarrow> bool" where
  "cjk_unit u \<longleftrightarrow> (12288 \<le> u \<and> u \<le> 12351) \<or> (12352 \<le> u \<and> u \<le> 12447) \<or> (12448 \<le> u \<and> u \<le> 12543)
     \<or> (13312 \<le> u \<and> u \<le> 19903) \<or> (19968 \<le> u \<and> u \<le> 40959) \<or> (63744 \<le> u \<and> u \<le> 64255)
     \<or> (65280 \<le> u \<and> u \<le> 65519) \<or> (44032 \<le> u \<and> u \<le> 55215)"

definition code_symbol :: "nat \<Rightarrow> bool" where
  "code_symbol u \<longleftrightarrow> u \<in> set (lit ''{}[]()<>;=+-*/|&%$#@`~'') \<or> u = 92"

definition code_keywords :: "jstext list" where
  "code_keywords = map lit [''function'', ''const'', ''let'', ''var'', ''return'', ''import'', ''export'',
     ''class'', ''def'', ''public'', ''private'', ''static'', ''void'', ''for'', ''while'', ''switch'', ''case'']"

definition looks_json :: "jstext \<Rightarrow> bool" where
  "looks_json v \<longleftrightarrow> (case v of [] \<Rightarrow> False | u # _ \<Rightarrow> u \<in> set (lit ''[{''))
     \<and> list_ex (\<lambda>u. u \<in> set (lit ''}]'')) v \<and> list_ex (\<lambda>u. u \<in> set (lit '':,'')) v"

definition classifyContent :: "jstext \<Rightarrow> content_type" where
  "classifyContent body = (if body = [] then Prose else
     let nonSpace = length (filter (\<lambda>u. \<not> is_ws u) body) in
     if nonSpace = 0 then Prose
     else if (of_nat (length (filter cjk_unit body)) / of_nat nonSpace :: rat) \<ge> 1 / 5 then Cjk
     else
       let trimmed = js_trim body;
           symbolRatio = (of_nat (length (filter code_symbol trimmed)) / of_nat nonSpace :: rat) in
       if looks_json trimmed \<or> symbolRatio \<ge> 8 / 100
          \<or> (has_word code_keywords trimmed \<and> symbolRatio \<ge> 3 / 100)
       then Source_code else Prose)"

section \<open>The estimate\<close>

definition divisor_of :: "content_type \<Rightarrow> rat" where
  "divisor_of t = (case t of Prose \<Rightarrow> 4 | Source_code \<Rightarrow> 3 | Cjk \<Rightarrow> 3 / 2)"

definition FAMILY_MULTIPLIERS :: "(string, rat) js_map" where
  "FAMILY_MULTIPLIERS = [(''openai'', 1), (''o200k'', 1), (''cl100k'', 102 / 100), (''claude'', 108 / 100),
     (''gemini'', 98 / 100), (''sentencepiece'', 98 / 100), (''grok'', 1), (''mistral'', 105 / 100)]"

definition familyMultiplier :: "string option \<Rightarrow> rat" where
  "familyMultiplier family = (case family of None \<Rightarrow> 1 | Some f \<Rightarrow>
     if f = [] then 1
     else case find (\<lambda>(key, _). lower f = key \<or> str_includes (lower f) key) FAMILY_MULTIPLIERS of
       None \<Rightarrow> 1 | Some (_, multiplier) \<Rightarrow> multiplier)"

definition estimateInputTokens :: "jstext \<Rightarrow> string option \<Rightarrow> rat option \<Rightarrow> int" where
  "estimateInputTokens body family k = (if body = [] then 0
     else \<lceil>of_nat (length body) / divisor_of (classifyContent body) * familyMultiplier family * nullish k 1\<rceil>)"

section \<open>Stored signals\<close>

record prompt_derivation =
  pd_promptChars :: nat
  pd_contentClass :: content_type
  pd_derivationVersion :: nat

definition DERIVATION_VERSION :: nat where "DERIVATION_VERSION = 1"

definition derivePromptSignals :: "jstext \<Rightarrow> prompt_derivation" where
  "derivePromptSignals body = \<lparr>pd_promptChars = length body, pd_contentClass = classifyContent body,
     pd_derivationVersion = DERIVATION_VERSION\<rparr>"

definition estimateInputTokensFromDerived :: "nat \<Rightarrow> content_type \<Rightarrow> string option \<Rightarrow> rat option \<Rightarrow> int" where
  "estimateInputTokensFromDerived promptChars contentClass family k = (if promptChars = 0 then 0
     else \<lceil>of_nat promptChars / divisor_of contentClass * familyMultiplier family * nullish k 1\<rceil>)"

section \<open>Lemmas\<close>

lemma divisor_pos: "1 < divisor_of t" "divisor_of t \<le> 4"
  by (cases t; simp add: divisor_of_def)+

lemma familyMultiplier_range: "98 / 100 \<le> familyMultiplier f" "familyMultiplier f \<le> 108 / 100"
proof -
  have "list_all (\<lambda>(_, m). 98 / 100 \<le> m \<and> m \<le> 108 / 100) FAMILY_MULTIPLIERS"
    by (simp add: FAMILY_MULTIPLIERS_def)
  then have "98 / 100 \<le> m \<and> m \<le> 108 / 100" if "find P FAMILY_MULTIPLIERS = Some (key, m)" for P key m
    using that by (auto simp: list_all_iff dest!: find_SomeD)
  then show "98 / 100 \<le> familyMultiplier f" "familyMultiplier f \<le> 108 / 100"
    by (auto simp: familyMultiplier_def split: option.split)
qed

lemma derived_estimate:
  "estimateInputTokensFromDerived (length body) (classifyContent body) family k = estimateInputTokens body family k"
  by (simp add: estimateInputTokensFromDerived_def estimateInputTokens_def)

lemma derived_mono:
  assumes "n \<le> m" and "0 \<le> nullish k 1"
  shows "estimateInputTokensFromDerived n c family k \<le> estimateInputTokensFromDerived m c family k"
proof -
  let ?f = "\<lambda>n. of_nat n / divisor_of c * familyMultiplier family * nullish k 1 :: rat"
  have p: "0 < divisor_of c" "0 \<le> familyMultiplier family"
    using divisor_pos [of c] familyMultiplier_range [of family] by linarith+
  have "?f n \<le> ?f m" using assms p
    by (intro mult_right_mono divide_right_mono) simp_all
  moreover have "0 \<le> ?f m" using assms p by simp
  ultimately show ?thesis
    by (auto simp: estimateInputTokensFromDerived_def intro: ceiling_mono)
qed

section \<open>Properties\<close>

text \<open>
  The prompt body is not needed for its estimate. For every text, family and calibration factor
  the estimate from the two stored signals equals the estimate from the text, it is monotone in the
  length, and a non-empty prompt with a positive factor is never estimated as free: the estimate is
  at least a quarter of the length scaled by 0.98 and the factor.
\<close>

theorem derived_estimate_exact:
  assumes "0 < k"
  shows "estimateInputTokensFromDerived (pd_promptChars (derivePromptSignals body))
      (pd_contentClass (derivePromptSignals body)) family (Some k) = estimateInputTokens body family (Some k)
    \<and> of_nat (length body) / 4 * (98 / 100) * k \<le> of_int (estimateInputTokens body family (Some k))
    \<and> (body \<noteq> [] \<longrightarrow> 0 < estimateInputTokens body family (Some k))
    \<and> estimateInputTokens body family (Some k)
        \<le> estimateInputTokensFromDerived (length body + n) (classifyContent body) family (Some k)"
proof -
  let ?c = "classifyContent body"
  have "of_nat (length body) / 4 * (98 / 100) * k
      \<le> of_nat (length body) / divisor_of ?c * familyMultiplier family * k"
    using assms divisor_pos [of ?c] familyMultiplier_range [of family]
    by (intro mult_right_mono mult_mono divide_left_mono) simp_all
  also have "\<dots> \<le> of_int (estimateInputTokens body family (Some k))"
    by (simp add: estimateInputTokens_def)
  finally have lb: "of_nat (length body) / 4 * (98 / 100) * k \<le> of_int (estimateInputTokens body family (Some k))" .
  have "0 < estimateInputTokens body family (Some k)" if "body \<noteq> []"
  proof -
    have "0 < of_nat (length body) / 4 * (98 / 100) * k" using that assms by simp
    from less_le_trans [OF this lb] show ?thesis by simp
  qed
  then show ?thesis
    using lb derived_mono [of "length body" "length body + n" "Some k" ?c family] assms
    by (simp add: derivePromptSignals_def derived_estimate)
qed

theorem derived_estimate_exact_witness:
  "0 < estimateInputTokens (lit ''summarise this'') (Some ''claude-opus'') (Some 1)"
  using derived_estimate_exact [where k = 1 and body = "lit ''summarise this''" and family = "Some ''claude-opus''"]
  by (simp add: lit_def)

end
