(* ===== verification/Priors.thy ===== *)
theory Priors
  imports Token_Estimator
begin

text \<open>
  The feedback aggregator of the router (src/src/lcr-priors.ts): flight-recorder rows are loaded with
  the mistral session marker, scoped to a principal, and grouped in one pass into output-token priors,
  calibration factors and estimate accuracies. Counts and costs are rationals, absent values None.
\<close>

section \<open>Rows\<close>

record raw_prior_row =
  rw_cli :: provider
  rw_model :: string
  rw_session_id :: "string option"
  rw_derived_prompt_chars :: "nat option"
  rw_derived_content_class :: "string option"
  rw_input_tokens :: "rat option"
  rw_output_tokens :: "rat option"
  rw_cache_read_tokens :: "rat option"
  rw_cache_creation_tokens :: "rat option"
  rw_cost_usd :: "rat option"
  rw_cost_basis :: "string option"
  rw_route_est_cost_usd :: "rat option"
  rw_owner_principal :: "principal option"

record prior_row =
  pr_provider :: provider
  pr_model :: string
  pr_derivation :: "(nat \<times> content_type) option"
  pr_inputTokens :: "rat option"
  pr_outputTokens :: "rat option"
  pr_cacheReadTokens :: "rat option"
  pr_cacheCreationTokens :: "rat option"
  pr_costUsd :: "rat option"
  pr_costBasis :: "string option"
  pr_routeEstCostUsd :: "rat option"
  pr_ownerPrincipal :: "principal option"
  pr_sessionContinued :: bool

definition content_class :: "string \<Rightarrow> content_type option" where
  "content_class s = (if s = ''prose'' then Some Prose else if s = ''code'' then Some Source_code
     else if s = ''cjk'' then Some Cjk else None)"

definition toDerivation :: "raw_prior_row \<Rightarrow> (nat \<times> content_type) option" where
  "toDerivation row = (case rw_derived_prompt_chars row of None \<Rightarrow> None
     | Some chars \<Rightarrow> (case rw_derived_content_class row of None \<Rightarrow> None
       | Some cls \<Rightarrow> map_option (Pair chars) (content_class cls)))"

definition prior_row_of :: "raw_prior_row \<Rightarrow> bool \<Rightarrow> prior_row" where
  "prior_row_of row continued =
    \<lparr>pr_provider = rw_cli row, pr_model = rw_model row, pr_derivation = toDerivation row,
     pr_inputTokens = rw_input_tokens row, pr_outputTokens = rw_output_tokens row,
     pr_cacheReadTokens = rw_cache_read_tokens row, pr_cacheCreationTokens = rw_cache_creation_tokens row,
     pr_costUsd = rw_cost_usd row, pr_costBasis = rw_cost_basis row,
     pr_routeEstCostUsd = rw_route_est_cost_usd row, pr_ownerPrincipal = rw_owner_principal row,
     pr_sessionContinued = continued\<rparr>"

definition mistral_session :: "raw_prior_row \<Rightarrow> string option" where
  "mistral_session row = (case rw_session_id row of
     None \<Rightarrow> None
   | Some sid \<Rightarrow> if rw_cli row = ''mistral'' \<and> sid \<noteq> [] then Some sid else None)"

fun load_rows :: "string list \<Rightarrow> raw_prior_row list \<Rightarrow> prior_row list" where
  "load_rows seen [] = []"
| "load_rows seen (row # rows) = (case mistral_session row of
     None \<Rightarrow> prior_row_of row False # load_rows seen rows
   | Some sid \<Rightarrow> if sid \<in> set seen then prior_row_of row True # load_rows seen rows
       else prior_row_of row False # load_rows (sid # seen) rows)"

definition loadLcrPriorRows :: "raw_prior_row list \<Rightarrow> prior_row list" where
  "loadLcrPriorRows raw = load_rows [] raw"

section \<open>Percentiles and confidence\<close>

definition percentile :: "rat list \<Rightarrow> rat \<Rightarrow> rat" where
  "percentile sortedAsc q = (let n = length sortedAsc in
     if n = 0 then 0
     else if n = 1 then sortedAsc ! 0
     else
       let idx = (of_nat n - 1) * q; lo = \<lfloor>idx\<rfloor>; hi = \<lceil>idx\<rceil>;
           loVal = (if nat lo < n then sortedAsc ! nat lo else 0);
           hiVal = (if nat hi < n then sortedAsc ! nat hi else 0) in
       if lo = hi then loVal else loVal + (hiVal - loVal) * (idx - of_int lo))"

definition confidenceFromQuality :: "nat \<Rightarrow> rat \<Rightarrow> rat \<Rightarrow> confidence" where
  "confidenceFromQuality samples p10 p90 = (if p10 \<le> 0 then Conf_low
     else let spread = p90 / p10 in
       if samples \<ge> 30 \<and> spread \<le> 3 / 2 then Conf_high
       else if samples \<ge> 10 \<and> spread \<le> 3 then Conf_medium
       else Conf_low)"

section \<open>Aggregation\<close>

record output_prior =
  op_median :: rat
  op_p90 :: rat
  op_samples :: nat

record calibration_bucket =
  cb_k :: rat
  cb_samples :: nat
  cb_p10 :: rat
  cb_p50 :: rat
  cb_p90 :: rat
  cb_confidence :: confidence

record accuracy_bucket =
  ab_provider :: string
  ab_model :: string
  ab_costBasis :: string
  ab_medianAccuracy :: rat
  ab_samples :: nat
  ab_p10 :: rat
  ab_p50 :: rat
  ab_p90 :: rat

record lcr_priors =
  lp_outputPriors :: "(string, output_prior) js_map"
  lp_calibration :: "(string, calibration_bucket) js_map"
  lp_accuracyByBasis :: "(string, accuracy_bucket) js_map"

datatype priors_scope = Scope_global | Scope_principal | Scope_off

definition num :: "rat option \<Rightarrow> rat" where
  "num n = nullish n 0"

definition outputKey :: "string \<Rightarrow> string \<Rightarrow> string" where
  "outputKey prov model = prov @ '':'' @ model"

definition class_name :: "content_type \<Rightarrow> string" where
  "class_name c = (case c of Prose \<Rightarrow> ''prose'' | Source_code \<Rightarrow> ''code'' | Cjk \<Rightarrow> ''cjk'')"

definition calibrationKey :: "content_type \<Rightarrow> string \<Rightarrow> string" where
  "calibrationKey c family = class_name c @ '':'' @ family"

definition accuracyKey :: "string \<Rightarrow> string \<Rightarrow> string \<Rightarrow> string" where
  "accuracyKey prov model costBasis = prov @ '':'' @ model @ ''::'' @ costBasis"

definition reconstructActualInput :: "prior_row \<Rightarrow> string \<Rightarrow> rat" where
  "reconstructActualInput row family = (let input = num (pr_inputTokens row) in
     if prefix ''claude-'' family
     then input + num (pr_cacheReadTokens row) + num (pr_cacheCreationTokens row) else input)"

text \<open>What one row contributes to each of the three groupings: a key and a sample, or nothing.\<close>

definition output_sample :: "prior_row \<Rightarrow> (string \<times> rat) option" where
  "output_sample row = (case pr_outputTokens row of
     None \<Rightarrow> None
   | Some v \<Rightarrow> if v \<ge> 0 then Some (outputKey (pr_provider row) (pr_model row), v) else None)"

definition calibration_sample :: "prior_row \<Rightarrow> (string \<times> rat) option" where
  "calibration_sample row = (let family = modelIdToFamily (pr_model row) in
     if family \<noteq> ''unknown'' \<and> \<not> pr_sessionContinued row \<and> pr_inputTokens row \<noteq> None then
       case pr_derivation row of
         None \<Rightarrow> None
       | Some (chars, cls) \<Rightarrow>
           let base = estimateInputTokensFromDerived chars cls (Some family) None in
           if base > 0 then Some (calibrationKey cls family, reconstructActualInput row family / of_int base)
           else None
     else None)"

definition accuracy_sample :: "prior_row \<Rightarrow> (string \<times> rat) option" where
  "accuracy_sample row = (case (pr_routeEstCostUsd row, pr_costUsd row, pr_costBasis row) of
     (Some est, Some cost, Some basis) \<Rightarrow>
       if cost > 0 \<and> basis \<noteq> []
       then Some (accuracyKey (pr_provider row) (pr_model row) basis, est / cost) else None
   | _ \<Rightarrow> None)"

type_synonym samples = "(string, rat list) js_map"

definition push_sample :: "(string \<times> rat) option \<Rightarrow> samples \<Rightarrow> samples" where
  "push_sample s m = (case s of None \<Rightarrow> m | Some (k, v) \<Rightarrow> js_set m k (nullish (js_get m k) [] @ [v]))"

fun collect_rows :: "prior_row list \<Rightarrow> samples \<times> samples \<times> samples \<Rightarrow> samples \<times> samples \<times> samples" where
  "collect_rows [] acc = acc"
| "collect_rows (row # rows) (outs, cals, accs) = collect_rows rows
     (push_sample (output_sample row) outs, push_sample (calibration_sample row) cals,
      push_sample (accuracy_sample row) accs)"

definition last_index_of :: "string \<Rightarrow> string \<Rightarrow> int" where
  "last_index_of needle s = (case filter (\<lambda>i. prefix needle (drop i s)) [0..<Suc (length s)] of
     [] \<Rightarrow> -1 | is \<Rightarrow> int (last is))"

definition index_of :: "string \<Rightarrow> string \<Rightarrow> int" where
  "index_of needle s = (case filter (\<lambda>i. prefix needle (drop i s)) [0..<Suc (length s)] of
     [] \<Rightarrow> -1 | i # _ \<Rightarrow> int i)"

definition slice_to :: "string \<Rightarrow> int \<Rightarrow> string" where
  "slice_to s i = take (nat (if i < 0 then int (length s) + i else i)) s"

definition slice_from :: "string \<Rightarrow> int \<Rightarrow> string" where
  "slice_from s i = drop (nat (if i < 0 then int (length s) + i else i)) s"

definition output_prior_of :: "rat list \<Rightarrow> output_prior" where
  "output_prior_of values = (let vs = sort values in
     \<lparr>op_median = percentile vs (1 / 2), op_p90 = percentile vs (9 / 10), op_samples = length vs\<rparr>)"

definition calibration_of :: "rat list \<Rightarrow> calibration_bucket" where
  "calibration_of values = (let vs = sort values; p10 = percentile vs (1 / 10);
       p50 = percentile vs (1 / 2); p90 = percentile vs (9 / 10) in
     \<lparr>cb_k = p50, cb_samples = length vs, cb_p10 = p10, cb_p50 = p50, cb_p90 = p90,
      cb_confidence = confidenceFromQuality (length vs) p10 p90\<rparr>)"

definition accuracy_of :: "string \<Rightarrow> rat list \<Rightarrow> accuracy_bucket" where
  "accuracy_of key values = (let vs = sort values; sep = last_index_of ''::'' key; pm = slice_to key sep;
       colon = index_of '':'' pm in
     \<lparr>ab_provider = slice_to pm colon, ab_model = slice_from pm (colon + 1),
      ab_costBasis = slice_from key (sep + 2), ab_medianAccuracy = percentile vs (1 / 2),
      ab_samples = length vs, ab_p10 = percentile vs (1 / 10), ab_p50 = percentile vs (1 / 2),
      ab_p90 = percentile vs (9 / 10)\<rparr>)"

definition empty_priors :: lcr_priors where
  "empty_priors = \<lparr>lp_outputPriors = [], lp_calibration = [], lp_accuracyByBasis = []\<rparr>"

definition scoped_rows :: "priors_scope \<Rightarrow> principal option \<Rightarrow> prior_row list \<Rightarrow> prior_row list option" where
  "scoped_rows scope owner rows = (case scope of
     Scope_off \<Rightarrow> None
   | Scope_principal \<Rightarrow> (case owner of None \<Rightarrow> None
       | Some p \<Rightarrow> Some (filter (\<lambda>r. pr_ownerPrincipal r = Some p) rows))
   | Scope_global \<Rightarrow> Some rows)"

definition computeLcrPriors :: "prior_row list \<Rightarrow> priors_scope \<Rightarrow> principal option \<Rightarrow> lcr_priors" where
  "computeLcrPriors rows scope owner = (case scoped_rows scope owner rows of
     None \<Rightarrow> empty_priors
   | Some scoped \<Rightarrow> (case collect_rows scoped ([], [], []) of (outs, cals, accs) \<Rightarrow>
       \<lparr>lp_outputPriors = map (\<lambda>(k, vs). (k, output_prior_of vs)) outs,
        lp_calibration = map (\<lambda>(k, vs). (k, calibration_of vs)) cals,
        lp_accuracyByBasis = map (\<lambda>(k, vs). (k, accuracy_of k vs)) accs\<rparr>))"

definition computeLcrPriorsFromDb :: "raw_prior_row list \<Rightarrow> priors_scope \<Rightarrow> principal option \<Rightarrow> lcr_priors" where
  "computeLcrPriorsFromDb raw scope owner = computeLcrPriors (loadLcrPriorRows raw) scope owner"

definition lookupCalibrationK :: "lcr_priors \<Rightarrow> content_type \<Rightarrow> string \<Rightarrow> rat" where
  "lookupCalibrationK priors c family = (case js_get (lp_calibration priors) (calibrationKey c family) of
     None \<Rightarrow> 1
   | Some b \<Rightarrow> if cb_samples b < 5 then 1 else cb_k b)"

section \<open>Grouping\<close>

text \<open>The reference for one group: the samples of the rows with that key, in row order.\<close>

definition samples_of :: "('r \<Rightarrow> (string \<times> rat) option) \<Rightarrow> string \<Rightarrow> 'r list \<Rightarrow> rat list" where
  "samples_of f key rows = map snd (filter (\<lambda>(k, v). k = key) (List.map_filter f rows))"

definition bucket :: "(rat list \<Rightarrow> 'b) \<Rightarrow> rat list \<Rightarrow> 'b option" where
  "bucket f vs = (if vs = [] then None else Some (f vs))"

definition own_rows :: "priors_scope \<Rightarrow> principal option \<Rightarrow> prior_row list \<Rightarrow> prior_row list" where
  "own_rows scope owner rows = filter (\<lambda>r. scope = Scope_global
     \<or> scope = Scope_principal \<and> owner \<noteq> None \<and> pr_ownerPrincipal r = owner) rows"

lemma samples_of_simps [simp]:
  "samples_of f key [] = []"
  "samples_of f key (r # rows) = (case f r of
     None \<Rightarrow> samples_of f key rows
   | Some (k, v) \<Rightarrow> if k = key then v # samples_of f key rows else samples_of f key rows)"
  by (auto simp: samples_of_def List.map_filter_simps split: option.split)

lemma js_get_push:
  "js_get (push_sample s m) key = (case s of
     None \<Rightarrow> js_get m key
   | Some (k, v) \<Rightarrow> if key = k then Some (nullish (js_get m k) [] @ [v]) else js_get m key)"
  by (auto simp: push_sample_def split: option.split)

lemma js_get_fold_push:
  "js_get (fold (\<lambda>r. push_sample (f r)) rows m) key = (case js_get m key of
     None \<Rightarrow> bucket id (samples_of f key rows)
   | Some vs \<Rightarrow> Some (vs @ samples_of f key rows))"
  by (induction rows arbitrary: m) (auto simp: js_get_push bucket_def split: option.split)

lemma collect_rows_fold:
  "collect_rows rows (outs, cals, accs) =
     (fold (\<lambda>r. push_sample (output_sample r)) rows outs,
      fold (\<lambda>r. push_sample (calibration_sample r)) rows cals,
      fold (\<lambda>r. push_sample (accuracy_sample r)) rows accs)"
  by (induction rows arbitrary: outs cals accs) auto

lemma js_get_map_key: "js_get (map (\<lambda>(k, v). (k, f k v)) m) k = map_option (f k) (js_get m k)"
  by (induction m) auto

lemma scoped_rows_own:
  "scoped_rows scope owner rows = None \<Longrightarrow> own_rows scope owner rows = []"
  "scoped_rows scope owner rows = Some rs \<Longrightarrow> own_rows scope owner rows = rs"
  by (cases scope; auto simp: scoped_rows_def own_rows_def split: option.splits)+

lemma priors_lookup:
  "js_get (lp_outputPriors (computeLcrPriors rows scope owner)) key
     = bucket output_prior_of (samples_of output_sample key (own_rows scope owner rows))"
  "js_get (lp_calibration (computeLcrPriors rows scope owner)) key
     = bucket calibration_of (samples_of calibration_sample key (own_rows scope owner rows))"
  "js_get (lp_accuracyByBasis (computeLcrPriors rows scope owner)) key
     = bucket (accuracy_of key) (samples_of accuracy_sample key (own_rows scope owner rows))"
  by (cases "scoped_rows scope owner rows"; simp add: computeLcrPriors_def scoped_rows_own
      empty_priors_def collect_rows_fold js_get_map js_get_map_key js_get_fold_push bucket_def)+

section \<open>Percentiles\<close>

text \<open>The piecewise linear function through the points (i, xs ! i).\<close>

lemma percentile_interpolates:
  assumes "2 \<le> length xs" and "0 \<le> q" "q < 1"
  defines "idx \<equiv> (of_nat (length xs) - 1) * q"
  shows "percentile xs q = xs ! nat \<lfloor>idx\<rfloor> + (xs ! Suc (nat \<lfloor>idx\<rfloor>) - xs ! nat \<lfloor>idx\<rfloor>) * (idx - of_int \<lfloor>idx\<rfloor>)"
    and "Suc (nat \<lfloor>idx\<rfloor>) < length xs"
proof -
  have n: "1 < (of_nat (length xs) :: rat)" and ne: "xs \<noteq> []" using assms(1) by auto
  have "0 \<le> idx" using assms n by (simp add: idx_def)
  moreover have "idx < of_nat (length xs) - 1"
    using assms(3) n by (simp add: idx_def)
  ultimately have fl: "0 \<le> \<lfloor>idx\<rfloor>" "\<lfloor>idx\<rfloor> < int (length xs) - 1"
    by (simp_all add: floor_less_iff)
  then show len: "Suc (nat \<lfloor>idx\<rfloor>) < length xs" by linarith
  show "percentile xs q = xs ! nat \<lfloor>idx\<rfloor> + (xs ! Suc (nat \<lfloor>idx\<rfloor>) - xs ! nat \<lfloor>idx\<rfloor>) * (idx - of_int \<lfloor>idx\<rfloor>)"
  proof (cases "idx = of_int \<lfloor>idx\<rfloor>")
    case True
    then have "\<lceil>idx\<rceil> = \<lfloor>idx\<rfloor>" by (metis ceiling_of_int)
    then show ?thesis using True len assms(1) ne by (simp add: percentile_def Let_def idx_def)
  next
    case False
    then have "\<lceil>idx\<rceil> = \<lfloor>idx\<rfloor> + 1" by (simp add: ceiling_altdef)
    moreover from this have "nat \<lceil>idx\<rceil> = Suc (nat \<lfloor>idx\<rfloor>)" using fl(1) by linarith
    ultimately show ?thesis using len assms(1) ne by (simp add: percentile_def Let_def idx_def)
  qed
qed

lemma interpolate_between:
  fixes a b t :: rat
  assumes "a \<le> b" "0 \<le> t" "t \<le> 1"
  shows "a \<le> a + (b - a) * t" "a + (b - a) * t \<le> b"
proof -
  show "a \<le> a + (b - a) * t" using assms by simp
  have "(b - a) * t \<le> (b - a) * 1" using assms by (intro mult_left_mono) simp_all
  then show "a + (b - a) * t \<le> b" by simp
qed

lemma percentile_range:
  assumes "sorted xs" "xs \<noteq> []" "0 \<le> q" "q < 1"
  shows "hd xs \<le> percentile xs q" "percentile xs q \<le> last xs"
proof -
  have "hd xs \<le> percentile xs q \<and> percentile xs q \<le> last xs"
  proof (cases "2 \<le> length xs")
    case True
    let ?i = "nat \<lfloor>(of_nat (length xs) - 1) * q\<rfloor>"
    note p = percentile_interpolates [OF True assms(3,4)]
    let ?t = "(of_nat (length xs) - 1) * q - of_int \<lfloor>(of_nat (length xs) - 1) * q\<rfloor>"
    have s: "xs ! ?i \<le> xs ! Suc ?i" "xs ! 0 \<le> xs ! ?i" "xs ! Suc ?i \<le> xs ! (length xs - 1)"
      using assms(1) p(2) by (simp_all add: sorted_nth_mono)
    have "0 \<le> ?t" "?t \<le> 1" by linarith+
    note i = interpolate_between [OF s(1) this]
    have "xs ! 0 \<le> percentile xs q" "percentile xs q \<le> xs ! (length xs - 1)"
      unfolding p(1) using i s by linarith+
    then show ?thesis using assms(2) by (simp add: hd_conv_nth last_conv_nth)
  next
    case False
    then obtain x where "xs = [x]" using assms(2) by (cases xs; cases "tl xs") auto
    then show ?thesis by (simp add: percentile_def)
  qed
  then show "hd xs \<le> percentile xs q" "percentile xs q \<le> last xs" by auto
qed

lemma sorted_ends:
  assumes "sorted xs" "xs \<noteq> []"
  shows "hd xs = Min (set xs)" "last xs = Max (set xs)"
proof -
  show "hd xs = Min (set xs)"
    using assms by (intro Min_eqI [symmetric]) (cases xs; auto)+
  show "last xs = Max (set xs)"
  proof (rule Max_eqI [symmetric])
    show "y \<le> last xs" if "y \<in> set xs" for y
      using that assms by (auto simp: in_set_conv_nth last_conv_nth intro: sorted_nth_mono)
  qed (use assms in simp_all)
qed

lemma percentile_mono:
  assumes "sorted xs" "0 \<le> q" "q \<le> r" "r < 1"
  shows "percentile xs q \<le> percentile xs r"
proof (cases "2 \<le> length xs")
  case True
  let ?a = "(of_nat (length xs) - 1) * q" and ?b = "(of_nat (length xs) - 1) * r"
  let ?i = "nat \<lfloor>?a\<rfloor>" and ?j = "nat \<lfloor>?b\<rfloor>"
  have q1: "q < 1" "0 \<le> r" using assms by simp_all
  note p = percentile_interpolates [OF True assms(2) q1(1)] and p' = percentile_interpolates [OF True q1(2) assms(4)]
  have ab: "?a \<le> ?b" "0 \<le> ?a" using assms True by (simp_all add: mult_left_mono)
  have s: "xs ! ?i \<le> xs ! Suc ?i" "xs ! ?j \<le> xs ! Suc ?j" using assms(1) p(2) p'(2) by (simp_all add: sorted_nth_mono)
  show ?thesis
  proof (cases "\<lfloor>?a\<rfloor> = \<lfloor>?b\<rfloor>")
    case True
    have "(xs ! Suc ?i - xs ! ?i) * (?a - of_int \<lfloor>?a\<rfloor>) \<le> (xs ! Suc ?i - xs ! ?i) * (?b - of_int \<lfloor>?b\<rfloor>)"
      using s(1) ab True by (intro mult_left_mono) simp_all
    then show ?thesis unfolding p(1) p'(1) using True by simp
  next
    case False
    then have "\<lfloor>?a\<rfloor> < \<lfloor>?b\<rfloor>" using floor_mono [OF ab(1)] by linarith
    moreover have "0 \<le> \<lfloor>?a\<rfloor>" using ab(2) by simp
    ultimately have "Suc ?i \<le> ?j" by linarith
    then have "xs ! Suc ?i \<le> xs ! ?j" using assms(1) p'(2) by (simp add: sorted_nth_mono)
    moreover have "percentile xs q \<le> xs ! Suc ?i" unfolding p(1)
      by (rule interpolate_between(2) [OF s(1)]) linarith+
    moreover have "xs ! ?j \<le> percentile xs r" unfolding p'(1)
      by (rule interpolate_between(1) [OF s(2)]) linarith+
    ultimately show ?thesis by linarith
  qed
next
  case False
  then have "length xs = 0 \<or> length xs = 1" by linarith
  then show ?thesis by (auto simp: percentile_def Let_def)
qed

section \<open>The mistral session marker\<close>

lemma load_rows_length [simp]: "length (load_rows seen rows) = length rows"
  by (induction seen rows rule: load_rows.induct) (auto split: option.split)

lemma load_rows_continued:
  "i < length rows \<Longrightarrow> pr_sessionContinued (load_rows seen rows ! i) \<longleftrightarrow>
     (\<exists>sid. mistral_session (rows ! i) = Some sid
        \<and> (sid \<in> set seen \<or> (\<exists>j<i. mistral_session (rows ! j) = Some sid)))"
proof (induction seen rows arbitrary: i rule: load_rows.induct)
  case (2 seen row rows)
  show ?case
  proof (cases i)
    case 0
    then show ?thesis by (auto simp: prior_row_of_def split: option.split)
  next
    case (Suc i')
    then have "i' < length rows" using 2 by simp
    then show ?thesis using 2 Suc
      by (cases "mistral_session row") (auto simp: Ex_less_Suc2)
  qed
qed simp

section \<open>Keys\<close>

lemma prefix_drop_nth: "prefix [c] (drop i s) \<longleftrightarrow> i < length s \<and> s ! i = c"
proof (cases "i < length s")
  case True
  then show ?thesis by (auto simp: Cons_nth_drop_Suc [symmetric])
qed simp

lemma prefix2_drop_nth: "prefix [c, d] (drop i s) \<longleftrightarrow> Suc i < length s \<and> s ! i = c \<and> s ! Suc i = d"
proof (cases "Suc i < length s")
  case True
  then have "drop i s = s ! i # s ! Suc i # drop (Suc (Suc i)) s"
    by (simp add: Cons_nth_drop_Suc)
  then show ?thesis using True by auto
next
  case False
  then show ?thesis using prefix_length_le [of "[c, d]" "drop i s"] by auto
qed

lemma last_filter_upt:
  "P k \<Longrightarrow> k < n \<Longrightarrow> (\<And>i. k < i \<Longrightarrow> i < n \<Longrightarrow> \<not> P i) \<Longrightarrow>
     filter P [0..<n] \<noteq> [] \<and> last (filter P [0..<n]) = k"
proof (induction n)
  case (Suc n)
  then show ?case by (cases "k = n") auto
qed simp

lemma hd_filter_upt:
  assumes "P k" "k < n" "\<And>i. i < k \<Longrightarrow> \<not> P i"
  shows "\<exists>rest. filter P [0..<n] = k # rest"
proof -
  have "[0..<n] = [0..<k] @ k # [Suc k..<n]"
    using assms(2) by (metis le_add_diff_inverse less_or_eq_imp_le upt_add_eq_append upt_conv_Cons zero_le)
  then show ?thesis using assms by simp
qed

lemma accuracy_key_parts:
  assumes "CHR '':'' \<notin> set prov" and "CHR '':'' \<notin> set basis"
  shows "last_index_of ''::'' (accuracyKey prov model basis) = int (length prov + 1 + length model)"
    and "index_of '':'' (prov @ '':'' @ model) = int (length prov)"
proof -
  let ?key = "accuracyKey prov model basis" and ?k = "length prov + 1 + length model"
  have split: "?key = (prov @ '':'' @ model) @ ''::'' @ basis" by (simp add: accuracyKey_def)
  have at: "prefix ''::'' (drop ?k ?key)" by (simp add: split)
  have none: "\<not> prefix ''::'' (drop i ?key)" if "?k < i" for i
  proof -
    obtain d where "i = Suc (?k + d)" using \<open>?k < i\<close> less_imp_Suc_add by blast
    then have "?key ! Suc i = basis ! d" "Suc i < length ?key \<longleftrightarrow> d < length basis"
      by (simp_all add: accuracyKey_def nth_append)
    then show ?thesis unfolding prefix2_drop_nth using assms(2) by (metis nth_mem)
  qed
  have "?k < Suc (length ?key)" by (simp add: accuracyKey_def)
  from last_filter_upt [of "\<lambda>i. prefix ''::'' (drop i ?key)", OF at this none]
  have "filter (\<lambda>i. prefix ''::'' (drop i ?key)) [0..<Suc (length ?key)] \<noteq> []"
    "last (filter (\<lambda>i. prefix ''::'' (drop i ?key)) [0..<Suc (length ?key)]) = ?k" by simp_all
  then show "last_index_of ''::'' ?key = int ?k"
    unfolding last_index_of_def by (simp only: split: list.split) (metis list.distinct(1))
  have "\<exists>rest. filter (\<lambda>i. prefix '':'' (drop i (prov @ '':'' @ model)))
      [0..<Suc (length (prov @ '':'' @ model))] = length prov # rest"
    unfolding prefix_drop_nth using assms(1)
    by (intro hd_filter_upt) (auto simp: nth_append dest: nth_mem)
  then show "index_of '':'' (prov @ '':'' @ model) = int (length prov)"
    unfolding index_of_def by fastforce
qed

section \<open>Properties\<close>

definition demo_row :: "principal option \<Rightarrow> rat \<Rightarrow> rat \<Rightarrow> prior_row" where
  "demo_row owner input output =
    \<lparr>pr_provider = ''claude'', pr_model = ''opus'', pr_derivation = Some (400, Prose),
     pr_inputTokens = Some input, pr_outputTokens = Some output, pr_cacheReadTokens = Some 8,
     pr_cacheCreationTokens = None, pr_costUsd = Some 2, pr_costBasis = Some ''derived-from-tokens'',
     pr_routeEstCostUsd = Some 1, pr_ownerPrincipal = owner, pr_sessionContinued = False\<rparr>"

definition demo_rows :: "prior_row list" where
  "demo_rows = [demo_row (Some ''alice'') 100 10, demo_row (Some ''bob'') 900 90,
     demo_row (Some ''alice'') 208 30]"

text \<open>
  C40: the one-pass aggregation is the per-key grouping of the rows the scope admits. For every key,
  each of the three maps holds a bucket exactly when an admitted row contributes a sample, computed
  from those samples in row order. In principal scope only rows stamped with the caller's principal
  are admitted; with learning off, or without a principal, none are and every factor is neutral.
\<close>

theorem priors_are_scoped_groups:
  "js_get (lp_outputPriors (computeLcrPriors rows scope owner)) key
     = bucket output_prior_of (samples_of output_sample key (own_rows scope owner rows))
   \<and> js_get (lp_calibration (computeLcrPriors rows scope owner)) key
     = bucket calibration_of (samples_of calibration_sample key (own_rows scope owner rows))
   \<and> js_get (lp_accuracyByBasis (computeLcrPriors rows scope owner)) key
     = bucket (accuracy_of key) (samples_of accuracy_sample key (own_rows scope owner rows))
   \<and> lookupCalibrationK (computeLcrPriors rows scope owner) c family
     = (let vs = samples_of calibration_sample (calibrationKey c family) (own_rows scope owner rows) in
        if length vs < 5 then 1 else percentile (sort vs) (1 / 2))"
  by (simp add: priors_lookup lookupCalibrationK_def bucket_def calibration_of_def Let_def)

text \<open>
  Calibration buckets are consistent. In every bucket the factor k lies between the p10 and p90
  residuals, all three lie within the observed ratios, and a bucket labelled high confidence rests on
  at least 30 samples whose p90 is at most one and a half times a positive p10.
\<close>

theorem calibration_bucket_sane:
  assumes "js_get (lp_calibration (computeLcrPriors rows scope owner)) key = Some b"
  defines "vs \<equiv> samples_of calibration_sample key (own_rows scope owner rows)"
  shows "cb_samples b = length vs \<and> Min (set vs) \<le> cb_p10 b \<and> cb_p10 b \<le> cb_k b
    \<and> cb_k b \<le> cb_p90 b \<and> cb_p90 b \<le> Max (set vs)
    \<and> (cb_confidence b = Conf_high \<longrightarrow> 30 \<le> length vs \<and> 0 < cb_p10 b \<and> cb_p90 b \<le> 3 / 2 * cb_p10 b)"
proof -
  have vs: "vs \<noteq> []" and b: "b = calibration_of vs"
    using assms(1) by (auto simp: priors_lookup bucket_def vs_def split: if_splits)
  have ne: "sort vs \<noteq> []" using vs by (metis length_0_conv length_sort)
  have ends: "hd (sort vs) = Min (set vs)" "last (sort vs) = Max (set vs)"
    using sorted_ends [of "sort vs"] ne by simp_all
  have "cb_p10 b \<le> cb_k b" "cb_k b \<le> cb_p90 b"
    using percentile_mono [of "sort vs" "1 / 10" "1 / 2"] percentile_mono [of "sort vs" "1 / 2" "9 / 10"]
    by (simp_all add: b calibration_of_def Let_def)
  moreover have "Min (set vs) \<le> cb_p10 b" "cb_p90 b \<le> Max (set vs)"
    using percentile_range [of "sort vs" "1 / 10"] percentile_range [of "sort vs" "9 / 10"] ne
    by (simp_all add: b calibration_of_def Let_def ends)
  moreover have "30 \<le> length vs \<and> 0 < cb_p10 b \<and> cb_p90 b \<le> 3 / 2 * cb_p10 b"
    if "cb_confidence b = Conf_high"
    using that by (auto simp: b calibration_of_def Let_def confidenceFromQuality_def field_simps
        split: if_splits)
  ultimately show ?thesis by (simp add: b calibration_of_def Let_def)
qed

lemma demo_bucket:
  "js_get (lp_calibration (computeLcrPriors demo_rows Scope_principal (Some ''alice''))) ''prose:claude-opus''
     = Some (calibration_of [1, 2])"
proof -
  have f: "modelIdToFamily ''opus'' = ''claude-opus''" by code_simp
  have m: "familyMultiplier (Some ''claude-opus'') = 108 / 100" by code_simp
  have "calibration_sample (demo_row p i o') = Some (''prose:claude-opus'', (i + 8) / 108)" for p i o'
    by (simp add: calibration_sample_def demo_row_def f m Let_def estimateInputTokensFromDerived_def
        divisor_of_def calibrationKey_def class_name_def reconstructActualInput_def num_def)
  moreover have "pr_ownerPrincipal (demo_row p i o') = p" for p i o' by (simp add: demo_row_def)
  ultimately have "samples_of calibration_sample ''prose:claude-opus''
      (own_rows Scope_principal (Some ''alice'') demo_rows) = [1, 2]"
    by (simp add: own_rows_def demo_rows_def)
  then show ?thesis by (simp add: priors_lookup bucket_def)
qed

theorem calibration_bucket_sane_witness:
  "cb_p10 (calibration_of [1, 2]) \<le> cb_k (calibration_of [1, 2]) \<and> cb_k (calibration_of [1, 2]) \<le> cb_p90 (calibration_of [1, 2])"
  using calibration_bucket_sane [OF demo_bucket] by blast

text \<open>
  An accuracy bucket names its route. For every row whose provider and cost basis hold no colon,
  parsing the composite key recovers the provider, the model and the basis, whatever the model id is.
\<close>

theorem accuracy_key_roundtrip:
  assumes "CHR '':'' \<notin> set prov" and "CHR '':'' \<notin> set basis"
  shows "ab_provider (accuracy_of (accuracyKey prov model basis) vs) = prov
    \<and> ab_model (accuracy_of (accuracyKey prov model basis) vs) = model
    \<and> ab_costBasis (accuracy_of (accuracyKey prov model basis) vs) = basis"
proof -
  let ?key = "accuracyKey prov model basis"
  have pm: "slice_to ?key (last_index_of ''::'' ?key) = prov @ '':'' @ model"
    unfolding accuracy_key_parts(1) [OF assms] slice_to_def by (simp add: accuracyKey_def nat_add_distrib)
  show ?thesis
    unfolding accuracy_of_def Let_def pm unfolding accuracy_key_parts [OF assms]
    by (simp add: slice_to_def slice_from_def accuracyKey_def nat_add_distrib eval_nat_numeral)
qed

theorem accuracy_key_roundtrip_witness:
  "ab_model (accuracy_of (accuracyKey ''openrouter'' ''vendor::m:1'' ''derived-from-tokens'') [1]) = ''vendor::m:1''"
  using accuracy_key_roundtrip [of "''openrouter''" "''derived-from-tokens''" "''vendor::m:1''" "[1]"] by simp

text \<open>
  Cumulative mistral counts never feed the calibration. Loading keeps one row per recorded row, in
  order; a row is marked continued exactly when it is a mistral row whose session already occurred
  earlier in the scan, and a continued row contributes no calibration sample.
\<close>

theorem continued_rows_excluded:
  assumes "i < length raw"
  shows "length (loadLcrPriorRows raw) = length raw
    \<and> (pr_sessionContinued (loadLcrPriorRows raw ! i)
        = (\<exists>sid. mistral_session (raw ! i) = Some sid \<and> (\<exists>j<i. mistral_session (raw ! j) = Some sid)))
    \<and> (pr_sessionContinued (loadLcrPriorRows raw ! i) \<longrightarrow>
        calibration_sample (loadLcrPriorRows raw ! i) = None)"
  using assms by (simp add: loadLcrPriorRows_def load_rows_continued calibration_sample_def)

definition demo_raw :: "provider \<Rightarrow> string \<Rightarrow> raw_prior_row" where
  "demo_raw cli sid = \<lparr>rw_cli = cli, rw_model = ''mistral-medium-3.5'', rw_session_id = Some sid,
     rw_derived_prompt_chars = Some 40, rw_derived_content_class = Some ''prose'',
     rw_input_tokens = Some 10, rw_output_tokens = None, rw_cache_read_tokens = None,
     rw_cache_creation_tokens = None, rw_cost_usd = None, rw_cost_basis = None,
     rw_route_est_cost_usd = None, rw_owner_principal = None\<rparr>"

theorem continued_rows_excluded_witness:
  "calibration_sample (loadLcrPriorRows [demo_raw ''mistral'' ''s'', demo_raw ''mistral'' ''s''] ! 1) = None"
  using continued_rows_excluded [of 1 "[demo_raw ''mistral'' ''s'', demo_raw ''mistral'' ''s'']"]
  by (auto simp: demo_raw_def mistral_session_def)

end
