(* ===== verification/Comparators.thy ===== *)
theory Comparators
  imports Prelude
begin

text \<open>
  Array.prototype.sort with a comparator: the language promises a stable sort whenever the comparator
  is consistent. The stable insertion sort below is that function; the locale holds the consistency
  laws a comparator of the gateway must meet and what a sort by it then guarantees.
\<close>

fun insort_by :: "('a \<Rightarrow> 'a \<Rightarrow> int) \<Rightarrow> 'a \<Rightarrow> 'a list \<Rightarrow> 'a list" where
  "insort_by cmp x [] = [x]"
| "insort_by cmp x (y # ys) = (if cmp x y \<le> 0 then x # y # ys else y # insort_by cmp x ys)"

definition sort_by :: "('a \<Rightarrow> 'a \<Rightarrow> int) \<Rightarrow> 'a list \<Rightarrow> 'a list" where
  "sort_by cmp xs = foldr (insort_by cmp) xs []"

text \<open>The sign of a difference, for the comparisons written as a subtraction.\<close>

definition diff_sign :: "'k::linorder \<Rightarrow> 'k \<Rightarrow> int" where
  "diff_sign a b = (if a < b then -1 else if b < a then 1 else 0)"

lemma diff_sign_simps [simp]:
  "diff_sign a b \<le> 0 \<longleftrightarrow> a \<le> b" "diff_sign a b = 0 \<longleftrightarrow> a = b" "0 \<le> diff_sign a b \<longleftrightarrow> b \<le> a"
  "diff_sign a a = 0" "- diff_sign a b = diff_sign b a" "diff_sign a b < 0 \<longleftrightarrow> a < b"
  "0 < diff_sign a b \<longleftrightarrow> b < a"
  by (auto simp: diff_sign_def)

lemma mset_insort_by [simp]: "mset (insort_by cmp x ys) = {#x#} + mset ys"
  by (induction ys) auto

lemma mset_sort_by [simp]: "mset (sort_by cmp xs) = mset xs"
  unfolding sort_by_def by (induction xs) auto

lemma set_sort_by [simp]: "set (sort_by cmp xs) = set xs"
  using mset_sort_by [of cmp xs] by (rule mset_eq_setD)

lemma length_sort_by [simp]: "length (sort_by cmp xs) = length xs"
  using mset_sort_by [of cmp xs] by (rule mset_eq_length)

lemma sort_by_Nil [simp]: "sort_by cmp [] = []"
  by (simp add: sort_by_def)

lemma sort_by_Nil_iff [simp]: "sort_by cmp xs = [] \<longleftrightarrow> xs = []" "[] = sort_by cmp xs \<longleftrightarrow> xs = []"
  by (metis length_0_conv length_sort_by)+

locale comparator =
  fixes cmp :: "'a \<Rightarrow> 'a \<Rightarrow> int"
  assumes cmp_flip: "cmp x y \<le> 0 \<or> cmp y x \<le> 0"
    and cmp_trans: "cmp x y \<le> 0 \<Longrightarrow> cmp y z \<le> 0 \<Longrightarrow> cmp x z \<le> 0"
begin

lemma cmp_refl: "cmp x x \<le> 0"
  using cmp_flip [of x x] by simp

lemma sorted_insort_by:
  "sorted_wrt (\<lambda>a b. cmp a b \<le> 0) ys \<Longrightarrow> sorted_wrt (\<lambda>a b. cmp a b \<le> 0) (insort_by cmp x ys)"
proof (induction ys)
  case (Cons y ys)
  show ?case
  proof (cases "cmp x y \<le> 0")
    case True
    then show ?thesis using Cons.prems by (auto intro: cmp_trans)
  next
    case False
    then have "cmp y x \<le> 0" using cmp_flip by blast
    moreover have "set (insort_by cmp x ys) = insert x (set ys)"
      using mset_insort_by [of cmp x ys] by (metis set_mset_mset set_mset_add_mset_insert add_mset_add_single union_commute)
    ultimately show ?thesis using False Cons by simp
  qed
qed simp

lemma sorted_sort_by: "sorted_wrt (\<lambda>a b. cmp a b \<le> 0) (sort_by cmp xs)"
  unfolding sort_by_def by (induction xs) (simp_all add: sorted_insort_by)

lemma sort_by_head_least:
  assumes "sort_by cmp xs = b # rest" and "x \<in> set xs"
  shows "cmp b x \<le> 0"
proof -
  have "x \<in> set (b # rest)" using assms set_sort_by [of cmp xs] by simp
  then show ?thesis using sorted_sort_by [of xs] assms(1) cmp_refl by auto
qed

lemma insort_by_absorb: "\<forall>y\<in>set ys. cmp x y \<le> 0 \<Longrightarrow> insort_by cmp x ys = x # ys"
  by (cases ys) auto

lemma sort_by_sorted: "sorted_wrt (\<lambda>a b. cmp a b \<le> 0) xs \<Longrightarrow> sort_by cmp xs = xs"
  unfolding sort_by_def by (induction xs) (auto simp: insort_by_absorb)

lemma filter_insort_by:
  assumes "sorted_wrt (\<lambda>a b. cmp a b \<le> 0) ys"
  shows "filter P (insort_by cmp x ys) = (if P x then insort_by cmp x (filter P ys) else filter P ys)"
  using assms
proof (induction ys)
  case (Cons y ys)
  then have "insort_by cmp x (filter P ys) = x # filter P ys" if "cmp x y \<le> 0"
    using that by (auto intro!: insort_by_absorb intro: cmp_trans)
  with Cons show ?case by auto
qed simp

text \<open>Sorting commutes with selecting: the sort is stable on every part of the list.\<close>

lemma filter_sort_by: "filter P (sort_by cmp xs) = sort_by cmp (filter P xs)"
proof (induction xs)
  case (Cons x xs)
  have "sort_by cmp (x # xs) = insort_by cmp x (sort_by cmp xs)" by (simp add: sort_by_def)
  then show ?case
    using Cons filter_insort_by [OF sorted_sort_by] by (simp add: sort_by_def)
qed (simp add: sort_by_def)

end

lemma find_first_least:
  assumes "sorted_wrt R xs" and "\<And>x. R x x" and "find P xs = Some x" and "y \<in> set xs" and "P y"
  shows "R x y"
  using assms by (induction xs) (auto split: if_splits)

lemma distinct_map_sort_by: "distinct (map f (sort_by cmp xs)) = distinct (map f xs)"
  by (rule mset_eq_imp_distinct_iff) simp

text \<open>A chain of comparisons, each deciding where the ones before it tie, is consistent.\<close>

definition then_by :: "('a \<Rightarrow> 'a \<Rightarrow> int) \<Rightarrow> ('a \<Rightarrow> 'a \<Rightarrow> int) \<Rightarrow> 'a \<Rightarrow> 'a \<Rightarrow> int" where
  "then_by f g x y = (if f x y \<noteq> 0 then f x y else g x y)"

lemma comparator_key: "comparator (\<lambda>x y. diff_sign (f x) (f y))"
  by unfold_locales auto

lemma comparator_then:
  fixes f :: "'a \<Rightarrow> 'k::linorder"
  assumes "comparator g"
  shows "comparator (then_by (\<lambda>x y. diff_sign (f x) (f y)) g)"
proof
  show "then_by (\<lambda>x y. diff_sign (f x) (f y)) g x y \<le> 0 \<or> then_by (\<lambda>x y. diff_sign (f x) (f y)) g y x \<le> 0" for x y
    using comparator.cmp_flip [OF assms, of x y] by (auto simp: then_by_def)
  show "then_by (\<lambda>x y. diff_sign (f x) (f y)) g x z \<le> 0"
    if "then_by (\<lambda>x y. diff_sign (f x) (f y)) g x y \<le> 0" "then_by (\<lambda>x y. diff_sign (f x) (f y)) g y z \<le> 0"
    for x y z
    using that comparator.cmp_trans [OF assms, of x y z]
    by (auto simp: then_by_def split: if_splits)
qed

end
