(* ===== verification/Router.thy ===== *)
theory Router
  imports Token_Estimator Comparators
begin

text \<open>
  The least-cost selector (src/src/least-cost-router.ts): the candidate pool, the eligibility gates,
  the ranking and its tie-break, the budget gate, the fallback and the per-tier selection. The
  environment the code injects is a record of functions. Costs are rationals; the sort key of a
  candidate without a price is Unpriced, above every price. String.localeCompare is a comparison of
  collation keys, which the environment supplies.
\<close>

section \<open>Data\<close>

datatype quality_tier = Economy | Standard | Frontier

instantiation quality_tier :: linorder
begin

definition TIER_ORDER :: "quality_tier \<Rightarrow> nat" where
  "TIER_ORDER t = (case t of Economy \<Rightarrow> 0 | Standard \<Rightarrow> 1 | Frontier \<Rightarrow> 2)"

definition less_eq_quality_tier :: "quality_tier \<Rightarrow> quality_tier \<Rightarrow> bool" where
  "less_eq_quality_tier a b = (TIER_ORDER a \<le> TIER_ORDER b)"

definition less_quality_tier :: "quality_tier \<Rightarrow> quality_tier \<Rightarrow> bool" where
  "less_quality_tier a b = (TIER_ORDER a < TIER_ORDER b)"

instance
  by standard (auto simp: less_eq_quality_tier_def less_quality_tier_def TIER_ORDER_def
      split: quality_tier.splits)

end

instantiation confidence :: linorder
begin

definition CONFIDENCE_ORDER :: "confidence \<Rightarrow> nat" where
  "CONFIDENCE_ORDER c = (case c of Conf_low \<Rightarrow> 0 | Conf_medium \<Rightarrow> 1 | Conf_high \<Rightarrow> 2)"

definition less_eq_confidence :: "confidence \<Rightarrow> confidence \<Rightarrow> bool" where
  "less_eq_confidence a b = (CONFIDENCE_ORDER a \<le> CONFIDENCE_ORDER b)"

definition less_confidence :: "confidence \<Rightarrow> confidence \<Rightarrow> bool" where
  "less_confidence a b = (CONFIDENCE_ORDER a < CONFIDENCE_ORDER b)"

instance
  by standard (auto simp: less_eq_confidence_def less_confidence_def CONFIDENCE_ORDER_def
      split: confidence.splits)

end

datatype rank_key = Priced rat | Unpriced

instantiation rank_key :: linorder
begin

fun less_eq_rank_key :: "rank_key \<Rightarrow> rank_key \<Rightarrow> bool" where
  "less_eq_rank_key (Priced a) (Priced b) = (a \<le> b)"
| "less_eq_rank_key Unpriced (Priced b) = False"
| "less_eq_rank_key k Unpriced = True"

definition less_rank_key :: "rank_key \<Rightarrow> rank_key \<Rightarrow> bool" where
  "less_rank_key a b = (a \<le> b \<and> \<not> b \<le> a)"

instance
proof
  fix x y z :: rank_key
  show "(x < y) = (x \<le> y \<and> \<not> y \<le> x)" by (simp add: less_rank_key_def)
  show "x \<le> x" by (cases x) simp_all
  show "x \<le> y \<Longrightarrow> y \<le> z \<Longrightarrow> x \<le> z" by (cases x; cases y; cases z) simp_all
  show "x \<le> y \<Longrightarrow> y \<le> x \<Longrightarrow> x = y" by (cases x; cases y) simp_all
  show "x \<le> y \<or> y \<le> x" by (cases x; cases y) auto
qed

end

record candidate =
  cd_provider :: provider
  cd_model :: string

record candidate_capabilities =
  cc_acceptsImages :: bool
  cc_acceptsAttachments :: bool
  cc_toolCalling :: bool
  cc_jsonSchema :: bool
  cc_outputFormats :: "string list"
  cc_capabilityScope :: string
  cc_effortLevels :: "string list"

record router_env =
  re_providers :: "provider list"
  re_models :: "provider \<Rightarrow> string list"
  re_isAuthed :: "provider \<Rightarrow> bool"
  re_breakerState :: "provider \<Rightarrow> string"
  re_atCapacity :: "provider \<Rightarrow> bool"
  re_capabilities :: "provider \<Rightarrow> candidate_capabilities"
  re_modelCost :: "provider \<Rightarrow> string \<Rightarrow> model_cost"
  re_successRate :: "provider \<Rightarrow> string \<Rightarrow> rat"
  re_meanLatencyMs :: "provider \<Rightarrow> string \<Rightarrow> rat"
  re_calibrationK :: "jstext \<Rightarrow> string \<Rightarrow> rat"
  re_outputPrior :: "provider \<Rightarrow> string \<Rightarrow> (rat \<times> rat) option"
  re_confidenceBand :: "jstext \<Rightarrow> string \<Rightarrow> confidence"
  re_collationKey :: "string \<Rightarrow> nat list"

record required_capabilities =
  rq_images :: bool
  rq_attachments :: bool
  rq_toolCalling :: bool
  rq_jsonSchema :: bool
  rq_outputFormat :: "string option"
  rq_effort :: "string option"

record route_request =
  rr_prompt :: jstext
  rr_candidates :: "candidate list option"
  rr_minTier :: "quality_tier option"
  rr_maxCostUsd :: "rat option"
  rr_expectedOutputTokens :: "rat option"
  rr_maxOutputTokens :: "rat option"
  rr_requiredCapabilities :: "required_capabilities option"
  rr_allowUnpriced :: "bool option"
  rr_budgetWaiver :: "bool option"
  rr_fallback :: "candidate option"

record router_config =
  rf_minTier :: quality_tier
  rf_maxCostUsd :: rat
  rf_defaultExpectedOutputTokens :: rat
  rf_budgetOutputSafetyFactor :: rat
  rf_allowUnpriced :: bool
  rf_tiers :: "(string, quality_tier) js_map"
  rf_allow :: "string list"
  rf_deny :: "string list"
  rf_preferenceOrder :: "provider list option"

type_synonym rejected_candidate = "candidate \<times> string"

datatype route_error = NoEligibleCandidate | BudgetExceeded

record route_decision =
  rd_chosen :: "candidate option"
  rd_tier :: "quality_tier option"
  rd_estCostUsd :: "rat option"
  rd_costBasis :: "cost_basis option"
  rd_confidence :: "confidence option"
  rd_nearTie :: "bool option"
  rd_estInputTokens :: "int option"
  rd_estOutputTokens :: "rat option"
  rd_priceAsOf :: "string option"
  rd_priceSource :: "price_source option"
  rd_consideredCount :: nat
  rd_rejected :: "rejected_candidate list"
  rd_reroutes :: nat
  rd_error :: "route_error option"

record ranked_candidate =
  rk_candidate :: candidate
  rk_tier :: "quality_tier option"
  rk_modelCost :: model_cost
  rk_estInputTokens :: int
  rk_estOutputTokens :: rat
  rk_rankCostUsd :: rat
  rk_rankKey :: rank_key
  rk_costBasis :: cost_basis
  rk_confidence :: confidence
  rk_budgetOutputTokens :: rat

section \<open>The pool\<close>

definition candidateKey :: "candidate \<Rightarrow> string" where
  "candidateKey c = cd_provider c @ '':'' @ cd_model c"

definition isExplicitlyListed :: "candidate \<Rightarrow> candidate list option \<Rightarrow> bool" where
  "isExplicitlyListed c explicit = (case explicit of None \<Rightarrow> False
     | Some cs \<Rightarrow> list_ex (\<lambda>e. cd_provider e = cd_provider c \<and> cd_model e = cd_model c) cs)"

definition passesAllowDeny :: "candidate \<Rightarrow> router_config \<Rightarrow> bool" where
  "passesAllowDeny c config = (let matches = (\<lambda>entry. entry = cd_provider c \<or> entry = candidateKey c) in
     if list_ex matches (rf_deny config) then False
     else if rf_allow config = [] then True
     else list_ex matches (rf_allow config))"

definition buildPool :: "route_request \<Rightarrow> router_env \<Rightarrow> router_config \<Rightarrow> candidate list" where
  "buildPool req env config =
     (let source = (case rr_candidates req of
         Some (c # cs) \<Rightarrow> c # cs
       | _ \<Rightarrow> concat (map (\<lambda>p. map (\<lambda>m. \<lparr>cd_provider = p, cd_model = m\<rparr>) (re_models env p))
             (re_providers env))) in
      filter (\<lambda>c. passesAllowDeny c config) source)"

section \<open>Eligibility\<close>

text \<open>A check is None when it passes and the reason when it does not.\<close>

definition checkCapabilities :: "candidate_capabilities \<Rightarrow> required_capabilities option \<Rightarrow> string option" where
  "checkCapabilities caps required = (case required of None \<Rightarrow> None | Some r \<Rightarrow>
     if rq_images r \<and> \<not> cc_acceptsImages caps then Some ''capability:images''
     else if rq_attachments r \<and> \<not> cc_acceptsAttachments caps then Some ''capability:attachments''
     else if rq_toolCalling r \<and> \<not> cc_toolCalling caps then Some ''capability:toolCalling''
     else if rq_jsonSchema r \<and> \<not> cc_jsonSchema caps then Some ''capability:jsonSchema''
     else if (case rq_outputFormat r of None \<Rightarrow> False | Some f \<Rightarrow> f \<notin> set (cc_outputFormats caps))
       then Some ''capability:outputFormat''
     else if (case rq_effort r of None \<Rightarrow> False | Some e \<Rightarrow> e \<notin> set (cc_effortLevels caps))
       then Some ''capability:effort''
     else None)"

definition checkTier :: "candidate \<Rightarrow> route_request \<Rightarrow> router_config \<Rightarrow> string + quality_tier option" where
  "checkTier c req config =
     (case js_get (rf_tiers config) (cd_provider c @ '':'' @ modelIdToFamily (cd_model c)) of
        None \<Rightarrow> if isExplicitlyListed c (rr_candidates req) then Inr None else Inl ''untiered''
      | Some tier \<Rightarrow>
          if TIER_ORDER tier < TIER_ORDER (nullish (rr_minTier req) (rf_minTier config))
          then Inl ''below-min-tier'' else Inr (Some tier))"

definition evaluateBaseEligibility :: "candidate \<Rightarrow> route_request \<Rightarrow> router_env \<Rightarrow> string option" where
  "evaluateBaseEligibility c req env =
     (if \<not> re_isAuthed env (cd_provider c) then Some ''auth''
      else if re_breakerState env (cd_provider c) \<noteq> ''CLOSED'' then Some ''breaker''
      else if re_atCapacity env (cd_provider c) then Some ''capacity''
      else case checkCapabilities (re_capabilities env (cd_provider c)) (rr_requiredCapabilities req) of
        Some reason \<Rightarrow> Some reason
      | None \<Rightarrow>
          if cc_capabilityScope (re_capabilities env (cd_provider c)) = ''maintain-only''
             \<and> \<not> isExplicitlyListed c (rr_candidates req)
          then Some ''maintain-only'' else None)"

section \<open>Ranking\<close>

definition minConfidence :: "confidence \<Rightarrow> confidence \<Rightarrow> confidence" where
  "minConfidence a b = (if CONFIDENCE_ORDER a \<le> CONFIDENCE_ORDER b then a else b)"

definition js_round :: "rat \<Rightarrow> rat" where
  "js_round x = of_int \<lfloor>x + 1 / 2\<rfloor>"

definition plain_estimate :: "int \<Rightarrow> rat \<Rightarrow> token_estimate" where
  "plain_estimate input output = \<lparr>te_inputTokens = of_int input, te_outputTokens = output,
     te_cacheReadTokens = None, te_cacheWriteTokens = None\<rparr>"

definition rankCandidate ::
  "candidate \<Rightarrow> quality_tier option \<Rightarrow> model_cost \<Rightarrow> route_request \<Rightarrow> router_config \<Rightarrow> router_env \<Rightarrow> ranked_candidate"
where
  "rankCandidate c tier mc req config env =
    (let family = (if mc_family mc \<noteq> ''unknown'' then mc_family mc else modelIdToFamily (cd_model c));
         k = re_calibrationK env (rr_prompt req) family;
         input = estimateInputTokens (rr_prompt req) (Some family) (Some k);
         prior = re_outputPrior env (cd_provider c) (cd_model c);
         output = nullish (rr_expectedOutputTokens req) (case prior of
             Some (median, p90) \<Rightarrow> max 1 (js_round median)
           | None \<Rightarrow> rf_defaultExpectedOutputTokens config);
         budgetOutput = nullish (rr_maxOutputTokens req) (case prior of
             Some (median, p90) \<Rightarrow> max 1 (js_round p90)
           | None \<Rightarrow> rf_defaultExpectedOutputTokens config * rf_budgetOutputSafetyFactor config);
         cost = composeCost None (plain_estimate input output) mc in
     \<lparr>rk_candidate = c, rk_tier = tier, rk_modelCost = mc, rk_estInputTokens = input,
      rk_estOutputTokens = output, rk_rankCostUsd = cr_costUsd cost,
      rk_rankKey = (if mc_source mc = From_unknown then Unpriced else Priced (cr_costUsd cost)),
      rk_costBasis = cr_costBasis cost,
      rk_confidence = minConfidence (cr_confidence cost) (re_confidenceBand env (rr_prompt req) family),
      rk_budgetOutputTokens = budgetOutput\<rparr>)"

definition MAX_SAFE_INTEGER :: int where
  "MAX_SAFE_INTEGER = 9007199254740991"

definition preferenceIndex :: "provider \<Rightarrow> provider list option \<Rightarrow> int" where
  "preferenceIndex p order = (case order of None \<Rightarrow> MAX_SAFE_INTEGER
     | Some ps \<Rightarrow> (case filter (\<lambda>i. ps ! i = p) [0..<length ps] of
         [] \<Rightarrow> MAX_SAFE_INTEGER | i # _ \<Rightarrow> int i))"

definition lex_name :: "candidate \<Rightarrow> string" where
  "lex_name c = cd_provider c @ ''/'' @ cd_model c"

definition compareCandidates ::
  "router_env \<Rightarrow> router_config \<Rightarrow> ranked_candidate \<Rightarrow> ranked_candidate \<Rightarrow> int"
where
  "compareCandidates env config a b =
    (let ca = rk_candidate a; cb = rk_candidate b;
         successA = re_successRate env (cd_provider ca) (cd_model ca);
         successB = re_successRate env (cd_provider cb) (cd_model cb);
         latencyA = re_meanLatencyMs env (cd_provider ca) (cd_model ca);
         latencyB = re_meanLatencyMs env (cd_provider cb) (cd_model cb);
         prefA = preferenceIndex (cd_provider ca) (rf_preferenceOrder config);
         prefB = preferenceIndex (cd_provider cb) (rf_preferenceOrder config) in
     if rk_rankKey a \<noteq> rk_rankKey b then diff_sign (rk_rankKey a) (rk_rankKey b)
     else if successA \<noteq> successB then diff_sign successB successA
     else if latencyA \<noteq> latencyB then diff_sign latencyA latencyB
     else if prefA \<noteq> prefB then diff_sign prefA prefB
     else diff_sign (re_collationKey env (lex_name ca)) (re_collationKey env (lex_name cb)))"

section \<open>Budget and decisions\<close>

definition budget_cost :: "ranked_candidate \<Rightarrow> rat" where
  "budget_cost r = cr_costUsd (composeCost None
     (plain_estimate (rk_estInputTokens r) (rk_budgetOutputTokens r)) (rk_modelCost r))"

definition checkBudget :: "ranked_candidate \<Rightarrow> route_request \<Rightarrow> router_config \<Rightarrow> bool \<Rightarrow> bool" where
  "checkBudget r req config isFallback =
    (let allowUnpriced = nullish (rr_allowUnpriced req) (rf_allowUnpriced config);
         waiver = nullish (rr_budgetWaiver req) False in
     if mc_source (rk_modelCost r) = From_unknown then allowUnpriced \<and> waiver
     else if budget_cost r > nullish (rr_maxCostUsd req) (rf_maxCostUsd config) then isFallback \<and> waiver
     else True)"

definition toDecisionFromRanked ::
  "ranked_candidate \<Rightarrow> nat \<Rightarrow> rejected_candidate list \<Rightarrow> bool \<Rightarrow> route_decision"
where
  "toDecisionFromRanked r considered rejected near =
    \<lparr>rd_chosen = Some (rk_candidate r), rd_tier = rk_tier r, rd_estCostUsd = Some (rk_rankCostUsd r),
     rd_costBasis = Some (rk_costBasis r), rd_confidence = Some (rk_confidence r), rd_nearTie = Some near,
     rd_estInputTokens = Some (rk_estInputTokens r), rd_estOutputTokens = Some (rk_estOutputTokens r),
     rd_priceAsOf = Some (mc_asOf (rk_modelCost r)), rd_priceSource = Some (mc_source (rk_modelCost r)),
     rd_consideredCount = considered, rd_rejected = rejected, rd_reroutes = 0, rd_error = None\<rparr>"

definition no_route :: "nat \<Rightarrow> rejected_candidate list \<Rightarrow> route_error \<Rightarrow> route_decision" where
  "no_route considered rejected e =
    \<lparr>rd_chosen = None, rd_tier = None, rd_estCostUsd = None, rd_costBasis = None, rd_confidence = None,
     rd_nearTie = None, rd_estInputTokens = None, rd_estOutputTokens = None, rd_priceAsOf = None,
     rd_priceSource = None, rd_consideredCount = considered, rd_rejected = rejected, rd_reroutes = 0,
     rd_error = Some e\<rparr>"

text \<open>The gates of the pool loop in order: the reason of the first that fails, or what is ranked.\<close>

definition pool_gate ::
  "route_request \<Rightarrow> router_env \<Rightarrow> router_config \<Rightarrow> candidate \<Rightarrow> string + quality_tier option \<times> model_cost"
where
  "pool_gate req env config c = (case evaluateBaseEligibility c req env of
     Some reason \<Rightarrow> Inl reason
   | None \<Rightarrow> (case checkTier c req config of
       Inl reason \<Rightarrow> Inl reason
     | Inr tier \<Rightarrow>
         let mc = re_modelCost env (cd_provider c) (cd_model c) in
         if mc_source mc = From_unknown \<and> \<not> nullish (rr_allowUnpriced req) (rf_allowUnpriced config)
         then Inl ''unpriced'' else Inr (tier, mc)))"

fun gate_pool ::
  "(candidate \<Rightarrow> string + 'e) \<Rightarrow> candidate list \<Rightarrow> rejected_candidate list \<times> (candidate \<times> 'e) list \<Rightarrow>
     rejected_candidate list \<times> (candidate \<times> 'e) list"
where
  "gate_pool gate [] acc = acc"
| "gate_pool gate (c # cs) (rejected, eligible) = (case gate c of
     Inl reason \<Rightarrow> gate_pool gate cs (rejected @ [(c, reason)], eligible)
   | Inr e \<Rightarrow> gate_pool gate cs (rejected, eligible @ [(c, e)]))"

definition buildRankedPool ::
  "route_request \<Rightarrow> router_env \<Rightarrow> router_config \<Rightarrow> string list \<Rightarrow> ranked_candidate list \<times> rejected_candidate list"
where
  "buildRankedPool req env config excluded =
    (let pool = filter (\<lambda>c. candidateKey c \<notin> set excluded) (buildPool req env config) in
     case gate_pool (pool_gate req env config) pool ([], []) of (rejected, eligible) \<Rightarrow>
       (sort_by (compareCandidates env config)
          (map (\<lambda>(c, tier, mc). rankCandidate c tier mc req config env) eligible), rejected))"

definition near_tie :: "ranked_candidate \<Rightarrow> ranked_candidate list \<Rightarrow> bool" where
  "near_tie best rest = (case rest of
     [] \<Rightarrow> False
   | second # _ \<Rightarrow> (case (rk_rankKey best, rk_rankKey second) of
       (Priced a, Priced b) \<Rightarrow> a > 0 \<and> \<bar>b - a\<bar> / a \<le> 1 / 100
     | _ \<Rightarrow> False))"

definition select_fallback ::
  "candidate \<Rightarrow> route_request \<Rightarrow> router_env \<Rightarrow> router_config \<Rightarrow> rejected_candidate list \<Rightarrow> route_decision"
where
  "select_fallback f req env config rejected =
    (let fallbackReq = req\<lparr>rr_candidates := Some (nullish (rr_candidates req) [] @ [f])\<rparr> in
     case evaluateBaseEligibility f fallbackReq env of
       Some reason \<Rightarrow> no_route 0 (rejected @ [(f, reason)]) NoEligibleCandidate
     | None \<Rightarrow> (case checkTier f fallbackReq config of
         Inl reason \<Rightarrow> no_route 0 (rejected @ [(f, reason)]) NoEligibleCandidate
       | Inr tier \<Rightarrow>
           let r = rankCandidate f tier (re_modelCost env (cd_provider f) (cd_model f)) req config env in
           if \<not> checkBudget r req config True
           then no_route 0 (rejected @ [(f, ''budget'')]) BudgetExceeded
           else toDecisionFromRanked r 0 rejected False))"

definition selectCandidate ::
  "route_request \<Rightarrow> router_env \<Rightarrow> router_config \<Rightarrow> string list \<Rightarrow> route_decision"
where
  "selectCandidate req env config excluded =
    (case buildRankedPool req env config excluded of (ranked, rejected) \<Rightarrow>
      (case ranked of
         [] \<Rightarrow> (case rr_fallback req of
             Some f \<Rightarrow> select_fallback f req env config rejected
           | None \<Rightarrow> no_route 0 rejected NoEligibleCandidate)
       | best # rest \<Rightarrow>
           if \<not> checkBudget best req config False
           then no_route (length ranked) (rejected @ [(rk_candidate best, ''budget'')]) BudgetExceeded
           else toDecisionFromRanked best (length ranked) rejected (near_tie best rest)))"

fun per_tier_loop ::
  "(ranked_candidate \<Rightarrow> bool) \<Rightarrow> (ranked_candidate \<Rightarrow> route_decision) \<Rightarrow> quality_tier list \<Rightarrow>
     ranked_candidate list \<Rightarrow> route_decision list"
where
  "per_tier_loop ok decide decided [] = []"
| "per_tier_loop ok decide decided (r # rs) = (case rk_tier r of
     None \<Rightarrow> per_tier_loop ok decide decided rs
   | Some t \<Rightarrow>
       if t \<in> set decided then per_tier_loop ok decide decided rs
       else (if ok r then [decide r] else []) @ per_tier_loop ok decide (t # decided) rs)"

definition decision_tier_rank :: "route_decision \<Rightarrow> nat" where
  "decision_tier_rank d = (case rd_tier d of Some t \<Rightarrow> TIER_ORDER t | None \<Rightarrow> 0)"

definition selectCheapestPerTier ::
  "route_request \<Rightarrow> router_env \<Rightarrow> router_config \<Rightarrow> string list \<Rightarrow> route_decision list"
where
  "selectCheapestPerTier req env config excluded =
    (case buildRankedPool req env config excluded of (ranked, rejected) \<Rightarrow>
      sort_by (\<lambda>a b. diff_sign (decision_tier_rank a) (decision_tier_rank b))
        (per_tier_loop (\<lambda>r. checkBudget r req config False)
          (\<lambda>r. toDecisionFromRanked r (length ranked) rejected False) [] ranked))"

section \<open>The comparator\<close>

lemma compare_chain:
  "compareCandidates env config =
     then_by (\<lambda>x y. diff_sign (rk_rankKey x) (rk_rankKey y))
    (then_by (\<lambda>x y. diff_sign (- re_successRate env (cd_provider (rk_candidate x)) (cd_model (rk_candidate x)))
                             (- re_successRate env (cd_provider (rk_candidate y)) (cd_model (rk_candidate y))))
    (then_by (\<lambda>x y. diff_sign (re_meanLatencyMs env (cd_provider (rk_candidate x)) (cd_model (rk_candidate x)))
                             (re_meanLatencyMs env (cd_provider (rk_candidate y)) (cd_model (rk_candidate y))))
    (then_by (\<lambda>x y. diff_sign (preferenceIndex (cd_provider (rk_candidate x)) (rf_preferenceOrder config))
                             (preferenceIndex (cd_provider (rk_candidate y)) (rf_preferenceOrder config)))
      (\<lambda>x y. diff_sign (re_collationKey env (lex_name (rk_candidate x)))
                     (re_collationKey env (lex_name (rk_candidate y)))))))"
  by (intro ext) (simp add: compareCandidates_def then_by_def Let_def diff_sign_def)

interpretation ranking: comparator "compareCandidates env config"
  for env :: router_env and config :: router_config
  unfolding compare_chain by (intro comparator_then comparator_key)

interpretation tiering: comparator "\<lambda>a b. diff_sign (decision_tier_rank a) (decision_tier_rank b)"
  by (rule comparator_key)

lemma compare_rank_key: "compareCandidates env config a b \<le> 0 \<Longrightarrow> rk_rankKey a \<le> rk_rankKey b"
  by (auto simp: compareCandidates_def Let_def split: if_splits)

section \<open>The pool loop\<close>

definition admitted :: "route_request \<Rightarrow> router_env \<Rightarrow> router_config \<Rightarrow> candidate \<Rightarrow> bool" where
  "admitted req env config c = (case pool_gate req env config c of Inl _ \<Rightarrow> False | Inr _ \<Rightarrow> True)"

definition offered :: "route_request \<Rightarrow> router_env \<Rightarrow> router_config \<Rightarrow> string list \<Rightarrow> candidate list" where
  "offered req env config excluded = filter (\<lambda>c. candidateKey c \<notin> set excluded) (buildPool req env config)"

definition routable :: "route_request \<Rightarrow> router_env \<Rightarrow> router_config \<Rightarrow> string list \<Rightarrow> candidate list" where
  "routable req env config excluded = filter (admitted req env config) (offered req env config excluded)"

definition rank_of :: "route_request \<Rightarrow> router_env \<Rightarrow> router_config \<Rightarrow> candidate \<Rightarrow> ranked_candidate" where
  "rank_of req env config c = (case pool_gate req env config c of
     Inl _ \<Rightarrow> rankCandidate c None (re_modelCost env (cd_provider c) (cd_model c)) req config env
   | Inr (tier, mc) \<Rightarrow> rankCandidate c tier mc req config env)"

lemma rankCandidate_simps [simp]:
  "rk_candidate (rankCandidate c tier mc req config env) = c"
  "rk_tier (rankCandidate c tier mc req config env) = tier"
  "rk_modelCost (rankCandidate c tier mc req config env) = mc"
  by (simp_all add: rankCandidate_def Let_def)

lemma pool_gate_cost:
  "pool_gate req env config c = Inr (tier, mc) \<Longrightarrow>
     mc = re_modelCost env (cd_provider c) (cd_model c) \<and> checkTier c req config = Inr tier
     \<and> evaluateBaseEligibility c req env = None
     \<and> (mc_source mc = From_unknown \<longrightarrow> nullish (rr_allowUnpriced req) (rf_allowUnpriced config))"
  by (auto simp: pool_gate_def Let_def split: option.splits sum.splits if_splits)

lemma rank_of_simps [simp]:
  "rk_candidate (rank_of req env config c) = c"
  "rk_modelCost (rank_of req env config c) = re_modelCost env (cd_provider c) (cd_model c)"
  by (auto simp: rank_of_def dest: pool_gate_cost split: sum.split)

lemma rank_key_priced:
  "rk_rankKey (rankCandidate c tier mc req config env) = Unpriced \<longleftrightarrow> mc_source mc = From_unknown"
  by (simp add: rankCandidate_def Let_def)

lemma rank_of_unpriced:
  "rk_rankKey (rank_of req env config c) = Unpriced \<longleftrightarrow>
     mc_source (re_modelCost env (cd_provider c) (cd_model c)) = From_unknown"
  by (auto simp: rank_of_def rank_key_priced dest: pool_gate_cost split: sum.split)

lemma gate_pool_eq:
  "gate_pool gate cs (rejected, eligible) =
     (rejected @ List.map_filter (\<lambda>c. case gate c of Inl r \<Rightarrow> Some (c, r) | Inr _ \<Rightarrow> None) cs,
      eligible @ List.map_filter (\<lambda>c. case gate c of Inl _ \<Rightarrow> None | Inr e \<Rightarrow> Some (c, e)) cs)"
  by (induction cs arbitrary: rejected eligible) (auto simp: List.map_filter_simps split: sum.split)

lemma eligible_ranked:
  "map (\<lambda>(c, tier, mc). rankCandidate c tier mc req config env)
      (List.map_filter (\<lambda>c. case pool_gate req env config c of Inl _ \<Rightarrow> None | Inr e \<Rightarrow> Some (c, e)) cs)
     = map (rank_of req env config) (filter (admitted req env config) cs)"
  by (induction cs) (auto simp: List.map_filter_simps admitted_def rank_of_def split: sum.splits prod.splits)

lemma buildRankedPool_eq:
  "buildRankedPool req env config excluded =
     (sort_by (compareCandidates env config) (map (rank_of req env config) (routable req env config excluded)),
      List.map_filter (\<lambda>c. case pool_gate req env config c of Inl r \<Rightarrow> Some (c, r) | Inr _ \<Rightarrow> None)
        (offered req env config excluded))"
  by (simp add: buildRankedPool_def Let_def gate_pool_eq eligible_ranked offered_def [symmetric]
      routable_def [symmetric])

lemma select_empty:
  "routable req env config excluded = [] \<Longrightarrow>
     selectCandidate req env config excluded =
       (case rr_fallback req of
          Some f \<Rightarrow> select_fallback f req env config (snd (buildRankedPool req env config excluded))
        | None \<Rightarrow> no_route 0 (snd (buildRankedPool req env config excluded)) NoEligibleCandidate)"
  by (simp add: selectCandidate_def buildRankedPool_eq split: option.split)

lemma select_best:
  assumes "routable req env config excluded \<noteq> []"
  obtains b rest where
    "sort_by (compareCandidates env config) (map (rank_of req env config) (routable req env config excluded)) = b # rest"
    and "b = rank_of req env config (rk_candidate b)"
    and "rk_candidate b \<in> set (routable req env config excluded)"
    and "\<And>c. c \<in> set (routable req env config excluded) \<Longrightarrow>
        compareCandidates env config b (rank_of req env config c) \<le> 0"
    and "selectCandidate req env config excluded =
      (let rejected = snd (buildRankedPool req env config excluded) in
       if checkBudget b req config False
       then toDecisionFromRanked b (length (routable req env config excluded)) rejected (near_tie b rest)
       else no_route (length (routable req env config excluded)) (rejected @ [(rk_candidate b, ''budget'')]) BudgetExceeded)"
proof -
  let ?xs = "map (rank_of req env config) (routable req env config excluded)"
  obtain b rest where s: "sort_by (compareCandidates env config) ?xs = b # rest"
    using assms by (cases "sort_by (compareCandidates env config) ?xs") auto
  then have "b \<in> set ?xs" using set_sort_by [of "compareCandidates env config" ?xs] by (metis list.set_intros(1))
  then obtain c where c: "c \<in> set (routable req env config excluded)" "b = rank_of req env config c" by auto
  have "length (b # rest) = length ?xs" using s length_sort_by by metis
  then have "selectCandidate req env config excluded =
      (let rejected = snd (buildRankedPool req env config excluded) in
       if checkBudget b req config False
       then toDecisionFromRanked b (length (routable req env config excluded)) rejected (near_tie b rest)
       else no_route (length (routable req env config excluded)) (rejected @ [(rk_candidate b, ''budget'')]) BudgetExceeded)"
    by (simp add: selectCandidate_def buildRankedPool_eq s Let_def)
  with s c show thesis
    by (intro that [of b rest]) (auto intro: ranking.sort_by_head_least)
qed

section \<open>The per-tier loop\<close>

lemma per_tier_find:
  "d \<in> set (per_tier_loop ok decide decided rs) \<longleftrightarrow>
     (\<exists>t r. t \<notin> set decided \<and> find (\<lambda>r. rk_tier r = Some t) rs = Some r \<and> ok r \<and> d = decide r)"
proof (induction ok decide decided rs rule: per_tier_loop.induct)
  case (2 ok decide decided r rs)
  show ?case
  proof (cases "rk_tier r")
    case None
    then show ?thesis using 2(1) by simp
  next
    case (Some t)
    show ?thesis
    proof (cases "t \<in> set decided")
      case True
      then have "d \<in> set (per_tier_loop ok decide decided (r # rs)) \<longleftrightarrow>
          (\<exists>t' r'. t' \<notin> set decided \<and> find (\<lambda>r. rk_tier r = Some t') rs = Some r' \<and> ok r' \<and> d = decide r')"
        using 2(2) Some by simp
      then show ?thesis using True Some by auto
    next
      case False
      then show ?thesis using 2(3) Some by (auto split: if_splits)
    qed
  qed
qed simp

lemma per_tier_tiers:
  assumes "\<And>r. rd_tier (decide r) = rk_tier r"
  shows "distinct (map rd_tier (per_tier_loop ok decide decided rs))
    \<and> (\<forall>d\<in>set (per_tier_loop ok decide decided rs). \<exists>t. rd_tier d = Some t \<and> t \<notin> set decided)"
proof (induction rs arbitrary: decided)
  case (Cons r rs)
  show ?case
  proof (cases "rk_tier r")
    case (Some t)
    show ?thesis
    proof (cases "t \<in> set decided")
      case False
      note rest = Cons.IH [of "t # decided"]
      then have "Some t \<notin> rd_tier ` set (per_tier_loop ok decide (t # decided) rs)" by force
      moreover have "rd_tier (decide r) = Some t" using assms [of r] Some by simp
      ultimately show ?thesis using rest Some False by auto
    qed (use Cons.IH Some in simp)
  qed (use Cons.IH in simp)
qed simp

section \<open>Properties\<close>

definition demo_capabilities :: candidate_capabilities where
  "demo_capabilities = \<lparr>cc_acceptsImages = False, cc_acceptsAttachments = False, cc_toolCalling = True,
     cc_jsonSchema = True, cc_outputFormats = [''text''], cc_capabilityScope = ''full'', cc_effortLevels = []\<rparr>"

definition demo_env :: router_env where
  "demo_env = \<lparr>re_providers = [''claude'', ''codex''],
     re_models = (\<lambda>p. if p = ''claude'' then [''opus'', ''haiku''] else [''gpt-5'']),
     re_isAuthed = (\<lambda>_. True), re_breakerState = (\<lambda>_. ''CLOSED''), re_atCapacity = (\<lambda>_. False),
     re_capabilities = (\<lambda>_. demo_capabilities),
     re_modelCost = (\<lambda>p m. getModelCost API_CATALOG True m),
     re_successRate = (\<lambda>_ _. 1), re_meanLatencyMs = (\<lambda>_ _. 0), re_calibrationK = (\<lambda>_ _. 1),
     re_outputPrior = (\<lambda>_ _. None), re_confidenceBand = (\<lambda>_ _. Conf_low),
     re_collationKey = (\<lambda>s. map of_char s)\<rparr>"

definition demo_config :: router_config where
  "demo_config = \<lparr>rf_minTier = Economy, rf_maxCostUsd = 1, rf_defaultExpectedOutputTokens = 100,
     rf_budgetOutputSafetyFactor = 2, rf_allowUnpriced = False,
     rf_tiers = [(''claude:claude-opus'', Frontier), (''claude:claude-haiku'', Economy),
       (''codex:openai-gpt5'', Frontier)],
     rf_allow = [], rf_deny = [], rf_preferenceOrder = None\<rparr>"

definition demo_request :: route_request where
  "demo_request = \<lparr>rr_prompt = [], rr_candidates = None, rr_minTier = None, rr_maxCostUsd = None,
     rr_expectedOutputTokens = None, rr_maxOutputTokens = None, rr_requiredCapabilities = None,
     rr_allowUnpriced = None, rr_budgetWaiver = None, rr_fallback = None\<rparr>"

text \<open>
  C10: the route is the cheapest eligible one. When the pool has an eligible candidate, a chosen route
  passed every gate in the pool (not excluded, allowed and not denied, authenticated, closed breaker,
  free capacity, capable, tiered), no eligible candidate has a lower sort key, and it is within the
  budget: a priced one by its conservative cost, an unpriced one only when the caller set both waivers
  and no eligible candidate is priced.
\<close>

theorem cheapest_eligible_route:
  assumes "rd_chosen (selectCandidate req env config excluded) = Some c"
    and "routable req env config excluded \<noteq> []"
  shows "c \<in> set (routable req env config excluded)
    \<and> (\<forall>c'\<in>set (routable req env config excluded).
        rk_rankKey (rank_of req env config c) \<le> rk_rankKey (rank_of req env config c'))
    \<and> (if mc_source (re_modelCost env (cd_provider c) (cd_model c)) = From_unknown
       then nullish (rr_allowUnpriced req) (rf_allowUnpriced config) \<and> rr_budgetWaiver req = Some True
         \<and> (\<forall>c'\<in>set (routable req env config excluded).
              mc_source (re_modelCost env (cd_provider c') (cd_model c')) = From_unknown)
       else budget_cost (rank_of req env config c) \<le> nullish (rr_maxCostUsd req) (rf_maxCostUsd config))"
proof (rule select_best [OF assms(2)])
  fix b rest
  assume b: "b = rank_of req env config (rk_candidate b)"
    and mem: "rk_candidate b \<in> set (routable req env config excluded)"
    and least: "\<And>c. c \<in> set (routable req env config excluded) \<Longrightarrow>
        compareCandidates env config b (rank_of req env config c) \<le> 0"
    and sel: "selectCandidate req env config excluded =
      (let rejected = snd (buildRankedPool req env config excluded) in
       if checkBudget b req config False
       then toDecisionFromRanked b (length (routable req env config excluded)) rejected (near_tie b rest)
       else no_route (length (routable req env config excluded)) (rejected @ [(rk_candidate b, ''budget'')]) BudgetExceeded)"
  from assms(1) sel have c: "c = rk_candidate b" and ok: "checkBudget b req config False"
    by (auto simp: Let_def toDecisionFromRanked_def no_route_def split: if_splits)
  have r: "b = rank_of req env config c" unfolding c by (rule b)
  have low: "rk_rankKey (rank_of req env config c) \<le> rk_rankKey (rank_of req env config c')"
    if "c' \<in> set (routable req env config excluded)" for c'
    using compare_rank_key [OF least [OF that]] unfolding r .
  moreover have "mc_source (re_modelCost env (cd_provider c') (cd_model c')) = From_unknown"
    if "c' \<in> set (routable req env config excluded)"
      "mc_source (re_modelCost env (cd_provider c) (cd_model c)) = From_unknown" for c'
    using low [OF that(1)] that(2) unfolding rank_of_unpriced [symmetric, where req = req and config = config]
    by (cases "rk_rankKey (rank_of req env config c')") simp_all
  moreover have "if mc_source (re_modelCost env (cd_provider c) (cd_model c)) = From_unknown
       then nullish (rr_allowUnpriced req) (rf_allowUnpriced config) \<and> rr_budgetWaiver req = Some True
       else budget_cost (rank_of req env config c) \<le> nullish (rr_maxCostUsd req) (rf_maxCostUsd config)"
    using ok unfolding r
    by (cases "rr_budgetWaiver req") (simp_all add: checkBudget_def Let_def split: if_split_asm)
  ultimately show ?thesis using mem c by (simp split: if_split_asm)
qed

text \<open>
  Every candidate is accounted for and the selector fails closed. Each offered candidate is either
  ranked or rejected with the reason of its first failing gate, in pool order; without a caller
  fallback there is a route only if some candidate is ranked, and a decision has a chosen candidate
  exactly when it has no error.
\<close>

theorem route_accounting:
  "length (fst (buildRankedPool req env config excluded)) + length (snd (buildRankedPool req env config excluded))
     = length (offered req env config excluded)
   \<and> snd (buildRankedPool req env config excluded)
     = concat (map (\<lambda>c. case pool_gate req env config c of Inl r \<Rightarrow> [(c, r)] | Inr _ \<Rightarrow> [])
         (offered req env config excluded))
   \<and> (rd_chosen (selectCandidate req env config excluded) = None)
     = (rd_error (selectCandidate req env config excluded) \<noteq> None)
   \<and> (if rr_fallback req = None \<and> routable req env config excluded = []
      then selectCandidate req env config excluded
         = no_route 0 (snd (buildRankedPool req env config excluded)) NoEligibleCandidate
      else True)"
proof -
  have "length (filter (admitted req env config) cs) + length (List.map_filter
      (\<lambda>c. case pool_gate req env config c of Inl r \<Rightarrow> Some (c, r) | Inr _ \<Rightarrow> None) cs) = length cs"
    and "List.map_filter (\<lambda>c. case pool_gate req env config c of Inl r \<Rightarrow> Some (c, r) | Inr _ \<Rightarrow> None) cs
      = concat (map (\<lambda>c. case pool_gate req env config c of Inl r \<Rightarrow> [(c, r)] | Inr _ \<Rightarrow> []) cs)" for cs
    by (induction cs; simp add: List.map_filter_simps admitted_def split: sum.split)+
  moreover have "(rd_chosen (selectCandidate req env config excluded) = None)
      = (rd_error (selectCandidate req env config excluded) \<noteq> None)"
  proof (cases "routable req env config excluded = []")
    case True
    then show ?thesis
      by (simp add: select_empty select_fallback_def toDecisionFromRanked_def no_route_def Let_def
          split: option.split sum.split)
  next
    case False
    then show ?thesis
      by (rule select_best) (simp add: toDecisionFromRanked_def no_route_def Let_def)
  qed
  ultimately show ?thesis
    by (simp add: buildRankedPool_eq routable_def select_empty)
qed

lemma demo_route:
  "rd_chosen (selectCandidate demo_request demo_env demo_config [])
     = Some \<lparr>cd_provider = ''claude'', cd_model = ''haiku''\<rparr>"
  by code_simp

lemma demo_pool: "routable demo_request demo_env demo_config [] \<noteq> []"
  by code_simp

theorem cheapest_eligible_route_witness:
  "rk_rankKey (rank_of demo_request demo_env demo_config \<lparr>cd_provider = ''claude'', cd_model = ''haiku''\<rparr>)
     \<le> rk_rankKey (rank_of demo_request demo_env demo_config \<lparr>cd_provider = ''codex'', cd_model = ''gpt-5''\<rparr>)"
proof -
  have "\<lparr>cd_provider = ''codex'', cd_model = ''gpt-5''\<rparr> \<in> set (routable demo_request demo_env demo_config [])"
    by code_simp
  then show ?thesis using cheapest_eligible_route [OF demo_route demo_pool] by blast
qed

text \<open>
  One route per quality tier. The per-tier decisions come in strictly increasing tier order, each
  within its budget and eligible in the pool, and each has the lowest sort key among the eligible
  candidates of its tier.
\<close>

lemma per_tier_pick:
  assumes "d \<in> set (selectCheapestPerTier req env config excluded)"
  obtains c t where "rk_tier (rank_of req env config c) = Some t"
    and "c \<in> set (routable req env config excluded)"
    and "checkBudget (rank_of req env config c) req config False"
    and "d = toDecisionFromRanked (rank_of req env config c) (length (routable req env config excluded))
        (snd (buildRankedPool req env config excluded)) False"
    and "\<And>c'. c' \<in> set (routable req env config excluded) \<Longrightarrow> rk_tier (rank_of req env config c') = Some t \<Longrightarrow>
        compareCandidates env config (rank_of req env config c) (rank_of req env config c') \<le> 0"
    and "find (\<lambda>r. rk_tier r = Some t) (fst (buildRankedPool req env config excluded)) = Some (rank_of req env config c)"
proof -
  let ?xs = "map (rank_of req env config) (routable req env config excluded)"
  let ?ranked = "sort_by (compareCandidates env config) ?xs"
  from assms obtain t r where r: "find (\<lambda>r. rk_tier r = Some t) ?ranked = Some r"
    "checkBudget r req config False"
    "d = toDecisionFromRanked r (length (routable req env config excluded))
        (snd (buildRankedPool req env config excluded)) False"
    by (auto simp: selectCheapestPerTier_def buildRankedPool_eq per_tier_find)
  then have "r \<in> set ?xs" "rk_tier r = Some t"
    using find_SomeD [OF r(1)] by simp_all
  then obtain c where c: "c \<in> set (routable req env config excluded)" "r = rank_of req env config c" by auto
  have "compareCandidates env config r (rank_of req env config c') \<le> 0"
    if "c' \<in> set (routable req env config excluded)" "rk_tier (rank_of req env config c') = Some t" for c'
    using find_first_least [OF ranking.sorted_sort_by ranking.cmp_refl r(1)] that by simp
  then show thesis using that c r \<open>rk_tier r = Some t\<close> by (simp add: buildRankedPool_eq)
qed

lemma TIER_ORDER_inject: "TIER_ORDER a = TIER_ORDER b \<Longrightarrow> a = b"
  by (cases a; cases b) (simp_all add: TIER_ORDER_def)

lemma per_tier_sorted: "sorted_wrt (<) (map decision_tier_rank (selectCheapestPerTier req env config excluded))"
proof -
  let ?L = "per_tier_loop (\<lambda>r. checkBudget r req config False)
      (\<lambda>r. toDecisionFromRanked r (length (fst (buildRankedPool req env config excluded)))
        (snd (buildRankedPool req env config excluded)) False) []
      (fst (buildRankedPool req env config excluded))"
  have L: "selectCheapestPerTier req env config excluded
      = sort_by (\<lambda>a b. diff_sign (decision_tier_rank a) (decision_tier_rank b)) ?L"
    by (simp only: selectCheapestPerTier_def case_prod_beta)
  have t: "distinct (map rd_tier ?L) \<and> (\<forall>d\<in>set ?L. \<exists>t. rd_tier d = Some t \<and> t \<notin> set [])"
    by (rule per_tier_tiers) (simp add: toDecisionFromRanked_def)
  have "inj_on decision_tier_rank (set ?L)"
  proof (rule inj_onI)
    fix x y assume xy: "x \<in> set ?L" "y \<in> set ?L" "decision_tier_rank x = decision_tier_rank y"
    from xy(1,2) t obtain u v where "rd_tier x = Some u" "rd_tier y = Some v" by meson
    with xy(3) have "rd_tier x = rd_tier y" by (simp add: decision_tier_rank_def TIER_ORDER_inject)
    then show "x = y" using t xy(1,2) unfolding distinct_map by (meson inj_onD)
  qed
  then have "distinct (map decision_tier_rank ?L)" using t unfolding distinct_map by blast
  moreover have "sorted (map decision_tier_rank (sort_by (\<lambda>a b. diff_sign (decision_tier_rank a) (decision_tier_rank b)) ?L))"
    using tiering.sorted_sort_by [of ?L] by (simp add: sorted_map)
  ultimately show ?thesis unfolding L by (simp add: strict_sorted_iff distinct_map_sort_by)
qed

theorem cheapest_per_tier:
  assumes "d \<in> set (selectCheapestPerTier req env config excluded)"
  shows "sorted_wrt (<) (map decision_tier_rank (selectCheapestPerTier req env config excluded))
    \<and> (\<exists>c t. rd_chosen d = Some c \<and> rd_tier d = Some t \<and> c \<in> set (routable req env config excluded)
        \<and> rk_tier (rank_of req env config c) = Some t
        \<and> checkBudget (rank_of req env config c) req config False
        \<and> (\<forall>c'\<in>set (routable req env config excluded).
             rk_tier (rank_of req env config c') = Some t \<longrightarrow>
               rk_rankKey (rank_of req env config c) \<le> rk_rankKey (rank_of req env config c')))"
proof (rule per_tier_pick [OF assms])
  fix c t
  assume c: "rk_tier (rank_of req env config c) = Some t" "c \<in> set (routable req env config excluded)"
      "checkBudget (rank_of req env config c) req config False"
    and d: "d = toDecisionFromRanked (rank_of req env config c) (length (routable req env config excluded))
        (snd (buildRankedPool req env config excluded)) False"
    and least: "\<And>c'. c' \<in> set (routable req env config excluded) \<Longrightarrow>
        rk_tier (rank_of req env config c') = Some t \<Longrightarrow>
        compareCandidates env config (rank_of req env config c) (rank_of req env config c') \<le> 0"
  have "rd_chosen d = Some c" "rd_tier d = Some t" using c(1) by (simp_all add: d toDecisionFromRanked_def)
  then show ?thesis using c per_tier_sorted compare_rank_key [OF least] by blast
qed

lemma demo_per_tier:
  "map rd_chosen (selectCheapestPerTier demo_request demo_env demo_config []) =
     [Some \<lparr>cd_provider = ''claude'', cd_model = ''haiku''\<rparr>, Some \<lparr>cd_provider = ''codex'', cd_model = ''gpt-5''\<rparr>]"
  by code_simp

theorem cheapest_per_tier_witness:
  "rd_tier (selectCheapestPerTier demo_request demo_env demo_config [] ! 1) \<noteq> None"
proof -
  have "length (selectCheapestPerTier demo_request demo_env demo_config []) = 2"
    using arg_cong [OF demo_per_tier, of length] by simp
  then have "selectCheapestPerTier demo_request demo_env demo_config [] ! 1
      \<in> set (selectCheapestPerTier demo_request demo_env demo_config [])" by simp
  from cheapest_per_tier [OF this] show ?thesis by auto
qed

text \<open>
  The two selections agree. Whenever the selector routes to a tiered candidate of the pool, the
  per-tier selection decides that candidate for its tier, with the same estimate.
\<close>

theorem selections_agree:
  assumes "routable req env config excluded \<noteq> []"
    and "rd_chosen (selectCandidate req env config excluded) = Some c"
    and "rd_tier (selectCandidate req env config excluded) = Some t"
  shows "\<exists>d\<in>set (selectCheapestPerTier req env config excluded).
    rd_chosen d = Some c \<and> rd_tier d = Some t
    \<and> rd_estCostUsd d = rd_estCostUsd (selectCandidate req env config excluded)"
proof (rule select_best [OF assms(1)])
  fix b rest
  assume s: "sort_by (compareCandidates env config) (map (rank_of req env config) (routable req env config excluded)) = b # rest"
    and sel: "selectCandidate req env config excluded =
      (let rejected = snd (buildRankedPool req env config excluded) in
       if checkBudget b req config False
       then toDecisionFromRanked b (length (routable req env config excluded)) rejected (near_tie b rest)
       else no_route (length (routable req env config excluded)) (rejected @ [(rk_candidate b, ''budget'')]) BudgetExceeded)"
  let ?d = "toDecisionFromRanked b (length (routable req env config excluded))
      (snd (buildRankedPool req env config excluded)) False"
  from assms sel have ok: "checkBudget b req config False" "rk_candidate b = c" "rk_tier b = Some t"
    by (auto simp: Let_def toDecisionFromRanked_def no_route_def split: if_splits)
  have "length (routable req env config excluded) = length (b # rest)"
    using arg_cong [OF s, of length] by simp
  then have "?d \<in> set (selectCheapestPerTier req env config excluded)"
    using ok by (simp add: selectCheapestPerTier_def buildRankedPool_eq s)
  then show ?thesis using ok sel by (intro bexI [of _ ?d]) (simp_all add: Let_def toDecisionFromRanked_def)
qed

theorem selections_agree_witness:
  "\<exists>d\<in>set (selectCheapestPerTier demo_request demo_env demo_config []).
     rd_chosen d = Some \<lparr>cd_provider = ''claude'', cd_model = ''haiku''\<rparr>"
proof -
  have "rd_tier (selectCandidate demo_request demo_env demo_config []) = Some Economy" by code_simp
  from selections_agree [OF demo_pool demo_route this] show ?thesis by blast
qed

text \<open>
  What a caller's fallback bypasses. When no candidate of the pool is eligible, the decision is the
  fallback exactly when it passes the base, tier and budget gates as a listed candidate. The operator's
  allow and deny lists and the exclusions of earlier failed attempts play no part in it.
\<close>

theorem fallback_gates:
  assumes "routable req env config excluded = []" and "rr_fallback req = Some f"
  defines "listed \<equiv> req\<lparr>rr_candidates := Some (nullish (rr_candidates req) [] @ [f])\<rparr>"
  shows "rd_chosen (selectCandidate req env config excluded) =
    (if evaluateBaseEligibility f listed env = None
       \<and> (case checkTier f listed config of Inl _ \<Rightarrow> False | Inr tier \<Rightarrow>
            checkBudget (rankCandidate f tier (re_modelCost env (cd_provider f) (cd_model f)) req config env)
              req config True)
     then Some f else None)"
  using assms(1,2)
  by (simp add: select_empty select_fallback_def listed_def Let_def toDecisionFromRanked_def no_route_def
      split: option.split sum.split)

definition demo_fallback :: candidate where
  "demo_fallback = \<lparr>cd_provider = ''claude'', cd_model = ''haiku''\<rparr>"

text \<open>A provider on the deny list that has already failed is still routed to as the fallback.\<close>

theorem fallback_gates_witness:
  "rd_chosen (selectCandidate (demo_request\<lparr>rr_fallback := Some demo_fallback\<rparr>) demo_env
      (demo_config\<lparr>rf_deny := [''claude'', ''codex'']\<rparr>) [''claude:haiku'']) = Some demo_fallback"
proof -
  let ?req = "demo_request\<lparr>rr_fallback := Some demo_fallback\<rparr>"
  let ?config = "demo_config\<lparr>rf_deny := [''claude'', ''codex'']\<rparr>"
  let ?listed = "?req\<lparr>rr_candidates := Some (nullish (rr_candidates ?req) [] @ [demo_fallback])\<rparr>"
  have "routable ?req demo_env ?config [''claude:haiku''] = []" by code_simp
  moreover have "rr_fallback ?req = Some demo_fallback" by simp
  moreover have "evaluateBaseEligibility demo_fallback ?listed demo_env = None" by code_simp
  moreover have "case checkTier demo_fallback ?listed ?config of Inl _ \<Rightarrow> False | Inr tier \<Rightarrow>
      checkBudget (rankCandidate demo_fallback tier (re_modelCost demo_env (cd_provider demo_fallback)
        (cd_model demo_fallback)) ?req ?config demo_env) ?req ?config True" by code_simp
  ultimately show ?thesis using fallback_gates [of ?req demo_env ?config "[''claude:haiku'']" demo_fallback] by simp
qed

end
