(* ===== verification/Review_Integrity.thy ===== *)
theory Review_Integrity
  imports Text
begin

text \<open>
  The review-integrity scorer of src/src/review-integrity.ts: the test for a review context, the
  Markdown normaliser and the sentence segmenter that run before the tool-suppression patterns, the
  patterns themselves and the violations of a request.

  Text is a list of UTF-16 code units. The Unicode tables the regular expressions consult are the
  arguments wc (letters, numbers, marks, format characters and the underscore) and lu (upper-case
  letters), predicates on code points.
\<close>

section \<open>Review context\<close>

definition review_words :: "jstext list" where
  "review_words = map lit
     [''review'', ''audit'', ''analyse'', ''analyze'', ''analysis'', ''inspect'', ''assess'', ''pentest'',
      ''security'', ''vulnerability'', ''vulnerabilities'', ''bug'', ''bugs'', ''defect'', ''defects'',
      ''quality'']"

text \<open>The last alternative of the pattern: code, white space, review.\<close>

definition code_review_at :: "jstext \<Rightarrow> bool" where
  "code_review_at v =
     (prefix (lit ''code'') v \<and>
      (case drop 4 v of
         [] \<Rightarrow> False
       | u # us \<Rightarrow> is_ws u \<and> word_starts (dropWhile is_ws us) (lit ''review'')))"

fun code_review_from :: "bool \<Rightarrow> jstext \<Rightarrow> bool" where
  "code_review_from inside [] = False"
| "code_review_from inside (u # us) =
     ((\<not> inside \<and> code_review_at (u # us)) \<or> code_review_from (word_unit u) us)"

definition isReviewContext :: "jstext \<Rightarrow> bool" where
  "isReviewContext prompt =
     (has_word review_words (ascii_lower prompt) \<or> code_review_from False (ascii_lower prompt))"

section \<open>Markup normaliser\<close>

definition SOFT_TERMINATOR :: nat where "SOFT_TERMINATOR = 57360"

definition fullwidth_terminator :: "nat \<Rightarrow> bool" where
  "fullwidth_terminator u \<longleftrightarrow> u = 65294 \<or> u = 12290 \<or> u = 65281 \<or> u = 65311"

definition terminator :: "nat \<Rightarrow> bool" where
  "terminator u \<longleftrightarrow> u = 46 \<or> u = 33 \<or> u = 63 \<or> fullwidth_terminator u"

definition trim_end :: "jstext \<Rightarrow> jstext" where
  "trim_end v = rev (dropWhile is_ws (rev v))"

definition normaliseCodeSpanContent :: "jstext \<Rightarrow> jstext" where
  "normaliseCodeSpanContent content =
     (let cleaned = trim_end (map (\<lambda>u. if u \<in> {96, 42, 126, 13, 10} then 32 else u) content);
          body = rev (dropWhile terminator (rev cleaned)) in
      map (\<lambda>u. if terminator u then 32 else u) body
        @ (if length body < length cleaned then [SOFT_TERMINATOR] else []))"

text \<open>
  One token of the inline stream: a run of backticks and whether it may open a span, or literal text.
  The scanner carries the unit before the position, the text buffered since the last token and the
  pending escape; a literal step is a turn of its loop at a unit that is no backtick: what it pushes,
  the escape it leaves pending and the text after it.
\<close>

datatype inline_token = Btrun nat bool | Lit_text jstext

definition flush_buf :: "jstext \<Rightarrow> inline_token list" where
  "flush_buf buf = (if buf = [] then [] else [Lit_text buf])"

definition intraword :: "(nat \<Rightarrow> bool) \<Rightarrow> nat option \<Rightarrow> jstext \<Rightarrow> bool" where
  "intraword wc pre rest =
     ((case pre of None \<Rightarrow> False | Some u \<Rightarrow> wc u) \<and> (case rest of [] \<Rightarrow> False | u # _ \<Rightarrow> wc u))"

definition literal_step ::
  "(nat \<Rightarrow> bool) \<Rightarrow> nat option \<Rightarrow> bool \<Rightarrow> nat \<Rightarrow> jstext \<Rightarrow> jstext \<times> bool \<times> jstext"
where
  "literal_step wc pre esc u us =
     (let run = u # takeWhile (\<lambda>x. x = u) us; rest = dropWhile (\<lambda>x. x = u) us in
      if u = 92 then
        (run, odd (length run) \<and> (case rest of [] \<Rightarrow> False | v # _ \<Rightarrow> v = 96), rest)
      else if u = 95 then
        (if intraword wc pre rest then run else replicate (length run) 32, esc, rest)
      else if u = 42 \<or> u = 126 then ([32], esc, us)
      else if u = SOFT_TERMINATOR then ([32], esc, us)
      else ([u], esc, us))"

lemma literal_step_length:
  "literal_step wc pre esc u us = (out, esc', rest) \<Longrightarrow> length out + length rest = Suc (length us) \<and> out \<noteq> []"
proof -
  have "length (takeWhile (\<lambda>x. x = u) us) + length (dropWhile (\<lambda>x. x = u) us) = length us"
    by (metis length_append takeWhile_dropWhile_id)
  then show "literal_step wc pre esc u us = (out, esc', rest) \<Longrightarrow> ?thesis"
    by (auto simp: literal_step_def Let_def split: if_splits)
qed

lemma literal_step_less:
  "(out, esc', rest) = literal_step wc pre esc u us \<Longrightarrow> length rest < Suc (length us)"
  using literal_step_length [of wc pre esc u us out esc' rest] by (cases out) auto

function tokenize :: "(nat \<Rightarrow> bool) \<Rightarrow> nat option \<Rightarrow> jstext \<Rightarrow> bool \<Rightarrow> jstext \<Rightarrow> inline_token list" where
  "tokenize wc pre buf esc [] = flush_buf buf"
| "tokenize wc pre buf esc (u # us) =
     (if u = 96 then
        flush_buf buf @ Btrun (Suc (length (takeWhile (\<lambda>x. x = 96) us))) (\<not> esc)
          # tokenize wc (Some 96) [] False (dropWhile (\<lambda>x. x = 96) us)
      else
        (case literal_step wc pre esc u us of
           (out, esc', rest) \<Rightarrow> tokenize wc (Some u) (buf @ out) esc' rest))"
  by pat_completeness auto
termination
  by (relation "measure (\<lambda>(wc, pre, buf, esc, us). length us)")
    (auto simp: le_imp_less_Suc length_dropWhile_le intro: literal_step_less)

text \<open>
  The right-to-left pass that links each backtick run to the next run of the same length: the links
  of the tokens from index t on, and the last run seen per length.
\<close>

fun link_runs :: "nat \<Rightarrow> inline_token list \<Rightarrow> nat option list \<times> (nat, nat) js_map" where
  "link_runs t [] = ([], [])"
| "link_runs t (tok # toks) =
     (let (links, lastByLen) = link_runs (Suc t) toks in
      case tok of
        Lit_text _ \<Rightarrow> (None # links, lastByLen)
      | Btrun l _ \<Rightarrow> (js_get lastByLen l # links, js_set lastByLen l t))"

definition token_source :: "inline_token \<Rightarrow> jstext" where
  "token_source tok = (case tok of Btrun l _ \<Rightarrow> replicate l 96 | Lit_text v \<Rightarrow> v)"

text \<open>The emitting pass over the tokens from index t on, each with its link.\<close>

function emit_spans :: "nat \<Rightarrow> (inline_token \<times> nat option) list \<Rightarrow> jstext" where
  "emit_spans t [] = []"
| "emit_spans t ((tok, next) # toks) =
     (case tok of
        Lit_text v \<Rightarrow> v @ emit_spans (Suc t) toks
      | Btrun l canOpen \<Rightarrow>
          if \<not> canOpen then replicate l 32 @ emit_spans (Suc t) toks
          else (case next of
                  None \<Rightarrow> replicate l 32 @ emit_spans (Suc t) toks
                | Some close \<Rightarrow>
                    [32] @ normaliseCodeSpanContent
                        (concat (map (\<lambda>x. token_source (fst x)) (take (close - Suc t) toks)))
                      @ [32] @ emit_spans (Suc close) (drop (Suc close - Suc t) toks)))"
  by pat_completeness auto
termination by (relation "measure (\<lambda>(t, toks). length toks)") auto

definition neutraliseInlineMarkup :: "(nat \<Rightarrow> bool) \<Rightarrow> jstext \<Rightarrow> jstext" where
  "neutraliseInlineMarkup wc prompt =
     (let tokens = tokenize wc None [] False prompt in
      emit_spans 0 (zip tokens (fst (link_runs 0 tokens))))"

section \<open>Sentence segmenter\<close>

fun starts_upper :: "(nat \<Rightarrow> bool) \<Rightarrow> jstext \<Rightarrow> bool" where
  "starts_upper lu [] = False"
| "starts_upper lu [u] = lu u"
| "starts_upper lu (u # v # us) =
     lu (if hi_surrogate u \<and> lo_surrogate v then 65536 + (u - 55296) * 1024 + (v - 56320) else u)"

definition opening_mark :: "nat \<Rightarrow> bool" where
  "opening_mark u \<longleftrightarrow> u = 34 \<or> u = 39 \<or> u = 8220 \<or> u = 8216 \<or> u = 40 \<or> u = 91"

definition closing_mark :: "nat \<Rightarrow> bool" where
  "closing_mark u \<longleftrightarrow> u = 34 \<or> u = 39 \<or> u = 8221 \<or> u = 8217 \<or> u = 41 \<or> u = 93"

definition soft_boundary_next :: "(nat \<Rightarrow> bool) \<Rightarrow> jstext \<Rightarrow> bool" where
  "soft_boundary_next lu v =
     ((case v of [] \<Rightarrow> False | u # _ \<Rightarrow> is_ws u)
      \<and> starts_upper lu (dropWhile opening_mark (dropWhile is_ws v)))"

definition blank_line_next :: "jstext \<Rightarrow> bool" where
  "blank_line_next v =
     (case dropWhile (\<lambda>u. u = 32 \<or> u = 9 \<or> u = 13) v of [] \<Rightarrow> False | u # _ \<Rightarrow> u = 10)"

text \<open>
  One turn of the scanning loop at a position: the units it takes, what is left, and whether the
  sentence ends there.
\<close>

definition scan_step :: "(nat \<Rightarrow> bool) \<Rightarrow> nat \<Rightarrow> jstext \<Rightarrow> jstext \<times> jstext \<times> bool" where
  "scan_step lu u us =
     (if u = SOFT_TERMINATOR then
        (let run = takeWhile (\<lambda>x. x = SOFT_TERMINATOR) us;
             rest = dropWhile (\<lambda>x. x = SOFT_TERMINATOR) us in
         (u # run, rest, rest = [] \<or> soft_boundary_next lu (take 48 rest)))
      else if u = 10 then
        ([u], us, blank_line_next (take 47 us) \<or> soft_boundary_next lu (take 48 (u # us)))
      else if \<not> terminator u then ([u], us, False)
      else
        (let run = takeWhile terminator us; rest = dropWhile terminator us in
         if list_ex fullwidth_terminator (u # run) then (u # run, rest, True)
         else
           (let closers = takeWhile closing_mark rest; after = dropWhile closing_mark rest in
            if after = [] \<or> is_ws (hd after) then (u # run @ closers, after, True)
            else (u # run, rest, False))))"

lemma scan_step_split: "scan_step lu u us = (taken, rest, ends) \<Longrightarrow> u # us = taken @ rest \<and> taken \<noteq> []"
  by (auto simp: scan_step_def Let_def split: if_splits)

lemma scan_step_less:
  assumes "(taken, rest, ends) = scan_step lu u us"
  shows "length rest < Suc (length us)" "length (dropWhile is_ws rest) < Suc (length us)"
proof -
  have "u # us = taken @ rest" "taken \<noteq> []" using scan_step_split [OF assms [symmetric]] by simp_all
  then have "length (u # us) = length taken + length rest" "0 < length taken"
    by (metis length_append, simp)
  then show r: "length rest < Suc (length us)" by simp
  show "length (dropWhile is_ws rest) < Suc (length us)"
    using r length_dropWhile_le [of is_ws rest] by linarith
qed

text \<open>The loop: cur is the text since the start of the sentence, the list what follows the position.\<close>

function segment_from :: "(nat \<Rightarrow> bool) \<Rightarrow> jstext \<Rightarrow> jstext \<Rightarrow> jstext list" where
  "segment_from lu cur [] = (if cur = [] then [] else [cur])"
| "segment_from lu cur (u # us) =
     (case scan_step lu u us of
        (taken, rest, ends) \<Rightarrow>
          if ends then (cur @ taken) # segment_from lu [] (dropWhile is_ws rest)
          else segment_from lu (cur @ taken) rest)"
  by pat_completeness auto
termination
  by (relation "measure (\<lambda>(lu, cur, us). length us)") (auto intro: scan_step_less)

definition segmentSentences :: "(nat \<Rightarrow> bool) \<Rightarrow> jstext \<Rightarrow> jstext list" where
  "segmentSentences lu v = segment_from lu [] v"

section \<open>Tool suppression\<close>

text \<open>
  The patterns run on code points, ignoring case: with the flags i and u the long s and the Kelvin
  sign also match the letters s and k.
\<close>

fun code_points :: "jstext \<Rightarrow> nat list" where
  "code_points [] = []"
| "code_points [u] = [u]"
| "code_points (u # v # us) =
     (if hi_surrogate u \<and> lo_surrogate v
      then (65536 + (u - 55296) * 1024 + (v - 56320)) # code_points us
      else u # code_points (v # us))"

definition fold_case :: "nat \<Rightarrow> nat" where
  "fold_case u = (if 65 \<le> u \<and> u \<le> 90 then u + 32 else if u = 383 then 115 else if u = 8490 then 107 else u)"

text \<open>The parts of a phrase: a class of letters, or white space repeated from a least number on.\<close>

datatype atom = Letter "nat list" | Spaces nat

definition word :: "string \<Rightarrow> atom list" where
  "word s = map (\<lambda>c. Letter [of_char c]) s"

fun phrase_rests :: "atom list \<Rightarrow> nat list \<Rightarrow> nat list list" where
  "phrase_rests [] us = [us]"
| "phrase_rests (Letter cs # ps) [] = []"
| "phrase_rests (Letter cs # ps) (u # us) = (if fold_case u \<in> set cs then phrase_rests ps us else [])"
| "phrase_rests (Spaces n # ps) us =
     concat (map (\<lambda>k. phrase_rests ps (drop k us)) [n..<Suc (length (takeWhile is_ws us))])"

definition TOOL_USE_VERB :: "atom list list" where
  "TOOL_USE_VERB =
     map word [''use'', ''using'', ''call'', ''calling'', ''invoke'', ''invoking'', ''run'', ''running'',
       ''execute'', ''executing'', ''access'', ''accessing'', ''touch'', ''touching'', ''issue'',
       ''issuing'', ''employ'', ''employing'', ''leverage'', ''leveraging'']
     @ [word ''utili'' @ Letter [115, 122] # word ''e'', word ''utili'' @ Letter [115, 122] # word ''ing'',
        word ''rely'' @ Spaces 1 # word ''on'', word ''relying'' @ Spaces 1 # word ''on'',
        word ''resort'' @ Spaces 1 # word ''to'', word ''resorting'' @ Spaces 1 # word ''to'']"

definition TOOL_NOUN :: "atom list list" where
  "TOOL_NOUN = map word [''tool'', ''tools'', ''shell'', ''bash'', ''command'', ''commands'']"

definition NEGATION :: "atom list list" where
  "NEGATION = [word ''do'' @ Spaces 0 # word ''not'', word ''don'' @ Letter [39, 8217] # word ''t'', word ''never'']"

text \<open>
  The combinators of the patterns, over the text before and after a position: a whole word of some
  phrases, a gap of at most k code points, and the search for a first position.
\<close>

definition starts_word :: "(nat \<Rightarrow> bool) \<Rightarrow> nat list \<Rightarrow> bool" where
  "starts_word wc pre \<longleftrightarrow> (pre = [] \<or> \<not> wc (last pre))"

definition ends_word :: "(nat \<Rightarrow> bool) \<Rightarrow> nat list \<Rightarrow> bool" where
  "ends_word wc rest \<longleftrightarrow> (case rest of [] \<Rightarrow> True | u # _ \<Rightarrow> \<not> wc u)"

definition uword ::
  "(nat \<Rightarrow> bool) \<Rightarrow> atom list list \<Rightarrow> (nat list \<Rightarrow> nat list \<Rightarrow> bool) \<Rightarrow> nat list \<Rightarrow> nat list \<Rightarrow> bool"
where
  "uword wc body nxt pre us \<longleftrightarrow> starts_word wc pre
     \<and> list_ex (\<lambda>r. ends_word wc r \<and> nxt (pre @ take (length us - length r) us) r)
         (concat (map (\<lambda>p. phrase_rests p us) body))"

fun within_gap :: "nat \<Rightarrow> (nat list \<Rightarrow> nat list \<Rightarrow> bool) \<Rightarrow> nat list \<Rightarrow> nat list \<Rightarrow> bool" where
  "within_gap 0 nxt pre us = nxt pre us"
| "within_gap (Suc k) nxt pre us =
     (nxt pre us \<or> (case us of [] \<Rightarrow> False | u # us' \<Rightarrow> within_gap k nxt (pre @ [u]) us'))"

fun anywhere :: "(nat list \<Rightarrow> nat list \<Rightarrow> bool) \<Rightarrow> nat list \<Rightarrow> nat list \<Rightarrow> bool" where
  "anywhere nxt pre [] = nxt pre []"
| "anywhere nxt pre (u # us) = (nxt pre (u # us) \<or> anywhere nxt (pre @ [u]) us)"

definition SUPPRESSION_VERB_NOUN :: "(nat \<Rightarrow> bool) \<Rightarrow> nat list \<Rightarrow> bool" where
  "SUPPRESSION_VERB_NOUN wc v =
     anywhere (uword wc NEGATION (within_gap 40 (uword wc TOOL_USE_VERB
       (within_gap 40 (uword wc TOOL_NOUN (\<lambda>_ _. True)))))) [] v"

definition WITHOUT_NOUN :: "(nat \<Rightarrow> bool) \<Rightarrow> nat list \<Rightarrow> bool" where
  "WITHOUT_NOUN wc v =
     anywhere (uword wc [word ''without''] (within_gap 40 (uword wc TOOL_NOUN (\<lambda>_ _. True)))) [] v"

definition containsToolSuppression :: "(nat \<Rightarrow> bool) \<Rightarrow> (nat \<Rightarrow> bool) \<Rightarrow> jstext \<Rightarrow> bool" where
  "containsToolSuppression wc lu prompt =
     list_ex (\<lambda>s. SUPPRESSION_VERB_NOUN wc (code_points s) \<or> WITHOUT_NOUN wc (code_points s))
       (segmentSentences lu (neutraliseInlineMarkup wc prompt))"

section \<open>Violations\<close>

datatype violation_type = Empty_allowed_tools | Critical_tools_disallowed | Tool_suppression

record review_violation =
  rv_type :: violation_type
  rv_score :: int
  rv_detail :: jstext

record review_result =
  ri_isReviewContext :: bool
  ri_violations :: "review_violation list"
  ri_totalScore :: int

definition CRITICAL_TOOLS :: "jstext list" where
  "CRITICAL_TOOLS = map lit [''Read'', ''Grep'', ''Glob'', ''Bash'']"

text \<open>The tool name of a scoped form: what precedes the first opening parenthesis or colon.\<close>

definition tool_name :: "jstext \<Rightarrow> jstext" where
  "tool_name trimmed = js_trim (takeWhile (\<lambda>u. u \<noteq> 40 \<and> u \<noteq> 58) trimmed)"

definition canonicalizeTools :: "jstext list \<Rightarrow> jstext list" where
  "canonicalizeTools tools = map tool_name (filter (\<lambda>t. t \<noteq> []) (map js_trim tools))"

definition checkReviewIntegrity ::
  "(nat \<Rightarrow> bool) \<Rightarrow> (nat \<Rightarrow> bool) \<Rightarrow> jstext \<Rightarrow> jstext list option \<Rightarrow> jstext list option \<Rightarrow> review_result"
where
  "checkReviewIntegrity wc lu prompt allowedTools disallowedTools =
     (let reviewContext = isReviewContext prompt;
          canonical = canonicalizeTools (nullish disallowedTools []);
          blockedCritical = filter (\<lambda>t. t \<in> set canonical) CRITICAL_TOOLS;
          violations =
            (if reviewContext \<and> allowedTools = Some []
             then [\<lparr>rv_type = Empty_allowed_tools, rv_score = 6,
                    rv_detail = lit ''Review request with empty allowedTools limits reviewer capability''\<rparr>]
             else [])
            @ (if reviewContext \<and> nullish disallowedTools [] \<noteq> [] \<and> blockedCritical \<noteq> []
               then [\<lparr>rv_type = Critical_tools_disallowed, rv_score = 6,
                      rv_detail = lit ''Critical review tools disallowed: ''
                        @ join_text (lit '', '') blockedCritical\<rparr>]
               else [])
            @ (if reviewContext \<and> containsToolSuppression wc lu prompt
               then [\<lparr>rv_type = Tool_suppression, rv_score = 4,
                      rv_detail = lit ''Prompt contains tool-suppression language in review context''\<rparr>]
               else []) in
      \<lparr>ri_isReviewContext = reviewContext, ri_violations = violations,
       ri_totalScore = sum_list (map rv_score violations)\<rparr>)"

section \<open>What the patterns mean\<close>

text \<open>The words a phrase stands for, and the declarative reading of the combinators.\<close>

fun in_phrase :: "atom list \<Rightarrow> nat list \<Rightarrow> bool" where
  "in_phrase [] w = (w = [])"
| "in_phrase (Letter cs # ps) w = (w \<noteq> [] \<and> fold_case (hd w) \<in> set cs \<and> in_phrase ps (tl w))"
| "in_phrase (Spaces n # ps) w =
     (\<exists>k. n \<le> k \<and> k \<le> length w \<and> list_all is_ws (take k w) \<and> in_phrase ps (drop k w))"

lemma take_ws_prefix: "k \<le> length (takeWhile P us) \<longleftrightarrow> k \<le> length us \<and> list_all P (take k us)"
proof (induction us arbitrary: k)
  case (Cons u us)
  then show ?case by (cases k) auto
qed simp

text \<open>The ways to split a text in two.\<close>

lemma split_Nil: "(\<exists>g b. [] = g @ b \<and> P g b) \<longleftrightarrow> P [] []"
  by auto

lemma split_Cons: "(\<exists>g b. u # us = g @ b \<and> P g b) \<longleftrightarrow> P [] (u # us) \<or> (\<exists>g b. us = g @ b \<and> P (u # g) b)"
proof
  assume "\<exists>g b. u # us = g @ b \<and> P g b"
  then obtain g b where "u # us = g @ b" "P g b" by blast
  then show "P [] (u # us) \<or> (\<exists>g b. us = g @ b \<and> P (u # g) b)" by (cases g) auto
next
  assume "P [] (u # us) \<or> (\<exists>g b. us = g @ b \<and> P (u # g) b)"
  then show "\<exists>g b. u # us = g @ b \<and> P g b" by (metis append_Cons append_Nil)
qed

lemma phrase_rests_Letter:
  "(\<exists>w. u # us = w @ r \<and> in_phrase (Letter cs # ps) w)
     \<longleftrightarrow> fold_case u \<in> set cs \<and> (\<exists>w. us = w @ r \<and> in_phrase ps w)" (is "?l \<longleftrightarrow> ?r")
proof
  assume ?l
  then obtain w where "u # us = w @ r" "in_phrase (Letter cs # ps) w" by blast
  then show ?r by (cases w) auto
next
  assume ?r
  then obtain w where "us = w @ r" "in_phrase ps w" "fold_case u \<in> set cs" by blast
  then show ?l by (intro exI [of _ "u # w"]) simp
qed

lemma phrase_rests_Spaces:
  "(\<exists>w. us = w @ r \<and> in_phrase (Spaces n # ps) w) \<longleftrightarrow>
     (\<exists>k. n \<le> k \<and> k \<le> length (takeWhile is_ws us) \<and> (\<exists>w. drop k us = w @ r \<and> in_phrase ps w))"
  (is "?l \<longleftrightarrow> ?r")
proof
  assume ?l
  then obtain w k where w: "us = w @ r" "n \<le> k" "k \<le> length w" "list_all is_ws (take k w)"
    "in_phrase ps (drop k w)" by auto
  then have "k \<le> length (takeWhile is_ws us)" by (simp add: take_ws_prefix)
  moreover have "drop k us = drop k w @ r" using w by simp
  ultimately show ?r using w by blast
next
  assume ?r
  then obtain k w where w: "n \<le> k" "k \<le> length us" "list_all is_ws (take k us)" "drop k us = w @ r"
    "in_phrase ps w" by (auto simp: take_ws_prefix)
  then have "us = (take k us @ w) @ r" by (metis append.assoc append_take_drop_id)
  moreover have "in_phrase (Spaces n # ps) (take k us @ w)"
    using w by (simp, intro exI [of _ k]) (simp add: min_absorb2)
  ultimately show ?l by blast
qed

lemma phrase_rests_iff: "r \<in> set (phrase_rests ps us) \<longleftrightarrow> (\<exists>w. us = w @ r \<and> in_phrase ps w)"
proof (induction ps us rule: phrase_rests.induct)
  case (3 cs ps u us)
  then show ?case unfolding phrase_rests_Letter by (cases "fold_case u \<in> set cs") simp_all
next
  case (4 n ps us)
  have "r \<in> set (phrase_rests (Spaces n # ps) us) \<longleftrightarrow>
      (\<exists>k. n \<le> k \<and> k \<le> length (takeWhile is_ws us) \<and> r \<in> set (phrase_rests ps (drop k us)))"
    by (auto simp: less_Suc_eq_le)
  moreover have "r \<in> set (phrase_rests ps (drop k us)) \<longleftrightarrow> (\<exists>w. drop k us = w @ r \<and> in_phrase ps w)"
    if "n \<le> k" "k \<le> length (takeWhile is_ws us)" for k
    using 4 [of k] that by (cases "k = length (takeWhile is_ws us)") simp_all
  ultimately show ?case unfolding phrase_rests_Spaces by blast
qed auto

definition whole_word :: "(nat \<Rightarrow> bool) \<Rightarrow> atom list list \<Rightarrow> nat list \<Rightarrow> nat list \<Rightarrow> nat list \<Rightarrow> bool" where
  "whole_word wc body a w b \<longleftrightarrow> starts_word wc a \<and> (\<exists>p\<in>set body. in_phrase p w) \<and> ends_word wc b"

lemma uword_iff:
  "uword wc body nxt a us \<longleftrightarrow> (\<exists>w b. us = w @ b \<and> whole_word wc body a w b \<and> nxt (a @ w) b)"
proof -
  let ?rs = "concat (map (\<lambda>p. phrase_rests p us) body)"
  have rs: "r \<in> set ?rs \<longleftrightarrow> (\<exists>w. us = w @ r \<and> (\<exists>p\<in>set body. in_phrase p w))" for r
    by (auto simp: phrase_rests_iff)
  have "(\<exists>r\<in>set ?rs. ends_word wc r \<and> nxt (a @ take (length us - length r) us) r)
      \<longleftrightarrow> (\<exists>w b. us = w @ b \<and> (\<exists>p\<in>set body. in_phrase p w) \<and> ends_word wc b \<and> nxt (a @ w) b)"
    (is "?l \<longleftrightarrow> ?r")
  proof
    assume ?l
    then obtain r w where "us = w @ r" "\<exists>p\<in>set body. in_phrase p w" "ends_word wc r"
      "nxt (a @ take (length us - length r) us) r" unfolding rs Bex_def by blast
    then show ?r by (intro exI [of _ w] exI [of _ r]) simp
  next
    assume ?r
    then obtain w b where w: "us = w @ b" "\<exists>p\<in>set body. in_phrase p w" "ends_word wc b" "nxt (a @ w) b"
      by blast
    then have "b \<in> set ?rs" unfolding rs by blast
    with w show ?l by (intro bexI [of _ b]) simp_all
  qed
  then show ?thesis by (auto simp: uword_def whole_word_def list_ex_iff)
qed

lemma within_gap_iff:
  "within_gap k nxt a us \<longleftrightarrow> (\<exists>g b. us = g @ b \<and> length g \<le> k \<and> nxt (a @ g) b)"
proof (induction k arbitrary: a us)
  case (Suc k)
  show ?case
  proof (cases us)
    case (Cons u us')
    show ?thesis unfolding Cons split_Cons using Suc by simp
  qed simp
qed simp

lemma anywhere_iff: "anywhere nxt a us \<longleftrightarrow> (\<exists>g b. us = g @ b \<and> nxt (a @ g) b)"
proof (induction us arbitrary: a)
  case (Cons u us)
  show ?case unfolding split_Cons using Cons by simp
qed simp

definition negated_tool_use :: "(nat \<Rightarrow> bool) \<Rightarrow> nat list \<Rightarrow> bool" where
  "negated_tool_use wc v \<longleftrightarrow>
     (\<exists>a n g u h t b. v = a @ n @ g @ u @ h @ t @ b \<and> length g \<le> 40 \<and> length h \<le> 40
        \<and> whole_word wc NEGATION a n (g @ u @ h @ t @ b)
        \<and> whole_word wc TOOL_USE_VERB (a @ n @ g) u (h @ t @ b)
        \<and> whole_word wc TOOL_NOUN (a @ n @ g @ u @ h) t b)"

definition without_tool :: "(nat \<Rightarrow> bool) \<Rightarrow> nat list \<Rightarrow> bool" where
  "without_tool wc v \<longleftrightarrow>
     (\<exists>a n h t b. v = a @ n @ h @ t @ b \<and> length h \<le> 40
        \<and> whole_word wc [word ''without''] a n (h @ t @ b) \<and> whole_word wc TOOL_NOUN (a @ n @ h) t b)"

lemma verb_noun_iff: "SUPPRESSION_VERB_NOUN wc v \<longleftrightarrow> negated_tool_use wc v"
  unfolding SUPPRESSION_VERB_NOUN_def negated_tool_use_def anywhere_iff uword_iff within_gap_iff
  by (fastforce simp: append.assoc)

lemma without_noun_iff: "WITHOUT_NOUN wc v \<longleftrightarrow> without_tool wc v"
  unfolding WITHOUT_NOUN_def without_tool_def anywhere_iff uword_iff within_gap_iff
  by (fastforce simp: append.assoc)


section \<open>What the segmenter guarantees\<close>

text \<open>No terminator inside the text is followed by white space.\<close>

definition unbroken :: "jstext \<Rightarrow> bool" where
  "unbroken v \<longleftrightarrow> successively (\<lambda>a b. \<not> (terminator a \<and> is_ws b)) v"

lemma terminator_units:
  "terminator u \<Longrightarrow> \<not> is_ws u" "closing_mark u \<Longrightarrow> \<not> is_ws u" "closing_mark u \<Longrightarrow> \<not> terminator u"
  "\<not> is_ws SOFT_TERMINATOR" "\<not> terminator SOFT_TERMINATOR"
  by (auto simp: terminator_def fullwidth_terminator_def is_ws_def closing_mark_def SOFT_TERMINATOR_def)

lemma unbroken_append:
  "unbroken (a @ b) \<longleftrightarrow> unbroken a \<and> unbroken b
     \<and> (a \<noteq> [] \<and> b \<noteq> [] \<longrightarrow> \<not> (terminator (last a) \<and> is_ws (hd b)))"
  by (auto simp: unbroken_def successively_append_iff)

lemma unbroken_no_ws: "list_all (\<lambda>u. \<not> is_ws u) v \<Longrightarrow> unbroken v"
proof (induction v)
  case (Cons u v)
  then show ?case by (cases v) (auto simp: unbroken_def)
qed (simp add: unbroken_def)

text \<open>The text read so far can go on with what follows.\<close>

definition cur_ok :: "jstext \<Rightarrow> jstext \<Rightarrow> bool" where
  "cur_ok cur us \<longleftrightarrow> unbroken cur
     \<and> (cur \<noteq> [] \<and> us \<noteq> [] \<longrightarrow> \<not> (terminator (last cur) \<and> is_ws (hd us)))"

lemma list_all_takeWhile: "list_all P (takeWhile P us)"
  by (auto simp: list_all_iff dest: set_takeWhileD)

text \<open>The four kinds of step.\<close>

lemma scan_step_cases:
  assumes "scan_step lu u us = (taken, rest, ends)"
  obtains (soft) "u = SOFT_TERMINATOR" "taken = u # takeWhile (\<lambda>x. x = SOFT_TERMINATOR) us"
    | (plain) "\<not> terminator u" "taken = [u]"
    | (full) "terminator u" "taken = u # takeWhile terminator us" "ends"
    | (closed) "terminator u" "taken = u # takeWhile terminator us @ takeWhile closing_mark (dropWhile terminator us)"
        "ends"
    | (open_end) "terminator u" "taken = u # takeWhile terminator us" "\<not> ends"
        "rest = dropWhile terminator us" "dropWhile closing_mark rest \<noteq> []"
        "\<not> is_ws (hd (dropWhile closing_mark rest))"
proof (cases "u = SOFT_TERMINATOR \<or> u = 10 \<or> \<not> terminator u")
  case True
  have "\<not> terminator 10" by (simp add: terminator_def fullwidth_terminator_def)
  with True assms soft plain show thesis
    by (auto simp: scan_step_def Let_def split: if_splits)
next
  case False
  with assms full closed open_end show thesis
    unfolding scan_step_def Let_def by (simp split: if_splits)
qed

lemma scan_step_ok:
  assumes "scan_step lu u us = (taken, rest, ends)"
  shows "unbroken taken \<and> (\<not> ends \<and> rest \<noteq> [] \<longrightarrow> \<not> (terminator (last taken) \<and> is_ws (hd rest)))"
  using assms
proof (cases rule: scan_step_cases)
  case soft
  have run: "\<forall>v\<in>set taken. v = SOFT_TERMINATOR" using soft by (auto dest: set_takeWhileD)
  then have "last taken = SOFT_TERMINATOR" using soft(2) last_in_set [of taken] by blast
  moreover have "\<forall>v\<in>set taken. \<not> is_ws v" using run terminator_units(4) by auto
  ultimately show ?thesis by (simp add: unbroken_no_ws list_all_iff terminator_units)
next
  case plain
  then show ?thesis by (simp add: unbroken_def)
next
  case full
  then have "\<forall>v\<in>set taken. terminator v" by (auto dest: set_takeWhileD)
  with full(3) show ?thesis by (simp add: unbroken_no_ws list_all_iff terminator_units)
next
  case closed
  then have "\<forall>v\<in>set taken. terminator v \<or> closing_mark v" by (auto dest: set_takeWhileD)
  then have "\<forall>v\<in>set taken. \<not> is_ws v" using terminator_units(1,2) by blast
  with closed(3) show ?thesis by (simp add: unbroken_no_ws list_all_iff)
next
  case open_end
  then have "\<forall>v\<in>set taken. terminator v" by (auto dest: set_takeWhileD)
  then have "unbroken taken" by (simp add: unbroken_no_ws list_all_iff terminator_units)
  moreover have "\<not> is_ws (hd rest)" if "rest \<noteq> []"
    using that open_end(5,6) by (cases rest) (auto simp: terminator_units split: if_splits)
  ultimately show ?thesis by blast
qed

lemma cur_ok_step:
  assumes "scan_step lu u us = (taken, rest, ends)" and "cur_ok cur (u # us)"
  shows "unbroken (cur @ taken)" "\<not> ends \<Longrightarrow> cur_ok (cur @ taken) rest"
proof -
  have t: "u # us = taken @ rest" "taken \<noteq> []" using scan_step_split [OF assms(1)] by simp_all
  then have "hd taken = u" by (metis hd_append2 list.sel(1))
  then show u: "unbroken (cur @ taken)"
    using assms(2) scan_step_ok [OF assms(1)] by (auto simp: unbroken_append cur_ok_def)
  show "cur_ok (cur @ taken) rest" if "\<not> ends"
    using u scan_step_ok [OF assms(1)] that t(2) by (auto simp: cur_ok_def)
qed

lemma cur_ok_start: "cur_ok [] us"
  by (simp add: cur_ok_def unbroken_def)

lemma segment_from_unbroken:
  "cur_ok cur us \<Longrightarrow> s \<in> set (segment_from lu cur us) \<Longrightarrow> s \<noteq> [] \<and> unbroken s"
proof (induction lu cur us rule: segment_from.induct)
  case (1 lu cur)
  then show ?case by (auto simp: cur_ok_def split: if_splits)
next
  case (2 lu cur u us)
  obtain taken rest ends where st: "scan_step lu u us = (taken, rest, ends)" by (cases "scan_step lu u us") auto
  have ne: "taken \<noteq> []" using scan_step_split [OF st] by simp
  note ok = cur_ok_step [OF st 2(3)]
  show ?case
    using 2(1) [OF st [symmetric] refl] 2(2) [OF st [symmetric] refl] 2(4) ok ne
    by (cases ends) (auto simp: st cur_ok_start)
qed

lemma filter_dropWhile_ws: "filter (\<lambda>u. \<not> is_ws u) (dropWhile is_ws v) = filter (\<lambda>u. \<not> is_ws u) v"
  by (induction v) auto

lemma segment_from_text:
  "filter (\<lambda>u. \<not> is_ws u) (concat (segment_from lu cur us)) = filter (\<lambda>u. \<not> is_ws u) (cur @ us)"
proof (induction lu cur us rule: segment_from.induct)
  case (2 lu cur u us)
  obtain taken rest ends where st: "scan_step lu u us = (taken, rest, ends)" by (cases "scan_step lu u us") auto
  have e: "cur @ u # us = cur @ taken @ rest" using scan_step_split [OF st] by simp
  show ?case
    using 2(1) [OF st [symmetric] refl] 2(2) [OF st [symmetric] refl]
    unfolding e by (cases ends) (simp_all add: st filter_dropWhile_ws)
qed simp

section \<open>What the normaliser guarantees\<close>

text \<open>A reference for the linking pass: the next run of the same length, found by rescanning.\<close>

fun first_run :: "nat \<Rightarrow> inline_token list \<Rightarrow> nat option" where
  "first_run l [] = None"
| "first_run l (Lit_text v # toks) = map_option Suc (first_run l toks)"
| "first_run l (Btrun k c # toks) = (if k = l then Some 0 else map_option Suc (first_run l toks))"

function emit_rescan :: "inline_token list \<Rightarrow> jstext" where
  "emit_rescan [] = []"
| "emit_rescan (Lit_text v # toks) = v @ emit_rescan toks"
| "emit_rescan (Btrun l canOpen # toks) =
     (case (if canOpen then first_run l toks else None) of
        None \<Rightarrow> replicate l 32 @ emit_rescan toks
      | Some k \<Rightarrow>
          [32] @ normaliseCodeSpanContent (concat (map token_source (take k toks))) @ [32]
            @ emit_rescan (drop (Suc k) toks))"
  by pat_completeness auto
termination by (relation "measure length") auto

fun links_of :: "nat \<Rightarrow> inline_token list \<Rightarrow> nat option list" where
  "links_of t [] = []"
| "links_of t (Lit_text v # toks) = None # links_of (Suc t) toks"
| "links_of t (Btrun l c # toks) = map_option (\<lambda>k. Suc (t + k)) (first_run l toks) # links_of (Suc t) toks"

lemma link_runs_links:
  "fst (link_runs t toks) = links_of t toks
   \<and> (\<forall>l. js_get (snd (link_runs t toks)) l = map_option (\<lambda>k. t + k) (first_run l toks))"
proof (induction t toks rule: link_runs.induct)
  case (2 t tok toks)
  obtain links m where e: "link_runs (Suc t) toks = (links, m)" by (cases "link_runs (Suc t) toks") auto
  with 2 show ?case by (cases tok) (auto simp: option.map_comp comp_def)
qed simp

lemma length_links_of [simp]: "length (links_of t toks) = length toks"
  by (induction t toks rule: links_of.induct) auto

lemma drop_links_of: "drop k (links_of t toks) = links_of (t + k) (drop k toks)"
proof (induction k arbitrary: t toks)
  case (Suc k)
  then show ?case
  proof (cases toks)
    case (Cons tok toks')
    then show ?thesis using Suc [of "Suc t" toks'] by (cases tok) simp_all
  qed simp
qed simp

lemma emit_spans_rescan: "emit_spans t (zip toks (links_of t toks)) = emit_rescan toks"
proof (induction toks arbitrary: t rule: emit_rescan.induct)
  case (3 l c toks)
  show ?case
  proof (cases "if c then first_run l toks else None")
    case None
    then show ?thesis using 3(1) [OF None] by (auto split: if_splits)
  next
    case (Some k)
    then have k: "c" "first_run l toks = Some k" by (auto split: if_splits)
    have z: "drop (Suc k) (zip toks (links_of (Suc t) toks))
        = zip (drop (Suc k) toks) (links_of (Suc (Suc (t + k))) (drop (Suc k) toks))"
      by (simp add: drop_zip drop_links_of)
    show ?thesis using 3(2) [OF Some, of "Suc (Suc (t + k))"] k z
      by (simp add: take_zip map_fst_zip [unfolded comp_def] flip: map_map [unfolded comp_def])
  qed
qed auto

text \<open>Text without markup: no backtick, asterisk or tilde.\<close>

definition plain_unit :: "nat \<Rightarrow> bool" where
  "plain_unit u \<longleftrightarrow> u \<noteq> 96 \<and> u \<noteq> 42 \<and> u \<noteq> 126"

definition lits_plain :: "inline_token list \<Rightarrow> bool" where
  "lits_plain toks = list_all (\<lambda>tok. case tok of Btrun _ _ \<Rightarrow> True | Lit_text v \<Rightarrow> list_all plain_unit v) toks"

lemma lits_plain_simps [simp]:
  "lits_plain []"
  "lits_plain (Lit_text v # toks) \<longleftrightarrow> list_all plain_unit v \<and> lits_plain toks"
  "lits_plain (Btrun l c # toks) \<longleftrightarrow> lits_plain toks"
  "lits_plain (toks @ toks') \<longleftrightarrow> lits_plain toks \<and> lits_plain toks'"
  by (auto simp: lits_plain_def)

lemma lits_plain_flush: "list_all plain_unit buf \<Longrightarrow> lits_plain (flush_buf buf)"
  by (simp add: flush_buf_def)

lemma literal_step_out:
  assumes "literal_step wc pre esc u us = (out, esc', rest)" and "u \<noteq> 96"
  shows "list_all plain_unit out \<and> SOFT_TERMINATOR \<notin> set out \<and> set rest \<subseteq> set us"
proof -
  have run: "set (u # takeWhile (\<lambda>x. x = u) us) \<subseteq> {u}" by (auto dest: set_takeWhileD)
  have rest: "set rest \<subseteq> set us"
    using assms(1) set_dropWhileD [of _ "\<lambda>x. x = u" us]
    by (simp add: literal_step_def Let_def split: if_splits) blast+
  have "set out \<subseteq> (if u = 42 \<or> u = 126 \<or> u = SOFT_TERMINATOR then {32} else {u, 32})"
    using assms(1) run
    by (simp add: literal_step_def Let_def SOFT_TERMINATOR_def del: takeWhile.simps split: if_splits) fastforce+
  then have "v \<in> set out \<Longrightarrow> plain_unit v \<and> v \<noteq> SOFT_TERMINATOR" for v
    using assms(2) by (auto simp: plain_unit_def SOFT_TERMINATOR_def split: if_splits)
  with rest show ?thesis by (auto simp: list_all_iff)
qed

lemma tokenize_plain: "list_all plain_unit buf \<Longrightarrow> lits_plain (tokenize wc pre buf esc us)"
proof (induction wc pre buf esc us rule: tokenize.induct)
  case (2 wc pre buf esc u us)
  obtain out esc' rest where st: "literal_step wc pre esc u us = (out, esc', rest)"
    by (cases "literal_step wc pre esc u us") auto
  show ?case
    using 2 literal_step_out [OF st] by (auto simp: st lits_plain_flush)
qed (simp add: lits_plain_flush)

lemma span_content_plain: "list_all plain_unit (normaliseCodeSpanContent v)"
  by (auto simp: normaliseCodeSpanContent_def Let_def list_all_iff trim_end_def plain_unit_def SOFT_TERMINATOR_def
      dest!: set_dropWhileD split: if_splits)

lemma emit_rescan_plain: "lits_plain toks \<Longrightarrow> list_all plain_unit (emit_rescan toks)"
proof (induction toks rule: emit_rescan.induct)
  case (3 l c toks)
  have "lits_plain (drop k toks)" for k
    using 3(3) by (auto simp: lits_plain_def list_all_iff dest: in_set_dropD)
  moreover have "list_all plain_unit (replicate l 32)" by (simp add: list_all_iff plain_unit_def)
  ultimately show ?case
    using 3 by (cases "if c then first_run l toks else None")
      (auto simp: span_content_plain plain_unit_def [of 32])
qed auto

lemma tokenize_no_backtick:
  "96 \<notin> set us \<Longrightarrow>
     \<exists>w. tokenize wc pre buf esc us = flush_buf (buf @ w) \<and> length w = length us \<and> SOFT_TERMINATOR \<notin> set w"
proof (induction wc pre buf esc us rule: tokenize.induct)
  case (2 wc pre buf esc u us)
  obtain out esc' rest where st: "literal_step wc pre esc u us = (out, esc', rest)"
    by (cases "literal_step wc pre esc u us") auto
  have u: "u \<noteq> 96" "96 \<notin> set us" using 2(3) by auto
  note out = literal_step_out [OF st u(1)] literal_step_length [OF st]
  obtain w where w: "tokenize wc (Some u) (buf @ out) esc' rest = flush_buf ((buf @ out) @ w)"
    "length w = length rest" "SOFT_TERMINATOR \<notin> set w"
    using 2(2) [OF u(1) st [symmetric] refl] out u(2) by blast
  then show ?case using out u(1) by (intro exI [of _ "out @ w"]) (simp add: st)
qed simp

lemma neutralise_rescan: "neutraliseInlineMarkup wc prompt = emit_rescan (tokenize wc None [] False prompt)"
  by (simp add: neutraliseInlineMarkup_def Let_def link_runs_links emit_spans_rescan)

section \<open>Main properties\<close>


text \<open>
  Sentences do not glue. The segments of a text are non-empty, together hold all its units other
  than white space in order, and none contains a terminator followed by white space: a negation of one
  sentence never reaches the next.
\<close>

theorem sentences_do_not_glue:
  "filter (\<lambda>u. \<not> is_ws u) (concat (segmentSentences lu v)) = filter (\<lambda>u. \<not> is_ws u) v
   \<and> list_all (\<lambda>s. s \<noteq> [] \<and> successively (\<lambda>a b. \<not> (terminator a \<and> is_ws b)) s) (segmentSentences lu v)"
  using segment_from_text [of lu "[]" v] segment_from_unbroken [OF cur_ok_start, of _ lu v]
  by (simp add: segmentSentences_def list_all_iff unbroken_def)

text \<open>
  C26: what counts as tool suppression. A prompt is flagged exactly when some sentence of its
  normalised text has a whole-word negation, at most forty characters further a whole-word verb of
  use and at most forty further a whole-word tool noun, or the word without and at most forty
  characters further a tool noun.
\<close>

theorem suppression_iff:
  "containsToolSuppression wc lu prompt \<longleftrightarrow>
     (\<exists>s\<in>set (segmentSentences lu (neutraliseInlineMarkup wc prompt)).
        negated_tool_use wc (code_points s) \<or> without_tool wc (code_points s))"
  by (simp add: containsToolSuppression_def list_ex_iff verb_noun_iff without_noun_iff)

end
