(* ===== verification/Approval.thy ===== *)
theory Approval
  imports Review_Integrity
begin

text \<open>
  Managed approval: the score, the decision and the log of src/src/approval-manager.ts, with the
  approval weights of src/src/mcp-registry.ts, and the bridge that answers an ACP agent's permission
  requests through it (src/src/acp/permission-bridge.ts).

  The process environment is a partial map, the SHA-256 digest a function argument, the identifier
  and the time of a record are given to the step, and the log file is its text; whether an append
  fails is an argument of the step.
\<close>

section \<open>Requests and records\<close>

datatype policy = Strict | Balanced | Permissive
datatype approval_cli = Cli_claude | Cli_codex | Cli_gemini | Cli_grok | Cli_mistral | Cli_devin | Cli_cursor
datatype approval_status = Approved | Denied

type_synonym environment = "string \<Rightarrow> jstext option"

record approval_request =
  aq_cli :: approval_cli
  aq_operation :: jstext
  aq_prompt :: jstext
  aq_bypassRequested :: bool
  aq_fullAuto :: bool
  aq_requestedMcpServers :: "jstext list"
  aq_allowedTools :: "jstext list option"
  aq_disallowedTools :: "jstext list option"
  aq_policy :: "policy option"
  aq_metadata :: "json option"
  aq_reviewIntegrity :: "review_result option"

record approval_record =
  ap_id :: jstext
  ap_ts :: time
  ap_status :: approval_status
  ap_policy :: policy
  ap_cli :: approval_cli
  ap_operation :: jstext
  ap_score :: int
  ap_reasons :: "jstext list"
  ap_promptPreview :: jstext
  ap_promptSha256 :: jstext
  ap_requestedMcpServers :: "jstext list"
  ap_bypassRequested :: bool
  ap_fullAuto :: bool
  ap_metadata :: "json option"
  ap_reviewIntegrity :: "review_result option"

fun cli_name :: "approval_cli \<Rightarrow> jstext" where
  "cli_name Cli_claude = lit ''claude''"
| "cli_name Cli_codex = lit ''codex''"
| "cli_name Cli_gemini = lit ''gemini''"
| "cli_name Cli_grok = lit ''grok''"
| "cli_name Cli_mistral = lit ''mistral''"
| "cli_name Cli_devin = lit ''devin''"
| "cli_name Cli_cursor = lit ''cursor''"

section \<open>Operator settings\<close>

definition env_text :: "environment \<Rightarrow> string \<Rightarrow> jstext" where
  "env_text env k = js_trim (nullish (env k) [])"

definition parsePolicy :: "environment \<Rightarrow> policy option \<Rightarrow> policy" where
  "parsePolicy env p =
     (case p of
        Some q \<Rightarrow> q
      | None \<Rightarrow>
          (let raw = env_text env ''LLM_GATEWAY_APPROVAL_POLICY'' in
           if raw = lit ''strict'' then Strict
           else if raw = lit ''balanced'' then Balanced
           else if raw = lit ''permissive'' then Permissive
           else Balanced))"

definition bypassAllowedByOperator :: "environment \<Rightarrow> bool" where
  "bypassAllowedByOperator env =
     (let raw = ascii_lower (env_text env ''LLM_GATEWAY_APPROVAL_ALLOW_BYPASS'') in
      raw = lit ''1'' \<or> raw = lit ''true'' \<or> raw = lit ''yes'' \<or> raw = lit ''on'')"

definition promptPreview :: "environment \<Rightarrow> jstext \<Rightarrow> jstext" where
  "promptPreview env prompt =
     (if env ''APPROVAL_LOG_PROMPTS'' = Some (lit ''1'')
      then take 280 (js_trim (replace_runs is_ws prompt))
      else lit ''[redacted]'')"

section \<open>Scoring\<close>

text \<open>The registry's approval weights, in declaration order; the other entries have none.\<close>

definition INTERNAL_MCP_REGISTRY :: "(jstext \<times> (int \<times> jstext) option) list" where
  "INTERNAL_MCP_REGISTRY =
     [(lit ''sqry'', None),
      (lit ''exa'', Some (2, lit ''Request enables external web/company research MCP (exa)'')),
      (lit ''ref_tools'', Some (1, lit ''Request enables documentation retrieval MCP (ref_tools)'')),
      (lit ''trstr'', None),
      (lit ''agent_browser'', Some (4, lit ''Request enables browser automation MCP (agent_browser)''))]"

definition SENSITIVE_WORDS :: "jstext list" where
  "SENSITIVE_WORDS = map lit
     [''delete'', ''destroy'', ''wipe'', ''exfiltrate'', ''credential'', ''token'', ''password'', ''secret'']"

definition sensitive_prompt :: "jstext \<Rightarrow> bool" where
  "sensitive_prompt prompt = has_word SENSITIVE_WORDS (ascii_lower prompt)"

text \<open>
  Each scoring branch gives the points and reasons it adds, in the order of the code; an em dash is
  the code unit 8212.
\<close>

type_synonym findings = "(int \<times> jstext) list"

definition posture_findings :: "approval_request \<Rightarrow> findings" where
  "posture_findings q =
     (if aq_bypassRequested q
      then [(3, lit ''Request includes a bypass or unverified execution posture'')] else [])
     @ (if aq_fullAuto q then [(2, lit ''Request enables full-auto execution'')] else [])
     @ (if aq_bypassRequested q \<and> aq_fullAuto q
        then [(2, lit ''Request combines full permission bypass with full-auto execution'')] else [])"

definition server_findings :: "approval_request \<Rightarrow> findings" where
  "server_findings q =
     concat (map (\<lambda>(name, entry). case entry of
         Some (score, reason) \<Rightarrow> if name \<in> set (aq_requestedMcpServers q) then [(score, reason)] else []
       | None \<Rightarrow> []) INTERNAL_MCP_REGISTRY)"

definition allowed_findings :: "approval_request \<Rightarrow> findings" where
  "allowed_findings q =
     (if aq_allowedTools q = Some [] then
        (if isReviewContext (aq_prompt q)
         then [(6, lit ''Empty allowedTools in review context '' @ [8212]
                   @ lit '' reviewers need tool access'')]
         else [(0, lit ''No tool permissions requested'')])
      else [])"

definition disallowed_findings :: "approval_request \<Rightarrow> findings" where
  "disallowed_findings q =
     (case aq_disallowedTools q of
        None \<Rightarrow> []
      | Some tools \<Rightarrow>
          if tools = [] then []
          else
            (let canonicalized = map (\<lambda>t. tool_name (js_trim t)) tools;
                 blockedCritical = filter (\<lambda>t. t \<in> set canonicalized) CRITICAL_TOOLS in
             if isReviewContext (aq_prompt q) \<and> blockedCritical \<noteq> []
             then [(6, lit ''Critical review tools disallowed: '' @ join_text (lit '', '') blockedCritical
                       @ [32, 8212] @ lit '' reviewers need these'')]
             else [(0, lit ''Has explicit disallowed tool restrictions'')]))"

definition keyword_findings :: "approval_request \<Rightarrow> findings" where
  "keyword_findings q =
     (if sensitive_prompt (aq_prompt q)
      then [(3, lit ''Prompt contains sensitive or destructive keywords'')] else [])"

definition integrity_findings :: "approval_request \<Rightarrow> findings" where
  "integrity_findings q =
     (case aq_reviewIntegrity q of
        None \<Rightarrow> []
      | Some r \<Rightarrow>
          map (\<lambda>v. (rv_score v, lit ''Review integrity: '' @ rv_detail v))
            (filter (\<lambda>v. rv_type v \<noteq> Empty_allowed_tools \<and> rv_type v \<noteq> Critical_tools_disallowed)
               (ri_violations r)))"

definition all_findings :: "approval_request \<Rightarrow> findings" where
  "all_findings q = posture_findings q @ server_findings q @ allowed_findings q @ disallowed_findings q
     @ keyword_findings q @ integrity_findings q"

definition approval_score :: "approval_request \<Rightarrow> int" where
  "approval_score q = sum_list (map fst (all_findings q))"

fun threshold :: "policy \<Rightarrow> int" where
  "threshold Strict = 2"
| "threshold Balanced = 5"
| "threshold Permissive = 7"

definition BYPASS_DENIED :: jstext where
  "BYPASS_DENIED =
     lit ''Bypass or unverified execution posture denied by default under MCP-managed approval ''
     @ lit ''(set LLM_GATEWAY_APPROVAL_ALLOW_BYPASS=1 to permit)''"

definition decision :: "environment \<Rightarrow> (jstext \<Rightarrow> jstext) \<Rightarrow> jstext \<Rightarrow> time \<Rightarrow> approval_request \<Rightarrow> approval_record" where
  "decision env sha256 newId now q =
     (let policy = parsePolicy env (aq_policy q);
          score = approval_score q;
          bypassDeniedByDefault = (aq_bypassRequested q \<and> \<not> bypassAllowedByOperator env);
          status = (if bypassDeniedByDefault then Denied
                    else if score \<le> threshold policy then Approved else Denied) in
      \<lparr>ap_id = newId, ap_ts = now, ap_status = status, ap_policy = policy, ap_cli = aq_cli q,
       ap_operation = aq_operation q, ap_score = score,
       ap_reasons = map snd (all_findings q) @ (if bypassDeniedByDefault then [BYPASS_DENIED] else []),
       ap_promptPreview = promptPreview env (aq_prompt q), ap_promptSha256 = sha256 (aq_prompt q),
       ap_requestedMcpServers = aq_requestedMcpServers q, ap_bypassRequested = aq_bypassRequested q,
       ap_fullAuto = aq_fullAuto q, ap_metadata = aq_metadata q,
       ap_reviewIntegrity = aq_reviewIntegrity q\<rparr>)"

section \<open>The log\<close>

text \<open>
  The log logf's text (None before the first append). JSON.stringify and JSON.parse of a record are
  the codec; a line that does not parse is skipped.
\<close>

record approval_codec =
  ac_stringify :: "approval_record \<Rightarrow> jstext"
  ac_parse :: "jstext \<Rightarrow> approval_record option"

datatype append_error = Append_failed

text \<open>decide: the record, appended to the log, or the exception of the append.\<close>

definition decide ::
  "environment \<Rightarrow> (jstext \<Rightarrow> jstext) \<Rightarrow> approval_codec \<Rightarrow> bool \<Rightarrow> jstext \<Rightarrow> time \<Rightarrow> approval_request
     \<Rightarrow> jstext option \<Rightarrow> (append_error + approval_record) \<times> jstext option"
where
  "decide env sha256 codec appends newId now q logf =
     (let r = decision env sha256 newId now q in
      if appends then (Inr r, Some (nullish logf [] @ ac_stringify codec r @ [10]))
      else (Inl Append_failed, logf))"

definition log_rows :: "approval_codec \<Rightarrow> jstext \<Rightarrow> approval_record list" where
  "log_rows codec content =
     List.map_filter (ac_parse codec) (filter (\<lambda>l. l \<noteq> []) (map js_trim (text_lines content)))"

definition list_records ::
  "approval_codec \<Rightarrow> int \<Rightarrow> approval_cli option \<Rightarrow> jstext option \<Rightarrow> approval_record list"
where
  "list_records codec limit cli logf =
     (case logf of
        None \<Rightarrow> []
      | Some content \<Rightarrow>
          (let rows = log_rows codec content;
               filtered = (case cli of Some c \<Rightarrow> filter (\<lambda>r. ap_cli r = c) rows | None \<Rightarrow> rows) in
           rev (drop (nat (max 0 (int (length filtered) - limit))) filtered)))"

section \<open>The ACP permission bridge\<close>

datatype permission_category = Read_cat | Write_cat | Execute_cat | Other_cat

text \<open>
  toLowerCase, for comparisons with ASCII words: besides the ASCII capitals only the Kelvin sign has
  an ASCII lower case; every other unit is kept, which no such comparison can tell.
\<close>

definition js_lower :: "jstext \<Rightarrow> jstext" where
  "js_lower = map (\<lambda>u. if 65 \<le> u \<and> u \<le> 90 then u + 32 else if u = 8490 then 107 else u)"

definition lower_if_string :: "json option \<Rightarrow> jstext" where
  "lower_if_string j = (case j of Some (JStr s) \<Rightarrow> js_lower s | _ \<Rightarrow> [])"

definition categorizeToolCall :: "json \<Rightarrow> permission_category" where
  "categorizeToolCall toolCall =
     (let kind = lower_if_string (jfield toolCall ''kind'') in
      if kind \<in> {lit ''edit'', lit ''delete'', lit ''move''} then Write_cat
      else if kind = lit ''execute'' then Execute_cat
      else if kind \<in> {lit ''read'', lit ''search'', lit ''think''} then Read_cat
      else Other_cat)"

fun category_name :: "permission_category \<Rightarrow> jstext" where
  "category_name Read_cat = lit ''read''"
| "category_name Write_cat = lit ''write''"
| "category_name Execute_cat = lit ''execute''"
| "category_name Other_cat = lit ''other''"

record permission_option =
  po_optionId :: jstext
  po_kind :: "jstext option"

definition option_kind :: "permission_option \<Rightarrow> jstext" where
  "option_kind opt = (case po_kind opt of Some k \<Rightarrow> js_lower k | None \<Rightarrow> [])"

definition selectSingleUseAllow :: "permission_option list \<Rightarrow> permission_option option" where
  "selectSingleUseAllow options =
     (case find (\<lambda>opt. option_kind opt = lit ''allow_once'') options of
        Some opt \<Rightarrow> Some opt
      | None \<Rightarrow> find (\<lambda>opt. prefix (lit ''allow'') (option_kind opt)
                    \<and> \<not> text_includes (option_kind opt) (lit ''always'')) options)"

record bridge_deps =
  bd_provider :: approval_cli
  bd_allowWrite :: "bool option"
  bd_allowTerminal :: "bool option"
  bd_policy :: "policy option"

datatype permission_outcome = Cancelled | Selected jstext

definition acp_approval_request :: "bridge_deps \<Rightarrow> permission_category \<Rightarrow> nat \<Rightarrow> approval_request" where
  "acp_approval_request deps category optionCount =
     \<lparr>aq_cli = bd_provider deps,
      aq_operation = lit ''acp_permission:'' @ category_name category,
      aq_prompt = lit ''ACP permission request from '' @ cli_name (bd_provider deps),
      aq_bypassRequested = False, aq_fullAuto = False, aq_requestedMcpServers = [],
      aq_allowedTools = None, aq_disallowedTools = None, aq_policy = bd_policy deps,
      aq_metadata = Some (JObj [(''acp'', JBool True), (''category'', JStr (category_name category)),
        (''optionCount'', JNum (of_nat optionCount))]),
      aq_reviewIntegrity = None\<rparr>"

definition request_permission ::
  "bridge_deps \<Rightarrow> environment \<Rightarrow> (jstext \<Rightarrow> jstext) \<Rightarrow> approval_codec \<Rightarrow> bool \<Rightarrow> jstext \<Rightarrow> time
     \<Rightarrow> json \<Rightarrow> permission_option list \<Rightarrow> jstext option \<Rightarrow> permission_outcome \<times> jstext option"
where
  "request_permission deps env sha256 codec appends newId now toolCall options logf =
     (let category = categorizeToolCall toolCall in
      if category = Write_cat \<and> bd_allowWrite deps \<noteq> Some True then (Cancelled, logf)
      else if category = Execute_cat \<and> bd_allowTerminal deps \<noteq> Some True then (Cancelled, logf)
      else if category = Other_cat then (Cancelled, logf)
      else
        (case decide env sha256 codec appends newId now
                (acp_approval_request deps category (length options)) logf of
           (Inl _, logf') \<Rightarrow> (Cancelled, logf')
         | (Inr r, logf') \<Rightarrow>
             if ap_status r \<noteq> Approved then (Cancelled, logf')
             else
               (case selectSingleUseAllow options of
                  None \<Rightarrow> (Cancelled, logf')
                | Some allow \<Rightarrow> (Selected (po_optionId allow), logf'))))"

section \<open>Scores\<close>

lemmas finding_defs = posture_findings_def server_findings_def allowed_findings_def disallowed_findings_def
  keyword_findings_def integrity_findings_def

text \<open>The points of a group of findings.\<close>

definition points :: "findings \<Rightarrow> int" where
  "points fs = sum_list (map fst fs)"

lemma points_simps [simp]:
  "points [] = 0" "points ((n, r) # fs) = n + points fs" "points (fs @ fs') = points fs + points fs'"
  by (simp_all add: points_def)

lemma score_parts:
  "approval_score q = points (posture_findings q) + points (server_findings q) + points (allowed_findings q)
     + points (disallowed_findings q) + points (keyword_findings q) + points (integrity_findings q)"
  by (simp add: approval_score_def all_findings_def flip: points_def)

lemma server_points:
  "points (server_findings q) = (if lit ''exa'' \<in> set (aq_requestedMcpServers q) then 2 else 0)
     + (if lit ''ref_tools'' \<in> set (aq_requestedMcpServers q) then 1 else 0)
     + (if lit ''agent_browser'' \<in> set (aq_requestedMcpServers q) then 4 else 0)"
  by (simp add: server_findings_def INTERNAL_MCP_REGISTRY_def)

text \<open>
  The request carries the integrity result of its prompt, as the callers pass it (with or without the
  tools).
\<close>

definition integrity_checked :: "(nat \<Rightarrow> bool) \<Rightarrow> (nat \<Rightarrow> bool) \<Rightarrow> approval_request \<Rightarrow> bool" where
  "integrity_checked wc lu q \<longleftrightarrow>
     (\<exists>allowed disallowed. aq_reviewIntegrity q = Some (checkReviewIntegrity wc lu (aq_prompt q) allowed disallowed))"

lemma integrity_points:
  "integrity_checked wc lu q \<Longrightarrow> points (integrity_findings q) =
     (if isReviewContext (aq_prompt q) \<and> containsToolSuppression wc lu (aq_prompt q) then 4 else 0)"
  by (auto simp: integrity_checked_def integrity_findings_def checkReviewIntegrity_def Let_def)

text \<open>
  The order of requests by risk: the same prompt and integrity result, and no flag, server or tool
  restriction that the second has not; an empty list of allowed tools is the only one that counts.
\<close>

definition no_riskier :: "approval_request \<Rightarrow> approval_request \<Rightarrow> bool" where
  "no_riskier q q' \<longleftrightarrow> aq_prompt q = aq_prompt q' \<and> aq_reviewIntegrity q = aq_reviewIntegrity q'
     \<and> (aq_bypassRequested q \<longrightarrow> aq_bypassRequested q') \<and> (aq_fullAuto q \<longrightarrow> aq_fullAuto q')
     \<and> set (aq_requestedMcpServers q) \<subseteq> set (aq_requestedMcpServers q')
     \<and> (aq_allowedTools q = Some [] \<longrightarrow> aq_allowedTools q' = Some [])
     \<and> set (nullish (aq_disallowedTools q) []) \<subseteq> set (nullish (aq_disallowedTools q') [])"

definition blocked_critical :: "approval_request \<Rightarrow> bool" where
  "blocked_critical q \<longleftrightarrow>
     (\<exists>t\<in>set (nullish (aq_disallowedTools q) []). tool_name (js_trim t) \<in> set CRITICAL_TOOLS)"

lemma disallowed_points:
  "points (disallowed_findings q) = (if isReviewContext (aq_prompt q) \<and> blocked_critical q then 6 else 0)"
proof (cases "aq_disallowedTools q")
  case (Some tools)
  have "filter (\<lambda>t. t \<in> set (map (\<lambda>t. tool_name (js_trim t)) tools)) CRITICAL_TOOLS \<noteq> [] \<longleftrightarrow> blocked_critical q"
    by (auto simp: filter_empty_conv blocked_critical_def Some)
  moreover have "tools = [] \<Longrightarrow> \<not> blocked_critical q" by (simp add: blocked_critical_def Some)
  ultimately show ?thesis by (auto simp: disallowed_findings_def Some Let_def)
qed (simp add: disallowed_findings_def blocked_critical_def)

lemma score_monotone:
  assumes "no_riskier q q'"
  shows "approval_score q \<le> approval_score q'"
proof -
  have "points (posture_findings q) \<le> points (posture_findings q')"
    using assms by (auto simp: no_riskier_def posture_findings_def)
  moreover have "points (server_findings q) \<le> points (server_findings q')"
    using assms by (auto simp: no_riskier_def server_points)
  moreover have "points (allowed_findings q) \<le> points (allowed_findings q')"
    using assms by (auto simp: no_riskier_def allowed_findings_def)
  moreover have "points (disallowed_findings q) \<le> points (disallowed_findings q')"
    using assms by (auto simp: no_riskier_def disallowed_points blocked_critical_def)
  moreover have "points (keyword_findings q) = points (keyword_findings q')"
    "points (integrity_findings q) = points (integrity_findings q')"
    using assms by (simp_all add: no_riskier_def keyword_findings_def integrity_findings_def)
  ultimately show ?thesis by (simp add: score_parts)
qed

lemma decision_status:
  "ap_status (decision env sha256 newId now q) = Approved \<longleftrightarrow>
     (aq_bypassRequested q \<longrightarrow> bypassAllowedByOperator env)
     \<and> approval_score q \<le> threshold (parsePolicy env (aq_policy q))"
  by (simp add: decision_def Let_def)

section \<open>Log rows\<close>

definition codec_ok :: "approval_codec \<Rightarrow> approval_record \<Rightarrow> bool" where
  "codec_ok codec r \<longleftrightarrow> ac_parse codec (ac_stringify codec r) = Some r
     \<and> 10 \<notin> set (ac_stringify codec r) \<and> ac_stringify codec r \<noteq> []
     \<and> js_trim (ac_stringify codec r) = ac_stringify codec r"

text \<open>A log all of whose lines are complete.\<close>

definition complete_log :: "jstext option \<Rightarrow> bool" where
  "complete_log logf = (case logf of None \<Rightarrow> True | Some v \<Rightarrow> v = [] \<or> last v = 10)"

definition file_rows :: "approval_codec \<Rightarrow> jstext option \<Rightarrow> approval_record list" where
  "file_rows codec logf = (case logf of None \<Rightarrow> [] | Some v \<Rightarrow> log_rows codec v)"

lemma js_trim_Nil [simp]: "js_trim [] = []"
  by (simp add: js_trim_def)

lemma log_rows_line:
  assumes "complete_log logf" and "codec_ok codec r"
  shows "log_rows codec (nullish logf [] @ ac_stringify codec r @ [10]) = file_rows codec logf @ [r]"
proof -
  have new: "text_lines (ac_stringify codec r @ [10]) = [ac_stringify codec r, []]"
    using assms(2) text_lines_append [of "ac_stringify codec r" "[]"]
    by (simp add: codec_ok_def text_lines_line)
  have old: "log_rows codec (v @ [10]) = List.map_filter (ac_parse codec) (filter (\<lambda>l. l \<noteq> []) (map js_trim (text_lines v)))"
    for v using text_lines_append [of v "[]"] by (simp add: log_rows_def)
  show ?thesis
  proof (cases "nullish logf [] = []")
    case True
    then have "file_rows codec logf = []"
      by (cases logf) (simp_all add: file_rows_def log_rows_def map_filter_simps)
    with True new assms(2) show ?thesis
      by (simp add: log_rows_def map_filter_simps codec_ok_def)
  next
    case False
    then obtain v where v: "logf = Some (v @ [10])"
      using assms(1) by (cases logf) (auto simp: complete_log_def, metis append_butlast_last_id)
    have "text_lines (v @ 10 # ac_stringify codec r @ [10]) = text_lines v @ [ac_stringify codec r, []]"
      using text_lines_append [of v "ac_stringify codec r @ [10]"] new by simp
    then show ?thesis using v assms(2) old [of v]
      by (simp add: log_rows_def file_rows_def map_filter_def codec_ok_def)
  qed
qed

text \<open>A session of decisions: each entry says whether its append succeeds.\<close>

fun decide_all ::
  "environment \<Rightarrow> (jstext \<Rightarrow> jstext) \<Rightarrow> approval_codec \<Rightarrow> (bool \<times> jstext \<times> time \<times> approval_request) list
     \<Rightarrow> jstext option \<Rightarrow> jstext option"
where
  "decide_all env sha256 codec [] logf = logf"
| "decide_all env sha256 codec ((appends, newId, now, q) # ds) logf =
     decide_all env sha256 codec ds (snd (decide env sha256 codec appends newId now q logf))"

definition appended_records ::
  "environment \<Rightarrow> (jstext \<Rightarrow> jstext) \<Rightarrow> (bool \<times> jstext \<times> time \<times> approval_request) list \<Rightarrow> approval_record list"
where
  "appended_records env sha256 ds =
     map (\<lambda>(appends, newId, now, q). decision env sha256 newId now q) (filter fst ds)"

lemma decide_all_rows:
  assumes "complete_log logf" and "\<forall>r\<in>set (appended_records env sha256 ds). codec_ok codec r"
  shows "file_rows codec (decide_all env sha256 codec ds logf)
     = file_rows codec logf @ appended_records env sha256 ds"
  using assms
proof (induction ds arbitrary: logf)
  case (Cons d ds)
  obtain appends newId now q where d: "d = (appends, newId, now, q)" by (cases d) auto
  show ?case
  proof (cases appends)
    case True
    then have "codec_ok codec (decision env sha256 newId now q)"
      using Cons(3) by (simp add: appended_records_def d)
    from log_rows_line [OF Cons(2) this] True Cons(1) Cons(3) show ?thesis
      by (simp add: d decide_def Let_def appended_records_def complete_log_def file_rows_def [of _ "Some _"])
  next
    case False
    with Cons show ?thesis by (simp add: d decide_def Let_def appended_records_def)
  qed
qed (simp add: appended_records_def)

section \<open>The bridge\<close>

lemma acp_prompt_not_sensitive: "\<not> sensitive_prompt (lit ''ACP permission request from '' @ cli_name c)"
  by (cases c; hypsubst; code_simp)

text \<open>The content-free request of the bridge always scores 0, so every policy approves it.\<close>

lemma acp_request_score: "approval_score (acp_approval_request deps cat n) = 0"
  by (simp add: score_parts finding_defs acp_approval_request_def acp_prompt_not_sensitive
      INTERNAL_MCP_REGISTRY_def)

lemma acp_request_approved:
  "ap_status (decision env sha256 newId now (acp_approval_request deps cat n)) = Approved"
proof -
  have "0 \<le> threshold p" for p by (cases p) simp_all
  then show ?thesis by (simp add: decision_status acp_request_score) (simp add: acp_approval_request_def)
qed

text \<open>The gate the operator's settings put on a category.\<close>

fun category_open :: "bridge_deps \<Rightarrow> permission_category \<Rightarrow> bool" where
  "category_open deps Read_cat = True"
| "category_open deps Write_cat = (bd_allowWrite deps = Some True)"
| "category_open deps Execute_cat = (bd_allowTerminal deps = Some True)"
| "category_open deps Other_cat = False"

text \<open>A kind that grants one action: an allow that does not say always.\<close>

definition single_use :: "jstext \<Rightarrow> bool" where
  "single_use k \<longleftrightarrow> prefix (lit ''allow'') k \<and> \<not> text_includes k (lit ''always'')"

lemma allow_once_single_use: "single_use (lit ''allow_once'')"
  by (simp add: single_use_def lit_def)

lemma selected_single_use:
  "selectSingleUseAllow options = Some opt \<Longrightarrow> opt \<in> set options \<and> single_use (option_kind opt)"
  using allow_once_single_use
  by (auto simp: selectSingleUseAllow_def single_use_def split: option.splits dest!: find_SomeD)

lemma selects_when_offered:
  "selectSingleUseAllow options = None \<longleftrightarrow> list_all (\<lambda>opt. \<not> single_use (option_kind opt)) options"
proof -
  have "single_use (option_kind opt)" if "option_kind opt = lit ''allow_once''" for opt
    using that allow_once_single_use by simp
  then have "selectSingleUseAllow options = None \<longleftrightarrow> find (\<lambda>opt. single_use (option_kind opt)) options = None"
    unfolding selectSingleUseAllow_def single_use_def find_None_iff
    by (auto simp: find_None_iff split: option.split dest!: find_SomeD)
      (metis single_use_def allow_once_single_use)
  then show ?thesis by (auto simp: find_None_iff list_all_iff)
qed

section \<open>Main properties\<close>

text \<open>
  C24: a bypass is the operator's decision. No request with a bypass or unverified posture is approved
  without the operator's opt-in, whatever its score and policy. With it, the strict policy still never
  approves one; together with full-auto execution only the permissive policy does, and only when no
  scored server, no sensitive word, no reviewer restriction and no tool suppression adds a point.
\<close>

theorem bypass_needs_operator:
  assumes "ap_status (decision env sha256 newId now q) = Approved" and "aq_bypassRequested q"
    and "integrity_checked wc lu q"
  shows "bypassAllowedByOperator env \<and> parsePolicy env (aq_policy q) \<noteq> Strict
    \<and> (if aq_fullAuto q
       then parsePolicy env (aq_policy q) = Permissive \<and> approval_score q = 7
         \<and> set (aq_requestedMcpServers q) \<inter> {lit ''exa'', lit ''ref_tools'', lit ''agent_browser''} = {}
         \<and> \<not> sensitive_prompt (aq_prompt q)
         \<and> \<not> (isReviewContext (aq_prompt q)
              \<and> (aq_allowedTools q = Some [] \<or> blocked_critical q \<or> containsToolSuppression wc lu (aq_prompt q)))
       else True)"
proof -
  have st: "bypassAllowedByOperator env" "approval_score q \<le> threshold (parsePolicy env (aq_policy q))"
    using assms(1,2) by (simp_all add: decision_status)
  have pts: "points (posture_findings q) = (if aq_fullAuto q then 7 else 3)"
    using assms(2) by (simp add: posture_findings_def)
  have thr: "threshold p \<le> 7" "p \<noteq> Permissive \<Longrightarrow> threshold p \<le> 5" for p by (cases p; simp)+
  have ge: "0 \<le> points (server_findings q)" "0 \<le> points (allowed_findings q)"
    "0 \<le> points (disallowed_findings q)" "0 \<le> points (keyword_findings q)" "0 \<le> points (integrity_findings q)"
    by (simp_all add: server_points allowed_findings_def disallowed_points keyword_findings_def
        integrity_points [OF assms(3)])
  have strict: "parsePolicy env (aq_policy q) \<noteq> Strict"
    using st(2) pts ge unfolding score_parts by (auto split: if_splits)
  show ?thesis
  proof (cases "aq_fullAuto q")
    case True
    have perm: "parsePolicy env (aq_policy q) = Permissive" and sc: "approval_score q = 7"
      using st(2) pts ge True thr [of "parsePolicy env (aq_policy q)"] unfolding score_parts by force+
    then have z: "points (server_findings q) = 0" "points (allowed_findings q) = 0"
      "points (disallowed_findings q) = 0" "points (keyword_findings q) = 0" "points (integrity_findings q) = 0"
      using ge pts True unfolding score_parts by simp_all
    have "set (aq_requestedMcpServers q) \<inter> {lit ''exa'', lit ''ref_tools'', lit ''agent_browser''} = {}"
      using z(1) by (auto simp: server_points split: if_splits)
    moreover have "\<not> sensitive_prompt (aq_prompt q)"
      using z(4) by (simp add: keyword_findings_def split: if_splits)
    moreover have "\<not> (isReviewContext (aq_prompt q)
        \<and> (aq_allowedTools q = Some [] \<or> blocked_critical q \<or> containsToolSuppression wc lu (aq_prompt q)))"
      using z(2,3,5) by (auto simp: allowed_findings_def disallowed_points integrity_points [OF assms(3)]
          split: if_splits)
    ultimately show ?thesis using st(1) strict perm sc True by simp
  qed (use st(1) strict in simp)
qed

definition demo_env :: environment where
  "demo_env = [''LLM_GATEWAY_APPROVAL_ALLOW_BYPASS'' \<mapsto> lit '' TRUE '', ''LLM_GATEWAY_APPROVAL_POLICY'' \<mapsto> lit ''permissive'']"

definition demo_request :: approval_request where
  "demo_request = \<lparr>aq_cli = Cli_codex, aq_operation = lit ''codex_request'', aq_prompt = lit ''go'',
     aq_bypassRequested = True, aq_fullAuto = True, aq_requestedMcpServers = [lit ''sqry''],
     aq_allowedTools = Some [], aq_disallowedTools = None, aq_policy = None, aq_metadata = None,
     aq_reviewIntegrity = Some \<lparr>ri_isReviewContext = False, ri_violations = [], ri_totalScore = 0\<rparr>\<rparr>"

lemma demo_request_checked: "integrity_checked (\<lambda>_. False) (\<lambda>_. False) demo_request"
proof -
  have "\<not> isReviewContext (aq_prompt demo_request)" by code_simp
  then have "checkReviewIntegrity (\<lambda>_. False) (\<lambda>_. False) (aq_prompt demo_request) None None
      = \<lparr>ri_isReviewContext = False, ri_violations = [], ri_totalScore = 0\<rparr>"
    by (simp add: checkReviewIntegrity_def Let_def)
  then show ?thesis unfolding integrity_checked_def by (metis demo_request_def approval_request.select_convs(11))
qed

lemma demo_settings: "bypassAllowedByOperator demo_env" "parsePolicy demo_env None = Permissive"
  by (simp_all add: bypassAllowedByOperator_def parsePolicy_def env_text_def demo_env_def js_trim_def is_ws_def
      lit_def ascii_lower_def Let_def)

lemma demo_request_score: "approval_score demo_request = 7"
proof -
  have "\<not> isReviewContext (lit ''go'')" "\<not> sensitive_prompt (lit ''go'')" by code_simp+
  then show ?thesis
    by (simp add: score_parts finding_defs demo_request_def INTERNAL_MCP_REGISTRY_def) (simp add: lit_def)
qed

lemma demo_request_approved: "ap_status (decision demo_env sha256 newId now demo_request) = Approved"
  using demo_settings demo_request_score by (simp add: decision_status demo_request_def)

theorem bypass_needs_operator_witness:
  "ap_status (decision demo_env id [] 0 demo_request) = Approved \<and> approval_score demo_request = 7
   \<and> parsePolicy demo_env None = Permissive"
proof -
  note a = demo_request_approved [of id "[]" 0]
  have "aq_bypassRequested demo_request" "aq_fullAuto demo_request" "aq_policy demo_request = None"
    by (simp_all add: demo_request_def)
  with bypass_needs_operator [OF a _ demo_request_checked] a show ?thesis by simp
qed

text \<open>
  Approval is monotone in risk. If a request is approved then so is every request with the same
  prompt and integrity result that sets no flag, asks for no server and restricts no tool which the
  first does not, under a policy at least as lenient; its score is not higher. In particular adding
  tool restrictions never lowers a score.
\<close>

theorem approval_monotone:
  assumes "no_riskier q q'"
    and "threshold (parsePolicy env (aq_policy q')) \<le> threshold (parsePolicy env (aq_policy q))"
    and "ap_status (decision env sha256 newId' now' q') = Approved"
  shows "ap_status (decision env sha256 newId now q) = Approved
    \<and> ap_score (decision env sha256 newId now q) \<le> ap_score (decision env sha256 newId' now' q')"
proof -
  have "approval_score q \<le> approval_score q'" by (rule score_monotone [OF assms(1)])
  moreover from this have "ap_status (decision env sha256 newId now q) = Approved"
    using assms by (auto simp: decision_status no_riskier_def)
  ultimately show ?thesis by (simp add: decision_def Let_def)
qed

theorem approval_monotone_witness:
  "ap_status (decision demo_env id [] 1 (demo_request\<lparr>aq_fullAuto := False, aq_allowedTools := None\<rparr>)) = Approved"
proof -
  note a = demo_request_approved [of id "[]" 0]
  have "no_riskier (demo_request\<lparr>aq_fullAuto := False, aq_allowedTools := None\<rparr>) demo_request"
    by (simp add: no_riskier_def)
  from approval_monotone [OF this _ a, of "[]" 1] show ?thesis by simp
qed

text \<open>
  The approval log reads back newest first. After any series of decisions on a log of complete
  lines, listing gives the last limit records of the provider asked for, newest first: those of the
  decisions whose append succeeded, then the older ones; a limit of zero or less gives none.
\<close>

theorem log_lists_newest_first:
  assumes "complete_log logf"
    and "\<And>r. r \<in> set (appended_records env sha256 ds) \<Longrightarrow> codec_ok codec r"
  shows "list_records codec limit cli (decide_all env sha256 codec ds logf) =
    take (nat limit) (filter (\<lambda>r. case cli of None \<Rightarrow> True | Some c \<Rightarrow> ap_cli r = c)
      (rev (appended_records env sha256 ds) @ rev (file_rows codec logf)))"
proof -
  let ?rows = "file_rows codec (decide_all env sha256 codec ds logf)"
  let ?P = "\<lambda>r. case cli of None \<Rightarrow> True | Some c \<Rightarrow> ap_cli r = c"
  have "list_records codec limit cli (decide_all env sha256 codec ds logf)
      = rev (drop (nat (max 0 (int (length (filter ?P ?rows)) - limit))) (filter ?P ?rows))"
    by (cases cli; cases "decide_all env sha256 codec ds logf")
      (simp_all add: list_records_def file_rows_def Let_def)
  also have "\<dots> = take (nat limit) (rev (filter ?P ?rows))"
  proof -
    have "length xs - nat (max 0 (int (length xs) - limit)) = min (length xs) (nat limit)" for xs :: "approval_record list"
      by linarith
    then show ?thesis by (simp add: rev_drop min_def)
  qed
  finally show ?thesis
    using decide_all_rows [OF assms(1), of env sha256 ds codec] assms(2) by (simp add: rev_filter)
qed

definition demo_codec :: approval_codec where
  "demo_codec = \<lparr>ac_stringify = (\<lambda>r. 123 # ap_id r @ [125]),
     ac_parse = (\<lambda>l. find (\<lambda>r. l = 123 # ap_id r @ [125])
        [decision demo_env id [49] 0 demo_request, decision demo_env id [50] 5 demo_request])\<rparr>"

definition demo_decisions :: "(bool \<times> jstext \<times> time \<times> approval_request) list" where
  "demo_decisions = [(True, [49], 0, demo_request), (False, [51], 3, demo_request), (True, [50], 5, demo_request)]"

theorem log_lists_newest_first_witness:
  "map ap_ts (list_records demo_codec 5 (Some Cli_codex) (decide_all demo_env id demo_codec demo_decisions None)) = [5, 0]"
proof -
  let ?r1 = "decision demo_env id [49] 0 demo_request" and ?r2 = "decision demo_env id [50] 5 demo_request"
  have ids: "ap_id ?r1 = [49]" "ap_id ?r2 = [50]" "ap_ts ?r1 = 0" "ap_ts ?r2 = 5" "ap_cli ?r1 = Cli_codex"
    "ap_cli ?r2 = Cli_codex"
    by (simp_all add: decision_def Let_def demo_request_def)
  have app: "appended_records demo_env id demo_decisions = [?r1, ?r2]"
    by (simp add: appended_records_def demo_decisions_def)
  have ok: "codec_ok demo_codec r" if "r \<in> set (appended_records demo_env id demo_decisions)" for r
    using that unfolding app by (auto simp: codec_ok_def demo_codec_def ids js_trim_def is_ws_def)
  have "complete_log None" by (simp add: complete_log_def)
  from log_lists_newest_first [OF this, of demo_env id demo_decisions demo_codec 5 "Some Cli_codex"] ok show ?thesis
    unfolding app by (simp add: ids file_rows_def)
qed

text \<open>
  C25: what an ACP agent is granted. A permission request is answered by selecting an option exactly
  when its category is a local read or one the operator opened, the decision could be recorded and a
  single-use allow is on offer; the option selected is one of the agent's, is an allow and never a
  standing one. The heuristic, the policy and the environment have no say, and a request whose
  category is closed is not logged.
\<close>

theorem acp_permission_exact:
  "fst (request_permission deps env sha256 codec appends newId now toolCall options logf) =
     (if category_open deps (categorizeToolCall toolCall) \<and> appends
      then (case selectSingleUseAllow options of None \<Rightarrow> Cancelled | Some opt \<Rightarrow> Selected (po_optionId opt))
      else Cancelled)
   \<and> (case selectSingleUseAllow options of
        None \<Rightarrow> list_all (\<lambda>opt. \<not> single_use (option_kind opt)) options
      | Some opt \<Rightarrow> opt \<in> set options \<and> single_use (option_kind opt))
   \<and> (if category_open deps (categorizeToolCall toolCall) then True
      else snd (request_permission deps env sha256 codec appends newId now toolCall options logf) = logf)"
proof (intro conjI)
  let ?cat = "categorizeToolCall toolCall"
  have "ap_status (decision env sha256 newId now (acp_approval_request deps ?cat (length options))) = Approved"
    by (rule acp_request_approved)
  then show "fst (request_permission deps env sha256 codec appends newId now toolCall options logf) =
     (if category_open deps ?cat \<and> appends
      then (case selectSingleUseAllow options of None \<Rightarrow> Cancelled | Some opt \<Rightarrow> Selected (po_optionId opt))
      else Cancelled)"
    by (cases ?cat; simp add: request_permission_def Let_def decide_def split: option.split)
  show "if category_open deps ?cat then True
      else snd (request_permission deps env sha256 codec appends newId now toolCall options logf) = logf"
    by (cases ?cat; simp add: request_permission_def Let_def)
  show "case selectSingleUseAllow options of
        None \<Rightarrow> list_all (\<lambda>opt. \<not> single_use (option_kind opt)) options
      | Some opt \<Rightarrow> opt \<in> set options \<and> single_use (option_kind opt)"
    using selected_single_use selects_when_offered by (auto split: option.split)
qed

end
