(* ===== verification/Session_Store.thy ===== *)
theory Session_Store
  imports Identity
begin

text \<open>
  The file-backed session store of src/src/session-manager.ts: sessions with their ownership and
  generation, active pointers per provider and per Kit execution, the attempt lease of a Kit session,
  expiry, the worktree-cleanup tombstones and the projections given to callers.

  A public method of FileSessionManager runs under the store's lock, on the file read and validated
  while the lock is held, and writes the whole file before it returns, so the model's operations are
  functions of the stored state. A method that throws before it has written leaves the file as it
  was. A store that could not be read is the fault flag. Cleanup hooks and removal observers are
  recorded as events. A null active pointer is an absent one.
\<close>

section \<open>Sessions\<close>

record session_meta =
  md_kit :: "kit_binding option"
  md_other :: "(string, json) js_map"

record session =
  ses_id :: string
  ses_cli :: provider
  ses_createdAt :: time
  ses_lastUsedAt :: "time option"
  ses_description :: string
  ses_metadata :: "session_meta option"
  ses_ownerPrincipal :: "principal option"
  ses_generation :: "string option"

definition empty_meta :: session_meta where
  "empty_meta = \<lparr>md_kit = None, md_other = []\<rparr>"

definition meta_of :: "session \<Rightarrow> session_meta" where
  "meta_of ses = nullish (ses_metadata ses) empty_meta"

definition meta_get :: "session \<Rightarrow> string \<Rightarrow> json option" where
  "meta_get ses k = js_get (md_other (meta_of ses)) k"

definition session_labels :: "(provider, string) js_map" where
  "session_labels =
     [(''claude'', ''Claude Session''), (''codex'', ''Codex Session''), (''gemini'', ''Gemini Session''),
      (''grok'', ''Grok Session''), (''mistral'', ''Mistral Session''), (''devin'', ''Devin Session''),
      (''cursor'', ''Cursor Session''), (''grok-api'', ''Grok API Session'')]"

definition defaultSessionDescription :: "provider \<Rightarrow> string" where
  "defaultSessionDescription p = nullish (js_get session_labels p) (p @ '' Session'')"

definition getKitSessionBinding :: "session \<Rightarrow> kit_binding option" where
  "getKitSessionBinding ses =
     (case md_kit (meta_of ses) of
        None \<Rightarrow> None
      | Some b \<Rightarrow>
          if isKitSessionBinding b
          then (case cloneKitSessionBinding b of Inl _ \<Rightarrow> None | Inr x \<Rightarrow> Some x) else None)"

definition held_attempt :: "session \<Rightarrow> kit_attempt option" where
  "held_attempt ses = (case getKitSessionBinding ses of None \<Rightarrow> None | Some b \<Rightarrow> kb_attempt b)"

definition TOMBSTONE :: string where "TOMBSTONE = ''worktreeCleanupPendingDeletion''"

definition isWorktreeCleanupTombstone :: "session \<Rightarrow> bool" where
  "isWorktreeCleanupTombstone ses = (meta_get ses TOMBSTONE = Some (JBool True))"

fun is_jstr :: "json option \<Rightarrow> bool" where
  "is_jstr (Some (JStr s)) = True"
| "is_jstr _ = False"

definition hasDurablyOwnedWorktree :: "session \<Rightarrow> bool" where
  "hasDurablyOwnedWorktree ses =
     (is_jstr (meta_get ses ''worktreePath'') \<and> is_jstr (meta_get ses ''worktreeName'')
      \<and> is_jstr (meta_get ses ''worktreeOwnerHostname'') \<and> is_jstr (meta_get ses ''worktreeOwnerInstanceId''))"

text \<open>isDeepStrictEqual of two metadata documents: the order of the keys of an object is irrelevant.\<close>

function json_same :: "json \<Rightarrow> json \<Rightarrow> bool" where
  "json_same (JObj ms) j =
     (case j of
        JObj ns \<Rightarrow> length ms = length ns \<and>
          list_all (\<lambda>m. case map_of ns (fst m) of None \<Rightarrow> False | Some v \<Rightarrow> json_same (snd m) v) ms
      | _ \<Rightarrow> False)"
| "json_same (JArr xs) j =
     (case j of
        JArr ys \<Rightarrow> length xs = length ys \<and> list_all (\<lambda>p. json_same (fst p) (snd p)) (zip xs ys)
      | _ \<Rightarrow> False)"
| "json_same JNull j = (j = JNull)"
| "json_same (JBool b) j = (j = JBool b)"
| "json_same (JNum n) j = (j = JNum n)"
| "json_same (JStr s) j = (j = JStr s)"
  by pat_completeness auto
termination
proof (relation "measure (\<lambda>(x, y). size x)")
  fix ms :: "(string \<times> json) list" and m :: "string \<times> json" and j ns v
  assume "m \<in> set ms"
  then have "size (snd m) < Suc (size_list (size_prod (\<lambda>x. 0) size) ms)"
    by (induction ms) (auto simp: less_Suc_eq_le split: prod.splits)
  then show "((snd m, v), (JObj ms, j)) \<in> measure (\<lambda>(x, y). size x)" by simp
next
  fix xs ys :: "json list" and j and p :: "json \<times> json"
  assume "p \<in> set (zip xs ys)"
  then have "fst p \<in> set xs" by (metis in_set_zipE prod.collapse)
  then have "size (fst p) < Suc (size_list size xs)" by (induction xs) auto
  then show "((fst p, snd p), (JArr xs, j)) \<in> measure (\<lambda>(x, y). size x)" by (cases p) simp
qed auto

definition meta_same :: "session_meta \<Rightarrow> session_meta \<Rightarrow> bool" where
  "meta_same m m' \<longleftrightarrow> md_kit m = md_kit m' \<and> json_same (JObj (md_other m)) (JObj (md_other m'))"

section \<open>The store\<close>

type_synonym kit_pointer_key = "kit_identity \<times> principal"

datatype session_event = Cleanup_hook session | Session_removed session

record file_store =
  fs_sessions :: "(string, session) js_map"
  fs_active :: "(provider, string) js_map"
  fs_activeKit :: "(provider, (kit_pointer_key, string) js_map) js_map"
  fs_fault :: bool
  fs_events :: "session_event list"

text \<open>
  What a call reads besides the store: the clock, the configured time to live, the principal of the
  ambient request and two fresh identifiers.
\<close>

record fs_ctx =
  cx_now :: time
  cx_ttl :: int
  cx_caller :: principal
  cx_newId :: string
  cx_newGeneration :: string

datatype session_error =
    Storage_fault
  | Kit_metadata_forbidden
  | Metadata_exclusive
  | Already_exists
  | Awaiting_cleanup
  | Different_execution
  | Invalid_kit string

type_synonym 'a fs_result = "(session_error + 'a) \<times> file_store"

definition kit_error :: "string + 'a \<Rightarrow> session_error + 'a" where
  "kit_error r = (case r of Inl e \<Rightarrow> Inl (Invalid_kit e) | Inr x \<Rightarrow> Inr x)"

definition kitActiveSessionKey :: "string option \<Rightarrow> kit_ref \<Rightarrow> principal \<Rightarrow> string + kit_pointer_key" where
  "kitActiveSessionKey scopeRoot e owner =
     (if ke_scopeRoot e \<noteq> scopeRoot then Inl ''Kit active session scope must match the execution scope''
      else if str_trim owner = [] then Inl ''Kit active session owner principal must be non-empty''
      else (case kitExecutionIdentity e of Inl err \<Rightarrow> Inl err | Inr x \<Rightarrow> Inr (x, owner)))"

definition sessionMatchesKitExecution :: "session \<Rightarrow> kit_ref \<Rightarrow> string + bool" where
  "sessionMatchesKitExecution ses e =
     (case getKitSessionBinding ses of None \<Rightarrow> Inr False | Some b \<Rightarrow> sameKitExecutionRef (kb_execution b) e)"

definition sessionMatchesKitBinding :: "session \<Rightarrow> provider \<Rightarrow> kit_binding \<Rightarrow> principal \<Rightarrow> string + bool" where
  "sessionMatchesKitBinding ses cli b owner =
     (if ses_cli ses = cli \<and> principalCanAccess (ses_ownerPrincipal ses) owner
      then sessionMatchesKitExecution ses (kb_execution b) else Inr False)"

definition hasActiveKitPointer :: "file_store \<Rightarrow> string \<Rightarrow> bool" where
  "hasActiveKitPointer s k = list_ex (\<lambda>(cli, ps). list_ex (\<lambda>(key, v). v = k) ps) (fs_activeKit s)"

definition clearActiveKitPointersForSession :: "string \<Rightarrow> file_store \<Rightarrow> file_store" where
  "clearActiveKitPointersForSession k s =
     s\<lparr>fs_activeKit := map (\<lambda>(cli, ps). (cli, filter (\<lambda>(key, v). v \<noteq> k) ps)) (fs_activeKit s)\<rparr>"

definition getActiveKitSessionId ::
  "provider \<Rightarrow> string option \<Rightarrow> kit_ref \<Rightarrow> principal \<Rightarrow> file_store \<Rightarrow> string + string option"
where
  "getActiveKitSessionId cli scopeRoot e owner s =
     (case kitActiveSessionKey scopeRoot e owner of
        Inl err \<Rightarrow> Inl err
      | Inr key \<Rightarrow> Inr (js_get (nullish (js_get (fs_activeKit s) cli) []) key))"

definition setActiveKitSessionId ::
  "provider \<Rightarrow> string option \<Rightarrow> string option \<Rightarrow> kit_ref \<Rightarrow> principal \<Rightarrow> file_store \<Rightarrow> string + file_store"
where
  "setActiveKitSessionId cli scopeRoot k e owner s =
     (case kitActiveSessionKey scopeRoot e owner of
        Inl err \<Rightarrow> Inl err
      | Inr key \<Rightarrow>
          (case k of
             None \<Rightarrow>
               (case js_get (fs_activeKit s) cli of
                  None \<Rightarrow> Inr s
                | Some ps \<Rightarrow> Inr (s\<lparr>fs_activeKit := js_set (fs_activeKit s) cli (js_delete ps key)\<rparr>))
           | Some v \<Rightarrow>
               Inr (s\<lparr>fs_activeKit := js_set (fs_activeKit s) cli
                  (js_set (nullish (js_get (fs_activeKit s) cli) []) key v)\<rparr>)))"

section \<open>Removal and expiry\<close>

definition put_session :: "session \<Rightarrow> file_store \<Rightarrow> file_store" where
  "put_session ses s = s\<lparr>fs_sessions := js_set (fs_sessions s) (ses_id ses) ses\<rparr>"

definition set_other :: "string \<Rightarrow> json \<Rightarrow> session \<Rightarrow> session" where
  "set_other k j ses =
     ses\<lparr>ses_metadata := Some ((meta_of ses)\<lparr>md_other := js_set (md_other (meta_of ses)) k j\<rparr>)\<rparr>"

text \<open>The session object after removeOrStageSession: a durably owned worktree keeps it as a tombstone.\<close>

definition staged :: "session \<Rightarrow> session" where
  "staged ses =
     (if hasDurablyOwnedWorktree ses
      then set_other TOMBSTONE (JBool True) (set_other ''worktreeCleanupPending'' (JBool True) ses)
      else ses)"

definition fs_note :: "session_event \<Rightarrow> file_store \<Rightarrow> file_store" where
  "fs_note e s = s\<lparr>fs_events := fs_events s @ [e]\<rparr>"

definition notifySessionRemoved :: "session \<Rightarrow> file_store \<Rightarrow> file_store" where
  "notifySessionRemoved ses = fs_note (Session_removed ses)"

definition removeOrStageSession :: "session \<Rightarrow> file_store \<Rightarrow> file_store" where
  "removeOrStageSession ses s =
     (let s1 = fs_note (Cleanup_hook ses) s;
          s2 = (if js_get (fs_active s1) (ses_cli ses) = Some (ses_id ses)
                then s1\<lparr>fs_active := js_delete (fs_active s1) (ses_cli ses)\<rparr> else s1);
          s3 = clearActiveKitPointersForSession (ses_id ses) s2 in
      if hasDurablyOwnedWorktree ses then put_session (staged ses) s3
      else s3\<lparr>fs_sessions := js_delete (fs_sessions s3) (ses_id ses)\<rparr>)"

definition isExpired :: "fs_ctx \<Rightarrow> file_store \<Rightarrow> session \<Rightarrow> bool" where
  "isExpired cx s ses =
     (if isWorktreeCleanupTombstone ses then False
      else
        (let binding = getKitSessionBinding ses in
         if (case binding of None \<Rightarrow> False | Some b \<Rightarrow> kb_attempt b \<noteq> None \<or> kb_resumeEligible b)
            \<or> hasActiveKitPointer s (ses_id ses)
         then False
         else (case ses_lastUsedAt ses of None \<Rightarrow> True | Some ts \<Rightarrow> cx_now cx - ts > cx_ttl cx)))"

fun evict_loop :: "fs_ctx \<Rightarrow> session list \<Rightarrow> file_store \<Rightarrow> session list \<times> file_store" where
  "evict_loop cx [] s = ([], s)"
| "evict_loop cx (ses # rest) s =
     (if isExpired cx s ses
      then (let (removed, s') = evict_loop cx rest (removeOrStageSession ses s) in (staged ses # removed, s'))
      else evict_loop cx rest s)"

definition evictExpiredSessions :: "fs_ctx \<Rightarrow> file_store \<Rightarrow> file_store" where
  "evictExpiredSessions cx s =
     (if fs_fault s then s
      else
        (let (removed, s') = evict_loop cx (map snd (fs_sessions s)) s in
         fold notifySessionRemoved removed s'))"

definition removeSessionRow :: "string \<Rightarrow> principal option \<Rightarrow> file_store \<Rightarrow> bool fs_result" where
  "removeSessionRow k caller s =
     (if fs_fault s then (Inl Storage_fault, s)
      else
        (case js_get (fs_sessions s) k of
           None \<Rightarrow> (Inr False, s)
         | Some ses \<Rightarrow>
             if isWorktreeCleanupTombstone ses then (Inr False, s)
             else if (case caller of None \<Rightarrow> False
                      | Some p \<Rightarrow> \<not> principalCanAccess (ses_ownerPrincipal ses) p) then (Inr False, s)
             else if held_attempt ses \<noteq> None then (Inr False, s)
             else (Inr True, notifySessionRemoved (staged ses) (removeOrStageSession ses s))))"

definition evictSessionRow :: "string \<Rightarrow> file_store \<Rightarrow> file_store" where
  "evictSessionRow k s = snd (removeSessionRow k None s)"

definition deleteSession :: "fs_ctx \<Rightarrow> string \<Rightarrow> file_store \<Rightarrow> bool fs_result" where
  "deleteSession cx k s = removeSessionRow k (Some (cx_caller cx)) s"

section \<open>Creation\<close>

text \<open>An empty identifier is falsy: the store then takes a fresh one.\<close>

definition id_or_new :: "fs_ctx \<Rightarrow> string option \<Rightarrow> string" where
  "id_or_new cx k = (case k of None \<Rightarrow> cx_newId cx | Some v \<Rightarrow> if v = [] then cx_newId cx else v)"

definition new_session :: "fs_ctx \<Rightarrow> string \<Rightarrow> provider \<Rightarrow> string option \<Rightarrow> session_meta option \<Rightarrow> session" where
  "new_session cx k cli description m =
     \<lparr>ses_id = k, ses_cli = cli, ses_createdAt = cx_now cx, ses_lastUsedAt = Some (cx_now cx),
      ses_description = nullish description (defaultSessionDescription cli), ses_metadata = m,
      ses_ownerPrincipal = Some (cx_caller cx), ses_generation = Some (cx_newGeneration cx)\<rparr>"

text \<open>The pointer of a new session: the Kit slot of its execution or the provider's, when free.\<close>

definition point_kit_session :: "fs_ctx \<Rightarrow> provider \<Rightarrow> kit_ref \<Rightarrow> string \<Rightarrow> file_store \<Rightarrow> string + file_store" where
  "point_kit_session cx cli e k s =
     (case getActiveKitSessionId cli (ke_scopeRoot e) e (cx_caller cx) s of
        Inl err \<Rightarrow> Inl err
      | Inr (Some active) \<Rightarrow>
          if active = [] then setActiveKitSessionId cli (ke_scopeRoot e) (Some k) e (cx_caller cx) s else Inr s
      | Inr None \<Rightarrow> setActiveKitSessionId cli (ke_scopeRoot e) (Some k) e (cx_caller cx) s)"

definition point_session :: "provider \<Rightarrow> string \<Rightarrow> file_store \<Rightarrow> file_store" where
  "point_session cli k s =
     (if nullish (js_get (fs_active s) cli) [] = [] then s\<lparr>fs_active := js_set (fs_active s) cli k\<rparr> else s)"

definition createSession ::
  "fs_ctx \<Rightarrow> provider \<Rightarrow> string option \<Rightarrow> string option \<Rightarrow> kit_binding option
     \<Rightarrow> (string, json) js_map option \<Rightarrow> file_store \<Rightarrow> session fs_result"
where
  "createSession cx cli description sessionId kitBinding initialMetadata s =
     (if ''kit'' \<in> fst ` set (nullish initialMetadata []) then (Inl Kit_metadata_forbidden, s)
      else if kitBinding \<noteq> None \<and> initialMetadata \<noteq> None then (Inl Metadata_exclusive, s)
      else if fs_fault s then (Inl Storage_fault, s)
      else
        (let s1 = evictExpiredSessions cx s; k = id_or_new cx sessionId in
         if js_get (fs_sessions s1) k \<noteq> None then (Inl Already_exists, s1)
         else
           (case kitBinding of
              None \<Rightarrow>
                (let ses = new_session cx k cli description
                       (map_option (\<lambda>m. \<lparr>md_kit = None, md_other = m\<rparr>) initialMetadata) in
                 (Inr ses, point_session cli k (put_session ses s1)))
            | Some b \<Rightarrow>
                (case cloneKitSessionBinding b of
                   Inl e \<Rightarrow> (Inl (Invalid_kit e), s1)
                 | Inr x \<Rightarrow>
                     (let ses = new_session cx k cli description (Some \<lparr>md_kit = Some x, md_other = []\<rparr>) in
                      case point_kit_session cx cli (kb_execution x) k (put_session ses s1) of
                        Inl e \<Rightarrow> (Inl (Invalid_kit e), s1)
                      | Inr s2 \<Rightarrow> (Inr ses, s2))))))"

definition identified_kit_session ::
  "fs_ctx \<Rightarrow> provider \<Rightarrow> kit_binding \<Rightarrow> string option \<Rightarrow> string option \<Rightarrow> file_store \<Rightarrow> session fs_result"
where
  "identified_kit_session cx cli b description sessionId s =
     (case (if sessionId = Some [] then None else sessionId) of
        None \<Rightarrow> createSession cx cli description sessionId (Some b) None s
      | Some k \<Rightarrow>
          (case js_get (fs_sessions s) k of
             None \<Rightarrow> createSession cx cli description sessionId (Some b) None s
           | Some ses \<Rightarrow>
               if isWorktreeCleanupTombstone ses then (Inl Awaiting_cleanup, s)
               else
                 (case sessionMatchesKitBinding ses cli b (cx_caller cx) of
                    Inl e \<Rightarrow> (Inl (Invalid_kit e), s)
                  | Inr False \<Rightarrow> (Inl Different_execution, s)
                  | Inr True \<Rightarrow>
                      (case setActiveKitSessionId cli (ke_scopeRoot (kb_execution b)) (Some (ses_id ses))
                              (kb_execution b) (cx_caller cx) s of
                         Inl e \<Rightarrow> (Inl (Invalid_kit e), s)
                       | Inr s' \<Rightarrow> (Inr ses, s')))))"

text \<open>
  An active session that is live and matches is returned; otherwise its pointer is cleared and the
  identified session or a new one takes the slot.
\<close>

definition getOrCreateKitSession ::
  "fs_ctx \<Rightarrow> provider \<Rightarrow> kit_binding \<Rightarrow> string option \<Rightarrow> string option \<Rightarrow> file_store \<Rightarrow> session fs_result"
where
  "getOrCreateKitSession cx cli binding description sessionId s =
     (if fs_fault s then (Inl Storage_fault, s)
      else
        (case cloneKitSessionBinding binding of
           Inl e \<Rightarrow> (Inl (Invalid_kit e), s)
         | Inr b \<Rightarrow>
             (let e = kb_execution b; s1 = evictExpiredSessions cx s in
              case getActiveKitSessionId cli (ke_scopeRoot e) e (cx_caller cx) s1 of
                Inl err \<Rightarrow> (Inl (Invalid_kit err), s1)
              | Inr active \<Rightarrow>
                  (case (if active = Some [] then None else active) of
                     None \<Rightarrow> identified_kit_session cx cli b description sessionId s1
                   | Some k \<Rightarrow>
                       (case js_get (fs_sessions s1) k of
                          Some ses \<Rightarrow>
                            if \<not> isWorktreeCleanupTombstone ses \<and> \<not> isExpired cx s1 ses
                               \<and> sessionMatchesKitBinding ses cli b (cx_caller cx) = Inr True
                            then (Inr ses, s1)
                            else (case setActiveKitSessionId cli (ke_scopeRoot e) None e (cx_caller cx) s1 of
                                    Inl err \<Rightarrow> (Inl (Invalid_kit err), s1)
                                  | Inr s2 \<Rightarrow> identified_kit_session cx cli b description sessionId s2)
                        | None \<Rightarrow>
                            (case setActiveKitSessionId cli (ke_scopeRoot e) None e (cx_caller cx) s1 of
                               Inl err \<Rightarrow> (Inl (Invalid_kit err), s1)
                             | Inr s2 \<Rightarrow> identified_kit_session cx cli b description sessionId s2))))))"

section \<open>The attempt lease\<close>

definition set_kit :: "kit_binding \<Rightarrow> session \<Rightarrow> session" where
  "set_kit b ses = ses\<lparr>ses_metadata := Some ((meta_of ses)\<lparr>md_kit := Some b\<rparr>)\<rparr>"

definition getExactKitSession ::
  "fs_ctx \<Rightarrow> provider \<Rightarrow> string option \<Rightarrow> kit_ref \<Rightarrow> string \<Rightarrow> file_store \<Rightarrow> (session \<times> kit_binding) option fs_result"
where
  "getExactKitSession cx cli scopeRoot e k s =
     (if ke_scopeRoot e \<noteq> scopeRoot then (Inr None, s)
      else
        (case js_get (fs_sessions s) k of
           None \<Rightarrow> (Inr None, s)
         | Some ses \<Rightarrow>
             if isWorktreeCleanupTombstone ses then (Inr None, s)
             else if isExpired cx s ses then (Inr None, evictSessionRow k s)
             else
               (case getKitSessionBinding ses of
                  None \<Rightarrow> (Inr None, s)
                | Some b \<Rightarrow>
                    if ses_cli ses \<noteq> cli \<or> \<not> principalCanAccess (ses_ownerPrincipal ses) (cx_caller cx)
                    then (Inr None, s)
                    else (case sameKitExecutionRef (kb_execution b) e of
                            Inl err \<Rightarrow> (Inl (Invalid_kit err), s)
                          | Inr same \<Rightarrow> (Inr (if same then Some (ses, b) else None), s)))))"

definition claimKitSessionAttempt ::
  "fs_ctx \<Rightarrow> provider \<Rightarrow> string option \<Rightarrow> kit_ref \<Rightarrow> string \<Rightarrow> kit_attempt \<Rightarrow> file_store \<Rightarrow> bool fs_result"
where
  "claimKitSessionAttempt cx cli scopeRoot e k attempt s =
     (if fs_fault s then (Inl Storage_fault, s)
      else if ke_scopeRoot e \<noteq> scopeRoot then (Inr False, s)
      else
        (case cloneKitSessionAttempt attempt of
           Inl err \<Rightarrow> (Inl (Invalid_kit err), s)
         | Inr nxt \<Rightarrow>
             if \<not> isKitSessionAttemptActive nxt (cx_now cx) then (Inr False, s)
             else
               (case getExactKitSession cx cli scopeRoot e k s of
                  (Inl err, s1) \<Rightarrow> (Inl err, s1)
                | (Inr None, s1) \<Rightarrow> (Inr False, s1)
                | (Inr (Some (ses, b)), s1) \<Rightarrow>
                    if kb_attempt b \<noteq> None then (Inr False, s1)
                    else if kb_nativeSessionId b \<noteq> ka_expectedNativeSessionId nxt then (Inr False, s1)
                    else (Inr True, put_session (set_kit (b\<lparr>kb_attempt := Some nxt\<rparr>) ses) s1))))"

text \<open>Date.parse compares false with a time it cannot read.\<close>

definition renewKitSessionAttempt ::
  "fs_ctx \<Rightarrow> provider \<Rightarrow> string option \<Rightarrow> kit_ref \<Rightarrow> string \<Rightarrow> string \<Rightarrow> time option \<Rightarrow> file_store \<Rightarrow> bool fs_result"
where
  "renewKitSessionAttempt cx cli scopeRoot e k attemptId expiresAt s =
     (if fs_fault s then (Inl Storage_fault, s)
      else if ke_scopeRoot e \<noteq> scopeRoot \<or> str_trim attemptId = [] then (Inr False, s)
      else
        (case getExactKitSession cx cli scopeRoot e k s of
           (Inl err, s1) \<Rightarrow> (Inl err, s1)
         | (Inr None, s1) \<Rightarrow> (Inr False, s1)
         | (Inr (Some (ses, b)), s1) \<Rightarrow>
             (case kb_attempt b of
                None \<Rightarrow> (Inr False, s1)
              | Some cur \<Rightarrow>
                  if ka_id cur \<noteq> attemptId then (Inr False, s1)
                  else
                    (case cloneKitSessionAttempt (cur\<lparr>ka_expiresAt := expiresAt\<rparr>) of
                       Inl err \<Rightarrow> (Inl (Invalid_kit err), s1)
                     | Inr renewed \<Rightarrow>
                         if \<not> isKitSessionAttemptActive renewed (cx_now cx)
                            \<or> (case (ka_expiresAt renewed, ka_expiresAt cur) of
                                 (Some x, Some y) \<Rightarrow> x \<le> y | _ \<Rightarrow> False)
                         then (Inr False, s1)
                         else (Inr True, put_session (set_kit (b\<lparr>kb_attempt := Some renewed\<rparr>) ses) s1)))))"

definition releaseKitSessionAttempt ::
  "fs_ctx \<Rightarrow> provider \<Rightarrow> string option \<Rightarrow> kit_ref \<Rightarrow> string \<Rightarrow> string \<Rightarrow> file_store \<Rightarrow> bool fs_result"
where
  "releaseKitSessionAttempt cx cli scopeRoot e k attemptId s =
     (if fs_fault s then (Inl Storage_fault, s)
      else if ke_scopeRoot e \<noteq> scopeRoot \<or> str_trim attemptId = [] then (Inr False, s)
      else
        (case getExactKitSession cx cli scopeRoot e k s of
           (Inl err, s1) \<Rightarrow> (Inl err, s1)
         | (Inr None, s1) \<Rightarrow> (Inr False, s1)
         | (Inr (Some (ses, b)), s1) \<Rightarrow>
             (case kb_attempt b of
                None \<Rightarrow> (Inr False, s1)
              | Some cur \<Rightarrow>
                  if ka_id cur \<noteq> attemptId then (Inr False, s1)
                  else (Inr True, put_session (set_kit (b\<lparr>kb_attempt := None\<rparr>) ses) s1))))"

section \<open>Reading and pointing\<close>

definition getSession :: "fs_ctx \<Rightarrow> string \<Rightarrow> file_store \<Rightarrow> session option \<times> file_store" where
  "getSession cx k s =
     (case js_get (fs_sessions s) k of
        None \<Rightarrow> (None, s)
      | Some ses \<Rightarrow>
          if isWorktreeCleanupTombstone ses then (None, s)
          else if isExpired cx s ses then (if fs_fault s then (None, s) else (None, evictSessionRow k s))
          else (Some ses, s))"

definition listSessions :: "fs_ctx \<Rightarrow> provider option \<Rightarrow> file_store \<Rightarrow> session list \<times> file_store" where
  "listSessions cx cli s =
     (let s1 = evictExpiredSessions cx s;
          live = filter (\<lambda>ses. \<not> isWorktreeCleanupTombstone ses) (map snd (fs_sessions s1)) in
      (case cli of None \<Rightarrow> live | Some c \<Rightarrow> filter (\<lambda>ses. ses_cli ses = c) live, s1))"

definition setActiveSession :: "fs_ctx \<Rightarrow> provider \<Rightarrow> string option \<Rightarrow> file_store \<Rightarrow> bool fs_result" where
  "setActiveSession cx cli k s =
     (if fs_fault s then (Inl Storage_fault, s)
      else
        (case k of
           None \<Rightarrow> (Inr True, s\<lparr>fs_active := js_delete (fs_active s) cli\<rparr>)
         | Some v \<Rightarrow>
             (case js_get (fs_sessions s) v of
                None \<Rightarrow> (Inr False, s)
              | Some ses \<Rightarrow>
                  if isWorktreeCleanupTombstone ses then (Inr False, s)
                  else if isExpired cx s ses then (Inr False, evictSessionRow v s)
                  else if ses_cli ses \<noteq> cli then (Inr False, s)
                  else if \<not> principalCanAccess (ses_ownerPrincipal ses) (cx_caller cx) then (Inr False, s)
                  else (Inr True, s\<lparr>fs_active := js_set (fs_active s) cli v\<rparr>))))"

definition getActiveSession :: "fs_ctx \<Rightarrow> provider \<Rightarrow> file_store \<Rightarrow> session option \<times> file_store" where
  "getActiveSession cx cli s =
     (case js_get (fs_active s) cli of
        None \<Rightarrow> (None, s)
      | Some k \<Rightarrow>
          if k = [] then (None, s)
          else
            (let ses = js_get (fs_sessions s) k;
                 pending = (case ses of None \<Rightarrow> False | Some x \<Rightarrow> isWorktreeCleanupTombstone x) in
             if (case ses of None \<Rightarrow> True | Some x \<Rightarrow> pending \<or> isExpired cx s x) then
               (if fs_fault s then (None, s)
                else
                  (let s1 = s\<lparr>fs_active := js_delete (fs_active s) cli\<rparr> in
                   (None,
                    case ses of
                      Some x \<Rightarrow>
                        if pending then s1
                        else notifySessionRemoved (staged x) (removeOrStageSession x s1)
                    | None \<Rightarrow> s1)))
             else (ses, s)))"

definition setActiveKitSession ::
  "fs_ctx \<Rightarrow> provider \<Rightarrow> string option \<Rightarrow> string option \<Rightarrow> kit_ref option \<Rightarrow> file_store \<Rightarrow> bool fs_result"
where
  "setActiveKitSession cx cli scopeRoot k expected s =
     (if fs_fault s then (Inl Storage_fault, s)
      else if (case expected of None \<Rightarrow> False | Some e \<Rightarrow> ke_scopeRoot e \<noteq> scopeRoot) then (Inr False, s)
      else
        (let point = (\<lambda>e owner. case setActiveKitSessionId cli scopeRoot k e owner s of
               Inl err \<Rightarrow> (Inl (Invalid_kit err), s) | Inr s' \<Rightarrow> (Inr True, s')) in
         case k of
           None \<Rightarrow> (case expected of None \<Rightarrow> (Inr False, s) | Some e \<Rightarrow> point e (cx_caller cx))
         | Some v \<Rightarrow>
             (case js_get (fs_sessions s) v of
                None \<Rightarrow> (Inr False, s)
              | Some ses \<Rightarrow>
                  if isWorktreeCleanupTombstone ses then (Inr False, s)
                  else if isExpired cx s ses then (Inr False, evictSessionRow v s)
                  else
                    (case getKitSessionBinding ses of
                       None \<Rightarrow> (Inr False, s)
                     | Some b \<Rightarrow>
                         if ses_cli ses \<noteq> cli \<or> ke_scopeRoot (kb_execution b) \<noteq> scopeRoot then (Inr False, s)
                         else
                           (case (case expected of None \<Rightarrow> Inr True
                                  | Some e \<Rightarrow> sameKitExecutionRef (kb_execution b) e) of
                              Inl err \<Rightarrow> (Inl (Invalid_kit err), s)
                            | Inr False \<Rightarrow> (Inr False, s)
                            | Inr True \<Rightarrow>
                                if \<not> principalCanAccess (ses_ownerPrincipal ses) (cx_caller cx) then (Inr False, s)
                                else point (kb_execution b) (nullish (ses_ownerPrincipal ses) (cx_caller cx)))))))"

definition getActiveKitSession ::
  "fs_ctx \<Rightarrow> provider \<Rightarrow> string option \<Rightarrow> kit_ref option \<Rightarrow> file_store \<Rightarrow> session option fs_result"
where
  "getActiveKitSession cx cli scopeRoot expected s =
     (if fs_fault s then (Inl Storage_fault, s)
      else
        (case expected of
           None \<Rightarrow> (Inr None, s)
         | Some e \<Rightarrow>
             if ke_scopeRoot e \<noteq> scopeRoot then (Inr None, s)
             else
               (case getActiveKitSessionId cli scopeRoot e (cx_caller cx) s of
                  Inl err \<Rightarrow> (Inl (Invalid_kit err), s)
                | Inr pointed \<Rightarrow>
                    (let clear = (\<lambda>s1. case setActiveKitSessionId cli scopeRoot None e (cx_caller cx) s1 of
                           Inl err \<Rightarrow> s1 | Inr s2 \<Rightarrow> s2) in
                     case (if pointed = Some [] then None else pointed) of
                       None \<Rightarrow> (Inr None, s)
                     | Some k \<Rightarrow>
                         (case js_get (fs_sessions s) k of
                            None \<Rightarrow> (Inr None, clear s)
                          | Some ses \<Rightarrow>
                              (let binding = getKitSessionBinding ses;
                                   other = (case binding of
                                      None \<Rightarrow> False
                                    | Some b \<Rightarrow> ses_cli ses = cli \<and> ke_scopeRoot (kb_execution b) = scopeRoot
                                        \<and> sameKitExecutionRef (kb_execution b) e = Inr False) in
                               if other then (Inr None, s)
                               else if isWorktreeCleanupTombstone ses \<or> isExpired cx s ses \<or> ses_cli ses \<noteq> cli
                                  \<or> (case binding of None \<Rightarrow> True
                                     | Some b \<Rightarrow> ke_scopeRoot (kb_execution b) \<noteq> scopeRoot)
                               then
                                 (if \<not> isWorktreeCleanupTombstone ses \<and> isExpired cx (clear s) ses
                                  then (Inr None, notifySessionRemoved (staged ses)
                                          (removeOrStageSession ses (clear s)))
                                  else (Inr None, clear s))
                               else if \<not> principalCanAccess (ses_ownerPrincipal ses) (cx_caller cx) then (Inr None, s)
                               else (Inr (Some ses), s)))))))"

definition clearActiveKitSessionIfCurrent ::
  "fs_ctx \<Rightarrow> provider \<Rightarrow> string option \<Rightarrow> kit_ref \<Rightarrow> string \<Rightarrow> file_store \<Rightarrow> bool fs_result"
where
  "clearActiveKitSessionIfCurrent cx cli scopeRoot e k s =
     (if fs_fault s then (Inl Storage_fault, s)
      else if ke_scopeRoot e \<noteq> scopeRoot then (Inr False, s)
      else
        (let s1 = evictExpiredSessions cx s in
         case getActiveKitSessionId cli scopeRoot e (cx_caller cx) s1 of
           Inl err \<Rightarrow> (Inl (Invalid_kit err), s1)
         | Inr active \<Rightarrow>
             if active \<noteq> Some k then (Inr False, s1)
             else
               (case js_get (fs_sessions s1) k of
                  None \<Rightarrow> (Inr False, s1)
                | Some ses \<Rightarrow>
                    if isWorktreeCleanupTombstone ses then (Inr False, s1)
                    else if ses_cli ses \<noteq> cli \<or> \<not> principalCanAccess (ses_ownerPrincipal ses) (cx_caller cx)
                    then (Inr False, s1)
                    else
                      (case sessionMatchesKitExecution ses e of
                         Inl err \<Rightarrow> (Inl (Invalid_kit err), s1)
                       | Inr False \<Rightarrow> (Inr False, s1)
                       | Inr True \<Rightarrow>
                           (case setActiveKitSessionId cli scopeRoot None e (cx_caller cx) s1 of
                              Inl err \<Rightarrow> (Inl (Invalid_kit err), s1)
                            | Inr s2 \<Rightarrow> (Inr True, s2))))))"

section \<open>Updates\<close>

definition updateSessionUsage :: "fs_ctx \<Rightarrow> string \<Rightarrow> file_store \<Rightarrow> bool fs_result" where
  "updateSessionUsage cx k s =
     (if fs_fault s then (Inl Storage_fault, s)
      else
        (case js_get (fs_sessions s) k of
           None \<Rightarrow> (Inr False, s)
         | Some ses \<Rightarrow>
             if isWorktreeCleanupTombstone ses then (Inr False, s)
             else (Inr True, put_session (ses\<lparr>ses_lastUsedAt := Some (cx_now cx)\<rparr>) s)))"

definition merge_meta :: "(string, json) js_map \<Rightarrow> session \<Rightarrow> session" where
  "merge_meta m ses =
     ses\<lparr>ses_metadata := Some ((meta_of ses)\<lparr>md_other := fold (\<lambda>(k, v) acc. js_set acc k v) m (md_other (meta_of ses))\<rparr>)\<rparr>"

definition updateSessionMetadata :: "fs_ctx \<Rightarrow> string \<Rightarrow> (string, json) js_map \<Rightarrow> file_store \<Rightarrow> bool fs_result" where
  "updateSessionMetadata cx k m s =
     (if fs_fault s then (Inl Storage_fault, s)
      else if ''kit'' \<in> fst ` set m then (Inr False, s)
      else
        (case js_get (fs_sessions s) k of
           None \<Rightarrow> (Inr False, s)
         | Some ses \<Rightarrow>
             if isWorktreeCleanupTombstone ses then (Inr False, s)
             else
               (let ses1 = merge_meta m ses; s1 = put_session ses1 s in
                (Inr True,
                 if isExpired cx s1 ses1 then put_session (ses1\<lparr>ses_lastUsedAt := Some (cx_now cx)\<rparr>) s1 else s1))))"

record session_identity =
  si_sid :: string
  si_scli :: provider
  si_sowner :: "principal option"
  si_screatedAt :: time
  si_sgeneration :: string

definition sessionGenerationIdentity :: "session \<Rightarrow> string + session_identity" where
  "sessionGenerationIdentity ses =
     (case ses_generation ses of
        None \<Rightarrow> Inl ''Session has no durable generation identity''
      | Some g \<Rightarrow>
          if g = [] then Inl ''Session has no durable generation identity''
          else Inr \<lparr>si_sid = ses_id ses, si_scli = ses_cli ses, si_sowner = ses_ownerPrincipal ses,
                 si_screatedAt = ses_createdAt ses, si_sgeneration = g\<rparr>)"

datatype session_mutation = Replace_metadata "session_meta option" | Delete_session

definition identity_matches :: "session_identity \<Rightarrow> session_meta option \<Rightarrow> session \<Rightarrow> bool" where
  "identity_matches i expected ses \<longleftrightarrow>
     \<not> isWorktreeCleanupTombstone ses \<and> ses_cli ses = si_scli i \<and> ses_ownerPrincipal ses = si_sowner i
     \<and> ses_createdAt ses = si_screatedAt i \<and> ses_generation ses = Some (si_sgeneration i)
     \<and> meta_same (meta_of ses) (nullish expected empty_meta)"

definition compareAndSetSession ::
  "session_identity \<Rightarrow> session_meta option \<Rightarrow> session_mutation \<Rightarrow> file_store \<Rightarrow> bool fs_result"
where
  "compareAndSetSession i expected mutation s =
     (if fs_fault s then (Inl Storage_fault, s)
      else
        (case js_get (fs_sessions s) (si_sid i) of
           None \<Rightarrow> (Inr False, s)
         | Some ses \<Rightarrow>
             if \<not> identity_matches i expected ses then (Inr False, s)
             else
               (case mutation of
                  Replace_metadata m \<Rightarrow>
                    (let kit = md_kit (nullish m empty_meta) in
                     if md_kit (meta_of ses) \<noteq> kit
                        \<or> (case kit of None \<Rightarrow> False | Some b \<Rightarrow> \<not> isKitSessionBinding b)
                     then (Inr False, s)
                     else (Inr True, put_session (ses\<lparr>ses_metadata := m\<rparr>) s))
                | Delete_session \<Rightarrow>
                    if held_attempt ses \<noteq> None then (Inr False, s)
                    else (Inr True, notifySessionRemoved (staged ses) (removeOrStageSession ses s)))))"

definition updateKitSessionBinding ::
  "fs_ctx \<Rightarrow> string \<Rightarrow> kit_binding \<Rightarrow> string option \<Rightarrow> file_store \<Rightarrow> bool fs_result"
where
  "updateKitSessionBinding cx k binding expectedAttemptId s =
     (if fs_fault s then (Inl Storage_fault, s)
      else
        (case js_get (fs_sessions s) k of
           None \<Rightarrow> (Inr False, s)
         | Some ses \<Rightarrow>
             if isWorktreeCleanupTombstone ses then (Inr False, s)
             else if isExpired cx s ses then (Inr False, evictSessionRow k s)
             else
               (case cloneKitSessionBinding binding of
                  Inl err \<Rightarrow> (Inl (Invalid_kit err), s)
                | Inr nxt \<Rightarrow>
                    (case getKitSessionBinding ses of
                       None \<Rightarrow> (Inr False, s)
                     | Some b \<Rightarrow>
                         (case sameKitExecutionRef (kb_execution b) (kb_execution nxt) of
                            Inl err \<Rightarrow> (Inl (Invalid_kit err), s)
                          | Inr False \<Rightarrow> (Inr False, s)
                          | Inr True \<Rightarrow>
                              if (case expectedAttemptId of
                                    None \<Rightarrow> kb_attempt b \<noteq> None
                                  | Some a \<Rightarrow> str_trim a = []
                                      \<or> \<not> principalCanAccess (ses_ownerPrincipal ses) (cx_caller cx)
                                      \<or> (case kb_attempt b of None \<Rightarrow> True
                                         | Some cur \<Rightarrow> ka_id cur \<noteq> a
                                             \<or> kb_nativeSessionId b \<noteq> ka_expectedNativeSessionId cur))
                              then (Inr False, s)
                              else (Inr True, put_session (set_kit nxt ses) s))))))"

definition getPinnedKitReleaseIds :: "fs_ctx \<Rightarrow> file_store \<Rightarrow> string list fs_result" where
  "getPinnedKitReleaseIds cx s =
     (if fs_fault s then (Inl Storage_fault, s)
      else
        (let s1 = evictExpiredSessions cx s;
             pins = List.map_filter (\<lambda>ses. case getKitSessionBinding ses of
               None \<Rightarrow> None
             | Some b \<Rightarrow> if kb_resumeEligible b \<or> kb_attempt b \<noteq> None
                         then Some (ke_releaseId (kb_execution b)) else None) (map snd (fs_sessions s1)) in
         (Inr (sort (remdups pins)), s1)))"

definition clearAllSessions :: "provider option \<Rightarrow> file_store \<Rightarrow> nat fs_result" where
  "clearAllSessions cli s =
     (if fs_fault s then (Inl Storage_fault, s)
      else
        (let doomed = filter (\<lambda>ses. (case cli of None \<Rightarrow> True | Some c \<Rightarrow> ses_cli ses = c)
               \<and> \<not> isWorktreeCleanupTombstone ses \<and> held_attempt ses = None) (map snd (fs_sessions s)) in
         (Inr (length doomed),
          fold (\<lambda>ses. notifySessionRemoved (staged ses)) doomed (fold removeOrStageSession doomed s))))"

section \<open>Worktree-cleanup tombstones\<close>

definition listPendingWorktreeCleanupSessions :: "jstext option \<Rightarrow> file_store \<Rightarrow> session list" where
  "listPendingWorktreeCleanupSessions host s =
     filter (\<lambda>ses. isWorktreeCleanupTombstone ses
         \<and> (case host of None \<Rightarrow> True | Some h \<Rightarrow> meta_get ses ''worktreeOwnerHostname'' = Some (JStr h)))
       (map snd (fs_sessions s))"

definition finalizePendingWorktreeCleanup :: "session \<Rightarrow> file_store \<Rightarrow> bool fs_result" where
  "finalizePendingWorktreeCleanup ses s =
     (if fs_fault s then (Inl Storage_fault, s)
      else
        (case js_get (fs_sessions s) (ses_id ses) of
           None \<Rightarrow> (Inr False, s)
         | Some cur \<Rightarrow>
             if \<not> isWorktreeCleanupTombstone cur \<or> ses_generation cur \<noteq> ses_generation ses
                \<or> \<not> meta_same (meta_of cur) (meta_of ses)
             then (Inr False, s)
             else (Inr True, s\<lparr>fs_sessions := js_delete (fs_sessions s) (ses_id ses)\<rparr>)))"

section \<open>Projections\<close>

definition INTERNAL_WORKTREE_METADATA_KEYS :: "string list" where
  "INTERNAL_WORKTREE_METADATA_KEYS =
     [''worktreeOwnerHostname'', ''worktreeOwnerInstanceId'', ''worktreeToken'', ''worktreeAdminDirectory'',
      ''worktreeCleanupPending'', ''worktreeCleanupPendingDeletion'']"

definition publicSafeSession :: "session \<Rightarrow> session" where
  "publicSafeSession ses =
     (let internal = (case ses_metadata ses of None \<Rightarrow> False
           | Some m \<Rightarrow> list_ex (\<lambda>k. k \<in> fst ` set (md_other m)) INTERNAL_WORKTREE_METADATA_KEYS) in
      if ses_generation ses = None \<and> \<not> internal then ses
      else if \<not> internal then ses\<lparr>ses_generation := None\<rparr>
      else ses\<lparr>ses_generation := None,
             ses_metadata := Some ((meta_of ses)\<lparr>md_other :=
               fold (\<lambda>k m. js_delete m k) INTERNAL_WORKTREE_METADATA_KEYS (md_other (meta_of ses))\<rparr>)\<rparr>)"

text \<open>node:path, and what a path is reduced to for a remote caller.\<close>

record path_module =
  pm_relative :: "jstext \<Rightarrow> jstext \<Rightarrow> jstext"
  pm_isAbsolute :: "jstext \<Rightarrow> bool"
  pm_basename :: "jstext \<Rightarrow> jstext"

definition reducePath :: "path_module \<Rightarrow> jstext option \<Rightarrow> jstext \<Rightarrow> jstext" where
  "reducePath pm base absolute =
     (let rel = (case base of None \<Rightarrow> [] | Some r \<Rightarrow> if r = [] then [] else pm_relative pm r absolute) in
      if rel \<noteq> [] \<and> \<not> prefix (lit ''..'') rel \<and> \<not> pm_isAbsolute pm rel then rel
      else pm_basename pm absolute)"

definition reduce_key :: "(jstext \<Rightarrow> jstext) \<Rightarrow> string \<Rightarrow> (string, json) js_map \<Rightarrow> (string, json) js_map" where
  "reduce_key f k m = (case js_get m k of Some (JStr v) \<Rightarrow> js_set m k (JStr (f v)) | _ \<Rightarrow> m)"

definition remoteSafeSession :: "path_module \<Rightarrow> session \<Rightarrow> session" where
  "remoteSafeSession pm ses =
     (let pub = publicSafeSession ses in
      case ses_metadata pub of
        None \<Rightarrow> pub
      | Some m \<Rightarrow>
          (let wsRoot = (case js_get (md_other m) ''workspaceRoot'' of Some (JStr r) \<Rightarrow> Some r | _ \<Rightarrow> None);
               f = reducePath pm wsRoot;
               m1 = reduce_key f ''worktreePath'' (md_other m);
               m2 = (case js_get m1 ''acp'' of
                       Some (JObj acp) \<Rightarrow>
                         js_set m1 ''acp''
                           (JObj (js_delete (reduce_key f ''worktreePath'' (reduce_key f ''cwd'' acp)) ''sessionId''))
                     | _ \<Rightarrow> m1);
               m3 = (if wsRoot \<noteq> None then js_delete m2 ''workspaceRoot'' else m2) in
           pub\<lparr>ses_metadata := Some \<lparr>md_kit = None, md_other = m3\<rparr>\<rparr>))"

end
