(* ===== verification/Session_Frames.thy ===== *)
theory Session_Frames
  imports Session_Store
begin

text \<open>
  What the operations of the session store leave alone: the well-formedness of the stored sessions, the
  calm steps that keep every pinned session, the few operations that rewrite one live session, runs of
  calls, and exactly what eviction removes.
\<close>

section \<open>Frame lemmas\<close>

definition fs_wf :: "file_store \<Rightarrow> bool" where
  "fs_wf s \<longleftrightarrow> js_wf (fs_sessions s) \<and> (\<forall>k ses. js_get (fs_sessions s) k = Some ses \<longrightarrow> ses_id ses = k)"

abbreviation fs_get :: "file_store \<Rightarrow> string \<Rightarrow> session option" where
  "fs_get s k \<equiv> js_get (fs_sessions s) k"

lemma fs_wfD: "fs_wf s \<Longrightarrow> fs_get s k = Some ses \<Longrightarrow> ses_id ses = k"
  by (simp add: fs_wf_def)

lemma fs_wf_mem:
  "fs_wf s \<Longrightarrow> ses \<in> set (map snd (fs_sessions s)) \<longleftrightarrow> fs_get s (ses_id ses) = Some ses"
proof
  assume wf: "fs_wf s" and "ses \<in> set (map snd (fs_sessions s))"
  then obtain k where "(k, ses) \<in> set (fs_sessions s)" by auto
  then have "fs_get s k = Some ses" using wf by (simp add: fs_wf_def)
  with fs_wfD [OF wf this] show "fs_get s (ses_id ses) = Some ses" by simp
next
  assume "fs_get s (ses_id ses) = Some ses"
  then show "ses \<in> set (map snd (fs_sessions s))" by (force dest: map_of_SomeD)
qed

text \<open>A session expiry cannot take: a tombstone or the holder of an attempt.\<close>

definition pinned_session :: "session \<Rightarrow> bool" where
  "pinned_session ses \<longleftrightarrow> isWorktreeCleanupTombstone ses \<or> held_attempt ses \<noteq> None"

named_theorems fsm  \<open>what the session operations leave alone\<close>

lemma pinned_not_expired [fsm]: "pinned_session ses \<Longrightarrow> \<not> isExpired cx s ses"
  by (auto simp: pinned_session_def isExpired_def held_attempt_def Let_def split: option.splits)

lemma staged_id [simp]: "ses_id (staged ses) = ses_id ses"
  by (simp add: staged_def set_other_def)

lemma note_sessions [simp, fsm]:
  "fs_sessions (fs_note e s) = fs_sessions s" "fs_sessions (notifySessionRemoved ses s) = fs_sessions s"
  "fs_active (notifySessionRemoved ses s) = fs_active s" "fs_activeKit (notifySessionRemoved ses s) = fs_activeKit s"
  "fs_fault (notifySessionRemoved ses s) = fs_fault s"
  by (simp_all add: fs_note_def notifySessionRemoved_def)

lemma fold_note_sessions [simp, fsm]:
  "fs_sessions (fold notifySessionRemoved removed s) = fs_sessions s"
  "fs_sessions (fold (\<lambda>ses. notifySessionRemoved (f ses)) removed s) = fs_sessions s"
  by (induction removed arbitrary: s) simp_all

lemma remove_get [simp, fsm]:
  "fs_get (removeOrStageSession ses s) k =
     (if k = ses_id ses then (if hasDurablyOwnedWorktree ses then Some (staged ses) else None) else fs_get s k)"
  by (simp add: removeOrStageSession_def Let_def put_session_def fs_note_def clearActiveKitPointersForSession_def)

lemma remove_wf [simp, fsm]: "fs_wf s \<Longrightarrow> fs_wf (removeOrStageSession ses s)"
  by (auto simp: fs_wf_def remove_get)
    (simp add: removeOrStageSession_def Let_def put_session_def fs_note_def clearActiveKitPointersForSession_def)

lemma note_wf [simp, fsm]: "fs_wf (notifySessionRemoved ses s) = fs_wf s"
  by (simp add: fs_wf_def)

lemma fold_note_wf [simp, fsm]:
  "fs_wf (fold notifySessionRemoved removed s) = fs_wf s"
  "fs_wf (fold (\<lambda>ses. notifySessionRemoved (f ses)) removed s) = fs_wf s"
  by (simp_all add: fs_wf_def)

lemma put_get [simp, fsm]: "fs_get (put_session ses s) k = (if k = ses_id ses then Some ses else fs_get s k)"
  by (simp add: put_session_def)

lemma put_wf [simp, fsm]: "fs_wf s \<Longrightarrow> fs_wf (put_session ses s)"
  by (auto simp: fs_wf_def) (simp add: put_session_def)

lemma evict_loop_get:
  "fs_get (snd (evict_loop cx xs s)) k \<noteq> fs_get s k \<Longrightarrow> \<exists>ses\<in>set xs. ses_id ses = k \<and> \<not> pinned_session ses"
proof (induction xs arbitrary: s)
  case (Cons ses xs)
  show ?case
  proof (cases "isExpired cx s ses \<and> ses_id ses = k")
    case True
    then show ?thesis using pinned_not_expired by auto
  next
    case False
    then show ?thesis
      using Cons(1) [of s] Cons(1) [of "removeOrStageSession ses s"] Cons(2)
      by (auto simp: split_beta split: if_splits)
  qed
qed simp

lemma evict_loop_wf: "fs_wf s \<Longrightarrow> fs_wf (snd (evict_loop cx xs s))"
  by (induction xs arbitrary: s) (auto simp: split_beta)

lemma evict_wf [simp, fsm]: "fs_wf s \<Longrightarrow> fs_wf (evictExpiredSessions cx s)"
  by (simp add: evictExpiredSessions_def split_beta Let_def evict_loop_wf)

lemma evict_pinned [fsm]:
  assumes "fs_wf s" and "fs_get s k = Some ses" and "pinned_session ses"
  shows "fs_get (evictExpiredSessions cx s) k = Some ses"
proof -
  have "ses' = ses" if "ses' \<in> set (map snd (fs_sessions s))" "ses_id ses' = k" for ses'
    using fs_wf_mem [OF assms(1), of ses'] that assms(2) by simp
  then have "fs_get (snd (evict_loop cx (map snd (fs_sessions s)) s)) k = fs_get s k"
    using evict_loop_get [of cx "map snd (fs_sessions s)" s k] assms(3) by blast
  with assms(2) show ?thesis by (simp add: evictExpiredSessions_def split_beta Let_def)
qed

lemma removeRow_wf [simp, fsm]: "fs_wf s \<Longrightarrow> fs_wf (snd (removeSessionRow k caller s))"
  by (auto simp: removeSessionRow_def split: option.split)

lemma removeRow_pinned [fsm]:
  assumes "fs_wf s" and "fs_get s k = Some ses" and "pinned_session ses"
  shows "fs_get (snd (removeSessionRow k' caller s)) k = Some ses"
proof -
  have "k = k'" if "fs_get s k' = Some x" "k = ses_id x" for x using fs_wfD [OF assms(1) that(1)] that by simp
  then show ?thesis
    using assms(2,3) by (auto simp: removeSessionRow_def pinned_session_def split: option.split)
qed

lemma evictRow_fsm [simp, fsm]:
  "fs_wf s \<Longrightarrow> fs_wf (evictSessionRow k s)"
  "fs_wf s \<Longrightarrow> fs_get s k = Some ses \<Longrightarrow> pinned_session ses \<Longrightarrow> fs_get (evictSessionRow k' s) k = Some ses"
  by (simp_all add: evictSessionRow_def removeRow_wf removeRow_pinned)

lemma pointer_sessions:
  "setActiveKitSessionId cli r k e owner s = Inr s' \<Longrightarrow> fs_sessions s' = fs_sessions s"
  "point_kit_session cx cli e' k' s = Inr s' \<Longrightarrow> fs_sessions s' = fs_sessions s"
  "fs_sessions (point_session cli k' s) = fs_sessions s"
  by (auto simp: setActiveKitSessionId_def point_kit_session_def point_session_def
      split: sum.splits option.splits if_splits)

lemma wf_sessions: "fs_sessions s' = fs_sessions s \<Longrightarrow> fs_wf s \<Longrightarrow> fs_wf s'"
  by (simp add: fs_wf_def)

text \<open>Steps that keep the store well-formed and leave every pinned session as it is.\<close>

definition calm :: "file_store \<Rightarrow> file_store \<Rightarrow> bool" where
  "calm s s' \<longleftrightarrow> (fs_wf s \<longrightarrow> fs_wf s'
     \<and> (\<forall>k ses. fs_get s k = Some ses \<and> pinned_session ses \<longrightarrow> fs_get s' k = Some ses))"

named_theorems calm_rules  \<open>calm steps\<close>

lemma calm_refl [calm_rules]: "calm s s"
  by (simp add: calm_def)

lemma calm_trans: "calm s s1 \<Longrightarrow> calm s1 s2 \<Longrightarrow> calm s s2"
  by (simp add: calm_def)

lemma calm_sessions:
  assumes "calm s s1" and "fs_sessions s2 = fs_sessions s1"
  shows "calm s s2"
  using assms unfolding calm_def fs_wf_def assms(2) by blast

lemma calm_evict [calm_rules]: "calm s (evictExpiredSessions cx s)"
  by (simp add: calm_def evict_pinned)

lemma calm_evictRow [calm_rules]: "calm s (evictSessionRow k s)"
  by (simp add: calm_def)

lemma calm_removeRow [calm_rules]: "calm s (snd (removeSessionRow k caller s))"
  by (simp add: calm_def removeRow_pinned)

lemma calmI:
  assumes "fs_wf s \<Longrightarrow> fs_wf s'"
    and "\<And>k ses. fs_wf s \<Longrightarrow> fs_get s k = Some ses \<Longrightarrow> pinned_session ses \<Longrightarrow> fs_get s' k = Some ses"
  shows "calm s s'"
  using assms unfolding calm_def by blast

lemma calmD:
  assumes "calm s s'" and "fs_wf s"
  shows "fs_wf s'" "fs_get s k = Some ses \<Longrightarrow> pinned_session ses \<Longrightarrow> fs_get s' k = Some ses"
  using assms unfolding calm_def by blast+

lemma calm_put:
  assumes "calm s s1" and "\<And>x. fs_get s1 (ses_id ses) = Some x \<Longrightarrow> \<not> pinned_session x"
  shows "calm s (put_session ses s1)"
proof (rule calmI)
  show "fs_wf (put_session ses s1)" if "fs_wf s" by (rule put_wf [OF calmD(1) [OF assms(1) that]])
  show "fs_get (put_session ses s1) k = Some x"
    if "fs_wf s" "fs_get s k = Some x" "pinned_session x" for k x
    using calmD(2) [OF assms(1) that] assms(2) [of x] that(3) by (auto simp: put_get)
qed

lemma calm_remove:
  assumes "calm s s1" and "\<And>x. fs_get s1 (ses_id ses) = Some x \<Longrightarrow> \<not> pinned_session x"
  shows "calm s (notifySessionRemoved ses' (removeOrStageSession ses s1))"
proof (rule calmI)
  show "fs_wf (notifySessionRemoved ses' (removeOrStageSession ses s1))" if "fs_wf s"
    using remove_wf [OF calmD(1) [OF assms(1) that]] by (simp add: note_wf)
  show "fs_get (notifySessionRemoved ses' (removeOrStageSession ses s1)) k = Some x"
    if "fs_wf s" "fs_get s k = Some x" "pinned_session x" for k x
    using calmD(2) [OF assms(1) that] assms(2) [of x] that(3) by (auto simp: remove_get)
qed

lemma calm_pointers [calm_rules]:
  "setActiveKitSessionId cli r k e owner s1 = Inr s2 \<Longrightarrow> calm s s1 \<Longrightarrow> calm s s2"
  by (erule calm_sessions) (rule pointer_sessions)

lemma calm_create [calm_rules]: "calm s (snd (createSession cx cli d k b m s))"
proof -
  let ?s1 = "evictExpiredSessions cx s" and ?k = "id_or_new cx k"
  have new: "calm s (put_session (new_session cx ?k cli d x) ?s1)" if "fs_get ?s1 ?k = None" for x
    by (rule calm_put [OF calm_evict]) (simp add: new_session_def that)
  have plain: "calm s (point_session cli ?k (put_session (new_session cx ?k cli d x) ?s1))"
    if "fs_get ?s1 ?k = None" for x
    using new [OF that] by (rule calm_sessions) (rule pointer_sessions)
  have kit: "calm s s2" if "fs_get ?s1 ?k = None"
      and "point_kit_session cx cli e ?k (put_session (new_session cx ?k cli d x) ?s1) = Inr s2" for x e s2
    using new [OF that(1)] by (rule calm_sessions) (rule pointer_sessions(2) [OF that(2)])
  show ?thesis
    by (auto simp: createSession_def Let_def calm_refl calm_evict plain split: option.split sum.split intro: kit)
qed

lemma calm_identified: "calm s (snd (identified_kit_session cx cli b d k s))"
  by (auto simp: identified_kit_session_def calm_create calm_refl split: option.split sum.split bool.split
      intro: calm_pointers)

lemma calm_getOrCreate [calm_rules]: "calm s (snd (getOrCreateKitSession cx cli b d k s))"
proof -
  have ident: "calm s (snd (identified_kit_session cx cli x d k s2))"
    if "setActiveKitSessionId cli r None e owner (evictExpiredSessions cx s) = Inr s2" for x r e owner s2
    using calm_pointers [OF that calm_evict] calm_identified by (rule calm_trans)
  have ident1: "calm s (snd (identified_kit_session cx cli x d k (evictExpiredSessions cx s)))" for x
    using calm_evict calm_identified by (rule calm_trans)
  show ?thesis
    by (auto simp: getOrCreateKitSession_def Let_def calm_refl calm_evict ident1 split: option.split sum.split
        intro: ident)
qed

lemma calm_exact: "calm s (snd (getExactKitSession cx cli r e k s))"
  by (auto simp: getExactKitSession_def calm_refl calm_evictRow split: option.split sum.split)

lemma exact_SomeD:
  assumes "getExactKitSession cx cli r e k s = (Inr (Some (ses, b)), s1)"
  shows "s1 = s" "fs_get s k = Some ses" "getKitSessionBinding ses = Some b" "\<not> isWorktreeCleanupTombstone ses"
    "ses_cli ses = cli" "principalCanAccess (ses_ownerPrincipal ses) (cx_caller cx)"
    "held_attempt ses = kb_attempt b" "\<not> isExpired cx s ses"
  using assms by (auto simp: getExactKitSession_def held_attempt_def split: if_splits option.splits sum.splits)

lemma calm_get [calm_rules]: "calm s (snd (getSession cx k s))"
  by (auto simp: getSession_def calm_refl calm_evictRow split: option.split)

lemma calm_list [calm_rules]: "calm s (snd (listSessions cx cli s))"
  by (simp add: listSessions_def Let_def calm_evict)

lemma calm_setActive [calm_rules]: "calm s (snd (setActiveSession cx cli k s))"
  by (auto simp: setActiveSession_def calm_refl calm_evictRow split: option.split
      intro: calm_sessions [OF calm_refl])

lemma not_expired_pinned: "isExpired cx s ses \<Longrightarrow> \<not> pinned_session ses"
  using pinned_not_expired by blast

lemma calm_getActive [calm_rules]: "calm s (snd (getActiveSession cx cli s))"
proof -
  let ?s1 = "s\<lparr>fs_active := js_delete (fs_active s) cli\<rparr>"
  have s1: "calm s ?s1" by (rule calm_sessions [OF calm_refl]) simp
  have "calm s (notifySessionRemoved (staged x) (removeOrStageSession x ?s1))"
    if "fs_get s k = Some x" "isExpired cx s x" for k x
  proof (cases "fs_wf s")
    case True
    then show ?thesis using that fs_wfD [OF True that(1)]
      by (intro calm_remove [OF s1]) (auto dest: not_expired_pinned)
  qed (simp add: calm_def)
  then show ?thesis using s1
    by (auto simp: getActiveSession_def Let_def calm_refl split: option.split)
qed

lemma calm_setActiveKit [calm_rules]: "calm s (snd (setActiveKitSession cx cli r k e s))"
  by (auto simp: setActiveKitSession_def Let_def calm_refl calm_evictRow split: option.split sum.split bool.split
      intro: calm_pointers)

lemma calm_getActiveKit [calm_rules]: "calm s (snd (getActiveKitSession cx cli r e s))"
proof -
  let ?clear = "\<lambda>e. case setActiveKitSessionId cli r None e (cx_caller cx) s of Inl err \<Rightarrow> s | Inr s2 \<Rightarrow> s2"
  have c: "calm s (?clear e)" "fs_sessions (?clear e) = fs_sessions s" for e
    by (auto split: sum.split intro: calm_pointers calm_refl dest: pointer_sessions(1))
  have rm: "calm s (notifySessionRemoved (staged x) (removeOrStageSession x (?clear e)))"
    if "fs_get s k = Some x" "isExpired cx (?clear e) x" for k x e
  proof (cases "fs_wf s")
    case True
    then show ?thesis using that fs_wfD [OF True that(1)]
      by (intro calm_remove [OF c(1)]) (auto simp: c(2) dest: not_expired_pinned)
  qed (simp add: calm_def)
  show ?thesis
    unfolding getActiveKitSession_def Let_def using c(1) rm
    by (simp split: option.split sum.split add: calm_refl)
qed

lemma calm_clearKit [calm_rules]: "calm s (snd (clearActiveKitSessionIfCurrent cx cli r e k s))"
  by (auto simp: clearActiveKitSessionIfCurrent_def Let_def calm_refl calm_evict
      split: option.split sum.split bool.split intro: calm_pointers [OF _ calm_evict])

lemma calm_claim [calm_rules]: "calm s (snd (claimKitSessionAttempt cx cli r e k a s))"
proof -
  have put: "calm s (put_session (set_kit b' ses) s1)"
    if "getExactKitSession cx cli r e k s = (Inr (Some (ses, b)), s1)" "kb_attempt b = None" for ses b b' s1
  proof (cases "fs_wf s")
    case True
    note ex = exact_SomeD [OF that(1)]
    have "ses_id ses = k" by (rule fs_wfD [OF True ex(2)])
    then show ?thesis unfolding ex(1)
      by (intro calm_put [OF calm_refl])
        (use ex that(2) in \<open>auto simp: set_kit_def pinned_session_def\<close>)
  qed (simp add: calm_def)
  have ex: "calm s s1" if "getExactKitSession cx cli r e k s = (x, s1)" for x s1
    using calm_exact [of s cx cli r e k] that by simp
  show ?thesis
    by (auto simp: claimKitSessionAttempt_def calm_refl split: sum.split option.split prod.split
        intro: put ex)
qed

lemma calm_pins [calm_rules]: "calm s (snd (getPinnedKitReleaseIds cx s))"
  by (simp add: getPinnedKitReleaseIds_def Let_def calm_refl calm_evict)

lemma calm_delete [calm_rules]: "calm s (snd (deleteSession cx k s))"
  by (simp add: deleteSession_def calm_removeRow)

lemma fold_remove_get:
  "k \<notin> ses_id ` set xs \<Longrightarrow> fs_get (fold removeOrStageSession xs s) k = fs_get s k"
  "fs_wf s \<Longrightarrow> fs_wf (fold removeOrStageSession xs s)"
  by (induction xs arbitrary: s) auto

lemma calm_clearAll [calm_rules]: "calm s (snd (clearAllSessions cli s))"
proof -
  define xs where "xs = filter (\<lambda>ses. (case cli of None \<Rightarrow> True | Some c \<Rightarrow> ses_cli ses = c)
       \<and> \<not> isWorktreeCleanupTombstone ses \<and> held_attempt ses = None) (map snd (fs_sessions s))"
  have "calm s (fold removeOrStageSession xs s)"
  proof (rule calmI)
    show "fs_wf (fold removeOrStageSession xs s)" if "fs_wf s" using that by (rule fold_remove_get(2))
    fix k ses
    assume wf: "fs_wf s" and ses: "fs_get s k = Some ses" "pinned_session ses"
    have "k \<noteq> ses_id x" if "x \<in> set xs" for x
    proof
      assume k: "k = ses_id x"
      have x: "x \<in> set (map snd (fs_sessions s))" "\<not> pinned_session x"
        using that by (auto simp: xs_def pinned_session_def)
      then have "fs_get s (ses_id x) = Some x" using fs_wf_mem [OF wf] by blast
      then show False using k ses x(2) by simp
    qed
    then have "fs_get (fold removeOrStageSession xs s) k = fs_get s k" by (intro fold_remove_get(1)) blast
    then show "fs_get (fold removeOrStageSession xs s) k = Some ses" unfolding ses(1) .
  qed
  then have "calm s (fold (\<lambda>ses. notifySessionRemoved (staged ses)) xs (fold removeOrStageSession xs s))"
    by (rule calm_sessions) (rule fold_note_sessions(2))
  then show ?thesis by (simp add: clearAllSessions_def Let_def calm_refl flip: xs_def)
qed

section \<open>The operations that touch a held session\<close>

text \<open>A binding as the store writes it: valid and unchanged by another clone.\<close>

definition canonical_binding :: "kit_binding \<Rightarrow> bool" where
  "canonical_binding b \<longleftrightarrow> isKitSessionBinding b \<and> cloneKitSessionBinding b = Inr b"

lemma clone_attempt_valid:
  "cloneKitSessionAttempt a = Inr a' \<Longrightarrow>
     isKitSessionAttempt a' \<and> cloneKitSessionAttempt a' = Inr a' \<and> ka_id a' = ka_id a
     \<and> ka_expectedNativeSessionId a' = None"
  by (cases a) (auto simp: cloneKitSessionAttempt_def isKitSessionAttempt_def split: if_splits option.splits)

lemma clone_binding_fields:
  "cloneKitSessionBinding b = Inr x \<Longrightarrow> isKitExecutionRef (kb_execution x) \<and> kb_execution x = kb_execution b
     \<and> kb_nativeSessionId x = None \<and> \<not> kb_resumeEligible x"
  by (auto simp: cloneKitSessionBinding_def isKitSessionBinding_def clone_ref_id
      split: if_splits option.splits sum.splits)

lemma clone_binding_canonical: "cloneKitSessionBinding b = Inr x \<Longrightarrow> canonical_binding x"
  by (auto simp: cloneKitSessionBinding_def canonical_binding_def isKitSessionBinding_def clone_ref_id
      split: if_splits option.splits sum.splits dest: clone_attempt_valid)

lemma kit_binding_canonical: "getKitSessionBinding ses = Some b \<Longrightarrow> canonical_binding b"
  by (auto simp: getKitSessionBinding_def clone_binding_canonical split: option.splits if_splits sum.splits)

lemma canonical_attempt:
  assumes "canonical_binding b" and "case x of None \<Rightarrow> True | Some a \<Rightarrow> cloneKitSessionAttempt a = Inr a"
  shows "canonical_binding (b\<lparr>kb_attempt := x\<rparr>)"
proof -
  have ref: "isKitExecutionRef (kb_execution b)" "kb_nativeSessionId b = None" "\<not> kb_resumeEligible b"
    using assms(1) clone_binding_fields [of b b] by (auto simp: canonical_binding_def)
  have "isKitSessionAttempt a" if "x = Some a" for a
    using assms(2) that by (auto simp: cloneKitSessionAttempt_def split: if_splits)
  then show ?thesis
    using assms(2) ref by (auto simp: canonical_binding_def isKitSessionBinding_def cloneKitSessionBinding_def
        clone_ref_id split: option.split)
qed

lemma held_set_kit: "canonical_binding b \<Longrightarrow> held_attempt (set_kit b ses) = kb_attempt b"
  by (simp add: held_attempt_def getKitSessionBinding_def set_kit_def meta_of_def canonical_binding_def)

lemma tombstone_set_kit [simp]: "isWorktreeCleanupTombstone (set_kit b ses) = isWorktreeCleanupTombstone ses"
  by (simp add: isWorktreeCleanupTombstone_def meta_get_def set_kit_def meta_of_def)

lemma used_session [simp]:
  "held_attempt (ses\<lparr>ses_lastUsedAt := t\<rparr>) = held_attempt ses"
  "isWorktreeCleanupTombstone (ses\<lparr>ses_lastUsedAt := t\<rparr>) = isWorktreeCleanupTombstone ses"
  by (simp_all add: held_attempt_def getKitSessionBinding_def isWorktreeCleanupTombstone_def meta_get_def meta_of_def)

lemma fold_js_set_get:
  "k \<notin> fst ` set m \<Longrightarrow> js_get (fold (\<lambda>(k, v) acc. js_set acc k v) m acc) k = js_get acc k"
  by (induction m arbitrary: acc) auto

lemma merged_session:
  "held_attempt (merge_meta m ses) = held_attempt ses"
  "TOMBSTONE \<notin> fst ` set m \<Longrightarrow> isWorktreeCleanupTombstone (merge_meta m ses) = isWorktreeCleanupTombstone ses"
  "ses_id (merge_meta m ses) = ses_id ses"
  by (simp_all add: held_attempt_def getKitSessionBinding_def isWorktreeCleanupTombstone_def meta_get_def meta_of_def
      merge_meta_def fold_js_set_get)

text \<open>The session k holds the attempt with an identifier.\<close>

definition holds_attempt :: "string \<Rightarrow> string \<Rightarrow> file_store \<Rightarrow> bool" where
  "holds_attempt k aid s \<longleftrightarrow> (\<exists>ses a. fs_get s k = Some ses \<and> \<not> isWorktreeCleanupTombstone ses
     \<and> held_attempt ses = Some a \<and> ka_id a = aid)"

lemma holds_put:
  assumes "holds_attempt k aid s"
    and "ses_id ses = k \<Longrightarrow> \<not> isWorktreeCleanupTombstone ses \<and> map_option ka_id (held_attempt ses) = Some aid"
  shows "holds_attempt k aid (put_session ses s)"
  using assms by (auto simp: holds_attempt_def)

lemma calm_holds: "calm s s' \<Longrightarrow> fs_wf s \<Longrightarrow> holds_attempt k aid s \<Longrightarrow> holds_attempt k aid s'"
  by (auto simp: holds_attempt_def pinned_session_def dest!: calmD(2))

text \<open>A session an operation puts back under its own identifier.\<close>

lemma wf_putback: "fs_wf s \<Longrightarrow> fs_get s k = Some ses \<Longrightarrow> ses_id ses' = ses_id ses \<Longrightarrow> fs_wf (put_session ses' s)"
  by simp

lemma renew_result:
  assumes "fs_wf s"
  shows "calm s (snd (renewKitSessionAttempt cx cli r e k a t s)) \<or>
    (\<exists>ses b cur renewed. fs_get s k = Some ses \<and> getKitSessionBinding ses = Some b \<and> kb_attempt b = Some cur
       \<and> \<not> isWorktreeCleanupTombstone ses \<and> ka_id cur = a \<and> cloneKitSessionAttempt renewed = Inr renewed
       \<and> ka_id renewed = a
       \<and> snd (renewKitSessionAttempt cx cli r e k a t s) = put_session (set_kit (b\<lparr>kb_attempt := Some renewed\<rparr>) ses) s)"
proof -
  have ex: "calm s s1" if "getExactKitSession cx cli r e k s = (x, s1)" for x s1
    using calm_exact [of s cx cli r e k] that by simp
  show ?thesis
  proof (cases "getExactKitSession cx cli r e k s")
    case (Pair x s1)
    note c = ex [OF Pair]
    show ?thesis
    proof (cases x)
      case (Inl err)
      then show ?thesis using c Pair by (simp add: renewKitSessionAttempt_def calm_refl)
    next
      case (Inr y)
      show ?thesis
      proof (cases y)
        case None
        then show ?thesis using c Pair Inr by (simp add: renewKitSessionAttempt_def calm_refl)
      next
        case (Some p)
        obtain ses b where p: "p = (ses, b)" by (cases p)
        note d = exact_SomeD [OF Pair [unfolded Inr Some p]]
        show ?thesis
        proof (cases "kb_attempt b")
          case None
          then show ?thesis using c Pair Inr Some p by (simp add: renewKitSessionAttempt_def calm_refl)
        next
          case (Some cur)
          let ?go = "\<not> fs_fault s \<and> ke_scopeRoot e = r \<and> str_trim a \<noteq> [] \<and> ka_id cur = a"
          note eq = Pair Inr \<open>y = Some p\<close> p Some
          show ?thesis
          proof (cases "cloneKitSessionAttempt (cur\<lparr>ka_expiresAt := t\<rparr>)")
            case (Inl err)
            then show ?thesis using c eq by (simp add: renewKitSessionAttempt_def calm_refl)
          next
            case (Inr renewed)
            let ?late = "\<not> isKitSessionAttemptActive renewed (cx_now cx)
              \<or> (case (ka_expiresAt renewed, ka_expiresAt cur) of (Some x, Some y) \<Rightarrow> x \<le> y | _ \<Rightarrow> False)"
            have res: "snd (renewKitSessionAttempt cx cli r e k a t s) =
                (if ?go then if ?late then s1 else put_session (set_kit (b\<lparr>kb_attempt := Some renewed\<rparr>) ses) s1
                 else if fs_fault s \<or> ke_scopeRoot e \<noteq> r \<or> str_trim a = [] then s else s1)"
              using eq Inr by (simp add: renewKitSessionAttempt_def)
            show ?thesis
            proof (cases "?go \<and> \<not> ?late")
              case True
              then have "snd (renewKitSessionAttempt cx cli r e k a t s)
                  = put_session (set_kit (b\<lparr>kb_attempt := Some renewed\<rparr>) ses) s"
                using res d(1) by simp
              with True d Some clone_attempt_valid [OF Inr] show ?thesis by auto
            next
              case False
              then have "snd (renewKitSessionAttempt cx cli r e k a t s) \<in> {s, s1}" unfolding res by auto
              then show ?thesis using c calm_refl by auto
            qed
          qed
        qed
      qed
    qed
  qed
qed

lemma release_result:
  assumes "fs_wf s"
  shows "calm s (snd (releaseKitSessionAttempt cx cli r e k a s)) \<or>
    (\<exists>ses b cur. fs_get s k = Some ses \<and> getKitSessionBinding ses = Some b \<and> kb_attempt b = Some cur \<and> ka_id cur = a
       \<and> \<not> isWorktreeCleanupTombstone ses
       \<and> snd (releaseKitSessionAttempt cx cli r e k a s) = put_session (set_kit (b\<lparr>kb_attempt := None\<rparr>) ses) s)"
proof (cases "getExactKitSession cx cli r e k s")
  case (Pair x s1)
  have c: "calm s s1" using calm_exact [of s cx cli r e k] Pair by simp
  show ?thesis
  proof (cases "\<exists>ses b. x = Inr (Some (ses, b))")
    case True
    then obtain ses b where x: "x = Inr (Some (ses, b))" by blast
    note d = exact_SomeD [OF Pair [unfolded x]]
    show ?thesis
      using c Pair x d by (cases "kb_attempt b") (auto simp: releaseKitSessionAttempt_def calm_refl)
  next
    case False
    then show ?thesis using c Pair
      by (cases x) (auto simp: releaseKitSessionAttempt_def calm_refl split: option.split)
  qed
qed

section \<open>Runs of operations\<close>

datatype fs_op =
    Op_create provider "string option" "string option" "kit_binding option" "(string, json) js_map option"
  | Op_getOrCreate provider kit_binding "string option" "string option"
  | Op_clearKit provider "string option" kit_ref string
  | Op_claim provider "string option" kit_ref string kit_attempt
  | Op_renew provider "string option" kit_ref string string "time option"
  | Op_release provider "string option" kit_ref string string
  | Op_get string
  | Op_list "provider option"
  | Op_delete string
  | Op_setActive provider "string option"
  | Op_getActive provider
  | Op_setActiveKit provider "string option" "string option" "kit_ref option"
  | Op_getActiveKit provider "string option" "kit_ref option"
  | Op_usage string
  | Op_meta string "(string, json) js_map"
  | Op_cas session_identity "session_meta option" session_mutation
  | Op_updateKit string kit_binding "string option"
  | Op_pins
  | Op_clearAll "provider option"
  | Op_finalize session

fun fs_apply :: "fs_ctx \<times> fs_op \<Rightarrow> file_store \<Rightarrow> file_store" where
  "fs_apply (cx, Op_create cli d k b m) s = snd (createSession cx cli d k b m s)"
| "fs_apply (cx, Op_getOrCreate cli b d k) s = snd (getOrCreateKitSession cx cli b d k s)"
| "fs_apply (cx, Op_clearKit cli r e k) s = snd (clearActiveKitSessionIfCurrent cx cli r e k s)"
| "fs_apply (cx, Op_claim cli r e k a) s = snd (claimKitSessionAttempt cx cli r e k a s)"
| "fs_apply (cx, Op_renew cli r e k a t) s = snd (renewKitSessionAttempt cx cli r e k a t s)"
| "fs_apply (cx, Op_release cli r e k a) s = snd (releaseKitSessionAttempt cx cli r e k a s)"
| "fs_apply (cx, Op_get k) s = snd (getSession cx k s)"
| "fs_apply (cx, Op_list cli) s = snd (listSessions cx cli s)"
| "fs_apply (cx, Op_delete k) s = snd (deleteSession cx k s)"
| "fs_apply (cx, Op_setActive cli k) s = snd (setActiveSession cx cli k s)"
| "fs_apply (cx, Op_getActive cli) s = snd (getActiveSession cx cli s)"
| "fs_apply (cx, Op_setActiveKit cli r k e) s = snd (setActiveKitSession cx cli r k e s)"
| "fs_apply (cx, Op_getActiveKit cli r e) s = snd (getActiveKitSession cx cli r e s)"
| "fs_apply (cx, Op_usage k) s = snd (updateSessionUsage cx k s)"
| "fs_apply (cx, Op_meta k m) s = snd (updateSessionMetadata cx k m s)"
| "fs_apply (cx, Op_cas i x m) s = snd (compareAndSetSession i x m s)"
| "fs_apply (cx, Op_updateKit k b a) s = snd (updateKitSessionBinding cx k b a s)"
| "fs_apply (cx, Op_pins) s = snd (getPinnedKitReleaseIds cx s)"
| "fs_apply (cx, Op_clearAll cli) s = snd (clearAllSessions cli s)"
| "fs_apply (cx, Op_finalize ses) s = snd (finalizePendingWorktreeCleanup ses s)"

text \<open>A call that writes the internal tombstone key itself, which no caller of the gateway does.\<close>

fun writes_tombstone :: "fs_op \<Rightarrow> bool" where
  "writes_tombstone (Op_meta k m) = (TOMBSTONE \<in> fst ` set m)"
| "writes_tombstone (Op_cas i x (Replace_metadata m)) = (TOMBSTONE \<in> fst ` set (md_other (nullish m empty_meta)))"
| "writes_tombstone _ = False"

text \<open>The calls of the holder that end its attempt or rewrite the binding under it.\<close>

fun ends_attempt :: "string \<Rightarrow> string \<Rightarrow> fs_op \<Rightarrow> bool" where
  "ends_attempt k aid (Op_release cli r e k' a) = (k' = k \<and> a = aid)"
| "ends_attempt k aid (Op_updateKit k' b a) = (k' = k \<and> a = Some aid)"
| "ends_attempt k aid _ = False"

fun finalizes :: "string \<Rightarrow> fs_op \<Rightarrow> bool" where
  "finalizes k (Op_finalize ses) = (ses_id ses = k)"
| "finalizes k _ = False"

text \<open>What each call that is not calm does: it puts back one live session under its own identifier.\<close>

lemma usage_result:
  "calm s (snd (updateSessionUsage cx k s)) \<or>
   (\<exists>ses. fs_get s k = Some ses \<and> \<not> isWorktreeCleanupTombstone ses
      \<and> snd (updateSessionUsage cx k s) = put_session (ses\<lparr>ses_lastUsedAt := Some (cx_now cx)\<rparr>) s)"
  by (cases "fs_get s k") (auto simp: updateSessionUsage_def calm_refl)

lemma meta_result:
  "calm s (snd (updateSessionMetadata cx k m s)) \<or>
   (\<exists>ses ses'. fs_get s k = Some ses \<and> \<not> isWorktreeCleanupTombstone ses
      \<and> (ses' = merge_meta m ses \<or> ses' = (merge_meta m ses)\<lparr>ses_lastUsedAt := Some (cx_now cx)\<rparr>)
      \<and> fs_sessions (snd (updateSessionMetadata cx k m s)) = fs_sessions (put_session ses' s))"
proof (cases "fs_get s k")
  case (Some ses)
  have "fs_sessions (put_session (x\<lparr>ses_lastUsedAt := t\<rparr>) (put_session x s))
      = fs_sessions (put_session (x\<lparr>ses_lastUsedAt := t\<rparr>) s)" for x t
    by (simp add: put_session_def)
  with Some show ?thesis by (auto simp: updateSessionMetadata_def calm_refl Let_def)
qed (simp add: updateSessionMetadata_def calm_refl)

lemma updateKit_result:
  "calm s (snd (updateKitSessionBinding cx k b a s)) \<or>
   (\<exists>ses nxt. fs_get s k = Some ses \<and> \<not> isWorktreeCleanupTombstone ses \<and> canonical_binding nxt
      \<and> (case held_attempt ses of None \<Rightarrow> True | Some cur \<Rightarrow> a = Some (ka_id cur))
      \<and> snd (updateKitSessionBinding cx k b a s) = put_session (set_kit nxt ses) s)"
proof (cases "fs_get s k")
  case (Some ses)
  show ?thesis
  proof (cases "cloneKitSessionBinding b")
    case (Inr nxt)
    show ?thesis
    proof (cases "getKitSessionBinding ses")
      case None
      with Some Inr show ?thesis by (simp add: updateKitSessionBinding_def calm_refl calm_evictRow)
    next
      case (Some old)
      show ?thesis
      proof (cases "sameKitExecutionRef (kb_execution old) (kb_execution nxt)")
        case (Inl err)
        with Some Inr \<open>fs_get s k = Some ses\<close> show ?thesis
          by (simp add: updateKitSessionBinding_def calm_refl calm_evictRow)
      next
        case same: (Inr x)
        have "canonical_binding nxt" by (rule clone_binding_canonical [OF Inr])
        moreover have "held_attempt ses = kb_attempt old" by (simp add: held_attempt_def Some)
        ultimately show ?thesis
          using Some Inr \<open>fs_get s k = Some ses\<close> same
          by (cases x; cases a; cases "kb_attempt old")
            (auto simp: updateKitSessionBinding_def calm_refl calm_evictRow)
      qed
    qed
  qed (use Some in \<open>simp add: updateKitSessionBinding_def calm_refl calm_evictRow\<close>)
qed (simp add: updateKitSessionBinding_def calm_refl)

lemma cas_result:
  assumes "fs_wf s"
  shows "calm s (snd (compareAndSetSession i x mu s)) \<or>
   (\<exists>ses m. fs_get s (si_sid i) = Some ses \<and> \<not> isWorktreeCleanupTombstone ses \<and> mu = Replace_metadata m
      \<and> md_kit (meta_of ses) = md_kit (nullish m empty_meta)
      \<and> snd (compareAndSetSession i x mu s) = put_session (ses\<lparr>ses_metadata := m\<rparr>) s)"
proof (cases "fs_get s (si_sid i)")
  case (Some ses)
  have sid: "ses_id ses = si_sid i" by (rule fs_wfD [OF assms Some])
  show ?thesis
  proof (cases "\<not> fs_fault s \<and> identity_matches i x ses")
    case True
    show ?thesis
    proof (cases mu)
      case (Replace_metadata m)
      then show ?thesis using Some True
        by (cases "md_kit (nullish m empty_meta)") (auto simp: compareAndSetSession_def identity_matches_def calm_refl Let_def)
    next
      case Delete_session
      have "calm s (notifySessionRemoved (staged ses) (removeOrStageSession ses s))" if "held_attempt ses = None"
        by (rule calm_remove [OF calm_refl])
          (use Some True sid that in \<open>auto simp: pinned_session_def identity_matches_def\<close>)
      with Delete_session Some True show ?thesis by (auto simp: compareAndSetSession_def calm_refl)
    qed
  qed (use Some in \<open>auto simp: compareAndSetSession_def calm_refl\<close>)
qed (simp add: compareAndSetSession_def calm_refl)

lemma finalize_result:
  "calm s (snd (finalizePendingWorktreeCleanup ses s)) \<or>
   (\<exists>cur. fs_get s (ses_id ses) = Some cur \<and> isWorktreeCleanupTombstone cur
      \<and> snd (finalizePendingWorktreeCleanup ses s) = s\<lparr>fs_sessions := js_delete (fs_sessions s) (ses_id ses)\<rparr>)"
  by (cases "fs_get s (ses_id ses)") (auto simp: finalizePendingWorktreeCleanup_def calm_refl)

lemma set_kit_id [simp]: "ses_id (set_kit b ses) = ses_id ses"
  by (simp add: set_kit_def)

lemma calm_wf: "calm s s' \<Longrightarrow> fs_wf s \<Longrightarrow> fs_wf s'"
  by (rule calmD(1))

lemma fs_apply_wf: "fs_wf s \<Longrightarrow> fs_wf (fs_apply (cx, op) s)"
proof (cases op)
  case (Op_renew cli r e k a t)
  assume wf: "fs_wf s"
  with renew_result [OF wf, of cx cli r e k a t] Op_renew show ?thesis by (auto intro: calm_wf)
next
  case (Op_release cli r e k a)
  assume wf: "fs_wf s"
  with release_result [OF wf, of cx cli r e k a] Op_release show ?thesis by (auto intro: calm_wf)
next
  case (Op_usage k)
  assume wf: "fs_wf s"
  with usage_result [of s cx k] Op_usage show ?thesis by (auto intro: calm_wf)
next
  case (Op_meta k m)
  assume wf: "fs_wf s"
  with meta_result [of s cx k m] Op_meta show ?thesis by (auto intro: calm_wf wf_sessions [OF _ put_wf])
next
  case (Op_cas i x mu)
  assume wf: "fs_wf s"
  with cas_result [OF wf, of i x mu] Op_cas show ?thesis by (auto intro: calm_wf)
next
  case (Op_updateKit k b a)
  assume wf: "fs_wf s"
  with updateKit_result [of s cx k b a] Op_updateKit show ?thesis by (auto intro: calm_wf)
next
  case (Op_finalize ses)
  assume wf: "fs_wf s"
  then have "fs_wf (s\<lparr>fs_sessions := js_delete (fs_sessions s) (ses_id ses)\<rparr>)" by (auto simp: fs_wf_def)
  with wf finalize_result [of s ses] Op_finalize show ?thesis by (auto intro: calm_wf)
qed (auto intro: calm_wf calm_rules)

lemma fs_apply_holds:
  assumes "fs_wf s" and "holds_attempt k aid s" and "\<not> writes_tombstone op" and "\<not> ends_attempt k aid op"
  shows "holds_attempt k aid (fs_apply (cx, op) s)"
proof -
  obtain h a0 where h: "fs_get s k = Some h" "\<not> isWorktreeCleanupTombstone h" "held_attempt h = Some a0" "ka_id a0 = aid"
    using assms(2) by (auto simp: holds_attempt_def)
  have hid: "ses_id h = k" by (rule fs_wfD [OF assms(1) h(1)])
  have calm: "holds_attempt k aid s'" if "calm s s'" for s'
    by (rule calm_holds [OF that assms(1,2)])
  have put: "holds_attempt k aid (put_session ses' s)"
    if "fs_get s k' = Some ses" "ses_id ses' = ses_id ses"
      and "k' = k \<Longrightarrow> \<not> isWorktreeCleanupTombstone ses' \<and> map_option ka_id (held_attempt ses') = Some aid"
    for k' ses ses'
    using fs_wfD [OF assms(1) that(1)] that(2,3) by (intro holds_put [OF assms(2)]) simp
  have same: "ses = h" if "fs_get s k = Some ses" for ses using that h(1) by simp
  show ?thesis
  proof (cases op)
    case (Op_renew cli r e k' a t)
    from renew_result [OF assms(1), of cx cli r e k' a t] show ?thesis
    proof
      assume "\<exists>ses b cur renewed. fs_get s k' = Some ses \<and> getKitSessionBinding ses = Some b \<and> kb_attempt b = Some cur
        \<and> \<not> isWorktreeCleanupTombstone ses \<and> ka_id cur = a \<and> cloneKitSessionAttempt renewed = Inr renewed
        \<and> ka_id renewed = a
        \<and> snd (renewKitSessionAttempt cx cli r e k' a t s) = put_session (set_kit (b\<lparr>kb_attempt := Some renewed\<rparr>) ses) s"
      then obtain ses b cur renewed where r: "fs_get s k' = Some ses" "getKitSessionBinding ses = Some b"
        "kb_attempt b = Some cur" "\<not> isWorktreeCleanupTombstone ses" "ka_id cur = a"
        "cloneKitSessionAttempt renewed = Inr renewed" "ka_id renewed = a"
        and eq: "snd (renewKitSessionAttempt cx cli r e k' a t s)
          = put_session (set_kit (b\<lparr>kb_attempt := Some renewed\<rparr>) ses) s" by blast
      have "canonical_binding (b\<lparr>kb_attempt := Some renewed\<rparr>)"
        by (rule canonical_attempt [OF kit_binding_canonical [OF r(2)]]) (simp add: r(6))
      then have "map_option ka_id (held_attempt (set_kit (b\<lparr>kb_attempt := Some renewed\<rparr>) ses)) = Some a"
        by (simp add: held_set_kit r(7))
      moreover have "a = aid" if "k' = k"
      proof -
        have "ses = h" using r(1) that by (intro same) simp
        then show ?thesis using r(2,3,5) h(3,4) by (simp add: held_attempt_def)
      qed
      ultimately have "holds_attempt k aid (put_session (set_kit (b\<lparr>kb_attempt := Some renewed\<rparr>) ses) s)"
        by (intro put [OF r(1)]) (simp_all add: r(4))
      then show ?thesis by (simp add: Op_renew eq)
    qed (use Op_renew calm in simp)
  next
    case (Op_release cli r e k' a)
    from release_result [OF assms(1), of cx cli r e k' a] show ?thesis
    proof
      assume "\<exists>ses b cur. fs_get s k' = Some ses \<and> getKitSessionBinding ses = Some b \<and> kb_attempt b = Some cur
        \<and> ka_id cur = a \<and> \<not> isWorktreeCleanupTombstone ses
        \<and> snd (releaseKitSessionAttempt cx cli r e k' a s) = put_session (set_kit (b\<lparr>kb_attempt := None\<rparr>) ses) s"
      then obtain ses b cur where r: "fs_get s k' = Some ses" "getKitSessionBinding ses = Some b"
        "kb_attempt b = Some cur" "ka_id cur = a"
        and eq: "snd (releaseKitSessionAttempt cx cli r e k' a s) = put_session (set_kit (b\<lparr>kb_attempt := None\<rparr>) ses) s"
        by blast
      have "k' \<noteq> k"
      proof
        assume k: "k' = k"
        then have "ses = h" using r(1) by (intro same) simp
        then have "a = aid" using r(2-4) h(3,4) by (simp add: held_attempt_def)
        then show False using assms(4) Op_release k by simp
      qed
      then have "holds_attempt k aid (put_session (set_kit (b\<lparr>kb_attempt := None\<rparr>) ses) s)"
        by (intro put [OF r(1)]) simp_all
      then show ?thesis by (simp add: Op_release eq)
    qed (use Op_release calm in simp)
  next
    case (Op_usage k')
    have "holds_attempt k aid (put_session (ses\<lparr>ses_lastUsedAt := t\<rparr>) s)" if g: "fs_get s k' = Some ses" for ses t
    proof (rule put [OF g])
      assume "k' = k"
      then have "ses = h" using g by (intro same) simp
      then show "\<not> isWorktreeCleanupTombstone (ses\<lparr>ses_lastUsedAt := t\<rparr>)
          \<and> map_option ka_id (held_attempt (ses\<lparr>ses_lastUsedAt := t\<rparr>)) = Some aid" using h by simp
    qed simp
    with usage_result [of s cx k'] Op_usage show ?thesis by (auto intro: calm)
  next
    case (Op_meta k' m)
    have "holds_attempt k aid s'"
      if "fs_get s k' = Some ses" "ses' = merge_meta m ses \<or> ses' = (merge_meta m ses)\<lparr>ses_lastUsedAt := t\<rparr>"
        "fs_sessions s' = fs_sessions (put_session ses' s)" for ses ses' s' t
    proof -
      have "holds_attempt k aid (put_session ses' s)"
      proof (rule put [OF that(1)])
        show "ses_id ses' = ses_id ses" using that(2) by (auto simp: merged_session)
        assume "k' = k"
        then have "ses = h" using that(1) by (intro same) simp
        then show "\<not> isWorktreeCleanupTombstone ses' \<and> map_option ka_id (held_attempt ses') = Some aid"
          using that(2) h assms(3) Op_meta by (auto simp: merged_session)
      qed
      then show ?thesis by (simp add: holds_attempt_def that(3))
    qed
    with meta_result [of s cx k' m] Op_meta show ?thesis by (auto intro: calm)
  next
    case (Op_cas i x mu)
    have "holds_attempt k aid (put_session (ses\<lparr>ses_metadata := m\<rparr>) s)"
      if g: "fs_get s (si_sid i) = Some ses" and "mu = Replace_metadata m"
        and kit: "md_kit (meta_of ses) = md_kit (nullish m empty_meta)" for ses m
    proof (rule put [OF g])
      assume "si_sid i = k"
      then have "ses = h" using g h(1) by simp
      moreover have "held_attempt (ses\<lparr>ses_metadata := m\<rparr>) = held_attempt ses"
        using kit by (simp add: held_attempt_def getKitSessionBinding_def meta_of_def)
      moreover have "\<not> isWorktreeCleanupTombstone (ses\<lparr>ses_metadata := m\<rparr>)"
        using assms(3) Op_cas that(2)
        by (auto simp: isWorktreeCleanupTombstone_def meta_get_def meta_of_def dest: map_of_SomeD)
          (metis fst_conv image_eqI map_of_SomeD)
      ultimately show "\<not> isWorktreeCleanupTombstone (ses\<lparr>ses_metadata := m\<rparr>)
          \<and> map_option ka_id (held_attempt (ses\<lparr>ses_metadata := m\<rparr>)) = Some aid" using h by simp
    qed simp
    with cas_result [OF assms(1), of i x mu] Op_cas show ?thesis by (auto intro: calm)
  next
    case (Op_updateKit k' b a)
    have "holds_attempt k aid (put_session (set_kit nxt ses) s)"
      if g: "fs_get s k' = Some ses"
        and "case held_attempt ses of None \<Rightarrow> True | Some cur \<Rightarrow> a = Some (ka_id cur)" for ses nxt
    proof -
      have "k' \<noteq> k"
      proof
        assume k: "k' = k"
        then have "ses = h" using g by (intro same) simp
        then show False using that(2) h assms(4) Op_updateKit k by simp
      qed
      then show ?thesis by (intro put [OF g]) simp_all
    qed
    with updateKit_result [of s cx k' b a] Op_updateKit show ?thesis by (auto intro: calm)
  next
    case (Op_finalize ses)
    from finalize_result [of s ses] show ?thesis
    proof
      assume "\<exists>cur. fs_get s (ses_id ses) = Some cur \<and> isWorktreeCleanupTombstone cur
        \<and> snd (finalizePendingWorktreeCleanup ses s) = s\<lparr>fs_sessions := js_delete (fs_sessions s) (ses_id ses)\<rparr>"
      then show ?thesis using h Op_finalize by (auto simp: holds_attempt_def)
    qed (use Op_finalize calm in simp)
  qed (simp_all add: calm calm_rules)
qed

lemma fs_apply_tombstone:
  assumes "fs_wf s" and "fs_get s k = Some ses" and "isWorktreeCleanupTombstone ses" and "\<not> finalizes k op"
  shows "fs_get (fs_apply (cx, op) s) k = Some ses"
proof -
  have calm: "fs_get s' k = Some ses" if "calm s s'" for s'
    using calmD(2) [OF that assms(1,2)] assms(3) by (simp add: pinned_session_def)
  have put: "fs_get (put_session x' s) k = Some ses"
    if "fs_get s k' = Some x" "\<not> isWorktreeCleanupTombstone x" "ses_id x' = ses_id x" for k' x x'
  proof -
    have "ses_id x = k'" by (rule fs_wfD [OF assms(1) that(1)])
    moreover have "k' \<noteq> k" using that(1,2) assms(2,3) by auto
    ultimately show ?thesis using that(3) assms(2) by (simp add: put_get)
  qed
  show ?thesis
  proof (cases op)
    case (Op_renew cli r e k' a t)
    with renew_result [OF assms(1), of cx cli r e k' a t] show ?thesis by (auto intro: calm simp del: put_get intro!: put)
  next
    case (Op_release cli r e k' a)
    with release_result [OF assms(1), of cx cli r e k' a] show ?thesis by (auto intro: calm simp del: put_get intro!: put)
  next
    case (Op_usage k')
    with usage_result [of s cx k'] show ?thesis by (auto intro: calm simp del: put_get intro!: put)
  next
    case (Op_meta k' m)
    with meta_result [of s cx k' m] show ?thesis
      by (auto intro: calm simp del: put_get intro!: put simp: merged_session)
  next
    case (Op_cas i x mu)
    with cas_result [OF assms(1), of i x mu] show ?thesis by (auto intro: calm simp del: put_get intro!: put)
  next
    case (Op_updateKit k' b a)
    with updateKit_result [of s cx k' b a] show ?thesis by (auto intro: calm simp del: put_get intro!: put)
  next
    case (Op_finalize x)
    have "fs_get (s\<lparr>fs_sessions := js_delete (fs_sessions s) (ses_id x)\<rparr>) k = Some ses"
      using assms(2,4) Op_finalize by simp
    with finalize_result [of s x] Op_finalize calm show ?thesis by auto
  qed (simp_all add: calm calm_rules)
qed

text \<open>
  Series of calls against a store whose every operation keeps an invariant: what each call keeps, the
  series keeps.
\<close>

locale op_system =
  fixes apply_op :: "'c \<Rightarrow> 's \<Rightarrow> 's"
    and inv :: "'s \<Rightarrow> bool"
  assumes apply_inv: "inv s \<Longrightarrow> inv (apply_op c s)"
begin

lemma run_inv: "inv s \<Longrightarrow> inv (fold apply_op cs s)"
  by (induction cs arbitrary: s) (simp_all add: apply_inv)

lemma run_keeps:
  assumes "\<And>s c. inv s \<Longrightarrow> c \<in> set cs \<Longrightarrow> P s \<Longrightarrow> P (apply_op c s)"
  shows "inv s \<Longrightarrow> P s \<Longrightarrow> P (fold apply_op cs s)"
  using assms
proof (induction cs arbitrary: s)
  case (Cons c cs)
  then have "P (apply_op c s)" "inv (apply_op c s)" by (simp_all add: apply_inv)
  with Cons show ?case by simp
qed simp

end

interpretation fs: op_system fs_apply fs_wf
  by unfold_locales (metis fs_apply_wf surj_pair)

section \<open>Eviction\<close>

lemma pointer_list:
  "list_ex (\<lambda>(key, v). v = k) ps \<longleftrightarrow> k \<in> snd ` set ps"
  "k \<noteq> i \<Longrightarrow> k \<in> snd ` set (filter (\<lambda>(key, v). v \<noteq> i) ps) \<longleftrightarrow> k \<in> snd ` set ps"
  by (induction ps) auto

lemma has_pointer_iff: "hasActiveKitPointer s k \<longleftrightarrow> (\<exists>p\<in>set (fs_activeKit s). k \<in> snd ` set (snd p))"
  unfolding hasActiveKitPointer_def pointer_list(1) by (simp add: list_ex_iff split_beta)

lemma clear_pointer_other:
  assumes "k \<noteq> ses_id x"
  shows "hasActiveKitPointer (removeOrStageSession x s) k = hasActiveKitPointer s k"
proof -
  have "fs_activeKit (removeOrStageSession x s)
      = map (\<lambda>p. (fst p, filter (\<lambda>(key, v). v \<noteq> ses_id x) (snd p))) (fs_activeKit s)"
    by (simp add: removeOrStageSession_def Let_def put_session_def fs_note_def clearActiveKitPointersForSession_def
        split_beta)
  then show ?thesis unfolding has_pointer_iff by (simp add: pointer_list(2) [OF assms] del: set_filter)
qed

lemma expired_other:
  "ses_id ses \<noteq> ses_id x \<Longrightarrow> isExpired cx (removeOrStageSession x s) ses = isExpired cx s ses"
  by (simp add: isExpired_def clear_pointer_other)

lemma evict_loop_exact:
  "distinct (map ses_id xs) \<Longrightarrow> fs_get (snd (evict_loop cx xs s)) k =
     (case find (\<lambda>ses. ses_id ses = k) xs of
        None \<Rightarrow> fs_get s k
      | Some ses \<Rightarrow> if isExpired cx s ses then (if hasDurablyOwnedWorktree ses then Some (staged ses) else None)
                    else fs_get s k)"
proof (induction xs arbitrary: s)
  case (Cons x xs)
  have other: "ses_id y \<noteq> ses_id x" if "y \<in> set xs" for y
  proof -
    have "ses_id x \<notin> ses_id ` set xs" using Cons(2) by simp
    then show ?thesis using that by (metis image_eqI)
  qed
  have none: "find (\<lambda>ses. ses_id ses = ses_id x) xs = None" using other by (auto simp: find_None_iff)
  show ?case
  proof (cases "ses_id x = k")
    case True
    then show ?thesis using none Cons by (auto simp: split_beta)
  next
    case False
    have "isExpired cx (removeOrStageSession x s) y = isExpired cx s y"
      if "find (\<lambda>ses. ses_id ses = k) xs = Some y" for y
      using find_SomeD [OF that] other expired_other by blast
    with False Cons show ?thesis by (auto simp: split_beta split: option.split)
  qed
qed simp

lemma wf_distinct_ids: "fs_wf s \<Longrightarrow> distinct (map ses_id (map snd (fs_sessions s)))"
proof -
  assume wf: "fs_wf s"
  then have "map (ses_id \<circ> snd) (fs_sessions s) = map fst (fs_sessions s)"
    by (auto simp: fs_wf_def)
  moreover have "distinct (map fst (fs_sessions s))" using wf by (simp add: fs_wf_def)
  ultimately show ?thesis unfolding map_map by (simp only:)
qed

lemma wf_find:
  assumes "fs_wf s"
  shows "find (\<lambda>ses. ses_id ses = k) (map snd (fs_sessions s)) = fs_get s k"
proof (cases "fs_get s k")
  case None
  then show ?thesis using fs_wf_mem [OF assms] by (auto simp: find_None_iff)
next
  case (Some ses)
  then have "ses \<in> set (map snd (fs_sessions s))" "ses_id ses = k"
    using fs_wf_mem [OF assms, of ses] fs_wfD [OF assms Some] by simp_all
  with Some find_unique [OF wf_distinct_ids [OF assms]] show ?thesis by metis
qed

lemma evict_exact:
  assumes "fs_wf s" and "\<not> fs_fault s"
  shows "fs_get (evictExpiredSessions cx s) k =
     (case fs_get s k of
        None \<Rightarrow> None
      | Some ses \<Rightarrow> if isExpired cx s ses then (if hasDurablyOwnedWorktree ses then Some (staged ses) else None)
                    else Some ses)"
  using assms evict_loop_exact [OF wf_distinct_ids [OF assms(1)], of cx s k]
  by (auto simp: evictExpiredSessions_def split_beta Let_def wf_find split: option.splits)

lemma staged_tombstone: "hasDurablyOwnedWorktree ses \<Longrightarrow> isWorktreeCleanupTombstone (staged ses)"
  by (simp add: staged_def isWorktreeCleanupTombstone_def meta_get_def meta_of_def set_other_def)

lemma no_resume: "getKitSessionBinding ses = Some b \<Longrightarrow> \<not> kb_resumeEligible b"
  using kit_binding_canonical [of ses b] clone_binding_fields [of b b] by (simp add: canonical_binding_def)

lemma expired_iff:
  "isExpired cx s ses \<longleftrightarrow> \<not> isWorktreeCleanupTombstone ses \<and> held_attempt ses = None
     \<and> \<not> hasActiveKitPointer s (ses_id ses)
     \<and> (case ses_lastUsedAt ses of None \<Rightarrow> True | Some t \<Rightarrow> cx_now cx - t > cx_ttl cx)"
  by (auto simp: isExpired_def held_attempt_def Let_def split: option.splits dest: no_resume)

end
