(* ===== verification/Session_Properties.thy ===== *)
theory Session_Properties
  imports Session_Frames
begin

text \<open>
  The properties of the session store: the attempt lease, the tombstones, deletion, expiry,
  compare-and-set and the projection for remote callers, with a small store for the witnesses.
\<close>

section \<open>A small store\<close>

definition fs_empty :: file_store where
  "fs_empty = \<lparr>fs_sessions = [], fs_active = [], fs_activeKit = [], fs_fault = False, fs_events = []\<rparr>"

definition fs_at :: "time \<Rightarrow> principal \<Rightarrow> fs_ctx" where
  "fs_at t p = \<lparr>cx_now = t, cx_ttl = 10, cx_caller = p, cx_newId = ''n'', cx_newGeneration = ''g''\<rparr>"

definition fs_exec :: kit_ref where
  "fs_exec = \<lparr>ke_version = 1, ke_releaseId = ''r1'', ke_configStamp = ''c1'', ke_scopeRoot = Some ''/w'',
     ke_scopeHead = None, ke_contextIdentity = ''x''\<rparr>"

definition fs_attempt :: "string \<Rightarrow> kit_attempt" where
  "fs_attempt a = \<lparr>ka_id = a, ka_kind = Direct, ka_acquiredAt = Some 0, ka_expiresAt = Some 50,
     ka_expectedNativeSessionId = None\<rparr>"

definition fs_worktree :: "(string, json) js_map" where
  "fs_worktree = [(''worktreePath'', JStr [47]), (''worktreeName'', JStr [119]),
     (''worktreeOwnerHostname'', JStr [104]), (''worktreeOwnerInstanceId'', JStr [105])]"

text \<open>A Kit session k1 that holds attempt a1, and a deleted session w1 whose worktree is not yet removed.\<close>

definition fs_demo_calls :: "(fs_ctx \<times> fs_op) list" where
  "fs_demo_calls =
     [(fs_at 0 ''local'', Op_create ''claude'' None (Some ''k1'')
         (Some \<lparr>kb_execution = fs_exec, kb_nativeSessionId = None, kb_resumeEligible = False, kb_attempt = None\<rparr>) None),
      (fs_at 1 ''local'', Op_claim ''claude'' (Some ''/w'') fs_exec ''k1'' (fs_attempt ''a1'')),
      (fs_at 2 ''ann'', Op_create ''codex'' None (Some ''w1'') None (Some fs_worktree)),
      (fs_at 3 ''ann'', Op_delete ''w1''),
      (fs_at 3 ''ann'', Op_create ''codex'' None (Some ''p1'') None None)]"

definition fs_demo :: file_store where
  "fs_demo = fold fs_apply fs_demo_calls fs_empty"

lemma fs_demo_wf: "fs_wf fs_demo"
  unfolding fs_demo_def by (rule fs.run_inv) (simp add: fs_wf_def fs_empty_def)

lemma fs_demo_value:
  "map_option ka_id (Option.bind (fs_get fs_demo ''k1'') held_attempt) = Some ''a1''"
  "map_option isWorktreeCleanupTombstone (fs_get fs_demo ''k1'') = Some False"
  "map_option isWorktreeCleanupTombstone (fs_get fs_demo ''w1'') = Some True"
  "map_option ses_ownerPrincipal (fs_get fs_demo ''p1'') = Some (Some ''ann'')"
  "\<not> fs_fault fs_demo"
  by code_simp+

lemma fs_demo_holds: "holds_attempt ''k1'' ''a1'' fs_demo"
  using fs_demo_value(1,2) by (auto simp: holds_attempt_def bind_eq_Some_conv)

section \<open>Main properties\<close>

text \<open>
  C28: one holder per Kit session. While a session holds an attempt, whatever calls any principal makes
  short of the holder's own release or rebinding, at any later time and past any expiry of the lease,
  the session keeps that attempt: no claim on it succeeds, it is neither evicted nor deleted nor
  cleared, and its release stays pinned.
\<close>

theorem attempt_lease_exclusive:
  assumes "fs_wf s" and "holds_attempt k aid s"
    and "list_all (\<lambda>(cx, op). \<not> writes_tombstone op \<and> \<not> ends_attempt k aid op) calls"
    and "s' = fold fs_apply calls s"
  shows "holds_attempt k aid s'
    \<and> fst (claimKitSessionAttempt cx cli r e k a s') \<noteq> Inr True
    \<and> fst (deleteSession cx k s') \<noteq> Inr True
    \<and> (\<exists>ses b. fs_get (snd (clearAllSessions cli' s')) k = Some ses \<and> getKitSessionBinding ses = Some b
        \<and> (fs_fault s' \<or> (\<exists>ids. fst (getPinnedKitReleaseIds cx s') = Inr ids
             \<and> ke_releaseId (kb_execution b) \<in> set ids)))"
proof -
  have "holds_attempt k aid s' \<and> fs_wf s'"
    unfolding assms(4)
    using fs.run_keeps [of calls "holds_attempt k aid" s] fs_apply_holds assms(1-3) fs.run_inv [OF assms(1)]
    by (fastforce simp: list_all_iff)
  then have h: "holds_attempt k aid s'" and wf: "fs_wf s'" by simp_all
  then obtain ses att where ses: "fs_get s' k = Some ses" "\<not> isWorktreeCleanupTombstone ses"
    "held_attempt ses = Some att" by (auto simp: holds_attempt_def)
  then obtain b where b: "getKitSessionBinding ses = Some b" "kb_attempt b = Some att"
    by (auto simp: held_attempt_def split: option.splits)
  have pin: "pinned_session ses" using ses(3) by (simp add: pinned_session_def)
  have "fst (claimKitSessionAttempt cx cli r e k a s') \<noteq> Inr True"
  proof
    assume "fst (claimKitSessionAttempt cx cli r e k a s') = Inr True"
    then obtain ses' b' s1 where "getExactKitSession cx cli r e k s' = (Inr (Some (ses', b')), s1)" "kb_attempt b' = None"
      by (auto simp: claimKitSessionAttempt_def split: if_splits sum.splits option.splits prod.splits)
    with exact_SomeD [OF this(1)] ses show False by simp
  qed
  moreover have "fst (deleteSession cx k s') \<noteq> Inr True"
    using ses by (simp add: deleteSession_def removeSessionRow_def)
  moreover have "fs_get (snd (clearAllSessions cli' s')) k = Some ses"
    by (rule calmD(2) [OF calm_clearAll wf ses(1) pin])
  moreover have "\<exists>ids. fst (getPinnedKitReleaseIds cx s') = Inr ids \<and> ke_releaseId (kb_execution b) \<in> set ids"
    if "\<not> fs_fault s'"
  proof -
    have "fs_get (evictExpiredSessions cx s') k = Some ses" by (rule evict_pinned [OF wf ses(1) pin])
    then have "(k, ses) \<in> set (fs_sessions (evictExpiredSessions cx s'))" by (rule map_of_SomeD)
    then show ?thesis using that b
      by (force simp: getPinnedKitReleaseIds_def Let_def map_filter_def image_iff)
  qed
  ultimately show ?thesis using h b(1) by blast
qed

definition fs_later_calls :: "(fs_ctx \<times> fs_op) list" where
  "fs_later_calls =
     [(fs_at 900 ''local'', Op_claim ''claude'' (Some ''/w'') fs_exec ''k1'' (fs_attempt ''a2'')),
      (fs_at 901 ''local'', Op_delete ''k1''), (fs_at 902 ''local'', Op_clearAll None)]"

lemma fs_later_quiet:
  "list_all (\<lambda>(cx, op). \<not> writes_tombstone op \<and> \<not> ends_attempt k aid op) fs_later_calls"
  "list_all (\<lambda>(cx, op). \<not> finalizes k op) fs_later_calls"
  by (simp_all add: fs_later_calls_def)

theorem attempt_lease_exclusive_witness:
  "holds_attempt ''k1'' ''a1'' (fold fs_apply fs_later_calls fs_demo)"
  using attempt_lease_exclusive [OF fs_demo_wf fs_demo_holds fs_later_quiet(1) refl] by blast



text \<open>
  C30: deletion is own-or-not-found. A delete succeeds exactly when the session exists, is not a
  tombstone, is accessible to the caller and holds no attempt; a refusal changes nothing, and after a
  success no one reads the session, and its worktree, if durably owned, is left as a tombstone.
\<close>

theorem delete_own_or_not_found:
  assumes "fs_wf s" and "\<not> fs_fault s"
  shows "fst (deleteSession cx k s) = Inr (case fs_get s k of
        None \<Rightarrow> False
      | Some ses \<Rightarrow> \<not> isWorktreeCleanupTombstone ses \<and> principalCanAccess (ses_ownerPrincipal ses) (cx_caller cx)
          \<and> held_attempt ses = None)
    \<and> (if fst (deleteSession cx k s) = Inr True
       then fst (getSession cx' k (snd (deleteSession cx k s))) = None
         \<and> (case fs_get s k of
              None \<Rightarrow> False
            | Some ses \<Rightarrow> if hasDurablyOwnedWorktree ses
                then staged ses \<in> set (listPendingWorktreeCleanupSessions None (snd (deleteSession cx k s)))
                else fs_get (snd (deleteSession cx k s)) k = None)
       else snd (deleteSession cx k s) = s)"
proof (cases "fs_get s k")
  case None
  then show ?thesis using assms by (simp add: deleteSession_def removeSessionRow_def)
next
  case (Some ses)
  have id: "ses_id ses = k" by (rule fs_wfD [OF assms(1) Some])
  let ?s' = "notifySessionRemoved (staged ses) (removeOrStageSession ses s)"
  have g: "fs_get ?s' k = (if hasDurablyOwnedWorktree ses then Some (staged ses) else None)" using id by simp
  have "fst (getSession cx' k ?s') = None" using g staged_tombstone by (simp add: getSession_def)
  moreover have "staged ses \<in> set (listPendingWorktreeCleanupSessions None ?s')" if "hasDurablyOwnedWorktree ses"
  proof -
    have "(k, staged ses) \<in> set (fs_sessions ?s')" using g that by (intro map_of_SomeD) simp
    then show ?thesis using staged_tombstone [OF that]
      by (force simp: listPendingWorktreeCleanupSessions_def)
  qed
  ultimately show ?thesis using assms(2) Some g by (auto simp: deleteSession_def removeSessionRow_def)
qed

theorem delete_own_or_not_found_witness:
  "fst (deleteSession (fs_at 4 ''ann'') ''p1'' fs_demo) = Inr True \<and> fst (deleteSession (fs_at 4 ''eve'') ''p1'' fs_demo) = Inr False"
proof -
  have "map_option (\<lambda>ses. (isWorktreeCleanupTombstone ses, ses_ownerPrincipal ses, held_attempt ses = None))
      (fs_get fs_demo ''p1'') = Some (False, Some ''ann'', True)" by code_simp
  then obtain ses where "fs_get fs_demo ''p1'' = Some ses" "\<not> isWorktreeCleanupTombstone ses"
    "ses_ownerPrincipal ses = Some ''ann''" "held_attempt ses = None" by auto
  with delete_own_or_not_found [OF fs_demo_wf fs_demo_value(5), of _ "''p1''"] show ?thesis
    by (simp add: fs_at_def principalCanAccess_def)
qed

text \<open>
  Expiry takes exactly the idle sessions. On a readable store, eviction removes a session (or, with
  a durably owned worktree, stages it as a tombstone) exactly when it is no tombstone, holds no attempt,
  fills no Kit slot and was last used longer ago than the time to live, or at an unreadable time; every
  other session keeps its row, and a session is then read exactly when eviction left it.
\<close>

theorem expiry_takes_idle_sessions:
  assumes "fs_wf s" and "\<not> fs_fault s" and "fs_get s k = Some ses"
  shows "fs_get (evictExpiredSessions cx s) k =
      (if \<not> isWorktreeCleanupTombstone ses \<and> held_attempt ses = None \<and> \<not> hasActiveKitPointer s k
          \<and> (case ses_lastUsedAt ses of None \<Rightarrow> True | Some t \<Rightarrow> cx_now cx - t > cx_ttl cx)
       then (if hasDurablyOwnedWorktree ses then Some (staged ses) else None)
       else Some ses)
    \<and> fst (getSession cx k s) =
        (if fs_get (evictExpiredSessions cx s) k = Some ses \<and> \<not> isWorktreeCleanupTombstone ses then Some ses else None)"
proof -
  have id: "ses_id ses = k" by (rule fs_wfD [OF assms(1,3)])
  have "staged ses \<noteq> ses" if "hasDurablyOwnedWorktree ses" "\<not> isWorktreeCleanupTombstone ses"
    using that staged_tombstone by metis
  then show ?thesis
    using evict_exact [OF assms(1,2), of cx k] assms(2,3)
    by (auto simp: expired_iff id getSession_def)
qed

theorem expiry_takes_idle_sessions_witness:
  "fs_get (evictExpiredSessions (fs_at 13 ''local'') fs_demo) ''p1'' = fs_get fs_demo ''p1''
   \<and> fs_get (evictExpiredSessions (fs_at 14 ''local'') fs_demo) ''p1'' = None"
proof -
  have "map_option (\<lambda>ses. (isWorktreeCleanupTombstone ses, ses_lastUsedAt ses, held_attempt ses = None,
      hasDurablyOwnedWorktree ses)) (fs_get fs_demo ''p1'') = Some (False, Some 3, True, False)" by code_simp
  then obtain ses where ses: "fs_get fs_demo ''p1'' = Some ses" "\<not> isWorktreeCleanupTombstone ses"
    "ses_lastUsedAt ses = Some 3" "held_attempt ses = None" "\<not> hasDurablyOwnedWorktree ses" by auto
  have "\<not> hasActiveKitPointer fs_demo ''p1''" by code_simp
  with expiry_takes_idle_sessions [OF fs_demo_wf fs_demo_value(5) ses(1)] ses show ?thesis
    by (simp add: fs_at_def)
qed

text \<open>
  Compare-and-set. A call that does not report success changes nothing. One that does found the
  exact generation with the expected metadata, never touches the Kit binding and never deletes under a
  held attempt; and of two calls with the same expectation, the second fails when the first deleted the
  session or put metadata that differ from the expected.
\<close>

theorem compare_and_set_exact:
  assumes "fs_wf s" and "s' = snd (compareAndSetSession i x mu s)"
  shows "if fst (compareAndSetSession i x mu s) = Inr True
       then (\<exists>ses. fs_get s (si_sid i) = Some ses \<and> identity_matches i x ses
          \<and> (case mu of
               Replace_metadata m \<Rightarrow> fs_get s' (si_sid i) = Some (ses\<lparr>ses_metadata := m\<rparr>)
                 \<and> md_kit (nullish m empty_meta) = md_kit (meta_of ses)
                 \<and> (meta_same (nullish m empty_meta) (nullish x empty_meta)
                    \<or> fst (compareAndSetSession i x mu' s') = Inr False)
             | Delete_session \<Rightarrow> held_attempt ses = None \<and> fst (compareAndSetSession i x mu' s') = Inr False))
       else s' = s"
proof (cases "fst (compareAndSetSession i x mu s) = Inr True")
  case False
  then have "snd (compareAndSetSession i x mu s) = s"
    by (auto simp: compareAndSetSession_def Let_def split: option.splits session_mutation.splits if_splits)
  with False assms(2) show ?thesis by simp
next
  case True
  then obtain ses where f: "\<not> fs_fault s" and ses: "fs_get s (si_sid i) = Some ses" "identity_matches i x ses"
    by (auto simp: compareAndSetSession_def split: option.splits if_splits)
  have id: "ses_id ses = si_sid i" by (rule fs_wfD [OF assms(1) ses(1)])
  have refused: "fst (compareAndSetSession i x mu' s1) = Inr False"
    if "\<not> fs_fault s1" "case fs_get s1 (si_sid i) of None \<Rightarrow> True | Some y \<Rightarrow> \<not> identity_matches i x y" for s1
    using that by (cases "fs_get s1 (si_sid i)") (simp_all add: compareAndSetSession_def)
  show ?thesis
  proof (cases mu)
    case (Replace_metadata m)
    then have s': "s' = put_session (ses\<lparr>ses_metadata := m\<rparr>) s" "md_kit (nullish m empty_meta) = md_kit (meta_of ses)"
      using True f ses assms(2) by (auto simp: compareAndSetSession_def Let_def split: if_splits)
    have "\<not> identity_matches i x (ses\<lparr>ses_metadata := m\<rparr>)"
      if "\<not> meta_same (nullish m empty_meta) (nullish x empty_meta)"
      using that by (simp add: identity_matches_def meta_of_def)
    moreover have "\<not> fs_fault s'" using f by (simp add: s'(1) put_session_def)
    ultimately show ?thesis using True Replace_metadata ses s' id refused [of s'] by auto
  next
    case Delete_session
    then have s': "s' = notifySessionRemoved (staged ses) (removeOrStageSession ses s)" "held_attempt ses = None"
      using True f ses assms(2) by (auto simp: compareAndSetSession_def split: if_splits)
    have "fs_fault s' = fs_fault s"
      by (simp add: s'(1) removeOrStageSession_def Let_def put_session_def fs_note_def clearActiveKitPointersForSession_def)
    moreover have "case fs_get s' (si_sid i) of None \<Rightarrow> True | Some y \<Rightarrow> \<not> identity_matches i x y"
      using id staged_tombstone by (auto simp: s'(1) identity_matches_def)
    ultimately show ?thesis using True Delete_session ses s'(2) f refused [of s'] by auto
  qed
qed

definition fs_p1_identity :: session_identity where
  "fs_p1_identity = \<lparr>si_sid = ''p1'', si_scli = ''codex'', si_sowner = Some ''ann'', si_screatedAt = 3,
     si_sgeneration = ''g''\<rparr>"

theorem compare_and_set_exact_witness:
  "fst (compareAndSetSession fs_p1_identity None Delete_session
     (snd (compareAndSetSession fs_p1_identity None Delete_session fs_demo))) = Inr False"
proof -
  have "fst (compareAndSetSession fs_p1_identity None Delete_session fs_demo) = Inr True" by code_simp
  with compare_and_set_exact [OF fs_demo_wf refl, of fs_p1_identity None Delete_session] show ?thesis
    by auto
qed

lemma fold_delete_get:
  "js_get (fold (\<lambda>k m. js_delete m k) ks m) k' = (if k' \<in> set ks then None else js_get m k')"
  by (induction ks arbitrary: m) auto

lemma public_safe:
  "ses_generation (publicSafeSession ses) = None"
  "ses_metadata (publicSafeSession ses) = None \<longleftrightarrow> ses_metadata ses = None"
  "meta_get (publicSafeSession ses) k =
     (if k \<in> set INTERNAL_WORKTREE_METADATA_KEYS then None else meta_get ses k)"
proof -
  show "ses_generation (publicSafeSession ses) = None" by (simp add: publicSafeSession_def Let_def)
  show "ses_metadata (publicSafeSession ses) = None \<longleftrightarrow> ses_metadata ses = None"
    by (auto simp: publicSafeSession_def Let_def split: option.splits)
  let ?int = "case ses_metadata ses of None \<Rightarrow> False
    | Some m \<Rightarrow> list_ex (\<lambda>k. k \<in> fst ` set (md_other m)) INTERNAL_WORKTREE_METADATA_KEYS"
  have "meta_get ses k = None" if "\<not> ?int" "k \<in> set INTERNAL_WORKTREE_METADATA_KEYS"
    using that by (cases "ses_metadata ses")
      (auto simp: meta_get_def meta_of_def empty_meta_def list_ex_iff map_of_eq_None_iff)
  then show "meta_get (publicSafeSession ses) k =
     (if k \<in> set INTERNAL_WORKTREE_METADATA_KEYS then None else meta_get ses k)"
    by (cases ?int) (auto simp: publicSafeSession_def Let_def meta_get_def meta_of_def fold_delete_get)
qed

lemma reduce_key_get:
  "js_get (reduce_key f k m) k' =
     (if k' = k then (case js_get m k of Some (JStr v) \<Rightarrow> Some (JStr (f v)) | j \<Rightarrow> j) else js_get m k')"
  by (auto simp: reduce_key_def split: option.split json.split)

text \<open>
  C31: what a remote caller sees. The projection of a session for a remote caller carries no generation,
  no Kit binding, no worktree ownership or cleanup key, no workspace root and no provider session id,
  and a worktree path only as the reduced label of its own.
\<close>

theorem remote_projection_hides:
  "ses_generation (remoteSafeSession pm ses) = None
   \<and> (case ses_metadata (remoteSafeSession pm ses) of
        None \<Rightarrow> ses_metadata ses = None
      | Some m \<Rightarrow> md_kit m = None
          \<and> list_all (\<lambda>k. js_get (md_other m) k = None) INTERNAL_WORKTREE_METADATA_KEYS
          \<and> \<not> is_jstr (js_get (md_other m) ''workspaceRoot'')
          \<and> (case js_get (md_other m) ''acp'' of Some (JObj acp) \<Rightarrow> js_get acp ''sessionId'' = None | _ \<Rightarrow> True)
          \<and> (case (js_get (md_other m) ''worktreePath'', meta_get ses ''worktreePath'') of
               (Some (JStr p), Some (JStr q)) \<Rightarrow>
                  p = reducePath pm (case meta_get ses ''workspaceRoot'' of Some (JStr r) \<Rightarrow> Some r | _ \<Rightarrow> None) q
             | (Some (JStr p), _) \<Rightarrow> False
             | _ \<Rightarrow> True))"
proof (cases "ses_metadata (publicSafeSession ses)")
  case None
  then have "ses_metadata ses = None" using public_safe(2) by blast
  moreover have "remoteSafeSession pm ses = publicSafeSession ses" by (simp add: remoteSafeSession_def Let_def None)
  ultimately show ?thesis by (simp add: None public_safe(1))
next
  case (Some m)
  have get: "js_get (md_other m) k = (if k \<in> set INTERNAL_WORKTREE_METADATA_KEYS then None else meta_get ses k)" for k
    using public_safe(3) [of ses k] Some by (simp add: meta_get_def meta_of_def)
  have int: "''acp'' \<notin> set INTERNAL_WORKTREE_METADATA_KEYS" "''worktreePath'' \<notin> set INTERNAL_WORKTREE_METADATA_KEYS"
    "''workspaceRoot'' \<notin> set INTERNAL_WORKTREE_METADATA_KEYS"
    by (simp_all add: INTERNAL_WORKTREE_METADATA_KEYS_def)
  let ?base = "case meta_get ses ''workspaceRoot'' of Some (JStr r) \<Rightarrow> Some r | _ \<Rightarrow> None"
  let ?f = "reducePath pm ?base"
  let ?m1 = "reduce_key ?f ''worktreePath'' (md_other m)"
  define m2 where "m2 = (case js_get ?m1 ''acp'' of
      Some (JObj acp) \<Rightarrow> js_set ?m1 ''acp''
        (JObj (js_delete (reduce_key ?f ''worktreePath'' (reduce_key ?f ''cwd'' acp)) ''sessionId''))
    | _ \<Rightarrow> ?m1)"
  define m3 where "m3 = (if ?base \<noteq> None then js_delete m2 ''workspaceRoot'' else m2)"
  have r: "remoteSafeSession pm ses = (publicSafeSession ses)\<lparr>ses_metadata := Some \<lparr>md_kit = None, md_other = m3\<rparr>\<rparr>"
    by (simp add: remoteSafeSession_def Let_def Some get int m3_def m2_def)
  have g2: "k \<noteq> ''acp'' \<Longrightarrow> js_get m2 k = js_get ?m1 k" for k
    by (auto simp: m2_def split: option.split json.split)
  have acp: "case js_get m2 ''acp'' of Some (JObj acp) \<Rightarrow> js_get acp ''sessionId'' = None | _ \<Rightarrow> True"
    by (auto simp: m2_def split: option.split json.split)
  have g3: "js_get m3 k = (if k = ''workspaceRoot'' \<and> ?base \<noteq> None then None else js_get m2 k)" for k
    by (cases ?base) (simp_all add: m3_def)
  have "js_get m3 k = None" if "k \<in> set INTERNAL_WORKTREE_METADATA_KEYS" for k
  proof -
    have "k \<noteq> ''acp''" "k \<noteq> ''worktreePath''" using that int by auto
    then show ?thesis using that g2 [of k] get [of k] by (simp add: g3 reduce_key_get)
  qed
  moreover have "\<not> is_jstr (js_get m3 ''workspaceRoot'')"
    using get [of "''workspaceRoot''"] int by (auto simp: g3 g2 reduce_key_get split: option.splits json.splits)
  moreover have "case js_get m3 ''acp'' of Some (JObj acp) \<Rightarrow> js_get acp ''sessionId'' = None | _ \<Rightarrow> True"
    using acp by (simp add: g3)
  moreover have "js_get m3 ''worktreePath'' =
      (case meta_get ses ''worktreePath'' of Some (JStr v) \<Rightarrow> Some (JStr (?f v)) | j \<Rightarrow> j)"
    using get [of "''worktreePath''"] int by (simp add: g3 g2 reduce_key_get)
  ultimately show ?thesis
    by (auto simp: r public_safe(1) list_all_iff split: option.split json.split)
qed
end
