(* ===== verification/Acp_Session_Map.thy ===== *)
theory Acp_Session_Map
  imports Session_Frames
begin

text \<open>
  The ACP session map of src/src/acp/session-map.ts: gateway sessions scoped by provider and
  transport, which keep the provider's own session id in their metadata. The module is a client of the
  session manager's interface: its functions take the manager's operations as a record, the locale
  session_manager states what they promise, and the file store at a given time is an interpretation.

  A member of the metadata object that is undefined is absent.
\<close>

section \<open>The interface\<close>

record 's session_api =
  sa_create :: "provider \<Rightarrow> string \<Rightarrow> string \<Rightarrow> 's \<Rightarrow> (session_error + session) \<times> 's"
  sa_get :: "string \<Rightarrow> 's \<Rightarrow> session option \<times> 's"
  sa_update :: "string \<Rightarrow> (string, json) js_map \<Rightarrow> 's \<Rightarrow> (session_error + bool) \<times> 's"

definition ACP_TRANSPORT :: string where "ACP_TRANSPORT = ''acp''"

definition GATEWAY_SESSION_PREFIX :: string where "GATEWAY_SESSION_PREFIX = ''gw-''"

definition isGatewaySessionId :: "string \<Rightarrow> bool" where
  "isGatewaySessionId k = prefix GATEWAY_SESSION_PREFIX k"

definition newGatewaySessionId :: "string \<Rightarrow> string" where
  "newGatewaySessionId uuid = GATEWAY_SESSION_PREFIX @ uuid"

text \<open>Members of an object literal, without the undefined ones.\<close>

definition members :: "(string \<times> json option) list \<Rightarrow> (string, json) js_map" where
  "members ms = List.map_filter (\<lambda>(k, v). map_option (Pair k) v) ms"

record acp_params =
  aa_provider :: provider
  aa_cwd :: "jstext option"
  aa_workspaceAlias :: "jstext option"
  aa_worktreePath :: "jstext option"

definition acp_metadata :: "acp_params \<Rightarrow> jstext \<Rightarrow> json" where
  "acp_metadata p now = JObj (members
     [(''provider'', Some (JStr (lit (aa_provider p)))), (''transport'', Some (JStr (lit ACP_TRANSPORT))),
      (''cwd'', map_option JStr (aa_cwd p)), (''workspaceAlias'', map_option JStr (aa_workspaceAlias p)),
      (''worktreePath'', map_option JStr (aa_worktreePath p)),
      (''createdAt'', Some (JStr now)), (''lastSeenAt'', Some (JStr now))])"

datatype acp_error = Session_failure session_error | Stamp_failed

definition createAcpSession ::
  "'s session_api \<Rightarrow> acp_params \<Rightarrow> string \<Rightarrow> jstext \<Rightarrow> 's \<Rightarrow> (acp_error + string) \<times> 's"
where
  "createAcpSession api p uuid now s =
     (let k = newGatewaySessionId uuid in
      case sa_create api (aa_provider p) (aa_provider p @ '' ACP Session'') k s of
        (Inl e, s1) \<Rightarrow> (Inl (Session_failure e), s1)
      | (Inr _, s1) \<Rightarrow>
          (case sa_update api k [(''acp'', acp_metadata p now)] s1 of
             (Inl e, s2) \<Rightarrow> (Inl (Session_failure e), s2)
           | (Inr stamped, s2) \<Rightarrow> (if stamped then Inr k else Inl Stamp_failed, s2)))"

text \<open>readAcpMetadata: an object (an array is one) or nothing.\<close>

definition acp_block :: "session option \<Rightarrow> json option" where
  "acp_block ses =
     (case ses of
        None \<Rightarrow> None
      | Some x \<Rightarrow>
          (case meta_get x ''acp'' of
             Some (JObj ms) \<Rightarrow> Some (JObj ms) | Some (JArr xs) \<Rightarrow> Some (JArr xs) | _ \<Rightarrow> None))"

definition readAcpMetadata :: "'s session_api \<Rightarrow> string \<Rightarrow> 's \<Rightarrow> json option \<times> 's" where
  "readAcpMetadata api k s = (case sa_get api k s of (ses, s1) \<Rightarrow> (acp_block ses, s1))"

record acp_info =
  af_providerSessionId :: jstext
  af_protocolVersion :: "rat option"
  af_agentName :: "jstext option"
  af_agentVersion :: "jstext option"

text \<open>The own members a spread copies.\<close>

fun spread :: "json \<Rightarrow> (string, json) js_map" where
  "spread (JObj ms) = ms"
| "spread (JArr xs) = map (\<lambda>(i, x). (nat_text i, x)) (zip [0..<length xs] xs)"
| "spread _ = []"

definition overwrite :: "string \<Rightarrow> json option \<Rightarrow> (string, json) js_map \<Rightarrow> (string, json) js_map" where
  "overwrite k v m = (case v of None \<Rightarrow> m | Some x \<Rightarrow> js_set m k x)"

definition merged_acp :: "json \<Rightarrow> acp_info \<Rightarrow> jstext \<Rightarrow> json" where
  "merged_acp existing f now = JObj
     (js_set (overwrite ''agentVersion'' (map_option JStr (af_agentVersion f))
        (overwrite ''agentName'' (map_option JStr (af_agentName f))
          (overwrite ''protocolVersion'' (map_option JNum (af_protocolVersion f))
            (js_set (spread existing) ''sessionId'' (JStr (af_providerSessionId f))))))
       ''lastSeenAt'' (JStr now))"

definition recordAcpSessionInfo ::
  "'s session_api \<Rightarrow> string \<Rightarrow> acp_info \<Rightarrow> jstext \<Rightarrow> 's \<Rightarrow> (session_error + bool) \<times> 's"
where
  "recordAcpSessionInfo api k f now s =
     (case readAcpMetadata api k s of
        (None, s1) \<Rightarrow> (Inr False, s1)
      | (Some existing, s1) \<Rightarrow> sa_update api k [(''acp'', merged_acp existing f now)] s1)"

datatype resume_failure = Not_found | Wrong_provider | Wrong_transport | No_provider_session

definition falsy :: "json option \<Rightarrow> bool" where
  "falsy j \<longleftrightarrow> j \<in> {None, Some JNull, Some (JBool False), Some (JNum 0), Some (JStr [])}"

definition resolveAcpResume ::
  "'s session_api \<Rightarrow> string \<Rightarrow> provider \<Rightarrow> 's \<Rightarrow> (resume_failure + json) \<times> 's"
where
  "resolveAcpResume api k p s =
     (case readAcpMetadata api k s of
        (None, s1) \<Rightarrow>
          (case sa_get api k s1 of (ses, s2) \<Rightarrow> (Inl (if ses = None then Not_found else Wrong_transport), s2))
      | (Some acp, s1) \<Rightarrow>
          if jfield acp ''transport'' \<noteq> Some (JStr (lit ACP_TRANSPORT)) then (Inl Wrong_transport, s1)
          else if jfield acp ''provider'' \<noteq> Some (JStr (lit p)) then (Inl Wrong_provider, s1)
          else (case jfield acp ''sessionId'' of
                  None \<Rightarrow> (Inl No_provider_session, s1)
                | Some v \<Rightarrow> (if falsy (Some v) then Inl No_provider_session else Inr v, s1)))"

section \<open>What a session manager promises\<close>

text \<open>
  A view gives the sessions a read returns now. Reads agree with it and keep it; a created session is
  in it, with no metadata; an update of a session in it succeeds and sets the members it names.
\<close>

locale session_manager =
  fixes api :: "'s session_api"
    and healthy :: "'s \<Rightarrow> bool"
    and view :: "'s \<Rightarrow> string \<Rightarrow> session option"
  assumes get_result: "healthy s \<Longrightarrow> fst (sa_get api k s) = view s k"
    and get_keeps: "healthy s \<Longrightarrow> healthy (snd (sa_get api k s)) \<and> view (snd (sa_get api k s)) = view s"
    and create_view: "healthy s \<Longrightarrow> sa_create api p d k s = (Inr ses, s') \<Longrightarrow> k \<noteq> [] \<Longrightarrow>
      healthy s' \<and> view s' k = Some ses"
    and update_view: "healthy s \<Longrightarrow> view s k = Some ses \<Longrightarrow> key \<noteq> ''kit'' \<Longrightarrow> key \<noteq> TOMBSTONE \<Longrightarrow>
      \<exists>s' ses'. sa_update api k [(key, v)] s = (Inr True, s') \<and> healthy s' \<and> view s' k = Some ses'
        \<and> meta_get ses' key = Some v"
begin

lemma read_result:
  "healthy s \<Longrightarrow> \<exists>s1. readAcpMetadata api k s = (acp_block (view s k), s1) \<and> healthy s1 \<and> view s1 = view s"
  using get_result [of s k] get_keeps [of s k]
  by (cases "sa_get api k s") (auto simp: readAcpMetadata_def)

text \<open>Resuming depends on the view alone.\<close>

lemma resolve_result:
  assumes "healthy s"
  shows "fst (resolveAcpResume api k p s) =
    (case acp_block (view s k) of
       None \<Rightarrow> Inl (if view s k = None then Not_found else Wrong_transport)
     | Some acp \<Rightarrow>
         if jfield acp ''transport'' \<noteq> Some (JStr (lit ACP_TRANSPORT)) then Inl Wrong_transport
         else if jfield acp ''provider'' \<noteq> Some (JStr (lit p)) then Inl Wrong_provider
         else (case jfield acp ''sessionId'' of
                 None \<Rightarrow> Inl No_provider_session
               | Some v \<Rightarrow> if falsy (Some v) then Inl No_provider_session else Inr v))"
proof -
  obtain s1 where r: "readAcpMetadata api k s = (acp_block (view s k), s1)" "healthy s1" "view s1 = view s"
    using read_result [OF assms] by blast
  have "fst (sa_get api k s1) = view s k" using get_result [OF r(2)] r(3) by simp
  then show ?thesis
    by (cases "sa_get api k s1") (auto simp: resolveAcpResume_def r(1) split: option.split)
qed

lemma create_result:
  assumes "healthy s" and "fst (createAcpSession api p uuid now s) = Inr k"
  shows "k = newGatewaySessionId uuid
    \<and> (\<exists>ses. view (snd (createAcpSession api p uuid now s)) k = Some ses
         \<and> meta_get ses ''acp'' = Some (acp_metadata p now) \<and> healthy (snd (createAcpSession api p uuid now s)))"
proof -
  let ?k = "newGatewaySessionId uuid"
  have ne: "?k \<noteq> []" by (simp add: newGatewaySessionId_def GATEWAY_SESSION_PREFIX_def)
  obtain ses s1 where c: "sa_create api (aa_provider p) (aa_provider p @ '' ACP Session'') ?k s = (Inr ses, s1)"
    using assms(2) by (auto simp: createAcpSession_def Let_def split: prod.splits sum.splits)
  note v = create_view [OF assms(1) c ne]
  have "''acp'' \<noteq> ''kit''" "''acp'' \<noteq> TOMBSTONE" by (simp_all add: TOMBSTONE_def)
  then obtain s2 ses' where u: "sa_update api ?k [(''acp'', acp_metadata p now)] s1 = (Inr True, s2)" "healthy s2"
      "view s2 ?k = Some ses'" "meta_get ses' ''acp'' = Some (acp_metadata p now)"
    using update_view [of s1 ?k ses "''acp''" "acp_metadata p now"] v by blast
  have eq: "createAcpSession api p uuid now s = (Inr ?k, s2)"
    by (simp add: createAcpSession_def Let_def c u(1))
  then have "k = ?k" using assms(2) by simp
  with eq u show ?thesis by simp
qed

lemma record_result:
  assumes "healthy s"
  shows "case acp_block (view s k) of
       None \<Rightarrow> fst (recordAcpSessionInfo api k f now s) = Inr False
         \<and> view (snd (recordAcpSessionInfo api k f now s)) = view s
     | Some acp \<Rightarrow> fst (recordAcpSessionInfo api k f now s) = Inr True
         \<and> healthy (snd (recordAcpSessionInfo api k f now s))
         \<and> (\<exists>ses'. view (snd (recordAcpSessionInfo api k f now s)) k = Some ses'
              \<and> meta_get ses' ''acp'' = Some (merged_acp acp f now))"
proof -
  obtain s1 where r: "readAcpMetadata api k s = (acp_block (view s k), s1)" "healthy s1" "view s1 = view s"
    using read_result [OF assms] by blast
  show ?thesis
  proof (cases "acp_block (view s k)")
    case None
    then show ?thesis using r by (simp add: recordAcpSessionInfo_def)
  next
    case (Some acp)
    then obtain ses where "view s1 k = Some ses" using r(3) by (cases "view s k") (auto simp: acp_block_def)
    moreover have "''acp'' \<noteq> ''kit''" "''acp'' \<noteq> TOMBSTONE" by (simp_all add: TOMBSTONE_def)
    ultimately obtain s2 ses' where "sa_update api k [(''acp'', merged_acp acp f now)] s1 = (Inr True, s2)"
      "healthy s2" "view s2 k = Some ses'" "meta_get ses' ''acp'' = Some (merged_acp acp f now)"
      using update_view [OF r(2), of k ses "''acp''" "merged_acp acp f now"] by blast
    then show ?thesis using Some r by (simp add: recordAcpSessionInfo_def)
  qed
qed

end

section \<open>The file store as a session manager\<close>

definition file_api :: "fs_ctx \<Rightarrow> file_store session_api" where
  "file_api cx = \<lparr>sa_create = \<lambda>p d k. createSession cx p (Some d) (Some k) None None,
     sa_get = getSession cx, sa_update = updateSessionMetadata cx\<rparr>"

definition file_healthy :: "fs_ctx \<Rightarrow> file_store \<Rightarrow> bool" where
  "file_healthy cx s \<longleftrightarrow> fs_wf s \<and> \<not> fs_fault s \<and> 0 \<le> cx_ttl cx"

text \<open>The sessions a read at this moment returns.\<close>

definition file_view :: "fs_ctx \<Rightarrow> file_store \<Rightarrow> string \<Rightarrow> session option" where
  "file_view cx s k =
     (case fs_get s k of
        None \<Rightarrow> None
      | Some ses \<Rightarrow> if isWorktreeCleanupTombstone ses \<or> isExpired cx s ses then None else Some ses)"

lemma remove_fault [simp]: "fs_fault (removeOrStageSession ses s) = fs_fault s"
  by (simp add: removeOrStageSession_def Let_def put_session_def fs_note_def clearActiveKitPointersForSession_def)

lemma note_pointer [simp]: "hasActiveKitPointer (notifySessionRemoved ses s) k = hasActiveKitPointer s k"
  by (simp add: hasActiveKitPointer_def)

lemma evictRow_fault [simp]: "fs_fault (evictSessionRow k s) = fs_fault s"
  by (simp add: evictSessionRow_def removeSessionRow_def split: option.split)

lemma evict_loop_fault [simp]: "fs_fault (snd (evict_loop cx xs s)) = fs_fault s"
  by (induction xs arbitrary: s) (auto simp: split_beta)

lemma fold_note_fault [simp]: "fs_fault (fold notifySessionRemoved removed s) = fs_fault s"
  by (induction removed arbitrary: s) simp_all

lemma evict_fault [simp]: "fs_fault (evictExpiredSessions cx s) = fs_fault s"
  by (simp add: evictExpiredSessions_def split_beta Let_def)

text \<open>The lazy removal of one row leaves the view of every other session.\<close>

lemma file_view_evictRow:
  assumes "fs_wf s" and "\<not> fs_fault s" and "file_view cx s k = None"
  shows "file_view cx (evictSessionRow k s) = file_view cx s"
proof
  fix k'
  show "file_view cx (evictSessionRow k s) k' = file_view cx s k'"
  proof (cases "\<exists>ses. fs_get s k = Some ses \<and> \<not> isWorktreeCleanupTombstone ses \<and> held_attempt ses = None")
    case True
    then obtain ses where ses: "fs_get s k = Some ses" "\<not> isWorktreeCleanupTombstone ses" "held_attempt ses = None"
      by blast
    have id: "ses_id ses = k" using fs_wfD [OF assms(1) ses(1)] .
    have eq: "evictSessionRow k s = notifySessionRemoved (staged ses) (removeOrStageSession ses s)"
      using ses assms(2) by (simp add: evictSessionRow_def removeSessionRow_def)
    have same: "isExpired cx (notifySessionRemoved (staged ses) (removeOrStageSession ses s)) x = isExpired cx s x"
      if "fs_get s k' = Some x" "k' \<noteq> k" for x
      using fs_wfD [OF assms(1) that(1)] that(2) id by (simp add: expired_iff clear_pointer_other)
    show ?thesis
      using assms(3) same id staged_tombstone [of ses]
      by (cases "k' = k") (auto simp: file_view_def eq split: option.split)
  next
    case False
    then have "evictSessionRow k s = s"
      by (auto simp: evictSessionRow_def removeSessionRow_def split: option.split)
    then show ?thesis by simp
  qed
qed

lemma file_get_result: "fst (getSession cx k s) = file_view cx s k"
  by (simp add: getSession_def file_view_def split: option.split)

lemma file_get_keeps:
  assumes "file_healthy cx s"
  shows "file_healthy cx (snd (getSession cx k s)) \<and> file_view cx (snd (getSession cx k s)) = file_view cx s"
proof (cases "snd (getSession cx k s) = s")
  case False
  then obtain ses where "fs_get s k = Some ses" "isExpired cx s ses" "snd (getSession cx k s) = evictSessionRow k s"
    by (auto simp: getSession_def split: option.splits if_splits)
  then show ?thesis
    using assms file_view_evictRow [of s cx k] by (auto simp: file_healthy_def file_view_def)
qed (use assms in simp)

lemma point_facts [simp]:
  "fs_get (point_session cli k s) k' = fs_get s k'" "fs_wf (point_session cli k s) = fs_wf s"
  "fs_fault (point_session cli k s) = fs_fault s" "fs_fault (put_session ses s) = fs_fault s"
  by (simp_all add: point_session_def fs_wf_def put_session_def)

lemma file_create_view:
  assumes "file_healthy cx s" and "createSession cx p (Some d) (Some k) None None s = (Inr ses, s')" and "k \<noteq> []"
  shows "file_healthy cx s' \<and> file_view cx s' k = Some ses"
proof -
  let ?s1 = "evictExpiredSessions cx s"
  have s': "ses = new_session cx k p (Some d) None" "s' = point_session p k (put_session ses ?s1)"
    using assms by (auto simp: createSession_def Let_def id_or_new_def file_healthy_def split: if_splits)
  have facts: "ses_id ses = k" "\<not> isWorktreeCleanupTombstone ses" "ses_lastUsedAt ses = Some (cx_now cx)"
    by (simp_all add: s'(1) new_session_def isWorktreeCleanupTombstone_def meta_get_def meta_of_def empty_meta_def)
  then have "\<not> isExpired cx s' ses" using assms(1) by (simp add: expired_iff file_healthy_def)
  with facts show ?thesis using assms(1) by (simp add: s'(2) file_healthy_def file_view_def)
qed

lemma file_update_view:
  assumes "file_healthy cx s" and "file_view cx s k = Some ses" and "key \<noteq> ''kit''" and "key \<noteq> TOMBSTONE"
  shows "\<exists>s' ses'. updateSessionMetadata cx k [(key, v)] s = (Inr True, s') \<and> file_healthy cx s'
     \<and> file_view cx s' k = Some ses' \<and> meta_get ses' key = Some v"
proof -
  have ses: "fs_get s k = Some ses" "\<not> isWorktreeCleanupTombstone ses" "ses_id ses = k"
    using assms(1,2) fs_wfD [of s k ses] by (auto simp: file_view_def file_healthy_def split: option.splits if_splits)
  define m where "m = merge_meta [(key, v)] ses"
  define s1 where "s1 = put_session m s"
  define u where "u = m\<lparr>ses_lastUsedAt := Some (cx_now cx)\<rparr>"
  have m: "\<not> isWorktreeCleanupTombstone m" "ses_id m = k" "meta_get m key = Some v"
    using ses assms(4) by (simp_all add: m_def merged_session) (simp add: merge_meta_def meta_get_def meta_of_def)
  have u: "\<not> isWorktreeCleanupTombstone u" "ses_id u = k" "meta_get u key = Some v"
    using m by (simp_all add: u_def used_session) (simp add: meta_get_def meta_of_def)
  have live: "\<not> isExpired cx x u" for x using assms(1) by (simp add: u_def expired_iff file_healthy_def)
  have upd: "updateSessionMetadata cx k [(key, v)] s = (Inr True, if isExpired cx s1 m then put_session u s1 else s1)"
    using assms(1,3) ses
    by (simp add: updateSessionMetadata_def file_healthy_def Let_def m_def s1_def u_def)
  show ?thesis
  proof (cases "isExpired cx s1 m")
    case True
    then show ?thesis using upd u live assms(1) by (auto simp: file_healthy_def file_view_def s1_def)
  next
    case False
    then show ?thesis using upd m assms(1) by (auto simp: file_healthy_def file_view_def s1_def)
  qed
qed

interpretation acp_file: session_manager "file_api cx" "file_healthy cx" "file_view cx" for cx
  by (unfold_locales, unfold file_api_def session_api.simps)
    (rule file_get_result, erule file_get_keeps, erule (2) file_create_view, erule (3) file_update_view)

text \<open>Two moments that both still see a session see the same one.\<close>

lemma file_view_same: "file_view cx s k = Some a \<Longrightarrow> file_view cx' s k \<noteq> None \<Longrightarrow> file_view cx' s k = Some a"
  by (auto simp: file_view_def split: option.splits if_splits)

lemma file_view_moment: "file_healthy cx s \<Longrightarrow> 0 \<le> cx_ttl cx' \<Longrightarrow> file_healthy cx' s"
  by (simp add: file_healthy_def)

lemma acp_metadata_fields:
  "jfield (acp_metadata p now) ''transport'' = Some (JStr (lit ACP_TRANSPORT))"
  "jfield (acp_metadata p now) ''provider'' = Some (JStr (lit (aa_provider p)))"
  "jfield (acp_metadata p now) ''sessionId'' = None"
  by (auto simp: acp_metadata_def members_def map_filter_simps split: option.split)

lemma overwrite_get: "js_get (overwrite k v m) k' = (if k' = k \<and> v \<noteq> None then v else js_get m k')"
  by (cases v) (auto simp: overwrite_def)

lemma merged_fields:
  "jfield (merged_acp (acp_metadata p n) f now) ''transport'' = Some (JStr (lit ACP_TRANSPORT))"
  "jfield (merged_acp (acp_metadata p n) f now) ''provider'' = Some (JStr (lit (aa_provider p)))"
  "jfield (merged_acp (acp_metadata p n) f now) ''sessionId'' = Some (JStr (af_providerSessionId f))"
  using acp_metadata_fields [of p n] by (auto simp: merged_acp_def overwrite_get acp_metadata_def)

lemma lit_eq [simp]: "lit x = lit y \<longleftrightarrow> x = y"
  by (simp add: lit_def inj_map_eq_map inj_of_char)

text \<open>C39: A gateway session that createAcpSession returns has an identifier in the gateway's own namespace.
  Until the provider's session is recorded, resuming it fails; recording succeeds as long as the session is
  still there, and from then on a resume yields exactly the recorded identifier, to the session's own
  provider and to no other.\<close>

theorem acp_resume_scoped:
  assumes "fs_wf s" and "\<not> fs_fault s" and "0 \<le> cx_ttl cx" and "0 \<le> cx_ttl cx1" and "0 \<le> cx_ttl cx2"
    and "createAcpSession (file_api cx) p uuid now s = (Inr k, s1)"
    and "fst (getSession cx1 k s1) \<noteq> None"
    and "recordAcpSessionInfo (file_api cx1) k f now1 s1 = (r, s2)"
    and "fst (getSession cx2 k s2) \<noteq> None"
  shows "isGatewaySessionId k \<and> r = Inr True
    \<and> fst (resolveAcpResume (file_api cx1) k q s1)
        = Inl (if q = aa_provider p then No_provider_session else Wrong_provider)
    \<and> fst (resolveAcpResume (file_api cx2) k q s2)
        = (if q \<noteq> aa_provider p then Inl Wrong_provider
           else if af_providerSessionId f = [] then Inl No_provider_session
           else Inr (JStr (af_providerSessionId f)))"
proof -
  have h: "file_healthy cx s" using assms(1-3) by (simp add: file_healthy_def)
  obtain ses where c: "k = newGatewaySessionId uuid" "file_view cx s1 k = Some ses"
      "meta_get ses ''acp'' = Some (acp_metadata p now)" "file_healthy cx s1"
    using acp_file.create_result [OF h, of p uuid now k] assms(6) by auto
  have h1: "file_healthy cx1 s1" using c(4) assms(4) by (rule file_view_moment)
  have v1: "file_view cx1 s1 k = Some ses" using file_view_same [OF c(2)] assms(7) by (simp add: file_get_result)
  have b1: "acp_block (file_view cx1 s1 k) = Some (acp_metadata p now)"
    using c(3) by (simp add: v1 acp_block_def acp_metadata_def)
  then obtain ses2 where r: "r = Inr True" "file_healthy cx1 s2" "file_view cx1 s2 k = Some ses2"
      "meta_get ses2 ''acp'' = Some (merged_acp (acp_metadata p now) f now1)"
    using acp_file.record_result [OF h1, of k f now1] assms(8) by auto
  have h2: "file_healthy cx2 s2" using r(2) assms(5) by (rule file_view_moment)
  have v2: "file_view cx2 s2 k = Some ses2" using file_view_same [OF r(3)] assms(9) by (simp add: file_get_result)
  have b2: "acp_block (file_view cx2 s2 k) = Some (merged_acp (acp_metadata p now) f now1)"
    using r(4) by (simp add: v2 acp_block_def merged_acp_def)
  have "fst (resolveAcpResume (file_api cx1) k q s1)
      = Inl (if q = aa_provider p then No_provider_session else Wrong_provider)"
    using acp_file.resolve_result [OF h1, of k q] by (simp add: b1 acp_metadata_fields)
  moreover have "fst (resolveAcpResume (file_api cx2) k q s2)
      = (if q \<noteq> aa_provider p then Inl Wrong_provider
         else if af_providerSessionId f = [] then Inl No_provider_session
         else Inr (JStr (af_providerSessionId f)))"
    using acp_file.resolve_result [OF h2, of k q] by (simp add: b2 merged_fields falsy_def)
  moreover have "isGatewaySessionId k" by (simp add: c(1) isGatewaySessionId_def newGatewaySessionId_def)
  ultimately show ?thesis using r(1) by simp
qed

definition acp_moment :: "time \<Rightarrow> fs_ctx" where
  "acp_moment t = \<lparr>cx_now = t, cx_ttl = 10, cx_caller = ''local'', cx_newId = ''n'', cx_newGeneration = ''g''\<rparr>"

definition empty_store :: file_store where
  "empty_store = \<lparr>fs_sessions = [], fs_active = [], fs_activeKit = [], fs_fault = False, fs_events = []\<rparr>"

definition demo_params :: acp_params where
  "demo_params = \<lparr>aa_provider = ''claude'', aa_cwd = None, aa_workspaceAlias = None, aa_worktreePath = None\<rparr>"

definition demo_info :: acp_info where
  "demo_info = \<lparr>af_providerSessionId = [112], af_protocolVersion = Some 1, af_agentName = None, af_agentVersion = None\<rparr>"

lemma demo_create: "fst (createAcpSession (file_api (acp_moment 1)) demo_params ''u'' [116] empty_store) = Inr ''gw-u''"
  by code_simp

lemma demo_seen:
  "fst (getSession (acp_moment 5) ''gw-u''
     (snd (createAcpSession (file_api (acp_moment 1)) demo_params ''u'' [116] empty_store))) \<noteq> None"
  "fst (getSession (acp_moment 9) ''gw-u''
     (snd (recordAcpSessionInfo (file_api (acp_moment 5)) ''gw-u'' demo_info [117]
       (snd (createAcpSession (file_api (acp_moment 1)) demo_params ''u'' [116] empty_store))))) \<noteq> None"
  by code_simp+

theorem acp_resume_scoped_witness:
  "\<exists>s1 s2. recordAcpSessionInfo (file_api (acp_moment 5)) ''gw-u'' demo_info [117] s1 = (Inr True, s2)
     \<and> fst (resolveAcpResume (file_api (acp_moment 9)) ''gw-u'' ''claude'' s2) = Inr (JStr [112])
     \<and> fst (resolveAcpResume (file_api (acp_moment 9)) ''gw-u'' ''codex'' s2) = Inl Wrong_provider"
proof -
  obtain s1 where c: "createAcpSession (file_api (acp_moment 1)) demo_params ''u'' [116] empty_store = (Inr ''gw-u'', s1)"
    using demo_create by (metis prod.collapse)
  obtain r s2 where r: "recordAcpSessionInfo (file_api (acp_moment 5)) ''gw-u'' demo_info [117] s1 = (r, s2)"
    by fastforce
  have pre: "fs_wf empty_store" "\<not> fs_fault empty_store" "\<And>t. 0 \<le> cx_ttl (acp_moment t)"
    by (simp_all add: fs_wf_def empty_store_def acp_moment_def)
  have seen: "fst (getSession (acp_moment 5) ''gw-u'' s1) \<noteq> None" "fst (getSession (acp_moment 9) ''gw-u'' s2) \<noteq> None"
    using demo_seen by (simp_all add: c r)
  note here = acp_resume_scoped [OF pre(1,2) pre(3) pre(3) pre(3) c seen(1) r seen(2)]
  show ?thesis using r here [of "''claude''"] here [of "''codex''"]
    by (auto simp: demo_params_def demo_info_def)
qed

end
