(* ===== verification/Admission_Lease.thy ===== *)
theory Admission_Lease
  imports Job_Store
begin

text \<open>
  How one gateway instance keeps its right to admit durable jobs: registration, heartbeats, the loss and
  the recovery of admission and the orphan sweep, from AsyncJobManager of src/src/async-job-manager.ts.

  The methods are asynchronous and share state, so a method is the runs between its awaits: the phase
  fields say what each pending call waits for, and an event delivers one answer of the store, a timer or
  the disposal. Every store call is noted in order. Logging is left out.
\<close>

section \<open>State\<close>

definition MAX_CONSECUTIVE_HEARTBEAT_FAILURES :: nat where
  "MAX_CONSECUTIVE_HEARTBEAT_FAILURES = 3"

definition MIN_CONSECUTIVE_HEARTBEAT_SUCCESSES_TO_RECOVER :: nat where
  "MIN_CONSECUTIVE_HEARTBEAT_SUCCESSES_TO_RECOVER = 3"

datatype store_call =
  C_register | C_heartbeat | C_select | C_recover "string list" | C_follow string | C_reconcile | C_gc

text \<open>What restoreDurableAdmission, a heartbeat tick, a sweep and the reaper's tick wait for.\<close>

datatype restore_phase = R_register | R_heartbeat | R_sweep | R_reconcile
datatype tick_phase = No_tick | T_heartbeat | T_reregister | T_restore restore_phase
datatype sweep_phase = No_sweep | S_select | S_recover | S_follow "string list"
datatype reaper_phase = No_reaper | P_sweep | P_gc

record lease_mgr =
  lm_store :: bool
  lm_disposed :: bool
  lm_durableAdmission :: bool
  lm_failures :: nat
  lm_successes :: nat
  lm_lastFailureAt :: "time option"
  lm_lastRecoveryAt :: "time option"
  lm_lastErrorName :: "string option"
  lm_skipSweep :: bool
  lm_nextExpected :: time
  lm_startup :: "restore_phase option"
  lm_tick :: tick_phase
  lm_sweep :: sweep_phase
  lm_reaper :: reaper_phase
  lm_calls :: "store_call list"

record sweep_candidate =
  sd_id :: string
  sd_pid :: "nat option"
  sd_transport :: job_transport
  sd_ownerInstance :: "string option"
  sd_hostname :: "string option"

text \<open>The host name, the heartbeat interval and what signalling a process identifier answers.\<close>

datatype kill_answer = Delivered | Eperm | Esrch

record lease_env =
  le_hostname :: string
  le_heartbeatMs :: int
  le_kill :: "nat \<Rightarrow> kill_answer"

definition canAdmitDurableJobs :: "lease_mgr \<Rightarrow> bool" where
  "canAdmitDurableJobs s \<longleftrightarrow> lm_store s \<and> lm_durableAdmission s"

record admission_health =
  ah_storeAttached :: bool
  ah_admitting :: bool
  ah_failures :: nat
  ah_successes :: nat
  ah_lastFailureAt :: "time option"
  ah_lastRecoveryAt :: "time option"
  ah_lastErrorName :: "string option"

definition getDurableAdmissionHealth :: "lease_mgr \<Rightarrow> admission_health" where
  "getDurableAdmissionHealth s =
     \<lparr>ah_storeAttached = lm_store s, ah_admitting = canAdmitDurableJobs s, ah_failures = lm_failures s,
      ah_successes = lm_successes s, ah_lastFailureAt = lm_lastFailureAt s,
      ah_lastRecoveryAt = lm_lastRecoveryAt s, ah_lastErrorName = lm_lastErrorName s\<rparr>"

datatype admission_error = Shutting_down | Admission_disabled

definition assertDurableAdmission :: "lease_mgr \<Rightarrow> admission_error + unit" where
  "assertDurableAdmission s =
     (if lm_disposed s then Inl Shutting_down
      else if lm_store s \<and> \<not> lm_durableAdmission s then Inl Admission_disabled else Inr ())"

definition confirmLiveProcessCandidates :: "lease_env \<Rightarrow> sweep_candidate list \<Rightarrow> string list" where
  "confirmLiveProcessCandidates env cs = List.map_filter (\<lambda>c.
     if sd_transport c \<noteq> TProcess then None
     else (case sd_pid c of
             None \<Rightarrow> None
           | Some pid \<Rightarrow>
               if sd_hostname c \<noteq> Some (le_hostname env) then None
               else (case le_kill env pid of Esrch \<Rightarrow> None | _ \<Rightarrow> Some (sd_id c)))) cs"

definition lm_note :: "store_call \<Rightarrow> lease_mgr \<Rightarrow> lease_mgr" where
  "lm_note c s = s\<lparr>lm_calls := lm_calls s @ [c]\<rparr>"

section \<open>Sweeping\<close>

text \<open>runOrphanSweepBody up to its first await; a sweep with nothing to do is over at once.\<close>

definition sweep_begins :: "lease_mgr \<Rightarrow> lease_mgr" where
  "sweep_begins s =
     (if \<not> lm_store s \<or> lm_disposed s \<or> \<not> lm_durableAdmission s then s
      else if lm_skipSweep s then s\<lparr>lm_skipSweep := False\<rparr>
      else (lm_note C_select s)\<lparr>lm_sweep := S_select\<rparr>)"

text \<open>runOrphanSweep: a sweep in flight is joined.\<close>

definition runOrphanSweep :: "lease_mgr \<Rightarrow> lease_mgr" where
  "runOrphanSweep s = (if lm_sweep s = No_sweep then sweep_begins s else s)"

datatype caller = At_startup | By_tick

definition put_restore :: "caller \<Rightarrow> restore_phase option \<Rightarrow> lease_mgr \<Rightarrow> lease_mgr" where
  "put_restore who p s =
     (case who of
        At_startup \<Rightarrow> s\<lparr>lm_startup := p\<rparr>
      | By_tick \<Rightarrow> s\<lparr>lm_tick := (case p of None \<Rightarrow> No_tick | Some q \<Rightarrow> T_restore q)\<rparr>)"

definition restoring :: "caller \<Rightarrow> lease_mgr \<Rightarrow> restore_phase option" where
  "restoring who s =
     (case who of At_startup \<Rightarrow> lm_startup s
      | By_tick \<Rightarrow> (case lm_tick s of T_restore q \<Rightarrow> Some q | _ \<Rightarrow> None))"

text \<open>The catch of restoreDurableAdmission.\<close>

definition restore_fails :: "caller \<Rightarrow> string \<Rightarrow> time \<Rightarrow> lease_mgr \<Rightarrow> lease_mgr" where
  "restore_fails who err now s = put_restore who None
     (s\<lparr>lm_durableAdmission := False, lm_successes := 0, lm_lastFailureAt := Some now,
        lm_lastErrorName := Some err\<rparr>)"

text \<open>reconcileLocalOrphanedClaudeMcpArtifacts up to its first await.\<close>

definition reconcile_begins :: "caller \<Rightarrow> lease_mgr \<Rightarrow> lease_mgr" where
  "reconcile_begins who s =
     (if \<not> lm_store s \<or> lm_disposed s \<or> \<not> lm_durableAdmission s then put_restore who None s
      else put_restore who (Some R_reconcile) (lm_note C_reconcile s))"

definition reaper_swept :: "lease_mgr \<Rightarrow> lease_mgr" where
  "reaper_swept s =
     (if \<not> lm_store s \<or> lm_disposed s \<or> \<not> lm_durableAdmission s then s\<lparr>lm_reaper := No_reaper\<rparr>
      else (lm_note C_gc s)\<lparr>lm_reaper := P_gc\<rparr>)"

text \<open>A sweep that ends resumes whoever waits for it.\<close>

definition resume_restore :: "caller \<Rightarrow> lease_mgr \<Rightarrow> lease_mgr" where
  "resume_restore who s = (if restoring who s = Some R_sweep then reconcile_begins who s else s)"

definition sweep_settles :: "lease_mgr \<Rightarrow> lease_mgr" where
  "sweep_settles s =
     (let s1 = resume_restore By_tick (resume_restore At_startup (s\<lparr>lm_sweep := No_sweep\<rparr>)) in
      if lm_reaper s1 = P_sweep then reaper_swept s1 else s1)"

definition restore_sweeps :: "caller \<Rightarrow> lease_mgr \<Rightarrow> lease_mgr" where
  "restore_sweeps who s =
     (let s1 = runOrphanSweep s in
      if lm_sweep s1 = No_sweep then reconcile_begins who s1 else put_restore who (Some R_sweep) s1)"

section \<open>Restoring admission and the heartbeat\<close>

definition restore_begins :: "caller \<Rightarrow> lease_mgr \<Rightarrow> lease_mgr" where
  "restore_begins who s =
     (if \<not> lm_store s \<or> lm_disposed s then put_restore who None s
      else put_restore who (Some R_register) (lm_note C_register s))"

definition restore_heartbeat_ok :: "caller \<Rightarrow> time \<Rightarrow> lease_mgr \<Rightarrow> lease_mgr" where
  "restore_heartbeat_ok who now s =
     (if lm_disposed s then put_restore who None s
      else restore_sweeps who
        (s\<lparr>lm_durableAdmission := True, lm_failures := 0, lm_successes := 0, lm_lastRecoveryAt := Some now\<rparr>))"

definition tick_begins :: "lease_env \<Rightarrow> time \<Rightarrow> lease_mgr \<Rightarrow> lease_mgr" where
  "tick_begins env tm s =
     (if lm_disposed s \<or> \<not> lm_store s \<or> lm_tick s \<noteq> No_tick then s
      else
        (let drift = tm - lm_nextExpected s;
             s1 = s\<lparr>lm_nextExpected := tm + le_heartbeatMs env\<rparr>;
             s2 = (if drift > le_heartbeatMs env then s1\<lparr>lm_skipSweep := True\<rparr> else s1) in
         (lm_note C_heartbeat s2)\<lparr>lm_tick := T_heartbeat\<rparr>))"

definition tick_ok :: "lease_mgr \<Rightarrow> lease_mgr" where
  "tick_ok s =
     (let s1 = s\<lparr>lm_failures := 0\<rparr> in
      if lm_durableAdmission s1 then s1\<lparr>lm_tick := No_tick\<rparr>
      else
        (let s2 = s1\<lparr>lm_successes := Suc (lm_successes s1)\<rparr> in
         if lm_successes s2 \<ge> MIN_CONSECUTIVE_HEARTBEAT_SUCCESSES_TO_RECOVER then restore_begins By_tick s2
         else s2\<lparr>lm_tick := No_tick\<rparr>))"

definition tick_fails :: "string \<Rightarrow> time \<Rightarrow> lease_mgr \<Rightarrow> lease_mgr" where
  "tick_fails err now s =
     (let s1 = s\<lparr>lm_failures := Suc (lm_failures s), lm_successes := 0, lm_lastFailureAt := Some now,
                 lm_lastErrorName := Some err, lm_tick := No_tick\<rparr> in
      if lm_failures s1 \<ge> MAX_CONSECUTIVE_HEARTBEAT_FAILURES \<and> lm_durableAdmission s1
      then s1\<lparr>lm_durableAdmission := False, lm_successes := 0\<rparr> else s1)"

text \<open>reportHeartbeatOutcome: an instance row that is gone is registered again.\<close>

definition heartbeat_reported :: "bool \<Rightarrow> lease_mgr \<Rightarrow> lease_mgr" where
  "heartbeat_reported refreshed s =
     (if \<not> lm_store s \<or> refreshed then tick_ok s else (lm_note C_register s)\<lparr>lm_tick := T_reregister\<rparr>)"

section \<open>Events\<close>

datatype 'a answer = Raises string | Returns 'a

datatype lease_event =
    Tick time
  | Tick_heartbeat "bool answer" time
  | Tick_registered "unit answer" time
  | Restore_registered caller "unit answer" time
  | Restore_heartbeat caller "unit answer" time
  | Restore_reconciled caller "unit answer" time
  | Reaper_tick
  | Sweep_now
  | Sweep_selected "sweep_candidate list answer"
  | Sweep_recovered "string list answer"
  | Sweep_followed
  | Gc_answered
  | Dispose

text \<open>None: the event cannot happen in this state, since no call is pending that it could answer.\<close>

fun lease_apply :: "lease_env \<Rightarrow> lease_event \<Rightarrow> lease_mgr \<Rightarrow> lease_mgr option" where
  "lease_apply env (Tick tm) s = (if lm_disposed s then None else Some (tick_begins env tm s))"
| "lease_apply env (Tick_heartbeat r now) s =
     (if lm_tick s \<noteq> T_heartbeat then None
      else Some (case r of Raises e \<Rightarrow> tick_fails e now s | Returns refreshed \<Rightarrow> heartbeat_reported refreshed s))"
| "lease_apply env (Tick_registered r now) s =
     (if lm_tick s \<noteq> T_reregister then None
      else Some (case r of Raises e \<Rightarrow> tick_fails e now s | Returns _ \<Rightarrow> tick_ok s))"
| "lease_apply env (Restore_registered who r now) s =
     (if restoring who s \<noteq> Some R_register then None
      else Some (case r of Raises e \<Rightarrow> restore_fails who e now s
                 | Returns _ \<Rightarrow> put_restore who (Some R_heartbeat) (lm_note C_heartbeat s)))"
| "lease_apply env (Restore_heartbeat who r now) s =
     (if restoring who s \<noteq> Some R_heartbeat then None
      else Some (case r of Raises e \<Rightarrow> restore_fails who e now s | Returns _ \<Rightarrow> restore_heartbeat_ok who now s))"
| "lease_apply env (Restore_reconciled who r now) s =
     (if restoring who s \<noteq> Some R_reconcile then None
      else Some (case r of Raises e \<Rightarrow> restore_fails who e now s | Returns _ \<Rightarrow> put_restore who None s))"
| "lease_apply env Reaper_tick s =
     (if lm_disposed s then None
      else if lm_reaper s \<noteq> No_reaper then Some s
      else
        (let s1 = runOrphanSweep s in
         Some (if lm_sweep s1 = No_sweep then reaper_swept s1 else s1\<lparr>lm_reaper := P_sweep\<rparr>)))"
| "lease_apply env Sweep_now s = (if lm_startup s \<noteq> None then None else Some (runOrphanSweep s))"
| "lease_apply env (Sweep_selected r) s =
     (if lm_sweep s \<noteq> S_select then None
      else Some (case r of
          Raises _ \<Rightarrow> sweep_settles s
        | Returns cs \<Rightarrow>
            if lm_disposed s then sweep_settles s
            else (lm_note (C_recover (confirmLiveProcessCandidates env cs)) s)\<lparr>lm_sweep := S_recover\<rparr>))"
| "lease_apply env (Sweep_recovered r) s =
     (if lm_sweep s \<noteq> S_recover then None
      else Some (case r of
          Raises _ \<Rightarrow> sweep_settles s
        | Returns [] \<Rightarrow> sweep_settles s
        | Returns (x # xs) \<Rightarrow> (lm_note (C_follow x) s)\<lparr>lm_sweep := S_follow xs\<rparr>))"
| "lease_apply env Sweep_followed s =
     (case lm_sweep s of
        S_follow [] \<Rightarrow> Some (sweep_settles s)
      | S_follow (x # xs) \<Rightarrow> Some ((lm_note (C_follow x) s)\<lparr>lm_sweep := S_follow xs\<rparr>)
      | _ \<Rightarrow> None)"
| "lease_apply env Gc_answered s = (if lm_reaper s \<noteq> P_gc then None else Some (s\<lparr>lm_reaper := No_reaper\<rparr>))"
| "lease_apply env Dispose s = Some (s\<lparr>lm_disposed := True, lm_durableAdmission := False\<rparr>)"

definition lease_step :: "lease_env \<Rightarrow> lease_mgr \<Rightarrow> lease_mgr \<Rightarrow> bool" where
  "lease_step env s s' \<longleftrightarrow> (\<exists>e. lease_apply env e s = Some s')"

text \<open>The manager after its constructor.\<close>

definition lease_new :: "bool \<Rightarrow> time \<Rightarrow> lease_mgr" where
  "lease_new store expected =
     (let s = \<lparr>lm_store = store, lm_disposed = False, lm_durableAdmission = False, lm_failures = 0,
               lm_successes = 0, lm_lastFailureAt = None, lm_lastRecoveryAt = None, lm_lastErrorName = None,
               lm_skipSweep = False, lm_nextExpected = expected, lm_startup = None, lm_tick = No_tick,
               lm_sweep = No_sweep, lm_reaper = No_reaper, lm_calls = []\<rparr> in
      if store then restore_begins At_startup s else s)"

definition lease_ini :: "lease_mgr \<Rightarrow> bool" where
  "lease_ini s \<longleftrightarrow> (\<exists>store t. s = lease_new store t)"

section \<open>What the steps keep\<close>

lemmas lease_calls = sweep_begins_def runOrphanSweep_def put_restore_def restore_fails_def reconcile_begins_def
  reaper_swept_def restore_begins_def tick_begins_def tick_ok_def tick_fails_def heartbeat_reported_def
  restore_heartbeat_ok_def restore_sweeps_def lm_note_def Let_def

text \<open>The parts of the state that only the heartbeat and the restoring of admission touch.\<close>

definition lease_core :: "lease_mgr \<Rightarrow> bool \<times> bool \<times> bool \<times> nat \<times> nat" where
  "lease_core s = (lm_store s, lm_disposed s, lm_durableAdmission s, lm_failures s, lm_successes s)"

lemma core_sweeps [simp]:
  "lease_core (s\<lparr>lm_sweep := x1\<rparr>) = lease_core s" "lease_core (s\<lparr>lm_reaper := x2\<rparr>) = lease_core s"
  "lease_core (lm_note c s) = lease_core s" "lease_core (put_restore who p s) = lease_core s"
  "lease_core (reconcile_begins who s) = lease_core s" "lease_core (resume_restore who s) = lease_core s"
  "lease_core (reaper_swept s) = lease_core s" "lease_core (runOrphanSweep s) = lease_core s"
  "lease_core (restore_sweeps who s) = lease_core s" "lease_core (sweep_settles s) = lease_core s"
  by (simp_all add: lease_core_def lease_calls resume_restore_def sweep_settles_def split: caller.split)

lemma core_fields:
  "lease_core s = lease_core s' \<Longrightarrow> lm_store s = lm_store s' \<and> lm_disposed s = lm_disposed s'
     \<and> lm_durableAdmission s = lm_durableAdmission s' \<and> lm_failures s = lm_failures s' \<and> lm_successes s = lm_successes s'"
  by (simp add: lease_core_def)

lemmas core_get [simp] = core_sweeps(1-10) [THEN core_fields]

definition lease_inv :: "lease_mgr \<Rightarrow> bool" where
  "lease_inv s \<longleftrightarrow>
     (lm_durableAdmission s \<longrightarrow> lm_store s \<and> \<not> lm_disposed s \<and> lm_failures s < MAX_CONSECUTIVE_HEARTBEAT_FAILURES)
     \<and> (\<not> lm_store s \<longrightarrow> lm_startup s = None \<and> lm_tick s = No_tick)"

lemma no_store_pending:
  "\<not> lm_store s \<Longrightarrow> lm_startup s = None \<Longrightarrow> lm_tick s = No_tick \<Longrightarrow> restoring who s = None"
  by (cases who) (simp_all add: restoring_def)

lemma core_begins [simp]:
  "lease_core (restore_begins who s) = lease_core s" "lease_core (tick_begins env tm s) = lease_core s"
  by (simp_all add: restore_begins_def tick_begins_def Let_def) (simp_all add: lease_core_def lm_note_def)

lemmas core_get_begins [simp] = core_begins [THEN core_fields]

lemma restore_fails_core [simp]:
  "lm_store (restore_fails who e now s) = lm_store s" "lm_disposed (restore_fails who e now s) = lm_disposed s"
  "\<not> lm_durableAdmission (restore_fails who e now s)" "lm_failures (restore_fails who e now s) = lm_failures s"
  "lm_successes (restore_fails who e now s) = 0"
  by (simp_all add: restore_fails_def)

lemma tick_ok_core [simp]:
  "lm_store (tick_ok s) = lm_store s" "lm_disposed (tick_ok s) = lm_disposed s"
  "lm_durableAdmission (tick_ok s) = lm_durableAdmission s" "lm_failures (tick_ok s) = 0"
  by (simp_all add: tick_ok_def Let_def)

lemma tick_fails_core [simp]:
  "lm_store (tick_fails e now s) = lm_store s" "lm_disposed (tick_fails e now s) = lm_disposed s"
  "lm_durableAdmission (tick_fails e now s)
     \<longleftrightarrow> lm_durableAdmission s \<and> Suc (lm_failures s) < MAX_CONSECUTIVE_HEARTBEAT_FAILURES"
  "lm_failures (tick_fails e now s) = Suc (lm_failures s)" "lm_successes (tick_fails e now s) = 0"
  "lm_tick (tick_fails e now s) = No_tick"
  by (auto simp: tick_fails_def Let_def)

lemma reported_core [simp]:
  "lm_store (heartbeat_reported b s) = lm_store s" "lm_disposed (heartbeat_reported b s) = lm_disposed s"
  "lm_durableAdmission (heartbeat_reported b s) = lm_durableAdmission s"
  "lm_failures (heartbeat_reported b s) = (if \<not> lm_store s \<or> b then 0 else lm_failures s)"
  by (simp_all add: heartbeat_reported_def)

lemma heartbeat_ok_core [simp]:
  "lm_store (restore_heartbeat_ok who now s) = lm_store s"
  "lm_disposed (restore_heartbeat_ok who now s) = lm_disposed s"
  "lm_durableAdmission (restore_heartbeat_ok who now s) \<longleftrightarrow> \<not> lm_disposed s \<or> lm_durableAdmission s"
  "lm_failures (restore_heartbeat_ok who now s) = (if lm_disposed s then lm_failures s else 0)"
  "lm_successes (restore_heartbeat_ok who now s) = (if lm_disposed s then lm_successes s else 0)"
  by (simp_all add: restore_heartbeat_ok_def)

text \<open>What one event does to admission and to its two counters.\<close>

lemma event_core:
  assumes "lease_apply env e s = Some s'"
  shows "lm_store s' = lm_store s" "lm_disposed s \<Longrightarrow> lm_disposed s'"
    "lm_disposed s' \<longleftrightarrow> lm_disposed s \<or> e = Dispose"
    "lm_durableAdmission s' \<Longrightarrow> lm_durableAdmission s \<or> (\<exists>who now. e = Restore_heartbeat who (Returns ()) now
       \<and> restoring who s = Some R_heartbeat \<and> \<not> lm_disposed s)"
    "lm_durableAdmission s' \<Longrightarrow> e \<noteq> Dispose"
    "lm_durableAdmission s' \<Longrightarrow> lm_failures s < MAX_CONSECUTIVE_HEARTBEAT_FAILURES
       \<Longrightarrow> lm_failures s' < MAX_CONSECUTIVE_HEARTBEAT_FAILURES"
    "lm_durableAdmission s' \<Longrightarrow> \<not> lm_durableAdmission s \<Longrightarrow> lm_failures s' = 0"
  using assms
  by (cases e; auto simp: MAX_CONSECUTIVE_HEARTBEAT_FAILURES_def Let_def split: if_splits answer.splits list.splits sweep_phase.splits)+

lemma no_store_step:
  assumes "\<not> lm_store s" and "lm_startup s = None" and "lm_tick s = No_tick" and "lease_apply env e s = Some s'"
  shows "lm_startup s' = None \<and> lm_tick s' = No_tick"
  using assms no_store_pending [OF assms(1-3)]
  by (cases e) (auto simp: lease_calls sweep_settles_def resume_restore_def
      split: if_splits answer.splits list.splits sweep_phase.splits)

lemma lease_inv_step:
  assumes "lease_inv s" and "lease_step env s s'"
  shows "lease_inv s'"
proof -
  obtain e where e: "lease_apply env e s = Some s'" using assms(2) by (auto simp: lease_step_def)
  note ev = event_core [OF e]
  have pend: "\<not> lm_store s' \<longrightarrow> lm_startup s' = None \<and> lm_tick s' = No_tick"
    using assms(1) ev(1) no_store_step [OF _ _ _ e] by (auto simp: lease_inv_def)
  have "lm_store s' \<and> \<not> lm_disposed s' \<and> lm_failures s' < MAX_CONSECUTIVE_HEARTBEAT_FAILURES"
    if adm: "lm_durableAdmission s'"
  proof (cases "lm_durableAdmission s")
    case True
    then show ?thesis using assms(1) ev(1,3) ev(5,6) [OF adm] by (auto simp: lease_inv_def)
  next
    case False
    then obtain who where who: "restoring who s = Some R_heartbeat" "\<not> lm_disposed s" using ev(4) [OF adm] by blast
    then have "lm_store s" using assms(1) no_store_pending [of s who] by (auto simp: lease_inv_def)
    then show ?thesis using who(2) ev(1,3) ev(5) [OF adm] ev(7) [OF adm False]
      by (simp add: MAX_CONSECUTIVE_HEARTBEAT_FAILURES_def)
  qed
  with pend show ?thesis by (simp add: lease_inv_def)
qed

lemma lease_inv_init: "lease_ini s \<Longrightarrow> lease_inv s"
  by (auto simp: lease_ini_def lease_new_def lease_inv_def Let_def split: if_splits)

interpretation lease: inv_system lease_ini "lease_step env" lease_inv for env
  by unfold_locales (auto intro: lease_inv_init lease_inv_step)

text \<open>C14: admission is fail-closed. In every reachable state an instance that admits durable jobs has a
  store, is not disposed and has fewer than three consecutive heartbeat failures; and admission is only ever
  switched on by a heartbeat that succeeds right after a registration, on a manager not yet disposed.\<close>

theorem admission_fail_closed:
  assumes "reach lease_ini (lease_step env) s"
  shows "(assertDurableAdmission s = Inr () \<and> lm_store s \<longrightarrow>
        canAdmitDurableJobs s \<and> \<not> lm_disposed s \<and> lm_failures s < 3)
    \<and> (\<forall>e s'. lease_apply env e s = Some s' \<and> \<not> canAdmitDurableJobs s \<and> canAdmitDurableJobs s' \<longrightarrow>
         (\<exists>who now. e = Restore_heartbeat who (Returns ()) now \<and> restoring who s = Some R_heartbeat
            \<and> \<not> lm_disposed s \<and> lm_failures s' = 0))"
proof (intro conjI allI impI)
  note inv = lease.reach_inv [OF assms, unfolded lease_inv_def MAX_CONSECUTIVE_HEARTBEAT_FAILURES_def]
  show "canAdmitDurableJobs s" "\<not> lm_disposed s" "lm_failures s < 3"
    if "assertDurableAdmission s = Inr () \<and> lm_store s"
    using that inv by (auto simp: assertDurableAdmission_def canAdmitDurableJobs_def split: if_splits)
next
  fix e s'
  assume "lease_apply env e s = Some s' \<and> \<not> canAdmitDurableJobs s \<and> canAdmitDurableJobs s'"
  then show "\<exists>who now. e = Restore_heartbeat who (Returns ()) now \<and> restoring who s = Some R_heartbeat
      \<and> \<not> lm_disposed s \<and> lm_failures s' = 0"
    using event_core(1,4,7) [of env e s s'] by (auto simp: canAdmitDurableJobs_def)
qed

section \<open>Losing and recovering admission\<close>

definition run_events :: "lease_env \<Rightarrow> lease_event list \<Rightarrow> lease_mgr \<Rightarrow> lease_mgr option" where
  "run_events env es s = fold (\<lambda>e r. Option.bind r (lease_apply env e)) es (Some s)"

lemma run_nil [simp]: "run_events env [] s = Some s"
  by (simp add: run_events_def)

lemma fold_bind_None [simp]: "fold (\<lambda>e r. Option.bind r (f e)) es None = None"
  by (induction es) simp_all

lemma run_cons [simp]:
  "run_events env (e # es) s = (case lease_apply env e s of None \<Rightarrow> None | Some s1 \<Rightarrow> run_events env es s1)"
  by (simp add: run_events_def split: option.split)

lemma run_append:
  "run_events env (es @ es') s = (case run_events env es s of None \<Rightarrow> None | Some s1 \<Rightarrow> run_events env es' s1)"
  by (induction es arbitrary: s) (simp_all split: option.split)

text \<open>Whole heartbeats, as the clock and the store make them: the tick and its answer.\<close>

fun failed_beats :: "(time \<times> string \<times> time) list \<Rightarrow> lease_event list" where
  "failed_beats [] = []"
| "failed_beats ((tm, e, now) # bs) = Tick tm # Tick_heartbeat (Raises e) now # failed_beats bs"

fun good_beats :: "(time \<times> time) list \<Rightarrow> lease_event list" where
  "good_beats [] = []"
| "good_beats ((tm, now) # bs) = Tick tm # Tick_heartbeat (Returns True) now # good_beats bs"

definition idle :: "lease_mgr \<Rightarrow> bool" where
  "idle s \<longleftrightarrow> lm_store s \<and> \<not> lm_disposed s \<and> lm_tick s = No_tick"

lemma begun_tick: "idle s \<Longrightarrow> lm_tick (tick_begins env tm s) = T_heartbeat"
  by (simp add: idle_def tick_begins_def Let_def)

lemma failed_beat:
  "idle s \<Longrightarrow> \<exists>s'. run_events env (failed_beats [b]) s = Some s' \<and> idle s'
     \<and> lm_failures s' = Suc (lm_failures s) \<and> lm_successes s' = 0
     \<and> (lm_durableAdmission s' \<longleftrightarrow> lm_durableAdmission s \<and> Suc (lm_failures s) < MAX_CONSECUTIVE_HEARTBEAT_FAILURES)"
  using begun_tick [of s env "fst b"] by (cases b) (simp add: idle_def)

lemma failed_beats_split: "failed_beats (b # bs) = failed_beats [b] @ failed_beats bs"
  by (cases b) simp

lemma failed_run:
  "idle s \<Longrightarrow> \<exists>s'. run_events env (failed_beats bs) s = Some s' \<and> idle s' \<and> lm_failures s' = lm_failures s + length bs
     \<and> (lm_durableAdmission s' \<longleftrightarrow> lm_durableAdmission s \<and> (bs = [] \<or> lm_failures s + length bs < MAX_CONSECUTIVE_HEARTBEAT_FAILURES))"
proof (induction bs arbitrary: s)
  case (Cons b bs)
  obtain s1 where s1: "run_events env (failed_beats [b]) s = Some s1" "idle s1" "lm_failures s1 = Suc (lm_failures s)"
    "lm_durableAdmission s1 \<longleftrightarrow> lm_durableAdmission s \<and> Suc (lm_failures s) < MAX_CONSECUTIVE_HEARTBEAT_FAILURES"
    using failed_beat [OF Cons(2)] by blast
  show ?case
    unfolding failed_beats_split [of b bs] run_append s1(1) option.case
    using Cons(1) [OF s1(2)] s1(3,4) by auto
qed simp

lemma good_beat:
  assumes "idle s" and "\<not> lm_durableAdmission s"
  shows "\<exists>s'. run_events env (good_beats [b]) s = Some s' \<and> \<not> lm_durableAdmission s' \<and> lm_failures s' = 0
     \<and> lm_store s' \<and> \<not> lm_disposed s' \<and> lm_successes s' = Suc (lm_successes s)
     \<and> lm_tick s' = (if Suc (lm_successes s) < MIN_CONSECUTIVE_HEARTBEAT_SUCCESSES_TO_RECOVER then No_tick
                     else T_restore R_register)"
  using assms begun_tick [OF assms(1), of env "fst b"]
  by (cases b) (simp add: idle_def heartbeat_reported_def tick_ok_def Let_def restore_begins_def put_restore_def
      lm_note_def)

lemma good_beats_split: "good_beats (b # bs) = good_beats [b] @ good_beats bs"
  by (cases b) simp

lemma good_run:
  assumes "idle s" and "\<not> lm_durableAdmission s"
    and "lm_successes s + length bs < MIN_CONSECUTIVE_HEARTBEAT_SUCCESSES_TO_RECOVER"
  shows "\<exists>s'. run_events env (good_beats bs) s = Some s' \<and> idle s' \<and> \<not> lm_durableAdmission s'
     \<and> lm_successes s' = lm_successes s + length bs"
  using assms
proof (induction bs arbitrary: s)
  case (Cons b bs)
  obtain s1 where s1: "run_events env (good_beats [b]) s = Some s1" "\<not> lm_durableAdmission s1" "idle s1"
    "lm_successes s1 = Suc (lm_successes s)"
    using good_beat [OF Cons(2,3), of env b] Cons(4) by (auto simp: idle_def)
  show ?case
    unfolding good_beats_split [of b bs] run_append s1(1) option.case
    using Cons(1) [OF s1(3,2)] Cons(4) s1(4) by auto
qed simp

lemma restored:
  assumes "lm_store s" and "\<not> lm_disposed s" and "lm_tick s = T_restore R_register"
  shows "\<exists>s'. run_events env [Restore_registered By_tick (Returns ()) n1, Restore_heartbeat By_tick (Returns ()) n2] s
      = Some s' \<and> lm_durableAdmission s' \<and> lm_failures s' = 0 \<and> lm_successes s' = 0"
  using assms by (simp add: restoring_def lm_note_def put_restore_def)

text \<open>C15: losing and recovering admission. On a live instance with no tick under way, an admitting
  instance with no failure counted keeps admission through exactly two failed heartbeats in a row and loses
  it with the third; one that lost it stays closed through two good heartbeats in a row, and the third,
  if its registration and heartbeat are answered, restores it with both counters at zero.\<close>

theorem heartbeat_hysteresis:
  assumes "lm_store s" and "\<not> lm_disposed s" and "lm_tick s = No_tick"
  shows "(lm_durableAdmission s \<and> lm_failures s = 0 \<longrightarrow>
      (\<exists>s'. run_events env (failed_beats bs) s = Some s' \<and> (canAdmitDurableJobs s' \<longleftrightarrow> length bs < 3)))
    \<and> (\<not> lm_durableAdmission s \<and> lm_successes s = 0 \<longrightarrow>
      (length gs < 3 \<longrightarrow> (\<exists>s'. run_events env (good_beats gs) s = Some s' \<and> \<not> canAdmitDurableJobs s'))
      \<and> (length gs = 3 \<longrightarrow> (\<exists>s'. run_events env (good_beats gs @
            [Restore_registered By_tick (Returns ()) n1, Restore_heartbeat By_tick (Returns ()) n2]) s = Some s'
            \<and> canAdmitDurableJobs s' \<and> lm_failures s' = 0 \<and> lm_successes s' = 0)))"
proof -
  have idle: "idle s" using assms by (simp add: idle_def)
  show ?thesis
  proof (intro impI conjI, goal_cases)
    case 1
    then show ?case using failed_run [OF idle, of env bs]
      by (auto simp: canAdmitDurableJobs_def idle_def MAX_CONSECUTIVE_HEARTBEAT_FAILURES_def)
  next
    case 2
    then show ?case using good_run [OF idle, of gs env]
      by (auto simp: canAdmitDurableJobs_def MIN_CONSECUTIVE_HEARTBEAT_SUCCESSES_TO_RECOVER_def)
  next
    case 3
    then obtain g hs where gs: "gs = hs @ [g]" "length hs = 2"
      by (cases gs rule: rev_cases) simp_all
    have cat: "good_beats (hs @ [g]) = good_beats hs @ good_beats [g]" for hs g
      by (induction hs rule: good_beats.induct) (cases g, simp_all)
    obtain s1 where s1: "run_events env (good_beats hs) s = Some s1" "idle s1" "\<not> lm_durableAdmission s1"
        "lm_successes s1 = 2"
      using good_run [OF idle, of hs env] 3 gs(2)
      by (auto simp: MIN_CONSECUTIVE_HEARTBEAT_SUCCESSES_TO_RECOVER_def)
    obtain s2 where s2: "run_events env (good_beats [g]) s1 = Some s2" "lm_store s2" "\<not> lm_disposed s2"
        "lm_tick s2 = T_restore R_register"
      using good_beat [OF s1(2,3), of env g] s1(4)
      by (auto simp: MIN_CONSECUTIVE_HEARTBEAT_SUCCESSES_TO_RECOVER_def)
    obtain s3 where s3: "run_events env
        [Restore_registered By_tick (Returns ()) n1, Restore_heartbeat By_tick (Returns ()) n2] s2 = Some s3"
        "lm_durableAdmission s3 \<and> lm_failures s3 = 0 \<and> lm_successes s3 = 0"
      using restored [OF s2(2-4), of env n1 n2] by blast
    have "lm_store s3 = lm_store s2"
      using s3(1) event_core(1) by (auto simp del: lease_apply.simps split: option.splits)
    then show ?case
      unfolding gs(1) cat append_assoc run_append s1(1) s2(1) s3(1) option.case
      using s3(2) s2(2) by (simp add: canAdmitDurableJobs_def)
  qed
qed

definition demo_env :: lease_env where
  "demo_env = \<lparr>le_hostname = ''h'', le_heartbeatMs = 10, le_kill = (\<lambda>pid. if pid = 7 then Delivered else Esrch)\<rparr>"

text \<open>An instance just started, registered and admitting, whose startup sweep found nothing.\<close>

definition demo_start :: "lease_event list" where
  "demo_start = [Restore_registered At_startup (Returns ()) 1, Restore_heartbeat At_startup (Returns ()) 2,
     Sweep_selected (Returns []), Sweep_recovered (Returns []), Restore_reconciled At_startup (Returns ()) 3]"

lemma demo_admits:
  "map_option (\<lambda>s. (lm_store s, lm_disposed s, lm_tick s, lm_durableAdmission s, lm_failures s, lm_successes s,
     lm_calls s)) (run_events demo_env demo_start (lease_new True 0))
   = Some (True, False, No_tick, True, 0, 0, [C_register, C_heartbeat, C_select, C_recover [], C_reconcile])"
  by code_simp

definition demo_closed :: "lease_event list" where
  "demo_closed = failed_beats [(10, ''E'', 11), (20, ''E'', 21), (30, ''E'', 31)]"

lemma demo_closes:
  "map_option (\<lambda>s. (lm_store s, lm_disposed s, lm_tick s, lm_durableAdmission s, lm_failures s, lm_successes s))
     (run_events demo_env (demo_start @ demo_closed) (lease_new True 0))
   = Some (True, False, No_tick, False, 3, 0)"
  by code_simp

lemma run_reach:
  "run_events env es s = Some s' \<Longrightarrow> reach lease_ini (lease_step env) s \<Longrightarrow> reach lease_ini (lease_step env) s'"
proof (induction es arbitrary: s)
  case (Cons e es)
  obtain s1 where s1: "lease_apply env e s = Some s1" "run_events env es s1 = Some s'"
    using Cons(2) by (auto simp del: lease_apply.simps split: option.splits)
  have "lease_step env s s1" using s1(1) by (auto simp: lease_step_def)
  with Cons(3) have "reach lease_ini (lease_step env) s1" by (rule reach_step)
  with s1(2) show ?case by (rule Cons(1))
qed simp

theorem admission_fail_closed_witness:
  "\<exists>s. run_events demo_env demo_start (lease_new True 0) = Some s \<and> canAdmitDurableJobs s \<and> lm_failures s < 3"
proof -
  obtain s where s: "run_events demo_env demo_start (lease_new True 0) = Some s" "lm_store s" "\<not> lm_disposed s"
      "lm_durableAdmission s"
    using demo_admits by auto
  have "reach lease_ini (lease_step demo_env) (lease_new True 0)"
    by (rule reach_init) (auto simp: lease_ini_def)
  then have "reach lease_ini (lease_step demo_env) s" using s(1) by (rule run_reach [rotated])
  from admission_fail_closed [OF this] s show ?thesis by (auto simp: assertDurableAdmission_def)
qed

theorem heartbeat_hysteresis_witness:
  "(\<exists>s s'. run_events demo_env demo_start (lease_new True 0) = Some s
      \<and> run_events demo_env demo_closed s = Some s' \<and> \<not> canAdmitDurableJobs s')
   \<and> (\<exists>s s'. run_events demo_env (demo_start @ demo_closed) (lease_new True 0) = Some s
      \<and> run_events demo_env (good_beats [(40, 41), (50, 51), (60, 61)] @
          [Restore_registered By_tick (Returns ()) 62, Restore_heartbeat By_tick (Returns ()) 63]) s = Some s'
      \<and> canAdmitDurableJobs s')"
proof
  obtain s where s: "run_events demo_env demo_start (lease_new True 0) = Some s" "lm_store s" "\<not> lm_disposed s"
      "lm_tick s = No_tick" "lm_durableAdmission s" "lm_failures s = 0"
    using demo_admits by auto
  show "\<exists>s s'. run_events demo_env demo_start (lease_new True 0) = Some s
      \<and> run_events demo_env demo_closed s = Some s' \<and> \<not> canAdmitDurableJobs s'"
    using heartbeat_hysteresis [OF s(2-4), where bs = "[(10, ''E'', 11), (20, ''E'', 21), (30, ''E'', 31)]" and env = demo_env]
      s unfolding demo_closed_def by auto
next
  obtain s where s: "run_events demo_env (demo_start @ demo_closed) (lease_new True 0) = Some s" "lm_store s"
      "\<not> lm_disposed s" "lm_tick s = No_tick" "\<not> lm_durableAdmission s" "lm_successes s = 0"
    using demo_closes by auto
  show "\<exists>s s'. run_events demo_env (demo_start @ demo_closed) (lease_new True 0) = Some s
      \<and> run_events demo_env (good_beats [(40, 41), (50, 51), (60, 61)] @
          [Restore_registered By_tick (Returns ()) 62, Restore_heartbeat By_tick (Returns ()) 63]) s = Some s'
      \<and> canAdmitDurableJobs s'"
    using heartbeat_hysteresis [OF s(2-4), where gs = "[(40, 41), (50, 51), (60, 61)]" and env = demo_env
        and ?n1.0 = 62 and ?n2.0 = 63] s by fastforce
qed

section \<open>After disposal\<close>

text \<open>The calls a disposed manager can still make: answers in flight go on as far as these.\<close>

definition late_call :: "lease_mgr \<Rightarrow> store_call \<Rightarrow> bool" where
  "late_call s c \<longleftrightarrow> c = C_heartbeat \<or> (\<exists>k. c = C_follow k) \<or> (c = C_register \<and> lm_tick s = T_heartbeat)"

lemma disposed_event:
  assumes "lease_apply env e s = Some s'" and "lm_disposed s"
  shows "(\<exists>cs. lm_calls s' = lm_calls s @ cs \<and> (\<forall>c\<in>set cs. late_call s c))
    \<and> (lm_tick s' = T_heartbeat \<longrightarrow> lm_tick s = T_heartbeat)"
  using assms
  by (cases e) (auto simp: lease_calls sweep_settles_def resume_restore_def late_call_def
      split: if_splits answer.splits list.splits sweep_phase.splits caller.splits)

lemma disposed_run:
  assumes "(lease_step env)\<^sup>*\<^sup>* s s'" and "lm_disposed s"
  shows "lm_disposed s' \<and> (\<exists>cs. lm_calls s' = lm_calls s @ cs \<and> (\<forall>c\<in>set cs. late_call s c))
    \<and> (lm_tick s' = T_heartbeat \<longrightarrow> lm_tick s = T_heartbeat)"
  using assms
proof (induction rule: rtranclp_induct)
  case (step s1 s2)
  then obtain e where e: "lease_apply env e s1 = Some s2" by (auto simp: lease_step_def)
  from step obtain cs where cs: "lm_disposed s1" "lm_calls s1 = lm_calls s @ cs" "\<forall>c\<in>set cs. late_call s c"
    "lm_tick s1 = T_heartbeat \<longrightarrow> lm_tick s = T_heartbeat" by blast
  obtain ds where ds: "lm_calls s2 = lm_calls s1 @ ds" "\<forall>c\<in>set ds. late_call s1 c"
    "lm_tick s2 = T_heartbeat \<longrightarrow> lm_tick s1 = T_heartbeat"
    using disposed_event [OF e cs(1)] by blast
  have "\<forall>c\<in>set ds. late_call s c" using ds(2) cs(4) by (auto simp: late_call_def)
  then have "\<forall>c\<in>set (cs @ ds). late_call s c" using cs(3) by auto
  moreover have "lm_calls s2 = lm_calls s @ cs @ ds" using cs(2) ds(1) by simp
  ultimately show ?case using event_core(2) [OF e] cs(1,4) ds(3) by blast
qed auto

text \<open>A disposed manager is quiet. Once disposed it never admits again, whatever answers still arrive,
  and it starts no sweep, no recovery, no reconciliation and no collection; what it can still ask of the
  store is the heartbeat of a restoration in flight, the follow-up of jobs already recovered, and, only if a
  heartbeat was in flight at the disposal, the registration that a missing instance row provokes.\<close>

theorem disposed_manager_quiet:
  assumes "reach lease_ini (lease_step env) s" and "lm_disposed s" and "(lease_step env)\<^sup>*\<^sup>* s s'"
  shows "assertDurableAdmission s' = Inl Shutting_down \<and> \<not> canAdmitDurableJobs s'
    \<and> (\<exists>cs. lm_calls s' = lm_calls s @ cs
         \<and> (\<forall>c\<in>set cs. c = C_heartbeat \<or> (\<exists>k. c = C_follow k) \<or> (c = C_register \<and> lm_tick s = T_heartbeat)))"
proof -
  have "lease_inv s'" using lease.steps_inv [OF assms(3)] lease.reach_inv [OF assms(1)] by blast
  with disposed_run [OF assms(3,2)] show ?thesis
    by (auto simp: lease_inv_def assertDurableAdmission_def canAdmitDurableJobs_def late_call_def)
qed

text \<open>A heartbeat that was in flight at the disposal and finds its row deregistered registers it again.\<close>

theorem disposed_manager_quiet_witness:
  "\<exists>s s'. run_events demo_env (demo_start @ [Tick 10, Dispose]) (lease_new True 0) = Some s
     \<and> run_events demo_env [Tick_heartbeat (Returns False) 12] s = Some s'
     \<and> C_register \<in> set (drop (length (lm_calls s)) (lm_calls s')) \<and> assertDurableAdmission s' = Inl Shutting_down"
proof -
  have "map_option (\<lambda>s. (lm_disposed s, lm_tick s, lm_store s))
      (run_events demo_env (demo_start @ [Tick 10, Dispose]) (lease_new True 0)) = Some (True, T_heartbeat, True)"
    by code_simp
  then obtain s where s: "run_events demo_env (demo_start @ [Tick 10, Dispose]) (lease_new True 0) = Some s"
      "lm_disposed s" "lm_tick s = T_heartbeat" "lm_store s"
    by auto
  have r: "reach lease_ini (lease_step demo_env) s"
    by (rule run_reach [OF s(1)], rule reach_init) (auto simp: lease_ini_def)
  obtain s' where s': "lease_apply demo_env (Tick_heartbeat (Returns False) 12) s = Some s'"
      "lm_calls s' = lm_calls s @ [C_register]"
    using s by (simp add: heartbeat_reported_def lm_note_def)
  have "lease_step demo_env s s'" unfolding lease_step_def using s'(1) by (rule exI)
  then have "(lease_step demo_env)\<^sup>*\<^sup>* s s'" by (rule r_into_rtranclp)
  from disposed_manager_quiet [OF r s(2) this] s(1) s' show ?thesis by auto
qed

end
