(* ===== verification/Child_Stdin.thy ===== *)
theory Child_Stdin
  imports Text
begin

text \<open>
  The delivery of a request over a child's standard input: src/src/child-stdin.ts, whole. A delivery is the
  three variables of writeAndCloseChildStdin with the calls of onError that it made, and whether its
  listeners are still attached. The events are the write's callback, a failure raised by write or end, an
  error event and the close of the stream, and the owner's cleanup.
\<close>

section \<open>Errors\<close>

text \<open>A native failure: its code and whatever else it carries.\<close>

record native_error =
  ne_code :: "string option"
  ne_message :: jstext

datatype delivery_error = ChildStdinIncompleteError | ChildStdinWriteFailedError

definition CHILD_STDIN_INCOMPLETE_CODE :: string where
  "CHILD_STDIN_INCOMPLETE_CODE = ''ERR_CHILD_STDIN_INCOMPLETE''"

definition CHILD_STDIN_WRITE_FAILED_CODE :: string where
  "CHILD_STDIN_WRITE_FAILED_CODE = ''ERR_CHILD_STDIN_WRITE_FAILED''"

definition CHILD_STDIN_INCOMPLETE_EXIT_CODE :: int where
  "CHILD_STDIN_INCOMPLETE_EXIT_CODE = 126"

definition CHILD_STDIN_INCOMPLETE_MESSAGE :: jstext where
  "CHILD_STDIN_INCOMPLETE_MESSAGE = lit ''Provider stdin closed before the complete request payload was delivered''"

definition CHILD_STDIN_WRITE_FAILED_MESSAGE :: jstext where
  "CHILD_STDIN_WRITE_FAILED_MESSAGE = lit ''Provider stdin failed before the complete request payload was delivered''"

fun delivery_code :: "delivery_error \<Rightarrow> string" where
  "delivery_code ChildStdinIncompleteError = CHILD_STDIN_INCOMPLETE_CODE"
| "delivery_code ChildStdinWriteFailedError = CHILD_STDIN_WRITE_FAILED_CODE"

fun delivery_message :: "delivery_error \<Rightarrow> jstext" where
  "delivery_message ChildStdinIncompleteError = CHILD_STDIN_INCOMPLETE_MESSAGE"
| "delivery_message ChildStdinWriteFailedError = CHILD_STDIN_WRITE_FAILED_MESSAGE"

definition isBenignChildStdinClosureError :: "native_error \<Rightarrow> bool" where
  "isBenignChildStdinClosureError e \<longleftrightarrow>
     ne_code e \<in> {Some ''EPIPE'', Some ''ERR_STREAM_DESTROYED'', Some ''ECONNRESET''}"

definition normalizeChildStdinDeliveryError :: "native_error \<Rightarrow> delivery_error" where
  "normalizeChildStdinDeliveryError e =
     (if ne_code e = Some CHILD_STDIN_INCOMPLETE_CODE \<or> isBenignChildStdinClosureError e
      then ChildStdinIncompleteError else ChildStdinWriteFailedError)"

text \<open>A delivery error passed on as an error of its own.\<close>

definition as_native :: "delivery_error \<Rightarrow> native_error" where
  "as_native d = \<lparr>ne_code = Some (delivery_code d), ne_message = delivery_message d\<rparr>"

section \<open>The delivery\<close>

datatype delivery_state = Pending | Succeeded | Failed

record delivery =
  cd_cleaned :: bool
  cd_reported :: bool
  cd_state :: delivery_state
  cd_onError :: "delivery_error list"

definition new_delivery :: delivery where
  "new_delivery = \<lparr>cd_cleaned = False, cd_reported = False, cd_state = Pending, cd_onError = []\<rparr>"

definition isChildStdinDeliveryIncomplete :: "delivery option \<Rightarrow> bool" where
  "isChildStdinDeliveryIncomplete d = (case d of None \<Rightarrow> False | Some s \<Rightarrow> cd_state s \<noteq> Succeeded)"

definition delivery_cleanup :: "delivery \<Rightarrow> delivery" where
  "delivery_cleanup d = (if cd_cleaned d then d else d\<lparr>cd_cleaned := True\<rparr>)"

definition handleError :: "native_error \<Rightarrow> delivery \<Rightarrow> delivery" where
  "handleError e d =
     (let d1 = d\<lparr>cd_state := Failed\<rparr> in
      if cd_reported d1 then d1
      else d1\<lparr>cd_reported := True, cd_onError := cd_onError d1 @ [normalizeChildStdinDeliveryError e]\<rparr>)"

datatype stdin_event =
    Written
  | Write_failed native_error
  | Raised_error native_error
  | Stream_error native_error
  | Stream_closed
  | Owner_cleanup

text \<open>An error event after the listeners are gone does not reach the delivery.\<close>

fun stdin_step :: "stdin_event \<Rightarrow> delivery \<Rightarrow> delivery" where
  "stdin_step Written d = (if cd_state d = Pending then d\<lparr>cd_state := Succeeded\<rparr> else d)"
| "stdin_step (Write_failed e) d = handleError e d"
| "stdin_step (Raised_error e) d = handleError (as_native (normalizeChildStdinDeliveryError e)) d"
| "stdin_step (Stream_error e) d = (if cd_cleaned d then d else handleError e d)"
| "stdin_step Stream_closed d = delivery_cleanup d"
| "stdin_step Owner_cleanup d = delivery_cleanup d"

definition writeAndCloseChildStdin :: "stdin_event list \<Rightarrow> delivery" where
  "writeAndCloseChildStdin es = fold stdin_step es new_delivery"

section \<open>What a delivery ends as\<close>

text \<open>The failures that reach the delivery, in order; detached tells whether the listeners are gone.\<close>

fun failures :: "bool \<Rightarrow> stdin_event list \<Rightarrow> delivery_error list" where
  "failures detached [] = []"
| "failures detached (Write_failed e # es) = normalizeChildStdinDeliveryError e # failures detached es"
| "failures detached (Raised_error e # es) = normalizeChildStdinDeliveryError e # failures detached es"
| "failures detached (Stream_error e # es) =
     (if detached then failures detached es else normalizeChildStdinDeliveryError e # failures detached es)"
| "failures detached (Written # es) = failures detached es"
| "failures detached (Stream_closed # es) = failures True es"
| "failures detached (Owner_cleanup # es) = failures True es"

lemma normalize_twice [simp]:
  "normalizeChildStdinDeliveryError (as_native (normalizeChildStdinDeliveryError e)) = normalizeChildStdinDeliveryError e"
  by (simp add: normalizeChildStdinDeliveryError_def as_native_def isBenignChildStdinClosureError_def
      CHILD_STDIN_INCOMPLETE_CODE_def CHILD_STDIN_WRITE_FAILED_CODE_def)

text \<open>The three ways a delivery goes on.\<close>

lemma failed_goes_on:
  "cd_reported d \<Longrightarrow> cd_state d = Failed
     \<Longrightarrow> cd_state (fold stdin_step es d) = Failed \<and> cd_onError (fold stdin_step es d) = cd_onError d"
proof (induction es arbitrary: d)
  case (Cons x es)
  then show ?case by (cases x) (auto simp: handleError_def Let_def delivery_cleanup_def)
qed simp

lemma handled:
  "\<not> cd_reported d \<Longrightarrow> cd_reported (handleError e d) \<and> cd_state (handleError e d) = Failed
     \<and> cd_onError (handleError e d) = cd_onError d @ [normalizeChildStdinDeliveryError e]"
  by (simp add: handleError_def Let_def)

lemma delivery_run:
  assumes "\<not> cd_reported d" and "cd_state d \<noteq> Failed" and "cd_onError d = []"
  shows "cd_onError (fold stdin_step es d) = take 1 (failures (cd_cleaned d) es)
    \<and> cd_state (fold stdin_step es d)
      = (if failures (cd_cleaned d) es \<noteq> [] then Failed
         else if cd_state d = Succeeded \<or> Written \<in> set es then Succeeded else Pending)"
  using assms
proof (induction es arbitrary: d)
  case Nil
  then show ?case by (cases "cd_state d") auto
next
  case (Cons x es)
  have done_: "cd_state (fold stdin_step es (handleError e d)) = Failed
      \<and> cd_onError (fold stdin_step es (handleError e d)) = [normalizeChildStdinDeliveryError e]" for e
    using failed_goes_on [of "handleError e d" es] handled [OF Cons.prems(1), of e] Cons.prems(3) by simp
  show ?case
  proof (cases x)
    case Written
    have "cd_state (stdin_step Written d) = Succeeded" using Cons.prems(2) by (cases "cd_state d") auto
    with Cons.IH [of "stdin_step Written d"] Cons.prems Written show ?thesis by (auto split: if_splits)
  next
    case (Stream_error e)
    then show ?thesis using done_ Cons.IH [OF Cons.prems] by auto
  next
    case Stream_closed
    then show ?thesis using Cons.IH [of "delivery_cleanup d"] Cons.prems by (auto simp: delivery_cleanup_def split: if_splits)
  next
    case Owner_cleanup
    then show ?thesis using Cons.IH [of "delivery_cleanup d"] Cons.prems by (auto simp: delivery_cleanup_def split: if_splits)
  qed (use done_ in \<open>auto simp: done_ [where e = "as_native _", simplified]\<close>)
qed

text \<open>C32: what a delivery ends as. Over any order of write callbacks, raised failures, stream errors and
  cleanups, the owner is told of at most one failure, the first that reaches the delivery, and only as one of
  two fixed diagnostics, so nothing native crosses; the delivery counts as complete exactly when the write
  was acknowledged and no failure reached it, before or after.\<close>

theorem stdin_delivery_exact:
  "cd_onError (writeAndCloseChildStdin es) = take 1 (failures False es)
   \<and> isChildStdinDeliveryIncomplete (Some (writeAndCloseChildStdin es)) = (\<not> (failures False es = [] \<and> Written \<in> set es))"
  using delivery_run [of new_delivery es]
  by (auto simp: writeAndCloseChildStdin_def new_delivery_def isChildStdinDeliveryIncomplete_def)

end
