(* ===== verification/Job_Supervisor.thy ===== *)
theory Job_Supervisor
  imports Job_Store Child_Stdin
begin

text \<open>
  The life of one process job inside AsyncJobManager of src/src/async-job-manager.ts, from the grant of
  its run slot to its last terminal write: launching, output, cancellation, idle and overflow kills, the
  child's error and close events, the terminal writes to the store and the flight recorder, their retries,
  the terminal hook, the artifact cleanup and the shutdown.

  Every method is the runs between its awaits. The record sup holds the job, the chain of its terminal
  writes with what the head of the chain waits for, its queued output writes and the continuations that
  have become runnable; an event is a timer, a signal, an answer of the store, or the choice of the next
  continuation. What the manager writes, signals and calls is noted in order. Left out: logging, progress
  writes, the capture's contents, the process group calls, and jobs with an MCP artifact.
\<close>

declare nat_text.simps [simp del]

section \<open>The job and its supervisor\<close>

record job =
  jb_cli :: provider
  jb_status :: job_status
  jb_finishedAt :: "time option"
  jb_exitCode :: "int option"
  jb_stdout :: jstext
  jb_stderr :: jstext
  jb_outputTruncated :: bool
  jb_outputDroppedBytes :: nat
  jb_canceled :: bool
  jb_error :: "jstext option"
  jb_errorCategory :: "string option"
  jb_retryable :: "bool option"
  jb_process :: "nat option option"
  jb_exited :: bool
  jb_closeObserved :: bool
  jb_terminationRequested :: bool
  jb_stdinIncomplete :: bool
  jb_stdinFailed :: bool
  jb_metricsRecorded :: bool
  jb_kit :: bool
  jb_kitTerminalFinalized :: bool
  jb_acknowledged :: bool
  jb_retryTimer :: bool
  jb_retryDelayMs :: "int option"
  jb_permit :: bool
  jb_hasHook :: bool
  jb_hookFired :: bool
  jb_hookOutcome :: "bool option"
  jb_hasCleanup :: bool
  jb_cleanupFired :: bool
  jb_outputDirty :: bool
  jb_rowLost :: bool
  jb_lastFlushAt :: time
  jb_terminalPersisted :: bool
  jb_terminalRowOwned :: bool
  jb_capturePersisted :: bool
  jb_flightEntry :: bool
  jb_flightArmed :: bool
  jb_flightComplete :: bool

datatype flight_status = Flight_completed | Flight_failed

text \<open>What follows persistComplete in its caller.\<close>

datatype after = After_failed "jstext option" | After_status | After_retry

datatype chain_item = Persist after | Flight flight_status "jstext option"

text \<open>What the head of the chain waits for.\<close>

datatype write_phase = W_idle | W_progress | W_late | W_capture | W_complete bool | W_reconcile | W_flight

datatype continuation =
    K_persisted after bool
  | K_mark "bool option"
  | K_promise
  | K_cleanup bool
  | K_flush

datatype effect =
    Permit_released
  | Hook_fired
  | Cleanup_fired
  | Metrics bool
  | Terminate_group
  | Spawned
  | Mark_running
  | Write_output jstext jstext bool "job_status list"
  | Write_complete job_status "int option" jstext jstext "jstext option"
  | Write_capture
  | Write_flight flight_status
  | Write_finalized

datatype grant_phase = G_waiting | G_held | G_done
datatype launch_phase = Not_launched | Starting | Marking | Wired | Launch_over

record sup =
  sv_job :: job
  sv_disposed :: bool
  sv_grant :: grant_phase
  sv_launch :: launch_phase
  sv_chain :: "chain_item list"
  sv_phase :: write_phase
  sv_conts :: "continuation list"
  sv_flushes :: "(jstext \<times> jstext \<times> bool) list"
  sv_flushing :: bool
  sv_closeHandled :: bool
  sv_log :: "effect list"

text \<open>The environment: whether a store is attached, the output cap and the idle limit of the request.\<close>

record sup_env =
  se_store :: bool
  se_maxOutput :: nat
  se_idleMs :: nat

definition on_job :: "(job \<Rightarrow> job) \<Rightarrow> sup \<Rightarrow> sup" where
  "on_job f s = s\<lparr>sv_job := f (sv_job s)\<rparr>"

definition note_effect :: "effect \<Rightarrow> sup \<Rightarrow> sup" where
  "note_effect x s = s\<lparr>sv_log := sv_log s @ [x]\<rparr>"

definition push_cont :: "continuation \<Rightarrow> sup \<Rightarrow> sup" where
  "push_cont k s = s\<lparr>sv_conts := sv_conts s @ [k]\<rparr>"

definition push_chain :: "chain_item \<Rightarrow> sup \<Rightarrow> sup" where
  "push_chain i s = s\<lparr>sv_chain := sv_chain s @ [i]\<rparr>"

definition isAsyncJobInProgress :: "job_status \<Rightarrow> bool" where
  "isAsyncJobInProgress st \<longleftrightarrow> st = SQueued \<or> st = SRunning"

definition PERSONAL_KIT_FAILURE_WITHHELD :: jstext where
  "PERSONAL_KIT_FAILURE_WITHHELD =
     lit ''Personal Agent Config Kit provider execution failed; detailed output is withheld''"

definition OUTPUT_FLUSH_INTERVAL_MS :: int where
  "OUTPUT_FLUSH_INTERVAL_MS = 1000"

definition formatByteCap :: "nat \<Rightarrow> string" where
  "formatByteCap n =
     (if n > 0 \<and> n mod (1024 * 1024) = 0 then nat_text (n div (1024 * 1024)) @ ''MB''
      else if n > 0 \<and> n mod 1024 = 0 then nat_text (n div 1024) @ ''KB''
      else nat_text n @ '' bytes'')"

text \<open>Joining a message to the captured standard error.\<close>

definition join_stderr :: "jstext \<Rightarrow> jstext \<Rightarrow> jstext" where
  "join_stderr err m = (if err = [] then m else err @ [10] @ m)"

section \<open>Launch errors\<close>

text \<open>What a launch raises: a rejected input with its own text, a missing command, or anything else.\<close>

datatype launch_exception = Input_rejected jstext string bool | Enoent jstext | Launch_failed jstext

record launch_error =
  lx_exitCode :: int
  lx_message :: jstext
  lx_errorCategory :: "string option"
  lx_retryable :: "bool option"

definition missing_command :: "provider \<Rightarrow> jstext" where
  "missing_command cli = lit (''The '' @ [CHR 0x27] @ cli @ [CHR 0x27] @ '' command was not found. Install the ''
     @ cli @ '' CLI and make sure it is on PATH.'')"

fun describeProcessLaunchError :: "provider \<Rightarrow> launch_exception \<Rightarrow> launch_error" where
  "describeProcessLaunchError cli (Input_rejected m c r) =
     \<lparr>lx_exitCode = 126, lx_message = m, lx_errorCategory = Some c, lx_retryable = Some r\<rparr>"
| "describeProcessLaunchError cli (Enoent m) =
     \<lparr>lx_exitCode = 127,
      lx_message = missing_command cli @ lit '' ('' @ m @ lit '')'',
      lx_errorCategory = None, lx_retryable = None\<rparr>"
| "describeProcessLaunchError cli (Launch_failed m) =
     \<lparr>lx_exitCode = 126, lx_message = lit (''Failed to launch '' @ cli @ '' CLI: '') @ m,
      lx_errorCategory = None, lx_retryable = None\<rparr>"

text \<open>A Windows launch failure that shows only as an exit code.\<close>

definition describeWindowsLaunchExit :: "provider \<Rightarrow> int \<Rightarrow> (int \<times> jstext) option" where
  "describeWindowsLaunchExit cli code = (if code \<noteq> - 4058 then None else Some (127, missing_command cli))"

text \<open>A launch error gives way to the diagnostic of a termination already requested.\<close>

definition shutdown_message :: jstext where
  "shutdown_message = lit ''Gateway shutdown requested before provider process reached close''"

definition launch_outcome :: "job \<Rightarrow> launch_exception \<Rightarrow> launch_error" where
  "launch_outcome j x =
     (if jb_terminationRequested j
      then \<lparr>lx_exitCode = nullish (jb_exitCode j) 1, lx_message = nullish (jb_error j) shutdown_message,
            lx_errorCategory = jb_errorCategory j, lx_retryable = jb_retryable j\<rparr>
      else describeProcessLaunchError (jb_cli j) x)"

section \<open>Terminal effects\<close>

definition live_process :: "job \<Rightarrow> bool" where
  "live_process j \<longleftrightarrow> jb_process j \<noteq> None \<and> \<not> jb_closeObserved j"

definition emitMetrics :: "sup \<Rightarrow> sup" where
  "emitMetrics s =
     (let st = jb_status (sv_job s) in
      if jb_metricsRecorded (sv_job s) \<or> (st \<noteq> SCompleted \<and> st \<noteq> SFailed) then s
      else note_effect (Metrics (st = SCompleted)) (on_job (\<lambda>j. j\<lparr>jb_metricsRecorded := True\<rparr>) s))"

definition persistComplete :: "after \<Rightarrow> sup \<Rightarrow> sup" where
  "persistComplete k = push_chain (Persist k)"

definition writeFlightComplete :: "flight_status \<Rightarrow> jstext option \<Rightarrow> sup \<Rightarrow> sup" where
  "writeFlightComplete st override = push_chain (Flight st override)"

text \<open>The flight status and message that go with a terminal status.\<close>

definition flight_by_status :: "sup \<Rightarrow> sup" where
  "flight_by_status s =
     (let st = jb_status (sv_job s) in
      writeFlightComplete (if st = SCompleted then Flight_completed else Flight_failed)
        (if st = SCanceled then Some (lit ''canceled by caller'') else None) s)"

definition releaseJobPermit :: "sup \<Rightarrow> sup" where
  "releaseJobPermit s =
     (if jb_permit (sv_job s)
      then note_effect Permit_released (on_job (\<lambda>j. j\<lparr>jb_permit := False\<rparr>) s) else s)"

definition scheduleTerminalPersistenceRetry :: "job \<Rightarrow> job" where
  "scheduleTerminalPersistenceRetry j =
     (let capturePending = \<not> jb_kit j \<and> jb_closeObserved j \<and> \<not> jb_capturePersisted j in
      if (jb_acknowledged j \<and> \<not> capturePending) \<or> jb_retryTimer j \<or> jb_finishedAt j = None then j
      else
        (let delay = nullish (jb_retryDelayMs j) 100 in
         j\<lparr>jb_retryDelayMs := Some (min (delay * 2) 30000), jb_retryTimer := True\<rparr>))"

text \<open>What calling the terminal hook does: it returns, returns a promise, or raises.\<close>

datatype hook_result = Hook_returns | Hook_promises | Hook_raises

definition then_cleanup :: "bool option \<Rightarrow> sup \<Rightarrow> sup" where
  "then_cleanup f s = (case f of None \<Rightarrow> s | Some live \<Rightarrow> push_cont (K_cleanup live) s)"

definition hook_settled :: "bool \<Rightarrow> bool option \<Rightarrow> sup \<Rightarrow> sup" where
  "hook_settled b f s = then_cleanup f (on_job (\<lambda>j. j\<lparr>jb_hookOutcome := Some b\<rparr>) s)"

definition settleTerminalHook :: "bool \<Rightarrow> bool option \<Rightarrow> sup \<Rightarrow> sup" where
  "settleTerminalHook b f s =
     (let j = sv_job s in
      if jb_hookOutcome j \<noteq> None then then_cleanup f s
      else if b \<and> jb_kit j \<and> \<not> jb_kitTerminalFinalized j then push_cont (K_mark f) (note_effect Write_finalized s)
      else hook_settled b f s)"

text \<open>fireOnCompleteBody up to its first await; live is fixed on entry.\<close>

definition fireOnComplete :: "hook_result \<Rightarrow> sup \<Rightarrow> sup" where
  "fireOnComplete hook s =
     (let j = sv_job s; live = live_process j in
      if jb_kit j \<and> live then s
      else if jb_kit j \<and> \<not> jb_acknowledged j then on_job scheduleTerminalPersistenceRetry s
      else
        (let s1 = releaseJobPermit s in
         if jb_hasHook j then
           (if jb_hookFired j then push_cont (K_cleanup live) s1
            else
              (let s2 = note_effect Hook_fired (on_job (\<lambda>j. j\<lparr>jb_hookFired := True\<rparr>) s1) in
               case hook of
                 Hook_returns \<Rightarrow> settleTerminalHook True (Some live) s2
               | Hook_promises \<Rightarrow> push_cont (K_cleanup live) (push_cont K_promise s2)
               | Hook_raises \<Rightarrow> settleTerminalHook False (Some live) s2))
         else settleTerminalHook (\<not> jb_kit j) (Some live) s1))"

definition artifact_cleanup :: "bool \<Rightarrow> sup \<Rightarrow> sup" where
  "artifact_cleanup live s =
     (if \<not> live \<and> \<not> jb_cleanupFired (sv_job s) \<and> jb_hasCleanup (sv_job s)
      then note_effect Cleanup_fired (on_job (\<lambda>j. j\<lparr>jb_cleanupFired := True\<rparr>) s) else s)"

section \<open>Output\<close>

definition mayWriteOutputFor :: "job \<Rightarrow> bool" where
  "mayWriteOutputFor j = (if jb_rowLost j then False else \<not> jb_terminalPersisted j \<or> jb_terminalRowOwned j)"

definition ownedOutputStatuses :: "job \<Rightarrow> job_status list" where
  "ownedOutputStatuses j =
     (if jb_terminalPersisted j \<and> jb_terminalRowOwned j then [jb_status j] else [SQueued, SRunning])"

text \<open>The answer of a fenced output write; a raised one counts as applied.\<close>

definition output_written :: "bool \<Rightarrow> job \<Rightarrow> job" where
  "output_written applied j = (if applied \<or> jb_rowLost j then j else j\<lparr>jb_rowLost := True\<rparr>)"

definition maybeFlushOutput :: "sup_env \<Rightarrow> time \<Rightarrow> sup \<Rightarrow> sup" where
  "maybeFlushOutput env now s =
     (let j = sv_job s in
      if \<not> se_store env then s
      else if \<not> jb_outputDirty j then s
      else if jb_kit j then s
      else if \<not> mayWriteOutputFor j then on_job (\<lambda>j. j\<lparr>jb_outputDirty := False\<rparr>) s
      else if now - jb_lastFlushAt j < OUTPUT_FLUSH_INTERVAL_MS then s
      else (on_job (\<lambda>j. j\<lparr>jb_outputDirty := False, jb_lastFlushAt := now\<rparr>) s)
             \<lparr>sv_flushes := sv_flushes s @ [(jb_stdout j, jb_stderr j, jb_outputTruncated j)]\<rparr>)"

datatype stream = Stdout | Stderr

text \<open>A chunk is its number of bytes and the text it decodes to.\<close>

definition appendOutput :: "sup_env \<Rightarrow> stream \<Rightarrow> nat \<Rightarrow> jstext \<Rightarrow> time \<Rightarrow> sup \<Rightarrow> sup" where
  "appendOutput env st bytes txt now s =
     (let j = sv_job s in
      if utf8_len (jb_stdout j) + utf8_len (jb_stderr j) + bytes > se_maxOutput env
      then
        (let s1 = on_job (\<lambda>j. j\<lparr>jb_outputTruncated := True,
                    jb_outputDroppedBytes := jb_outputDroppedBytes j + bytes\<rparr>) s in
         if jb_status j \<noteq> SRunning then s1
         else
           (let m = lit (''Output exceeded maximum size ('' @ formatByteCap (se_maxOutput env) @ '')'');
                s2 = on_job (\<lambda>j. j\<lparr>jb_terminationRequested := True, jb_exitCode := Some 126, jb_error := Some m\<rparr>) s1;
                s3 = (if jb_kit j then s2 else on_job (\<lambda>j. j\<lparr>jb_status := SFailed, jb_finishedAt := Some now\<rparr>) s2);
                s4 = note_effect Terminate_group s3 in
            if jb_kit j then s4 else persistComplete (After_failed (Some m)) (emitMetrics s4)))
      else
        push_cont K_flush
          (on_job (\<lambda>j. (case st of Stdout \<Rightarrow> j\<lparr>jb_stdout := jb_stdout j @ txt\<rparr>
                              | Stderr \<Rightarrow> j\<lparr>jb_stderr := jb_stderr j @ txt\<rparr>)\<lparr>jb_outputDirty := True\<rparr>) s))"

section \<open>Launching\<close>

definition failQueuedJob :: "jstext \<Rightarrow> int \<Rightarrow> time \<Rightarrow> sup \<Rightarrow> sup" where
  "failQueuedJob reason code now s =
     (if jb_status (sv_job s) \<noteq> SQueued then s
      else
        (let m = (if code = 75
                  then lit (''Gateway is at capacity for '' @ jb_cli (sv_job s) @ '': '') @ reason else reason);
             s1 = on_job (\<lambda>j. j\<lparr>jb_status := SFailed, jb_exitCode := Some code, jb_error := Some m,
                     jb_finishedAt := Some now, jb_exited := True, jb_closeObserved := True\<rparr>) s in
         persistComplete (After_failed (Some m)) (emitMetrics s1)))"

text \<open>launch up to its first await.\<close>

definition launch :: "time \<Rightarrow> sup \<Rightarrow> sup" where
  "launch now s =
     (let s1 = on_job (\<lambda>j. j\<lparr>jb_permit := True\<rparr>) (s\<lparr>sv_grant := G_done\<rparr>); st = jb_status (sv_job s) in
      if sv_disposed s \<and> st = SQueued
      then failQueuedJob (lit ''Gateway is shutting down before execution'') 1 now s1
      else if st \<noteq> SQueued then releaseJobPermit s1
      else (on_job (\<lambda>j. j\<lparr>jb_status := SRunning\<rparr>) s1)\<lparr>sv_launch := Starting\<rparr>)"

text \<open>The catch of launch.\<close>

definition launch_fails :: "launch_exception \<Rightarrow> time \<Rightarrow> sup \<Rightarrow> sup" where
  "launch_fails x now s =
     (let e = launch_outcome (sv_job s) x;
          s1 = on_job (\<lambda>j. j\<lparr>jb_status := SFailed, jb_exitCode := Some (lx_exitCode e),
                 jb_error := Some (lx_message e), jb_errorCategory := lx_errorCategory e,
                 jb_retryable := lx_retryable e, jb_stderr := lx_message e, jb_finishedAt := Some now,
                 jb_exited := True, jb_closeObserved := True\<rparr>) (s\<lparr>sv_launch := Launch_over\<rparr>) in
      persistComplete (After_failed None) (emitMetrics s1))"

text \<open>launchProcessJob up to the durable transition: the fence, then the spawn with its result.\<close>

datatype spawn_result = Spawn_raises launch_exception | Spawns "nat option"

definition launchProcessJob :: "sup_env \<Rightarrow> spawn_result \<Rightarrow> time \<Rightarrow> sup \<Rightarrow> sup" where
  "launchProcessJob env r now s =
     (let j = sv_job s in
      if sv_disposed s \<or> jb_terminationRequested j \<or> jb_status j \<noteq> SRunning
      then launch_fails (Launch_failed (lit ''Gateway shutdown fenced this job before process spawn'')) now s
      else
        (case r of
           Spawn_raises x \<Rightarrow> launch_fails x now s
         | Spawns pid \<Rightarrow>
             (let s1 = note_effect Spawned (on_job (\<lambda>j. j\<lparr>jb_process := Some pid\<rparr>) s) in
              if se_store env then (note_effect Mark_running s1)\<lparr>sv_launch := Marking\<rparr>
              else s1\<lparr>sv_launch := Wired\<rparr>)))"

text \<open>markRunningDurable with failClosed, and the wiring of the listeners after it.\<close>

datatype mark_answer = Marked | Not_queued jstext | Mark_raises jstext

definition mark_failed :: "jstext \<Rightarrow> job \<Rightarrow> job" where
  "mark_failed m j =
     (let e = lit ''Durable job transition failed: '' @ m in
      j\<lparr>jb_terminationRequested := True, jb_exitCode := Some 1, jb_error := Some e, jb_stderr := e\<rparr>)"

definition marked :: "mark_answer \<Rightarrow> sup \<Rightarrow> sup" where
  "marked a s =
     (let s1 = s\<lparr>sv_launch := Wired\<rparr> in
      case a of
        Marked \<Rightarrow> s1
      | Not_queued m \<Rightarrow> note_effect Terminate_group (on_job (mark_failed m) s1)
      | Mark_raises m \<Rightarrow> note_effect Terminate_group (on_job (mark_failed m) s1))"

section \<open>The child's events and the timers\<close>

definition idle_timeout :: "sup_env \<Rightarrow> time \<Rightarrow> sup \<Rightarrow> sup" where
  "idle_timeout env now s =
     (let j = sv_job s in
      if jb_status j \<noteq> SRunning \<or> jb_terminationRequested j then s
      else
        (let m = lit (''Process killed after '' @ nat_text (se_idleMs env) @ ''ms of inactivity'');
             s1 = on_job (\<lambda>j. j\<lparr>jb_terminationRequested := True, jb_exitCode := Some 125, jb_error := Some m\<rparr>) s;
             s2 = (if jb_kit j then s1 else on_job (\<lambda>j. j\<lparr>jb_status := SFailed, jb_finishedAt := Some now\<rparr>) s1);
             s3 = note_effect Terminate_group s2 in
         if jb_kit j then s3 else persistComplete (After_failed None) (emitMetrics s3)))"

text \<open>An error of a child with a process identifier proves nothing; without one it never started.\<close>

definition child_error :: "launch_exception \<Rightarrow> time \<Rightarrow> sup \<Rightarrow> sup" where
  "child_error x now s =
     (if jb_process (sv_job s) \<noteq> Some None then s
      else
        (let s1 = on_job (\<lambda>j. j\<lparr>jb_exited := True, jb_closeObserved := True\<rparr>) s; j = sv_job s1 in
         if jb_status j \<noteq> SRunning then s1
         else
           (let e = launch_outcome j x;
                s2 = on_job (\<lambda>j. j\<lparr>jb_status := (if jb_canceled j then SCanceled else SFailed),
                       jb_exitCode := Some (lx_exitCode e), jb_error := Some (lx_message e),
                       jb_errorCategory := lx_errorCategory e, jb_retryable := lx_retryable e,
                       jb_stderr := join_stderr (jb_stderr j) (lx_message e), jb_finishedAt := Some now\<rparr>) s1 in
            (persistComplete (After_failed None) (emitMetrics s2))\<lparr>sv_closeHandled := True\<rparr>)))"

text \<open>The outcome of a running job whose child closed, with its exit code or signal.\<close>

definition close_exit :: "int option \<Rightarrow> string option \<Rightarrow> job \<Rightarrow> job" where
  "close_exit code signal j =
     (let raw = nullish code (if signal \<noteq> None then 1 else 0);
          j1 = (case signal of
                  None \<Rightarrow> j
                | Some sg \<Rightarrow>
                    if \<not> jb_canceled j \<and> \<not> jb_terminationRequested j
                    then j\<lparr>jb_terminationRequested := True, jb_exitCode := Some 1,
                           jb_error := Some (nullish (jb_error j) (lit (''Process terminated by '' @ sg)))\<rparr>
                    else j);
          launch_exit = (if jb_stdout j1 = [] \<and> jb_stderr j1 = [] then describeWindowsLaunchExit (jb_cli j1) raw
                         else None);
          j2 = (if \<not> jb_terminationRequested j1 \<or> jb_exitCode j1 = None
                then j1\<lparr>jb_exitCode := Some (case launch_exit of Some (c, m) \<Rightarrow> c | None \<Rightarrow> raw)\<rparr> else j1) in
      case launch_exit of None \<Rightarrow> j2 | Some (c, m) \<Rightarrow> j2\<lparr>jb_error := Some m, jb_stderr := m\<rparr>)"

definition close_outcome :: "int option \<Rightarrow> bool \<Rightarrow> job \<Rightarrow> job" where
  "close_outcome code incomplete j =
     (if jb_canceled j then j\<lparr>jb_status := SCanceled\<rparr>
      else if jb_stdinFailed j \<and> code \<noteq> None \<and> code \<noteq> Some 0
      then j\<lparr>jb_status := SFailed, jb_exitCode := code, jb_error := None, jb_errorCategory := None,
             jb_retryable := None\<rparr>
      else if jb_terminationRequested j
      then (if jb_stdinFailed j
            then j\<lparr>jb_status := SFailed, jb_exitCode := Some 1, jb_error := Some CHILD_STDIN_WRITE_FAILED_MESSAGE,
                   jb_errorCategory := None, jb_retryable := Some False,
                   jb_stderr := join_stderr (jb_stderr j) CHILD_STDIN_WRITE_FAILED_MESSAGE\<rparr>
            else j\<lparr>jb_status := SFailed\<rparr>)
      else if jb_exitCode j \<noteq> Some 0 then j\<lparr>jb_status := SFailed\<rparr>
      else if jb_stdinIncomplete j \<or> incomplete
      then j\<lparr>jb_status := SFailed, jb_exitCode := Some 126, jb_error := Some CHILD_STDIN_INCOMPLETE_MESSAGE,
             jb_errorCategory := None, jb_retryable := Some False,
             jb_stderr := join_stderr (jb_stderr j) CHILD_STDIN_INCOMPLETE_MESSAGE\<rparr>
      else j\<lparr>jb_status := SCompleted\<rparr>)"

definition child_close :: "int option \<Rightarrow> string option \<Rightarrow> bool \<Rightarrow> time \<Rightarrow> sup \<Rightarrow> sup" where
  "child_close code signal incomplete now s =
     (let closed = (\<lambda>j. j\<lparr>jb_exited := True, jb_closeObserved := True\<rparr>) in
      (if jb_status (sv_job s) \<noteq> SRunning
       then persistComplete After_status
         (on_job (\<lambda>j. (closed j)\<lparr>jb_exitCode := (case jb_exitCode j of None \<Rightarrow> code | Some c \<Rightarrow> Some c),
            jb_finishedAt := Some (nullish (jb_finishedAt j) now)\<rparr>) s)
       else persistComplete After_status (emitMetrics
         (on_job (\<lambda>j. close_outcome code incomplete ((close_exit code signal (closed j))\<lparr>jb_finishedAt := Some now\<rparr>)) s)))
        \<lparr>sv_closeHandled := True\<rparr>)"

definition stdin_error :: "bool \<Rightarrow> sup \<Rightarrow> sup" where
  "stdin_error incomplete s =
     (let j = sv_job s in
      if jb_exited j \<or> jb_canceled j \<or> jb_terminationRequested j then s
      else if incomplete then on_job (\<lambda>j. j\<lparr>jb_stdinIncomplete := True\<rparr>) s
      else note_effect Terminate_group (on_job (\<lambda>j. j\<lparr>jb_terminationRequested := True, jb_stdinFailed := True,
             jb_exitCode := Some 1, jb_errorCategory := None, jb_retryable := None\<rparr>) s))"

section \<open>Cancellation, shutdown and eviction\<close>

datatype cancel_result = Canceled | Already job_status | No_live_process

text \<open>Leaving the limiter's queue.\<close>

definition leave_queue :: "sup \<Rightarrow> sup" where
  "leave_queue s = (if sv_grant s = G_waiting then s\<lparr>sv_grant := G_done\<rparr> else s)"

definition cancelJob :: "time \<Rightarrow> sup \<Rightarrow> cancel_result \<times> sup" where
  "cancelJob now s =
     (let j = sv_job s in
      if jb_status j = SQueued
      then
        (let s1 = releaseJobPermit (leave_queue s);
             s2 = on_job (\<lambda>j. j\<lparr>jb_canceled := True, jb_status := SCanceled, jb_finishedAt := Some now,
                     jb_exited := True, jb_closeObserved := True\<rparr>) s1 in
         (Canceled, persistComplete (After_failed (Some (lit ''canceled by caller''))) (emitMetrics s2)))
      else if jb_status j \<noteq> SRunning then (Already (jb_status j), s)
      else if jb_process j = None then (No_live_process, s)
      else
        (let s1 = on_job (\<lambda>j. j\<lparr>jb_canceled := True, jb_terminationRequested := jb_kit j\<rparr>) s;
             s2 = (if jb_kit j then s1 else on_job (\<lambda>j. j\<lparr>jb_status := SCanceled, jb_finishedAt := Some now\<rparr>) s1);
             s3 = note_effect Terminate_group s2 in
         (Canceled, if jb_kit j then s3
                    else persistComplete (After_failed (Some (lit ''canceled by caller''))) s3)))"

text \<open>The steps of dispose on one job: queued work fails, a pending retry is made at once, running work is fenced.\<close>

definition dispose_queued :: "time \<Rightarrow> sup \<Rightarrow> sup" where
  "dispose_queued now s =
     (let s1 = s\<lparr>sv_disposed := True\<rparr> in
      if jb_status (sv_job s) = SQueued
      then failQueuedJob (lit ''Gateway is shutting down before execution'') 1 now (leave_queue s1) else s1)"

definition retryTerminalPersistenceNow :: "sup \<Rightarrow> sup" where
  "retryTerminalPersistenceNow s =
     (let j = sv_job s; capturePending = \<not> jb_kit j \<and> jb_closeObserved j \<and> \<not> jb_capturePersisted j in
      if (jb_acknowledged j \<and> \<not> capturePending) \<or> jb_finishedAt j = None \<or> isAsyncJobInProgress (jb_status j)
         \<or> sv_chain s \<noteq> []
      then s
      else persistComplete After_retry (on_job (\<lambda>j. j\<lparr>jb_retryTimer := False\<rparr>) s))"

definition dispose_running :: "sup \<Rightarrow> sup" where
  "dispose_running s =
     (if jb_status (sv_job s) \<noteq> SRunning then s
      else
        (let s1 = on_job (\<lambda>j. j\<lparr>jb_terminationRequested := True, jb_exitCode := Some 1,
                    jb_error := Some shutdown_message\<rparr>) s in
         if jb_process (sv_job s) \<noteq> None then note_effect Terminate_group s1 else s1))"

text \<open>The eviction's repair of a running job: its process is gone, or it is marked exited.\<close>

definition has_pid :: "job \<Rightarrow> bool" where
  "has_pid j = (case jb_process j of Some (Some pid) \<Rightarrow> True | _ \<Rightarrow> False)"

definition dead_process :: "time \<Rightarrow> sup \<Rightarrow> sup" where
  "dead_process now s =
     (if jb_status (sv_job s) = SRunning \<and> has_pid (sv_job s)
      then persistComplete (After_failed None) (emitMetrics (on_job (\<lambda>j. j\<lparr>jb_status := SFailed,
             jb_exitCode := Some (nullish (jb_exitCode j) 1),
             jb_error := Some (lit ''Process no longer exists (dead process detected)''),
             jb_finishedAt := Some now, jb_exited := True\<rparr>) s))
      else s)"

definition exited_mismatch :: "time \<Rightarrow> sup \<Rightarrow> sup" where
  "exited_mismatch now s =
     (if jb_status (sv_job s) = SRunning \<and> jb_exited (sv_job s)
      then persistComplete (After_failed None) (emitMetrics (on_job (\<lambda>j. j\<lparr>jb_status := SFailed,
             jb_error := Some (lit ''Process exited without proper status transition''),
             jb_finishedAt := Some (nullish (jb_finishedAt j) now)\<rparr>) s))
      else s)"

definition evictable_from_memory :: "int \<Rightarrow> time \<Rightarrow> job \<Rightarrow> bool" where
  "evictable_from_memory ttl now j \<longleftrightarrow>
     \<not> isAsyncJobInProgress (jb_status j) \<and> \<not> live_process j
     \<and> (case jb_finishedAt j of None \<Rightarrow> False | Some t \<Rightarrow> now - t > ttl)"

section \<open>Terminal writes\<close>

text \<open>The head of the chain is done; a terminal write resumes its caller with its result.\<close>

definition chain_done :: "bool \<Rightarrow> sup \<Rightarrow> sup" where
  "chain_done ok s =
     (case sv_chain s of
        [] \<Rightarrow> s
      | Persist k # rest \<Rightarrow> push_cont (K_persisted k ok) (s\<lparr>sv_chain := rest, sv_phase := W_idle\<rparr>)
      | Flight st ov # rest \<Rightarrow> s\<lparr>sv_chain := rest, sv_phase := W_idle\<rparr>)"

text \<open>The start of the head: persistCompleteBody up to the progress writes, or writeFlightCompleteBody.\<close>

definition chain_begin :: "sup_env \<Rightarrow> sup \<Rightarrow> sup" where
  "chain_begin env s =
     (let j = sv_job s in
      case sv_chain s of
        [] \<Rightarrow> s
      | Persist k # rest \<Rightarrow>
          if \<not> se_store env then chain_done (\<not> jb_kit j) s
          else if isAsyncJobInProgress (jb_status j) then chain_done False s
          else if jb_finishedAt j = None then chain_done False s
          else s\<lparr>sv_phase := W_progress\<rparr>
      | Flight st ov # rest \<Rightarrow>
          if \<not> jb_flightEntry j \<or> \<not> jb_flightArmed j \<or> jb_flightComplete j then chain_done True s
          else (note_effect (Write_flight st) s)\<lparr>sv_phase := W_flight\<rparr>)"

text \<open>The end of a write on a row that is already terminal, given whether the capture is stored.\<close>

definition persisted_again :: "bool \<Rightarrow> sup \<Rightarrow> sup" where
  "persisted_again captured s =
     (let j = sv_job s in
      if \<not> jb_kit j \<and> jb_closeObserved j \<and> \<not> captured
      then chain_done False (on_job (\<lambda>j. scheduleTerminalPersistenceRetry (j\<lparr>jb_acknowledged := False\<rparr>)) s)
      else chain_done True (on_job (\<lambda>j. j\<lparr>jb_acknowledged := True\<rparr>) s))"

text \<open>persistCapture up to its write.\<close>

definition persistCapture :: "sup \<Rightarrow> sup" where
  "persistCapture s =
     (let j = sv_job s in
      if jb_capturePersisted j then persisted_again True s
      else if jb_kit j \<or> \<not> jb_closeObserved j then persisted_again False s
      else (note_effect Write_capture s)\<lparr>sv_phase := W_capture\<rparr>)"

definition withheld_error :: "job \<Rightarrow> jstext option" where
  "withheld_error j =
     (if jb_kit j \<and> jb_status j \<noteq> SCompleted then Some PERSONAL_KIT_FAILURE_WITHHELD else jb_error j)"

text \<open>persistCompleteBody after the progress writes.\<close>

definition chain_progressed :: "sup \<Rightarrow> sup" where
  "chain_progressed s =
     (let j = sv_job s; s1 = on_job (\<lambda>j. j\<lparr>jb_outputDirty := False\<rparr>) s in
      if jb_terminalPersisted j
      then
        (if mayWriteOutputFor j \<and> \<not> jb_kit j
         then (note_effect (Write_output (jb_stdout j) (jb_stderr j) (jb_outputTruncated j) (ownedOutputStatuses j)) s1)
                \<lparr>sv_phase := W_late\<rparr>
         else persistCapture s1)
      else (note_effect (Write_complete (jb_status j) (jb_exitCode j) (if jb_kit j then [] else jb_stdout j)
                (if jb_kit j then [] else jb_stderr j) (withheld_error j)) s1)
              \<lparr>sv_phase := W_complete (\<not> jb_kit j \<and> jb_closeObserved j)\<rparr>)"

datatype store_answer = Applied | Rejected | Raised

text \<open>The answer of recordComplete; with a capture the rejected write is read back.\<close>

definition row_settled :: "bool \<Rightarrow> bool \<Rightarrow> job \<Rightarrow> job" where
  "row_settled capture applied j =
     j\<lparr>jb_terminalPersisted := True, jb_acknowledged := True, jb_terminalRowOwned := applied,
       jb_capturePersisted := jb_capturePersisted j \<or> (capture \<and> applied),
       jb_rowLost := (if applied then False else jb_rowLost j)\<rparr>"

definition completed :: "bool \<Rightarrow> store_answer \<Rightarrow> sup \<Rightarrow> sup" where
  "completed capture a s =
     (if a = Raised then chain_done False (on_job scheduleTerminalPersistenceRetry s)
      else
        (let s1 = on_job (row_settled capture (a = Applied)) s in
         if capture \<and> a \<noteq> Applied then s1\<lparr>sv_phase := W_reconcile\<rparr> else chain_done True s1))"

definition flight_written :: "bool \<Rightarrow> job \<Rightarrow> job" where
  "flight_written ok j =
     (if ok \<and> jb_closeObserved j then j\<lparr>jb_flightComplete := True, jb_flightEntry := False\<rparr> else j)"

text \<open>The answer that the head of the chain waits for.\<close>

definition chain_answer :: "store_answer \<Rightarrow> sup \<Rightarrow> sup" where
  "chain_answer a s =
     (case sv_phase s of
        W_idle \<Rightarrow> s
      | W_progress \<Rightarrow> chain_progressed s
      | W_late \<Rightarrow> persistCapture (on_job (output_written (a \<noteq> Rejected)) s)
      | W_capture \<Rightarrow>
          persisted_again (a = Applied)
            (on_job (\<lambda>j. j\<lparr>jb_capturePersisted := jb_capturePersisted j \<or> a = Applied\<rparr>) s)
      | W_complete capture \<Rightarrow> completed capture a s
      | W_reconcile \<Rightarrow>
          chain_done True (on_job (\<lambda>j. j\<lparr>jb_capturePersisted := jb_capturePersisted j \<or> a = Applied\<rparr>) s)
      | W_flight \<Rightarrow> chain_done True (on_job (flight_written (a \<noteq> Raised)) s))"

definition armFlightCompleteForDeferral :: "sup \<Rightarrow> sup" where
  "armFlightCompleteForDeferral s =
     (let j = sv_job s; s1 = on_job (\<lambda>j. j\<lparr>jb_flightArmed := True\<rparr>) s in
      if jb_flightArmed j then s
      else if isAsyncJobInProgress (jb_status j) then s1
      else writeFlightComplete (if jb_status j = SCompleted then Flight_completed else Flight_failed)
             (if jb_canceled j then Some (lit ''canceled by caller'') else None) s1)"

section \<open>Events\<close>

definition resume :: "sup_env \<Rightarrow> hook_result \<Rightarrow> bool \<Rightarrow> time \<Rightarrow> continuation \<Rightarrow> sup \<Rightarrow> sup" where
  "resume env hook ans now k s =
     (case k of
        K_persisted a ok \<Rightarrow>
          (case a of
             After_failed ov \<Rightarrow> fireOnComplete hook (writeFlightComplete Flight_failed ov s)
           | After_status \<Rightarrow> fireOnComplete hook (flight_by_status s)
           | After_retry \<Rightarrow> (if ok then fireOnComplete hook (flight_by_status s) else s))
      | K_mark f \<Rightarrow> hook_settled ans f (if ans then on_job (\<lambda>j. j\<lparr>jb_kitTerminalFinalized := True\<rparr>) s else s)
      | K_promise \<Rightarrow> settleTerminalHook ans None s
      | K_cleanup live \<Rightarrow> artifact_cleanup live s
      | K_flush \<Rightarrow> maybeFlushOutput env now s)"

definition flush_begin :: "sup \<Rightarrow> sup" where
  "flush_begin s =
     (case sv_flushes s of
        [] \<Rightarrow> s
      | (out, err, trunc) # rest \<Rightarrow>
          (note_effect (Write_output out err trunc (ownedOutputStatuses (sv_job s))) s)\<lparr>sv_flushing := True\<rparr>)"

datatype sup_event =
    Grant time
  | Hold
  | Release time
  | Queue_timeout time
  | Launch_progressed spawn_result time
  | Mark_answered mark_answer
  | Data stream nat jstext time
  | Idle time
  | Child_error launch_exception time
  | Child_close "int option" "string option" bool time
  | Stdin_error bool
  | Cancel time
  | Dispose_queued time
  | Retry_now
  | Dispose_running
  | Dead time
  | Mismatch time
  | Retry_timer
  | Arm
  | Begin_write
  | Store_answer store_answer
  | Resume nat hook_result bool time
  | Begin_flush
  | Flush_answer store_answer

text \<open>
  The end of the child reaches the job only once its listeners are attached; before, it is lost. Its output
  waits in the pipe until then.
\<close>

definition from_child :: "(sup \<Rightarrow> sup) \<Rightarrow> sup \<Rightarrow> sup option" where
  "from_child f s = (if sv_launch s = Wired then Some (f s) else if sv_launch s = Marking then Some s else None)"

text \<open>None: the event cannot happen in this state.\<close>

fun sup_apply :: "sup_env \<Rightarrow> sup_event \<Rightarrow> sup \<Rightarrow> sup option" where
  "sup_apply env (Grant now) s = (if sv_grant s \<noteq> G_waiting then None else Some (launch now s))"
| "sup_apply env Hold s =
     (if sv_grant s \<noteq> G_waiting then None
      else Some ((on_job (\<lambda>j. j\<lparr>jb_permit := True\<rparr>) s)\<lparr>sv_grant := G_held\<rparr>))"
| "sup_apply env (Release now) s =
     (if sv_grant s \<noteq> G_held then None
      else Some (if jb_status (sv_job s) \<noteq> SQueued then s\<lparr>sv_grant := G_done\<rparr> else launch now s))"
| "sup_apply env (Queue_timeout now) s =
     (if sv_grant s \<noteq> G_waiting then None
      else Some (failQueuedJob (lit ''queue wait timed out before a run slot was free'') 75 now (s\<lparr>sv_grant := G_done\<rparr>)))"
| "sup_apply env (Launch_progressed r now) s =
     (if sv_launch s \<noteq> Starting then None else Some (launchProcessJob env r now s))"
| "sup_apply env (Mark_answered a) s = (if sv_launch s \<noteq> Marking then None else Some (marked a s))"
| "sup_apply env (Data st b txt now) s = (if sv_launch s = Wired then Some (appendOutput env st b txt now s) else None)"
| "sup_apply env (Idle now) s = (if sv_launch s = Wired then Some (idle_timeout env now s) else None)"
| "sup_apply env (Child_error x now) s = from_child (child_error x now) s"
| "sup_apply env (Child_close code sg inc now) s = from_child (child_close code sg inc now) s"
| "sup_apply env (Stdin_error inc) s = (if sv_launch s = Wired then Some (stdin_error inc s) else None)"
| "sup_apply env (Cancel now) s = Some (snd (cancelJob now s))"
| "sup_apply env (Dispose_queued now) s = Some (dispose_queued now s)"
| "sup_apply env Retry_now s = (if \<not> sv_disposed s then None else Some (retryTerminalPersistenceNow s))"
| "sup_apply env Dispose_running s = (if \<not> sv_disposed s then None else Some (dispose_running s))"
| "sup_apply env (Dead now) s = Some (dead_process now s)"
| "sup_apply env (Mismatch now) s = Some (exited_mismatch now s)"
| "sup_apply env Retry_timer s =
     (if \<not> jb_retryTimer (sv_job s) then None
      else Some (persistComplete After_retry (on_job (\<lambda>j. j\<lparr>jb_retryTimer := False\<rparr>) s)))"
| "sup_apply env Arm s = Some (armFlightCompleteForDeferral s)"
| "sup_apply env Begin_write s = (if sv_phase s = W_idle \<and> sv_chain s \<noteq> [] then Some (chain_begin env s) else None)"
| "sup_apply env (Store_answer a) s = (if sv_phase s = W_idle then None else Some (chain_answer a s))"
| "sup_apply env (Resume n hook ans now) s =
     (if n < length (sv_conts s)
      then Some (resume env hook ans now (sv_conts s ! n)
                   (s\<lparr>sv_conts := take n (sv_conts s) @ drop (Suc n) (sv_conts s)\<rparr>))
      else None)"
| "sup_apply env Begin_flush s =
     (if sv_flushes s = [] \<or> sv_flushing s then None else Some (flush_begin s))"
| "sup_apply env (Flush_answer a) s =
     (if \<not> sv_flushing s then None
      else Some ((on_job (output_written (a \<noteq> Rejected)) s)\<lparr>sv_flushes := tl (sv_flushes s), sv_flushing := False\<rparr>))"

definition sup_step :: "sup_env \<Rightarrow> sup \<Rightarrow> sup \<Rightarrow> bool" where
  "sup_step env s s' \<longleftrightarrow> (\<exists>e. sup_apply env e s = Some s')"

text \<open>A job as startJobWithDedup creates it, before the limiter answers.\<close>

definition new_job :: "provider \<Rightarrow> bool \<Rightarrow> bool \<Rightarrow> bool \<Rightarrow> bool \<Rightarrow> bool \<Rightarrow> time \<Rightarrow> job" where
  "new_job cli kit hook cleanup entry armed now =
     \<lparr>jb_cli = cli, jb_status = SQueued, jb_finishedAt = None, jb_exitCode = None, jb_stdout = [], jb_stderr = [],
      jb_outputTruncated = False, jb_outputDroppedBytes = 0, jb_canceled = False, jb_error = None,
      jb_errorCategory = None, jb_retryable = None, jb_process = None, jb_exited = False, jb_closeObserved = False,
      jb_terminationRequested = False, jb_stdinIncomplete = False, jb_stdinFailed = False,
      jb_metricsRecorded = False, jb_kit = kit, jb_kitTerminalFinalized = False, jb_acknowledged = (\<not> kit),
      jb_retryTimer = False, jb_retryDelayMs = None, jb_permit = False, jb_hasHook = hook, jb_hookFired = False,
      jb_hookOutcome = None, jb_hasCleanup = cleanup, jb_cleanupFired = False, jb_outputDirty = False,
      jb_rowLost = False, jb_lastFlushAt = now, jb_terminalPersisted = False, jb_terminalRowOwned = False,
      jb_capturePersisted = False, jb_flightEntry = entry, jb_flightArmed = armed, jb_flightComplete = False\<rparr>"

definition new_sup :: "job \<Rightarrow> sup" where
  "new_sup j = \<lparr>sv_job = j, sv_disposed = False, sv_grant = G_waiting, sv_launch = Not_launched, sv_chain = [],
     sv_phase = W_idle, sv_conts = [], sv_flushes = [], sv_flushing = False, sv_closeHandled = False, sv_log = []\<rparr>"

text \<open>Kit jobs are admitted only with a durable store.\<close>

definition sup_ini :: "sup_env \<Rightarrow> sup \<Rightarrow> bool" where
  "sup_ini env s \<longleftrightarrow> (\<exists>cli kit hook cleanup entry armed now.
     s = new_sup (new_job cli kit hook cleanup entry armed now) \<and> (kit \<longrightarrow> se_store env))"

end
