(* ===== verification/Supervisor_Invariants.thy ===== *)
theory Supervisor_Invariants
  imports Job_Supervisor
begin

text \<open>
  What every event keeps of a supervised job: how its status, its process, its run slot and its pending
  terminal work fit together, that each terminal effect happens once, and that no terminal work is lost.
\<close>

section \<open>The shape of a supervised job\<close>

definition terminal :: "sup \<Rightarrow> bool" where
  "terminal s \<longleftrightarrow> \<not> isAsyncJobInProgress (jb_status (sv_job s))"

text \<open>No terminal work has begun.\<close>

definition untouched :: "sup \<Rightarrow> bool" where
  "untouched s \<longleftrightarrow> sv_chain s = [] \<and> sv_phase s = W_idle \<and> (\<forall>k\<in>set (sv_conts s). k = K_flush)
     \<and> \<not> jb_hookFired (sv_job s) \<and> \<not> jb_cleanupFired (sv_job s) \<and> jb_hookOutcome (sv_job s) = None
     \<and> \<not> jb_terminalPersisted (sv_job s) \<and> \<not> jb_retryTimer (sv_job s) \<and> \<not> jb_exited (sv_job s)
     \<and> \<not> jb_closeObserved (sv_job s) \<and> jb_finishedAt (sv_job s) = None \<and> \<not> jb_metricsRecorded (sv_job s)
     \<and> \<not> sv_closeHandled s"

definition sup_inv :: "sup \<Rightarrow> bool" where
  "sup_inv s \<longleftrightarrow>
     (\<not> terminal s \<longrightarrow> untouched s) \<and> (terminal s \<longrightarrow> jb_finishedAt (sv_job s) \<noteq> None)
     \<and> jb_status (sv_job s) \<noteq> SOrphaned
     \<and> (jb_status (sv_job s) = SQueued \<longrightarrow> sv_launch s = Not_launched)
     \<and> (jb_status (sv_job s) = SRunning \<longrightarrow> sv_launch s \<in> {Starting, Marking, Wired} \<and> jb_permit (sv_job s))
     \<and> (sv_launch s = Starting \<longrightarrow> jb_status (sv_job s) = SRunning)
     \<and> (jb_process (sv_job s) \<noteq> None \<longleftrightarrow> sv_launch s \<in> {Marking, Wired})
     \<and> (sv_launch s \<noteq> Not_launched \<longrightarrow> sv_grant s = G_done)
     \<and> (sv_grant s = G_waiting \<longrightarrow> \<not> jb_permit (sv_job s))
     \<and> (sv_phase s \<noteq> W_idle \<longrightarrow> sv_chain s \<noteq> [])"

lemmas inv_defs = sup_inv_def terminal_def untouched_def isAsyncJobInProgress_def

section \<open>The combinators\<close>

named_theorems sups  \<open>what the combinators leave alone\<close>

lemma note_simps [simp, sups]:
  "sv_job (note_effect x s) = sv_job s" "sv_disposed (note_effect x s) = sv_disposed s"
  "sv_grant (note_effect x s) = sv_grant s" "sv_launch (note_effect x s) = sv_launch s"
  "sv_chain (note_effect x s) = sv_chain s" "sv_phase (note_effect x s) = sv_phase s"
  "sv_conts (note_effect x s) = sv_conts s" "sv_closeHandled (note_effect x s) = sv_closeHandled s"
  "sv_log (note_effect x s) = sv_log s @ [x]"
  by (simp_all add: note_effect_def)

lemma on_job_simps [simp, sups]:
  "sv_job (on_job f s) = f (sv_job s)" "sv_disposed (on_job f s) = sv_disposed s"
  "sv_grant (on_job f s) = sv_grant s" "sv_launch (on_job f s) = sv_launch s"
  "sv_chain (on_job f s) = sv_chain s" "sv_phase (on_job f s) = sv_phase s"
  "sv_conts (on_job f s) = sv_conts s" "sv_closeHandled (on_job f s) = sv_closeHandled s"
  "sv_log (on_job f s) = sv_log s"
  by (simp_all add: on_job_def)

lemma push_chain_simps [simp, sups]:
  "sv_job (push_chain i s) = sv_job s" "sv_disposed (push_chain i s) = sv_disposed s"
  "sv_grant (push_chain i s) = sv_grant s" "sv_launch (push_chain i s) = sv_launch s"
  "sv_chain (push_chain i s) = sv_chain s @ [i]" "sv_phase (push_chain i s) = sv_phase s"
  "sv_conts (push_chain i s) = sv_conts s" "sv_closeHandled (push_chain i s) = sv_closeHandled s"
  "sv_log (push_chain i s) = sv_log s"
  by (simp_all add: push_chain_def)

lemma push_cont_simps [simp, sups]:
  "sv_job (push_cont k s) = sv_job s" "sv_disposed (push_cont k s) = sv_disposed s"
  "sv_grant (push_cont k s) = sv_grant s" "sv_launch (push_cont k s) = sv_launch s"
  "sv_chain (push_cont k s) = sv_chain s" "sv_phase (push_cont k s) = sv_phase s"
  "sv_conts (push_cont k s) = sv_conts s @ [k]" "sv_closeHandled (push_cont k s) = sv_closeHandled s"
  "sv_log (push_cont k s) = sv_log s"
  by (simp_all add: push_cont_def)

lemma terminal_simps [simp]:
  "terminal (note_effect x s) = terminal s" "terminal (push_chain i s) = terminal s"
  "terminal (push_cont k s) = terminal s"
  by (simp_all add: terminal_def)

text \<open>The fields of a job that its shape depends on.\<close>

definition job_shape where
  "job_shape j = (jb_status j, jb_finishedAt j, jb_process j, jb_exited j, jb_closeObserved j, jb_permit j,
     jb_hookFired j, jb_cleanupFired j, jb_hookOutcome j, jb_terminalPersisted j, jb_retryTimer j,
     jb_metricsRecorded j)"

lemma inv_note [simp]: "sup_inv (note_effect x s) = sup_inv s"
  by (simp add: sup_inv_def untouched_def)

lemma inv_on_job: "sup_inv s \<Longrightarrow> job_shape (f (sv_job s)) = job_shape (sv_job s) \<Longrightarrow> sup_inv (on_job f s)"
  by (simp add: inv_defs job_shape_def)

lemma inv_push_chain: "sup_inv s \<Longrightarrow> terminal s \<Longrightarrow> sup_inv (push_chain i s)"
  by (simp add: sup_inv_def)

lemma inv_push_cont: "sup_inv s \<Longrightarrow> terminal s \<or> k = K_flush \<Longrightarrow> sup_inv (push_cont k s)"
  by (auto simp: sup_inv_def untouched_def)

text \<open>An update of a terminal job, and a transition to a terminal status.\<close>

lemma inv_terminal_update:
  "sup_inv s \<Longrightarrow> terminal s \<Longrightarrow> jb_status (f (sv_job s)) = jb_status (sv_job s)
     \<Longrightarrow> jb_finishedAt (f (sv_job s)) \<noteq> None \<Longrightarrow> jb_process (f (sv_job s)) = jb_process (sv_job s)
     \<Longrightarrow> (jb_permit (f (sv_job s)) \<longrightarrow> jb_permit (sv_job s)) \<Longrightarrow> sup_inv (on_job f s)"
  by (auto simp: inv_defs)

lemma inv_terminalise:
  assumes "sup_inv s" and "sv_launch s \<noteq> Starting" and "jb_status (f (sv_job s)) \<in> {SCompleted, SFailed, SCanceled}"
    and "jb_finishedAt (f (sv_job s)) \<noteq> None" and "jb_process (f (sv_job s)) = jb_process (sv_job s)"
    and "jb_permit (f (sv_job s)) \<longrightarrow> jb_permit (sv_job s)"
  shows "sup_inv (on_job f s)"
proof -
  have "jb_status (f (sv_job s)) \<noteq> SQueued" "jb_status (f (sv_job s)) \<noteq> SRunning"
    "jb_status (f (sv_job s)) \<noteq> SOrphaned" using assms(3) by auto
  moreover have "terminal (on_job f s)" using assms(3) by (auto simp: terminal_def isAsyncJobInProgress_def)
  ultimately show ?thesis using assms(1,2,4-6) unfolding sup_inv_def by (simp only: on_job_simps simp_thms) blast
qed

lemma terminalised: "jb_status (f (sv_job s)) \<in> {SCompleted, SFailed, SCanceled} \<Longrightarrow> terminal (on_job f s)"
  by (auto simp: terminal_def isAsyncJobInProgress_def)

lemma metrics_simps [simp, sups]:
  "jb_status (sv_job (emitMetrics s)) = jb_status (sv_job s)" "sv_launch (emitMetrics s) = sv_launch s"
  "terminal (emitMetrics s) = terminal s" "sv_grant (emitMetrics s) = sv_grant s"
  "sv_chain (emitMetrics s) = sv_chain s" "sv_conts (emitMetrics s) = sv_conts s"
  "sv_closeHandled (emitMetrics s) = sv_closeHandled s" "sv_phase (emitMetrics s) = sv_phase s"
  "sv_disposed (emitMetrics s) = sv_disposed s"
  by (simp_all add: emitMetrics_def Let_def terminal_def)

lemma on_job_on_job [simp]: "on_job f (on_job g s) = on_job (\<lambda>j. f (g j)) s"
  by (simp add: on_job_def)

lemma inv_metrics:
  assumes "sup_inv s"
  shows "sup_inv (emitMetrics s)"
proof (cases "jb_metricsRecorded (sv_job s) \<or> (jb_status (sv_job s) \<noteq> SCompleted \<and> jb_status (sv_job s) \<noteq> SFailed)")
  case True
  with assms show ?thesis by (simp add: emitMetrics_def Let_def)
next
  case False
  then have "terminal s" by (auto simp: terminal_def isAsyncJobInProgress_def)
  with assms have "sup_inv (on_job (\<lambda>j. j\<lparr>jb_metricsRecorded := True\<rparr>) s)"
    by (intro inv_terminal_update) (simp_all add: sup_inv_def)
  with False show ?thesis by (auto simp: emitMetrics_def Let_def)
qed

lemma inv_finish: "sup_inv s \<Longrightarrow> terminal s \<Longrightarrow> sup_inv (persistComplete k (emitMetrics s))"
  by (simp add: persistComplete_def inv_push_chain inv_metrics)

lemma inv_running:
  "sup_inv s \<Longrightarrow> jb_status (sv_job s) = SRunning \<Longrightarrow> jb_process (sv_job s) \<noteq> None \<Longrightarrow> sv_launch s \<noteq> Starting"
  by (auto simp: sup_inv_def)

section \<open>The handlers\<close>

lemma inv_end:
  assumes "sup_inv s" and "sv_launch s \<noteq> Starting" and "jb_status (f (sv_job s)) \<in> {SCompleted, SFailed, SCanceled}"
    and "jb_finishedAt (f (sv_job s)) \<noteq> None" and "jb_process (f (sv_job s)) = jb_process (sv_job s)"
    and "jb_permit (f (sv_job s)) \<longrightarrow> jb_permit (sv_job s)"
  shows "sup_inv (persistComplete k (emitMetrics (on_job f s)))"
    "sup_inv (persistComplete k (emitMetrics (note_effect x (on_job f s))))"
    "sup_inv (persistComplete k (note_effect x (on_job f s)))"
proof -
  have "sup_inv (on_job f s)" "terminal (on_job f s)"
    by (rule inv_terminalise, fact+) (rule terminalised, fact)
  then show "sup_inv (persistComplete k (emitMetrics (on_job f s)))"
    "sup_inv (persistComplete k (emitMetrics (note_effect x (on_job f s))))"
    "sup_inv (persistComplete k (note_effect x (on_job f s)))"
    using inv_finish [of "on_job f s" k] inv_finish [of "note_effect x (on_job f s)" k]
    by (simp_all add: persistComplete_def inv_push_chain)
qed

lemma inv_queued: "sup_inv s \<Longrightarrow> jb_status (sv_job s) = SQueued \<Longrightarrow> sv_launch s = Not_launched"
  by (simp add: sup_inv_def)

lemma inv_fail_queued: "sup_inv s \<Longrightarrow> sup_inv (failQueuedJob r c now s)"
  unfolding failQueuedJob_def Let_def using inv_queued [of s] by (simp add: inv_end)

lemma inv_append:
  assumes "sup_inv s" and "sv_launch s = Wired"
  shows "sup_inv (appendOutput env st b txt now s)"
proof -
  have "sup_inv (on_job (\<lambda>j. (case st of Stdout \<Rightarrow> j\<lparr>jb_stdout := jb_stdout j @ txt\<rparr>
      | Stderr \<Rightarrow> j\<lparr>jb_stderr := jb_stderr j @ txt\<rparr>)\<lparr>jb_outputDirty := True\<rparr>) s)"
    using assms by (intro inv_on_job) (cases st; simp_all add: job_shape_def)+
  then show ?thesis
    using assms by (simp add: appendOutput_def Let_def inv_push_cont inv_end inv_on_job job_shape_def)
qed

lemma inv_idle: "sup_inv s \<Longrightarrow> sv_launch s = Wired \<Longrightarrow> sup_inv (idle_timeout env now s)"
  by (simp add: idle_timeout_def Let_def inv_end inv_on_job job_shape_def)

lemma inv_handled: "sup_inv s \<Longrightarrow> terminal s \<Longrightarrow> sup_inv (s\<lparr>sv_closeHandled := True\<rparr>)"
  by (simp add: sup_inv_def terminal_def)

lemma inv_end_handled:
  assumes "sup_inv s" and "sv_launch s \<noteq> Starting" and "jb_status (f (sv_job s)) \<in> {SCompleted, SFailed, SCanceled}"
    and "jb_finishedAt (f (sv_job s)) \<noteq> None" and "jb_process (f (sv_job s)) = jb_process (sv_job s)"
    and "jb_permit (f (sv_job s)) \<longrightarrow> jb_permit (sv_job s)"
  shows "sup_inv (persistComplete k (emitMetrics (on_job f s))\<lparr>sv_closeHandled := True\<rparr>)"
    "sup_inv (persistComplete k (on_job f s)\<lparr>sv_closeHandled := True\<rparr>)"
proof -
  note end1 = inv_end [where f = f, OF assms]
  have t: "terminal (on_job f s)" using assms(3) by (rule terminalised)
  have "sup_inv (persistComplete k (on_job f s))"
    using inv_terminalise [where f = f, OF assms] t by (simp add: persistComplete_def inv_push_chain)
  then show "sup_inv (persistComplete k (emitMetrics (on_job f s))\<lparr>sv_closeHandled := True\<rparr>)"
    "sup_inv (persistComplete k (on_job f s)\<lparr>sv_closeHandled := True\<rparr>)"
    using end1(1) [of k] t by (auto intro!: inv_handled simp: persistComplete_def)
qed

lemma inv_child_error:
  assumes "sup_inv s" and "sv_launch s = Wired"
  shows "sup_inv (child_error x now s)"
proof (cases "jb_status (sv_job s) = SRunning")
  case True
  then show ?thesis using assms by (simp add: child_error_def Let_def inv_end_handled)
next
  case False
  then have "terminal s" "jb_finishedAt (sv_job s) \<noteq> None"
    using assms by (auto simp: sup_inv_def terminal_def isAsyncJobInProgress_def)
  then show ?thesis using assms(1) False by (simp add: child_error_def Let_def inv_terminal_update)
qed

lemma close_outcome_fields [simp]:
  "jb_finishedAt (close_outcome code inc j) = jb_finishedAt j" "jb_process (close_outcome code inc j) = jb_process j"
  "jb_permit (close_outcome code inc j) = jb_permit j"
  by (simp_all add: close_outcome_def)

lemma close_outcome_status:
  "jb_status (close_outcome code inc j) \<in> {SCompleted, SFailed, SCanceled}"
  by (simp add: close_outcome_def)

lemma close_exit_fields [simp]:
  "jb_finishedAt (close_exit code sg j) = jb_finishedAt j" "jb_process (close_exit code sg j) = jb_process j"
  "jb_permit (close_exit code sg j) = jb_permit j" "jb_status (close_exit code sg j) = jb_status j"
  by (simp_all add: close_exit_def Let_def split: option.split prod.split)

lemma inv_child_close:
  assumes "sup_inv s" and "sv_launch s = Wired"
  shows "sup_inv (child_close code sg inc now s)"
proof (cases "jb_status (sv_job s) = SRunning")
  case True
  then show ?thesis using assms close_outcome_status unfolding child_close_def Let_def
    by (simp del: insert_iff) (rule inv_end_handled; simp del: insert_iff)
next
  case False
  then have "terminal s" "jb_status (sv_job s) \<in> {SCompleted, SFailed, SCanceled}"
    using assms by (auto simp: sup_inv_def terminal_def isAsyncJobInProgress_def intro: job_status.exhaust)
  then show ?thesis using assms False by (simp add: child_close_def Let_def inv_end_handled)
qed

lemma inv_stdin: "sup_inv s \<Longrightarrow> sup_inv (stdin_error inc s)"
  by (simp add: stdin_error_def Let_def inv_on_job job_shape_def)

lemma inv_leave_queue: "sup_inv s \<Longrightarrow> sup_inv (leave_queue s)"
  by (auto simp: sup_inv_def leave_queue_def terminal_def untouched_def)

lemma inv_release: "sup_inv s \<Longrightarrow> terminal s \<Longrightarrow> sup_inv (releaseJobPermit s)"
  by (auto simp: releaseJobPermit_def sup_inv_def [of s] intro!: inv_terminal_update)

lemma release_simps [simp, sups]:
  "jb_status (sv_job (releaseJobPermit s)) = jb_status (sv_job s)" "sv_launch (releaseJobPermit s) = sv_launch s"
  "terminal (releaseJobPermit s) = terminal s" "sv_grant (releaseJobPermit s) = sv_grant s"
  "sv_chain (releaseJobPermit s) = sv_chain s" "sv_conts (releaseJobPermit s) = sv_conts s"
  "sv_closeHandled (releaseJobPermit s) = sv_closeHandled s" "sv_phase (releaseJobPermit s) = sv_phase s"
  "sv_disposed (releaseJobPermit s) = sv_disposed s" "jb_process (sv_job (releaseJobPermit s)) = jb_process (sv_job s)"
  by (simp_all add: releaseJobPermit_def terminal_def)

lemma inv_granted:
  assumes "sup_inv s" and "sv_launch s = Not_launched"
  shows "sup_inv (on_job (\<lambda>j. j\<lparr>jb_permit := True\<rparr>) (s\<lparr>sv_grant := G_done\<rparr>))"
  using assms unfolding inv_defs by simp

lemma inv_launch:
  assumes "sup_inv s" and "sv_launch s = Not_launched"
  shows "sup_inv (launch now s)"
proof (cases "jb_status (sv_job s) = SQueued")
  case True
  let ?s1 = "on_job (\<lambda>j. j\<lparr>jb_permit := True\<rparr>) (s\<lparr>sv_grant := G_done\<rparr>)"
  have "sup_inv ((on_job (\<lambda>j. j\<lparr>jb_status := SRunning\<rparr>) ?s1)\<lparr>sv_launch := Starting\<rparr>)"
    using assms True unfolding inv_defs by simp
  then show ?thesis using inv_fail_queued [OF inv_granted [OF assms]] True by (simp add: launch_def Let_def)
next
  case False
  then have "terminal (on_job (\<lambda>j. j\<lparr>jb_permit := True\<rparr>) (s\<lparr>sv_grant := G_done\<rparr>))"
    using assms by (auto simp: sup_inv_def terminal_def isAsyncJobInProgress_def)
  then show ?thesis using inv_release [OF inv_granted [OF assms]] False by (simp add: launch_def Let_def)
qed

lemma inv_launch_fails:
  assumes "sup_inv s" and "sv_launch s = Starting"
  shows "sup_inv (launch_fails x now s)"
proof -
  define f :: "job \<Rightarrow> job" where "f = (\<lambda>j. let e = launch_outcome (sv_job s) x in
    j\<lparr>jb_status := SFailed, jb_exitCode := Some (lx_exitCode e), jb_error := Some (lx_message e),
      jb_errorCategory := lx_errorCategory e, jb_retryable := lx_retryable e, jb_stderr := lx_message e,
      jb_finishedAt := Some now, jb_exited := True, jb_closeObserved := True\<rparr>)"
  have f: "jb_status (f j) = SFailed" "jb_finishedAt (f j) = Some now" "jb_process (f j) = jb_process j"
      "jb_permit (f j) = jb_permit j" for j
    by (simp_all add: f_def Let_def)
  have "terminal (on_job f (s\<lparr>sv_launch := Launch_over\<rparr>))" by (rule terminalised) (simp add: f)
  moreover have "sup_inv (on_job f (s\<lparr>sv_launch := Launch_over\<rparr>))"
    using assms unfolding inv_defs by (simp add: f)
  ultimately have "sup_inv (persistComplete (After_failed None) (emitMetrics (on_job f (s\<lparr>sv_launch := Launch_over\<rparr>))))"
    by (intro inv_finish)
  then show ?thesis by (simp add: launch_fails_def f_def Let_def)
qed

lemma inv_spawn:
  assumes "sup_inv s" and "sv_launch s = Starting"
  shows "sup_inv (launchProcessJob env r now s)"
proof -
  let ?s1 = "\<lambda>pid. note_effect Spawned (on_job (\<lambda>j. j\<lparr>jb_process := Some pid\<rparr>) s)"
  have "sup_inv ((note_effect Mark_running (?s1 pid))\<lparr>sv_launch := Marking\<rparr>)" "sup_inv ((?s1 pid)\<lparr>sv_launch := Wired\<rparr>)" for pid
    using assms unfolding inv_defs by simp_all
  then show ?thesis
    using inv_launch_fails [OF assms] by (simp add: launchProcessJob_def Let_def split: spawn_result.split)
qed

lemma inv_marked:
  assumes "sup_inv s" and "sv_launch s = Marking"
  shows "sup_inv (marked a s)"
proof -
  have wired: "sup_inv (s\<lparr>sv_launch := Wired\<rparr>)" using assms unfolding inv_defs by auto
  then have "sup_inv (on_job (mark_failed m) (s\<lparr>sv_launch := Wired\<rparr>))" for m
    by (intro inv_on_job) (simp_all add: job_shape_def mark_failed_def Let_def)
  with wired show ?thesis by (simp add: marked_def Let_def split: mark_answer.split)
qed

lemma leave_simps [simp, sups]:
  "sv_job (leave_queue s) = sv_job s" "sv_launch (leave_queue s) = sv_launch s"
  "sv_log (leave_queue s) = sv_log s" "sv_chain (leave_queue s) = sv_chain s"
  "sv_conts (leave_queue s) = sv_conts s" "sv_closeHandled (leave_queue s) = sv_closeHandled s"
  "terminal (leave_queue s) = terminal s" "sv_phase (leave_queue s) = sv_phase s"
  "sv_disposed (leave_queue s) = sv_disposed s"
  by (simp_all add: leave_queue_def terminal_def)

lemma inv_cancel:
  assumes "sup_inv s"
  shows "sup_inv (snd (cancelJob now s))"
proof (cases "jb_status (sv_job s) = SQueued")
  case True
  have l: "sv_launch s = Not_launched" using assms True by (simp add: sup_inv_def)
  let ?s1 = "on_job (\<lambda>j. j\<lparr>jb_permit := False\<rparr>) (leave_queue s)"
  have "sup_inv ?s1" using inv_leave_queue [OF assms] True l unfolding inv_defs by simp
  then have "sup_inv (releaseJobPermit (leave_queue s))"
    using inv_leave_queue [OF assms] by (simp add: releaseJobPermit_def)
  then show ?thesis using True l by (simp add: cancelJob_def Let_def inv_end)
next
  case False
  then show ?thesis using assms inv_running [OF assms]
    by (simp add: cancelJob_def Let_def inv_end inv_on_job job_shape_def)
qed

lemma inv_disposed: "sup_inv (s\<lparr>sv_disposed := True\<rparr>) = sup_inv s"
  by (simp add: inv_defs)

lemma inv_dispose_queued: "sup_inv s \<Longrightarrow> sup_inv (dispose_queued now s)"
  by (simp add: dispose_queued_def Let_def inv_disposed inv_fail_queued inv_leave_queue)

lemma terminal_finished:
  "sup_inv s \<Longrightarrow> terminal s \<Longrightarrow> jb_finishedAt (sv_job s) \<noteq> None"
  by (simp add: sup_inv_def)

lemma inv_retry_now: "sup_inv s \<Longrightarrow> sup_inv (retryTerminalPersistenceNow s)"
  using terminal_finished [of s]
  by (auto simp: retryTerminalPersistenceNow_def Let_def persistComplete_def terminal_def
      intro!: inv_push_chain inv_terminal_update)

lemma inv_dispose_running: "sup_inv s \<Longrightarrow> sup_inv (dispose_running s)"
  by (simp add: dispose_running_def Let_def inv_on_job job_shape_def)

lemma has_pid_process: "has_pid j \<Longrightarrow> jb_process j \<noteq> None"
  by (auto simp: has_pid_def split: option.splits)

lemma inv_dead: "sup_inv s \<Longrightarrow> sup_inv (dead_process now s)"
  using inv_running [of s] has_pid_process [of "sv_job s"] by (simp add: dead_process_def inv_end)

lemma inv_running_fresh: "sup_inv s \<Longrightarrow> jb_status (sv_job s) = SRunning \<Longrightarrow> \<not> jb_exited (sv_job s)"
  by (simp add: inv_defs)

lemma mismatch_never: "sup_inv s \<Longrightarrow> exited_mismatch now s = s"
  using inv_running_fresh [of s] by (auto simp: exited_mismatch_def)

lemma inv_arm: "sup_inv s \<Longrightarrow> sup_inv (armFlightCompleteForDeferral s)"
  by (auto simp: armFlightCompleteForDeferral_def Let_def writeFlightComplete_def terminal_def
      intro!: inv_push_chain inv_on_job simp: job_shape_def)

section \<open>Terminal writes and continuations\<close>

lemma schedule_fields [simp]:
  "jb_status (scheduleTerminalPersistenceRetry j) = jb_status j"
  "jb_finishedAt (scheduleTerminalPersistenceRetry j) = jb_finishedAt j"
  "jb_process (scheduleTerminalPersistenceRetry j) = jb_process j"
  "jb_permit (scheduleTerminalPersistenceRetry j) = jb_permit j"
  "jb_closeObserved (scheduleTerminalPersistenceRetry j) = jb_closeObserved j"
  "jb_kit (scheduleTerminalPersistenceRetry j) = jb_kit j"
  "jb_acknowledged (scheduleTerminalPersistenceRetry j) = jb_acknowledged j"
  "jb_hookFired (scheduleTerminalPersistenceRetry j) = jb_hookFired j"
  "jb_hasHook (scheduleTerminalPersistenceRetry j) = jb_hasHook j"
  "jb_hookOutcome (scheduleTerminalPersistenceRetry j) = jb_hookOutcome j"
  "jb_hasCleanup (scheduleTerminalPersistenceRetry j) = jb_hasCleanup j"
  "jb_cleanupFired (scheduleTerminalPersistenceRetry j) = jb_cleanupFired j"
  by (simp_all add: scheduleTerminalPersistenceRetry_def Let_def)

text \<open>An update of a terminal job that leaves its status, end, process and slot.\<close>

definition keeps_end :: "(job \<Rightarrow> job) \<Rightarrow> bool" where
  "keeps_end f \<longleftrightarrow> (\<forall>j. jb_status (f j) = jb_status j \<and> jb_finishedAt (f j) = jb_finishedAt j
     \<and> jb_process (f j) = jb_process j \<and> jb_permit (f j) = jb_permit j)"

lemma inv_keeps_end: "sup_inv s \<Longrightarrow> terminal s \<Longrightarrow> keeps_end f \<Longrightarrow> sup_inv (on_job f s) \<and> terminal (on_job f s)"
  using inv_terminal_update [of s f] terminal_finished [of s] by (auto simp: keeps_end_def terminal_def)

lemma chain_done_terminal [simp]:
  "sv_job (chain_done ok s) = sv_job s" "terminal (chain_done ok s) = terminal s" "sv_log (chain_done ok s) = sv_log s"
  "sv_closeHandled (chain_done ok s) = sv_closeHandled s" "sv_launch (chain_done ok s) = sv_launch s"
  by (simp_all add: chain_done_def terminal_def split: list.split chain_item.split)

lemma inv_chain_done: "sup_inv s \<Longrightarrow> terminal s \<Longrightarrow> sup_inv (chain_done ok s)"
  by (auto simp: chain_done_def sup_inv_def terminal_def split: list.split chain_item.split)

lemma inv_phase: "sup_inv s \<Longrightarrow> terminal s \<Longrightarrow> sv_chain s \<noteq> [] \<Longrightarrow> sup_inv (s\<lparr>sv_phase := p\<rparr>)"
  by (simp add: sup_inv_def terminal_def)

lemma chain_terminal: "sup_inv s \<Longrightarrow> sv_chain s \<noteq> [] \<Longrightarrow> terminal s"
  by (auto simp: sup_inv_def untouched_def)

lemma inv_chain_begin: "sup_inv s \<Longrightarrow> sv_chain s \<noteq> [] \<Longrightarrow> sup_inv (chain_begin env s)"
  using chain_terminal [of s]
  by (auto simp: chain_begin_def Let_def intro!: inv_chain_done inv_phase split: list.split chain_item.split)

lemma inv_persisted_again:
  assumes "sup_inv s" and "terminal s"
  shows "sup_inv (persisted_again c s)"
proof -
  have k: "keeps_end (\<lambda>j. scheduleTerminalPersistenceRetry (j\<lparr>jb_acknowledged := False\<rparr>))"
      "keeps_end (\<lambda>j. j\<lparr>jb_acknowledged := True\<rparr>)" by (simp_all add: keeps_end_def)
  show ?thesis
    using inv_keeps_end [OF assms k(1)] inv_keeps_end [OF assms k(2)]
    by (simp add: persisted_again_def Let_def inv_chain_done)
qed

lemma inv_persist_capture: "sup_inv s \<Longrightarrow> terminal s \<Longrightarrow> sv_chain s \<noteq> [] \<Longrightarrow> sup_inv (persistCapture s)"
  by (simp add: persistCapture_def Let_def inv_persisted_again inv_phase)

lemma keeps_dirty: "keeps_end (\<lambda>j. j\<lparr>jb_outputDirty := False\<rparr>)" "keeps_end (output_written b)"
    "keeps_end (\<lambda>j. j\<lparr>jb_capturePersisted := jb_capturePersisted j \<or> b\<rparr>)" "keeps_end (flight_written b)"
    "keeps_end scheduleTerminalPersistenceRetry" "keeps_end (row_settled c b)"
  by (simp_all add: keeps_end_def output_written_def flight_written_def row_settled_def)

lemma inv_chain_progressed:
  assumes "sup_inv s" and "sv_chain s \<noteq> []"
  shows "sup_inv (chain_progressed s)"
proof -
  have "terminal s" using assms by (rule chain_terminal)
  note d = inv_keeps_end [OF assms(1) this keeps_dirty(1)]
  show ?thesis using d assms(2) by (simp add: chain_progressed_def Let_def inv_persist_capture inv_phase)
qed

lemma inv_completed:
  assumes "sup_inv s" and "sv_chain s \<noteq> []"
  shows "sup_inv (completed c a s)"
proof -
  have t: "terminal s" using assms by (rule chain_terminal)
  note u = inv_keeps_end [OF assms(1) t keeps_dirty(6)] and r = inv_keeps_end [OF assms(1) t keeps_dirty(5)]
  have "sup_inv ((on_job (row_settled d ok) s)\<lparr>sv_phase := W_reconcile\<rparr>)" for d ok
    using u assms(2) by (simp add: inv_phase)
  then show ?thesis using u r by (simp add: completed_def Let_def inv_chain_done)
qed

lemma inv_chain_answer:
  assumes "sup_inv s" and "sv_phase s \<noteq> W_idle"
  shows "sup_inv (chain_answer a s)"
proof -
  have c: "sv_chain s \<noteq> []" using assms by (simp add: sup_inv_def)
  note t = chain_terminal [OF assms(1) c]
  note k = inv_keeps_end [OF assms(1) t keeps_dirty(2)] inv_keeps_end [OF assms(1) t keeps_dirty(3)]
    inv_keeps_end [OF assms(1) t keeps_dirty(4)]
  show ?thesis
    using k c by (simp add: chain_answer_def inv_chain_progressed assms(1) inv_completed inv_persist_capture
        inv_persisted_again inv_chain_done split: write_phase.split)
qed

lemma inv_settled:
  assumes "sup_inv s" and "terminal s"
  shows "sup_inv (hook_settled b f s)" "sup_inv (settleTerminalHook b f s)"
proof -
  have k: "keeps_end (\<lambda>j. j\<lparr>jb_hookOutcome := Some b\<rparr>)" by (simp add: keeps_end_def)
  note h = inv_keeps_end [OF assms k]
  then show "sup_inv (hook_settled b f s)" by (simp add: hook_settled_def then_cleanup_def inv_push_cont split: option.split)
  then show "sup_inv (settleTerminalHook b f s)"
    using assms by (simp add: settleTerminalHook_def Let_def then_cleanup_def inv_push_cont split: option.split)
qed

lemma inv_fire:
  assumes "sup_inv s" and "terminal s"
  shows "sup_inv (fireOnComplete hook s)"
proof -
  have r: "sup_inv (releaseJobPermit s)" "terminal (releaseJobPermit s)"
    using assms by (simp_all add: inv_release)
  have k: "keeps_end (\<lambda>j. j\<lparr>jb_hookFired := True\<rparr>)" by (simp add: keeps_end_def)
  note h = inv_keeps_end [OF r k] and q = inv_keeps_end [OF assms keeps_dirty(5)]
  show ?thesis
    using r h q assms by (simp add: fireOnComplete_def Let_def inv_push_cont inv_settled split: hook_result.split)
qed

lemma inv_cleanup: "sup_inv s \<Longrightarrow> terminal s \<Longrightarrow> sup_inv (artifact_cleanup live s)"
  using inv_keeps_end [of s "\<lambda>j. j\<lparr>jb_cleanupFired := True\<rparr>"] by (simp add: artifact_cleanup_def keeps_end_def)

lemma flushes_irrelevant [simp]:
  "sup_inv (s\<lparr>sv_flushes := x\<rparr>) = sup_inv s" "sup_inv (s\<lparr>sv_flushing := b\<rparr>) = sup_inv s"
  by (simp_all add: inv_defs)

lemma inv_flush: "sup_inv s \<Longrightarrow> sup_inv (maybeFlushOutput env now s)"
  by (simp add: maybeFlushOutput_def Let_def inv_on_job job_shape_def)

lemma inv_conts:
  assumes "sup_inv s" and "set ks \<subseteq> set (sv_conts s)"
  shows "sup_inv (s\<lparr>sv_conts := ks\<rparr>)"
  using assms unfolding inv_defs by auto

lemma cont_terminal: "sup_inv s \<Longrightarrow> k \<in> set (sv_conts s) \<Longrightarrow> k \<noteq> K_flush \<Longrightarrow> terminal s"
  by (auto simp: sup_inv_def untouched_def)

lemma inv_resume:
  assumes "sup_inv s" and "k = K_flush \<or> terminal s"
  shows "sup_inv (resume env hook ans now k s)"
proof -
  have f: "sup_inv (writeFlightComplete st ov s)" "sup_inv (flight_by_status s)" if "terminal s" for st ov
    using assms(1) that by (simp_all add: flight_by_status_def Let_def writeFlightComplete_def inv_push_chain)
  have ft: "terminal (writeFlightComplete st ov s) = terminal s" "terminal (flight_by_status s) = terminal s" for st ov
    by (simp_all add: flight_by_status_def Let_def writeFlightComplete_def)
  have k: "keeps_end (\<lambda>j. j\<lparr>jb_kitTerminalFinalized := True\<rparr>)" by (simp add: keeps_end_def)
  show ?thesis
  proof (cases "k = K_flush")
    case True
    then show ?thesis using assms(1) by (simp add: resume_def inv_flush)
  next
    case False
    then have t: "terminal s" using assms(2) by simp
    show ?thesis
      using f [OF t] t inv_keeps_end [OF assms(1) t k]
      by (simp add: resume_def assms(1) ft inv_fire inv_settled inv_cleanup inv_flush
          split: continuation.split after.split)
  qed
qed

lemma inv_resume_nth:
  assumes "sup_inv s" and "n < length (sv_conts s)"
  shows "sup_inv (resume env hook ans now (sv_conts s ! n) (s\<lparr>sv_conts := take n (sv_conts s) @ drop (Suc n) (sv_conts s)\<rparr>))"
proof (rule inv_resume)
  show "sup_inv (s\<lparr>sv_conts := take n (sv_conts s) @ drop (Suc n) (sv_conts s)\<rparr>)"
    using assms(1) by (rule inv_conts) (auto dest: in_set_takeD in_set_dropD)
  show "sv_conts s ! n = K_flush \<or> terminal (s\<lparr>sv_conts := take n (sv_conts s) @ drop (Suc n) (sv_conts s)\<rparr>)"
    using cont_terminal [OF assms(1) nth_mem [OF assms(2)]] by (auto simp: terminal_def)
qed

lemma inv_flush_begin: "sup_inv s \<Longrightarrow> sup_inv (flush_begin s)"
  by (simp add: flush_begin_def split: list.split prod.split)

section \<open>Every step\<close>

lemma sup_inv_step:
  assumes "sup_inv s" and "sup_apply env e s = Some s'"
  shows "sup_inv s'"
proof (cases e)
  case Hold
  then show ?thesis using assms unfolding inv_defs by (auto split: if_splits)
next
  case (Release now)
  have "sup_inv (s\<lparr>sv_grant := G_done\<rparr>)" if "jb_status (sv_job s) \<noteq> SQueued" "sv_grant s = G_held"
    using assms(1) that unfolding inv_defs by auto
  with Release assms show ?thesis by (auto split: if_splits intro!: inv_launch simp: sup_inv_def [of s])
next
  case (Queue_timeout now)
  have "sup_inv (s\<lparr>sv_grant := G_done\<rparr>)" using assms(1) unfolding inv_defs by simp
  with Queue_timeout assms show ?thesis by (auto split: if_splits intro: inv_fail_queued)
next
  case Retry_timer
  then have t: "terminal s" using assms by (auto simp: sup_inv_def untouched_def split: if_splits)
  have k: "keeps_end (\<lambda>j. j\<lparr>jb_retryTimer := False\<rparr>)" by (simp add: keeps_end_def)
  show ?thesis using Retry_timer assms inv_keeps_end [OF assms(1) t k]
    by (auto simp: persistComplete_def inv_push_chain split: if_splits)
next
  case (Grant now)
  then show ?thesis using assms inv_launch [OF assms(1)] by (auto simp: sup_inv_def [of s] split: if_splits)
next
  case (Flush_answer a)
  have "job_shape (output_written b j) = job_shape j" for b j by (simp add: job_shape_def output_written_def)
  with Flush_answer assms inv_on_job [OF assms(1), of "output_written (a \<noteq> Rejected)"] show ?thesis
    by (auto split: if_splits)
qed (use assms in \<open>auto simp: from_child_def split: if_splits
      intro: inv_spawn inv_marked inv_append inv_idle inv_child_error inv_child_close inv_stdin inv_cancel
        inv_dispose_queued inv_retry_now inv_dispose_running inv_dead inv_arm inv_chain_begin inv_chain_answer
        inv_resume_nth inv_flush_begin simp: mismatch_never\<close>)

lemma sup_inv_init: "sup_ini env s \<Longrightarrow> sup_inv s"
  by (auto simp: sup_ini_def new_sup_def new_job_def inv_defs)

interpretation sup: inv_system "sup_ini env" "sup_step env" sup_inv for env
  by unfold_locales (auto simp: sup_step_def intro: sup_inv_init sup_inv_step)

end
