(* ===== verification/Supervisor_Effects.thy ===== *)
theory Supervisor_Effects
  imports Supervisor_Invariants
begin

text \<open>
  The effects of a supervised job: which steps touch the terminal hook, the artifact cleanup and the run
  slot, that each happens at most once, and when.
\<close>

section \<open>Plain steps\<close>

text \<open>
  A plain step neither fires the hook or the cleanup nor moves the run slot; it never withdraws a close or
  a Kit job's acknowledgement, and schedules no continuation but the caller of a write or a flush.
\<close>

definition signal_effect :: "effect \<Rightarrow> bool" where
  "signal_effect x \<longleftrightarrow> x = Hook_fired \<or> x = Cleanup_fired \<or> x = Permit_released"

definition job_duties :: "job \<Rightarrow> bool \<times> bool \<times> bool option \<times> bool \<times> bool \<times> bool \<times> bool" where
  "job_duties j = (jb_hookFired j, jb_cleanupFired j, jb_hookOutcome j, jb_permit j, jb_kit j, jb_hasHook j,
     jb_hasCleanup j)"

definition plain :: "sup \<Rightarrow> sup \<Rightarrow> bool" where
  "plain s s' \<longleftrightarrow> (\<exists>xs. sv_log s' = sv_log s @ xs \<and> \<not> list_ex signal_effect xs)
     \<and> job_duties (sv_job s') = job_duties (sv_job s)
     \<and> (jb_closeObserved (sv_job s) \<longrightarrow> jb_closeObserved (sv_job s'))
     \<and> (jb_kit (sv_job s) \<and> jb_acknowledged (sv_job s) \<longrightarrow> jb_acknowledged (sv_job s'))
     \<and> (\<forall>k\<in>set (sv_conts s'). k \<in> set (sv_conts s) \<or> k = K_flush \<or> (\<exists>a b. k = K_persisted a b))
     \<and> (sv_grant s' = sv_grant s \<or> sv_grant s' = G_done)
     \<and> (jb_status (sv_job s') = SQueued \<longrightarrow> jb_status (sv_job s) = SQueued)"

named_theorems plain_intros  \<open>plain steps\<close>

lemma plain_refl [plain_intros]: "plain s s"
  by (simp add: plain_def)

lemma plain_note [plain_intros]:
  assumes "\<not> signal_effect x" and "plain s t"
  shows "plain s (note_effect x t)"
proof -
  obtain xs where "sv_log t = sv_log s @ xs" "\<not> list_ex signal_effect xs" using assms(2) by (auto simp: plain_def)
  then have "sv_log (note_effect x t) = sv_log s @ (xs @ [x])" "\<not> list_ex signal_effect (xs @ [x])"
    using assms(1) by simp_all
  then have "\<exists>xs. sv_log (note_effect x t) = sv_log s @ xs \<and> \<not> list_ex signal_effect xs" by blast
  then show ?thesis using assms(2) by (simp add: plain_def)
qed

lemma plain_chain [plain_intros]: "plain s t \<Longrightarrow> plain s (push_chain i t)"
  by (simp add: plain_def)

lemma plain_cont [plain_intros]: "plain s t \<Longrightarrow> plain s (push_cont K_flush t)"
  "plain s t \<Longrightarrow> plain s (push_cont (K_persisted a b) t)"
  by (auto simp: plain_def)

text \<open>An update that leaves the duties alone.\<close>

definition plain_update :: "(job \<Rightarrow> job) \<Rightarrow> bool" where
  "plain_update f \<longleftrightarrow> (\<forall>j. job_duties (f j) = job_duties j \<and> (jb_closeObserved j \<longrightarrow> jb_closeObserved (f j))
     \<and> (jb_kit j \<and> jb_acknowledged j \<longrightarrow> jb_acknowledged (f j))
     \<and> (jb_status (f j) = SQueued \<longrightarrow> jb_status j = SQueued))"

lemma plain_on_job [plain_intros]: "plain_update f \<Longrightarrow> plain s t \<Longrightarrow> plain s (on_job f t)"
  by (auto simp: plain_def plain_update_def job_duties_def)

lemma plain_metrics [plain_intros]: "plain s t \<Longrightarrow> plain s (emitMetrics t)"
  unfolding emitMetrics_def Let_def
  by (simp add: plain_note plain_on_job plain_update_def job_duties_def signal_effect_def)

lemma plain_persist [plain_intros]: "plain s t \<Longrightarrow> plain s (persistComplete k t)"
  by (simp add: persistComplete_def plain_chain)

lemma plain_fields [plain_intros]:
  "plain s t \<Longrightarrow> plain s (t\<lparr>sv_launch := l\<rparr>)" "plain s t \<Longrightarrow> plain s (t\<lparr>sv_phase := p\<rparr>)"
  "plain s t \<Longrightarrow> plain s (t\<lparr>sv_closeHandled := b\<rparr>)" "plain s t \<Longrightarrow> plain s (t\<lparr>sv_disposed := b\<rparr>)"
  "plain s t \<Longrightarrow> plain s (t\<lparr>sv_grant := G_done\<rparr>)" "plain s t \<Longrightarrow> plain s (t\<lparr>sv_flushes := fs\<rparr>)"
  "plain s t \<Longrightarrow> plain s (t\<lparr>sv_flushing := b\<rparr>)"
  by (simp_all add: plain_def)

lemma plain_queue [plain_intros]: "plain s t \<Longrightarrow> plain s (leave_queue t)"
  by (simp add: leave_queue_def plain_fields)

lemma plain_chain_done [plain_intros]: "plain s t \<Longrightarrow> plain s (chain_done ok t)"
  by (auto simp: chain_done_def plain_def split: list.split chain_item.split)

lemma plain_updates [simp]:
  "plain_update scheduleTerminalPersistenceRetry" "plain_update (output_written b)" "plain_update (flight_written b)"
  "plain_update (row_settled c b)" "plain_update (mark_failed m)"
  "plain_update (\<lambda>j. j\<lparr>jb_capturePersisted := jb_capturePersisted j \<or> b\<rparr>)"
  by (simp_all add: plain_update_def job_duties_def output_written_def flight_written_def row_settled_def
      mark_failed_def Let_def scheduleTerminalPersistenceRetry_def)

lemma close_plain [simp]:
  "job_duties (close_outcome code inc j) = job_duties j" "jb_closeObserved (close_outcome code inc j) = jb_closeObserved j"
  "jb_acknowledged (close_outcome code inc j) = jb_acknowledged j" "jb_kit (close_outcome code inc j) = jb_kit j"
  "jb_status (close_outcome code inc j) \<noteq> SQueued"
  by (simp_all add: close_outcome_def job_duties_def)

lemma exit_plain [simp]:
  "job_duties (close_exit code sg j) = job_duties j" "jb_closeObserved (close_exit code sg j) = jb_closeObserved j"
  "jb_acknowledged (close_exit code sg j) = jb_acknowledged j" "jb_kit (close_exit code sg j) = jb_kit j"
  by (simp_all add: close_exit_def Let_def job_duties_def split: option.split prod.split)

lemma plain_handlers [plain_intros]:
  "plain s t \<Longrightarrow> plain s (failQueuedJob r c now t)" "plain s t \<Longrightarrow> plain s (launch_fails x now t)"
  "plain s t \<Longrightarrow> plain s (idle_timeout env now t)" "plain s t \<Longrightarrow> plain s (stdin_error inc t)"
  "plain s t \<Longrightarrow> plain s (dispose_running t)" "plain s t \<Longrightarrow> plain s (dead_process now t)"
  "plain s t \<Longrightarrow> plain s (retryTerminalPersistenceNow t)" "plain s t \<Longrightarrow> plain s (maybeFlushOutput env now t)"
  by (simp_all add: failQueuedJob_def launch_fails_def idle_timeout_def stdin_error_def dispose_running_def
      dead_process_def retryTerminalPersistenceNow_def maybeFlushOutput_def Let_def plain_intros signal_effect_def
      plain_update_def job_duties_def)

lemma plain_withdraw:
  assumes "plain s t" and "\<not> jb_kit (sv_job t)"
  shows "plain s (on_job (\<lambda>j. scheduleTerminalPersistenceRetry (j\<lparr>jb_acknowledged := False\<rparr>)) t)"
proof -
  have d: "job_duties (scheduleTerminalPersistenceRetry j) = job_duties j" for j
    using plain_updates(1) by (simp add: plain_update_def)
  have "jb_kit (sv_job s) = jb_kit (sv_job t)" using assms(1) by (simp add: plain_def job_duties_def)
  then show ?thesis using assms by (simp add: plain_def d) (simp add: job_duties_def)
qed

lemma plain_writes [plain_intros]:
  "plain s t \<Longrightarrow> plain s (persisted_again c t)" "plain s t \<Longrightarrow> plain s (persistCapture t)"
  "plain s t \<Longrightarrow> plain s (completed c a t)" "plain s t \<Longrightarrow> plain s (writeFlightComplete st ov t)"
  "plain s t \<Longrightarrow> plain s (flight_by_status t)"
proof -
  have ack: "plain_update (\<lambda>j. j\<lparr>jb_acknowledged := True\<rparr>)" by (simp add: plain_update_def job_duties_def)
  show again: "plain s t \<Longrightarrow> plain s (persisted_again c t)" for s t c
    by (simp add: persisted_again_def Let_def plain_chain_done plain_withdraw plain_on_job ack)
  show "plain s t \<Longrightarrow> plain s (persistCapture t)"
    by (simp add: persistCapture_def Let_def again plain_fields plain_note signal_effect_def)
  show "plain s t \<Longrightarrow> plain s (completed c a t)"
    by (simp add: completed_def Let_def plain_chain_done plain_fields plain_on_job)
  show f: "plain s t \<Longrightarrow> plain s (writeFlightComplete st ov t)" for s t st ov
    by (simp add: writeFlightComplete_def plain_chain)
  show "plain s t \<Longrightarrow> plain s (flight_by_status t)" by (simp add: flight_by_status_def Let_def f)
qed

lemma plain_dirty [simp]: "plain_update (\<lambda>j. j\<lparr>jb_outputDirty := False\<rparr>)"
  "plain_update (\<lambda>j. j\<lparr>jb_flightArmed := True\<rparr>)" "plain_update (\<lambda>j. j\<lparr>jb_retryTimer := False\<rparr>)"
  "plain_update (\<lambda>j. j\<lparr>jb_process := p\<rparr>)" "plain_update (\<lambda>j. j\<lparr>jb_kitTerminalFinalized := True\<rparr>)"
  by (simp_all add: plain_update_def job_duties_def)

lemma plain_chain_steps [plain_intros]:
  "plain s t \<Longrightarrow> plain s (chain_begin env t)" "plain s t \<Longrightarrow> plain s (chain_progressed t)"
  "plain s t \<Longrightarrow> plain s (chain_answer a t)" "plain s t \<Longrightarrow> plain s (flush_begin t)"
  "plain s t \<Longrightarrow> plain s (armFlightCompleteForDeferral t)"
proof -
  show "plain s t \<Longrightarrow> plain s (chain_begin env t)"
    by (simp add: chain_begin_def Let_def plain_chain_done plain_fields plain_note signal_effect_def
        split: list.split chain_item.split)
  show p: "plain s t \<Longrightarrow> plain s (chain_progressed t)"
    by (simp add: chain_progressed_def Let_def plain_writes plain_fields plain_note plain_on_job signal_effect_def)
  show "plain s t \<Longrightarrow> plain s (chain_answer a t)"
    by (simp add: chain_answer_def p plain_writes plain_on_job plain_chain_done split: write_phase.split)
  show "plain s t \<Longrightarrow> plain s (flush_begin t)"
    by (simp add: flush_begin_def plain_fields plain_note signal_effect_def split: list.split prod.split)
  show "plain s t \<Longrightarrow> plain s (armFlightCompleteForDeferral t)"
    by (simp add: armFlightCompleteForDeferral_def Let_def plain_writes plain_on_job)
qed

lemma plain_child [plain_intros]:
  "plain s t \<Longrightarrow> plain s (appendOutput env st b txt now t)" "plain s t \<Longrightarrow> plain s (launchProcessJob env r now t)"
  "plain s t \<Longrightarrow> plain s (marked m t)" "plain s t \<Longrightarrow> plain s (child_error x now t)"
  "plain s t \<Longrightarrow> plain s (child_close code sg inc now t)" "plain s t \<Longrightarrow> plain s (dispose_queued now t)"
proof -
  have app: "plain_update (\<lambda>j. (case st of Stdout \<Rightarrow> j\<lparr>jb_stdout := jb_stdout j @ txt\<rparr>
      | Stderr \<Rightarrow> j\<lparr>jb_stderr := jb_stderr j @ txt\<rparr>)\<lparr>jb_outputDirty := True\<rparr>)"
    by (cases st) (simp_all add: plain_update_def job_duties_def)
  show "plain s t \<Longrightarrow> plain s (appendOutput env st b txt now t)"
    by (simp add: appendOutput_def Let_def plain_cont plain_on_job app plain_persist plain_metrics plain_note
        signal_effect_def plain_update_def job_duties_def)
  show "plain s t \<Longrightarrow> plain s (launchProcessJob env r now t)"
    by (simp add: launchProcessJob_def Let_def plain_handlers plain_fields plain_note plain_on_job signal_effect_def
        split: spawn_result.split)
  show "plain s t \<Longrightarrow> plain s (marked m t)"
    by (simp add: marked_def Let_def plain_fields plain_note plain_on_job signal_effect_def split: mark_answer.split)
  show "plain s t \<Longrightarrow> plain s (child_error x now t)"
    by (simp add: child_error_def Let_def plain_fields plain_persist plain_metrics plain_on_job plain_update_def job_duties_def)
  show "plain s t \<Longrightarrow> plain s (child_close code sg inc now t)"
  proof -
    assume p: "plain s t"
    let ?closed = "\<lambda>j :: job. j\<lparr>jb_exited := True, jb_closeObserved := True\<rparr>"
    have "job_duties (?closed j) = job_duties j" "job_duties (j\<lparr>jb_finishedAt := f\<rparr>) = job_duties j" for j :: job and f
      by (simp_all add: job_duties_def)
    then have u: "plain_update (\<lambda>j. close_outcome code inc ((close_exit code sg (?closed j))\<lparr>jb_finishedAt := Some now\<rparr>))"
      by (simp add: plain_update_def)
    have v: "plain_update (\<lambda>j. (?closed j)\<lparr>jb_exitCode := (case jb_exitCode j of None \<Rightarrow> code | Some c \<Rightarrow> Some c),
        jb_finishedAt := Some (nullish (jb_finishedAt j) now)\<rparr>)"
      by (simp add: plain_update_def job_duties_def)
    show ?thesis using plain_on_job [OF u p] plain_on_job [OF v p] unfolding child_close_def Let_def
      by (simp add: plain_fields plain_persist plain_metrics)
  qed
  show "plain s t \<Longrightarrow> plain s (dispose_queued now t)"
    by (simp add: dispose_queued_def Let_def plain_handlers plain_fields plain_queue)
qed

section \<open>Terminal jobs\<close>

text \<open>Once terminal, a job keeps its status, its end and its process.\<close>

definition job_end :: "job \<Rightarrow> job_status \<times> time option \<times> nat option option" where
  "job_end j = (jb_status j, jb_finishedAt j, jb_process j)"

lemma ends_metrics [simp]: "job_end (sv_job (emitMetrics s)) = job_end (sv_job s)"
  by (simp add: emitMetrics_def Let_def job_end_def)

lemma ends_persist [simp]: "sv_job (persistComplete k s) = sv_job s" "sv_job (writeFlightComplete st ov s) = sv_job s"
    "sv_job (flight_by_status s) = sv_job s"
  by (simp_all add: persistComplete_def writeFlightComplete_def flight_by_status_def Let_def)

lemma ends_release [simp]: "job_end (sv_job (releaseJobPermit s)) = job_end (sv_job s)"
  by (simp add: releaseJobPermit_def job_end_def)

lemma ends_keeps: "keeps_end f \<Longrightarrow> job_end (f j) = job_end j"
  by (simp add: keeps_end_def job_end_def)

lemma ends_writes [simp]:
  "job_end (sv_job (persisted_again c s)) = job_end (sv_job s)" "job_end (sv_job (persistCapture s)) = job_end (sv_job s)"
  "job_end (sv_job (chain_begin env s)) = job_end (sv_job s)" "job_end (sv_job (chain_progressed s)) = job_end (sv_job s)"
  "job_end (sv_job (completed c a s)) = job_end (sv_job s)" "job_end (sv_job (chain_answer a s)) = job_end (sv_job s)"
proof -
  have again: "job_end (sv_job (persisted_again c s)) = job_end (sv_job s)" for c s
    by (simp add: persisted_again_def Let_def job_end_def)
  have capture: "job_end (sv_job (persistCapture s)) = job_end (sv_job s)" for s
    by (simp add: persistCapture_def Let_def again)
  have dirty: "job_end (j\<lparr>jb_outputDirty := False\<rparr>) = job_end j"
    "job_end (j\<lparr>jb_capturePersisted := b\<rparr>) = job_end j" for j :: job and b
    by (simp_all add: job_end_def)
  have progressed: "job_end (sv_job (chain_progressed s)) = job_end (sv_job s)" for s
    by (simp add: chain_progressed_def Let_def capture dirty)
  have completed: "job_end (sv_job (completed c a s)) = job_end (sv_job s)" for c a s
    by (simp add: completed_def Let_def ends_keeps keeps_dirty)
  show "job_end (sv_job (persisted_again c s)) = job_end (sv_job s)" by (rule again)
  show "job_end (sv_job (persistCapture s)) = job_end (sv_job s)" by (rule capture)
  show "job_end (sv_job (chain_begin env s)) = job_end (sv_job s)"
    by (simp add: chain_begin_def Let_def split: list.split chain_item.split)
  show "job_end (sv_job (chain_progressed s)) = job_end (sv_job s)" by (rule progressed)
  show "job_end (sv_job (completed c a s)) = job_end (sv_job s)" by (rule completed)
  show "job_end (sv_job (chain_answer a s)) = job_end (sv_job s)"
    by (simp add: chain_answer_def progressed completed again capture dirty ends_keeps keeps_dirty split: write_phase.split)
qed

lemma ends_fire [simp]:
  "job_end (sv_job (fireOnComplete hook s)) = job_end (sv_job s)"
  "job_end (sv_job (hook_settled b f s)) = job_end (sv_job s)"
  "job_end (sv_job (settleTerminalHook b f s)) = job_end (sv_job s)"
  "job_end (sv_job (artifact_cleanup live s)) = job_end (sv_job s)"
  "job_end (sv_job (maybeFlushOutput env now s)) = job_end (sv_job s)"
proof -
  have j: "job_end (j\<lparr>jb_hookFired := b1\<rparr>) = job_end j" "job_end (j\<lparr>jb_hookOutcome := b2\<rparr>) = job_end j"
      "job_end (j\<lparr>jb_cleanupFired := b1\<rparr>) = job_end j" "job_end (j\<lparr>jb_outputDirty := b1\<rparr>) = job_end j"
      "job_end (j\<lparr>jb_lastFlushAt := n\<rparr>) = job_end j" for j :: job and b1 b2 n
    by (simp_all add: job_end_def)
  show h: "job_end (sv_job (hook_settled b f s)) = job_end (sv_job s)" for b f s
    by (simp add: hook_settled_def then_cleanup_def j split: option.split)
  show u: "job_end (sv_job (settleTerminalHook b f s)) = job_end (sv_job s)" for b f s
    by (simp add: settleTerminalHook_def Let_def h then_cleanup_def split: option.split)
  show "job_end (sv_job (fireOnComplete hook s)) = job_end (sv_job s)"
    by (simp add: fireOnComplete_def Let_def j u ends_keeps keeps_dirty split: hook_result.split)
  show "job_end (sv_job (artifact_cleanup live s)) = job_end (sv_job s)" by (simp add: artifact_cleanup_def j)
  show "job_end (sv_job (maybeFlushOutput env now s)) = job_end (sv_job s)"
    by (simp add: maybeFlushOutput_def Let_def j)
qed

lemma ends_resume [simp]: "job_end (sv_job (resume env hook ans now k s)) = job_end (sv_job s)"
proof -
  have "job_end (j\<lparr>jb_kitTerminalFinalized := True\<rparr>) = job_end j" for j :: job by (simp add: job_end_def)
  then show ?thesis by (simp add: resume_def split: continuation.split after.split)
qed

lemma end_fields:
  "job_end j = job_end j' \<longleftrightarrow> jb_status j = jb_status j' \<and> jb_finishedAt j = jb_finishedAt j' \<and> jb_process j = jb_process j'"
  by (auto simp: job_end_def)

lemma ended_step:
  assumes "sup_inv s" and "terminal s" and "sup_apply env e s = Some s'"
  shows "job_end (sv_job s') = job_end (sv_job s)"
proof -
  have st: "jb_status (sv_job s) \<noteq> SQueued" "jb_status (sv_job s) \<noteq> SRunning" "sv_launch s \<noteq> Starting"
    "\<exists>f. jb_finishedAt (sv_job s) = Some f"
    using assms(1,2) by (auto simp: sup_inv_def terminal_def isAsyncJobInProgress_def)
  show ?thesis
  proof (cases e)
    case (Mark_answered a)
    then show ?thesis using assms(3) by (auto simp: marked_def mark_failed_def Let_def end_fields split: if_splits mark_answer.split)
  next
    case (Data str b chunk now)
    then show ?thesis using assms(3) st
      by (cases str) (auto simp: from_child_def appendOutput_def Let_def end_fields split: if_splits)
  next
    case (Child_close code sg inc now)
    then show ?thesis using assms(3) st by (auto simp: from_child_def child_close_def Let_def end_fields split: if_splits)
  next
    case Begin_flush
    then show ?thesis using assms(3) by (auto simp: flush_begin_def split: if_splits list.split prod.split)
  next
    case (Store_answer a)
    then show ?thesis using assms(3) by (auto split: if_splits)
  next
    case (Resume n hook ans now)
    then show ?thesis using assms(3) by (auto split: if_splits)
  next
    case Begin_write
    then show ?thesis using assms(3) by (auto split: if_splits)
  qed (use assms(3) st in \<open>auto simp: from_child_def launch_def Let_def idle_timeout_def child_error_def
        stdin_error_def cancelJob_def dispose_queued_def failQueuedJob_def leave_queue_def
        retryTerminalPersistenceNow_def dispose_running_def dead_process_def exited_mismatch_def
        armFlightCompleteForDeferral_def output_written_def end_fields releaseJobPermit_def
        split: if_splits\<close>)
qed

end
