(* ===== verification/Supervisor_Once.thy ===== *)
theory Supervisor_Once
  imports Supervisor_Effects
begin

text \<open>
  Each terminal effect of a supervised job happens at most once, and the ones that need the process gone
  wait for it: the artifact cleanup always, the hook and the release of the run slot of a Kit job.
\<close>

section \<open>Which steps are plain\<close>

lemma plain_output [simp]: "plain_update (output_written b)" "plain_update (\<lambda>j. j\<lparr>jb_lastFlushAt := n\<rparr>)"
  by (simp_all add: plain_update_def job_duties_def output_written_def)

lemma plain_mismatch: "plain s t \<Longrightarrow> plain s (exited_mismatch now t)"
  by (simp add: exited_mismatch_def plain_persist plain_metrics plain_on_job plain_update_def job_duties_def)

lemma plain_retry_timer: "plain s (persistComplete After_retry (on_job (\<lambda>j. j\<lparr>jb_retryTimer := False\<rparr>) s))"
  by (rule plain_persist, rule plain_on_job) (simp_all add: plain_refl)

lemma plain_flush_answer:
  "plain s ((on_job (output_written b) s)\<lparr>sv_flushes := fs, sv_flushing := c\<rparr>)"
proof -
  have "plain s (on_job (output_written b) s)" by (rule plain_on_job) (simp_all add: plain_refl)
  then show ?thesis by (simp add: plain_def)
qed

lemmas plain_here = plain_handlers [OF plain_refl] plain_writes [OF plain_refl] plain_chain_steps [OF plain_refl]
  plain_child [OF plain_refl] plain_fields [OF plain_refl]

text \<open>The events that move the run slot or run a continuation.\<close>

definition slot_event :: "sup_event \<Rightarrow> bool" where
  "slot_event e \<longleftrightarrow> (\<exists>t. e = Grant t \<or> e = Release t \<or> e = Cancel t) \<or> e = Hold \<or> (\<exists>n h a t. e = Resume n h a t)"

lemma plain_step:
  assumes "sup_apply env e s = Some s'" and "\<not> slot_event e"
  shows "plain s s'"
proof (cases e)
  case (Data st b chunk now)
  then show ?thesis using assms(1) by (auto simp: from_child_def plain_here plain_refl split: if_splits)
next
  case (Flush_answer a)
  then show ?thesis using assms(1) by (auto simp: plain_flush_answer split: if_splits)
next
  case Retry_timer
  then show ?thesis using assms(1) by (auto simp: plain_retry_timer split: if_splits)
next
  case (Queue_timeout now)
  then show ?thesis using assms(1) plain_handlers(1) [OF plain_fields(5) [OF plain_refl]] by (auto split: if_splits)
next
  case (Mismatch now)
  then show ?thesis using assms(1) plain_mismatch [OF plain_refl] by auto
qed (use assms in \<open>auto simp: slot_event_def from_child_def plain_here plain_refl split: if_splits\<close>)

section \<open>The account of the effects\<close>

text \<open>What a continuation says of the process: whether it lived when the hook was due.\<close>

fun cont_live :: "continuation \<Rightarrow> bool option" where
  "cont_live (K_mark f) = f"
| "cont_live (K_cleanup live) = Some live"
| "cont_live k = None"

definition once :: "sup \<Rightarrow> bool" where
  "once s \<longleftrightarrow> count_list (sv_log s) Hook_fired = of_bool (jb_hookFired (sv_job s))
     \<and> count_list (sv_log s) Cleanup_fired = of_bool (jb_cleanupFired (sv_job s))
     \<and> count_list (sv_log s) Permit_released + of_bool (jb_permit (sv_job s)) \<le> 1
     \<and> (sv_grant s = G_waiting \<longrightarrow> count_list (sv_log s) Permit_released = 0)
     \<and> (sv_grant s = G_held \<and> jb_status (sv_job s) = SQueued \<longrightarrow> jb_permit (sv_job s))"

definition orderly :: "sup \<Rightarrow> bool" where
  "orderly s \<longleftrightarrow> (jb_cleanupFired (sv_job s) \<longrightarrow> \<not> live_process (sv_job s))
     \<and> (\<forall>k\<in>set (sv_conts s). cont_live k = Some False \<longrightarrow> \<not> live_process (sv_job s))
     \<and> (jb_kit (sv_job s) \<and> jb_hookFired (sv_job s) \<longrightarrow> \<not> live_process (sv_job s) \<and> jb_acknowledged (sv_job s))
     \<and> (jb_kit (sv_job s) \<and> live_process (sv_job s) \<longrightarrow> jb_permit (sv_job s))"

lemma count_quiet: "\<not> list_ex signal_effect xs \<Longrightarrow> signal_effect x \<Longrightarrow> count_list xs x = 0"
  by (induction xs) auto

lemma signals [simp]: "signal_effect Hook_fired" "signal_effect Cleanup_fired" "signal_effect Permit_released"
  by (simp_all add: signal_effect_def)


lemma once_plain:
  assumes "once s" and "plain s s'"
  shows "once s'"
proof -
  obtain xs where xs: "sv_log s' = sv_log s @ xs" "\<not> list_ex signal_effect xs" using assms(2) by (auto simp: plain_def)
  have "count_list (sv_log s') x = count_list (sv_log s) x" if "signal_effect x" for x
    using xs count_quiet [OF xs(2) that] by simp
  moreover have "jb_hookFired (sv_job s') = jb_hookFired (sv_job s)" "jb_cleanupFired (sv_job s') = jb_cleanupFired (sv_job s)"
    "jb_permit (sv_job s') = jb_permit (sv_job s)" using assms(2) by (simp_all add: plain_def job_duties_def)
  moreover have "sv_grant s' = sv_grant s \<or> sv_grant s' = G_done" "jb_status (sv_job s') = SQueued \<longrightarrow> jb_status (sv_job s) = SQueued"
    using assms(2) by (simp_all add: plain_def)
  ultimately show ?thesis using assms(1) unfolding once_def by auto
qed

text \<open>The process appears only while the job is running.\<close>

lemma queued_process:
  "jb_process (sv_job (failQueuedJob r c now s)) = jb_process (sv_job s)"
  "jb_process (sv_job (launch now s)) = jb_process (sv_job s)"
  "jb_process (sv_job (snd (cancelJob now s))) = jb_process (sv_job s)"
  "jb_process (sv_job (dispose_queued now s)) = jb_process (sv_job s)"
  "jb_process (sv_job (armFlightCompleteForDeferral s)) = jb_process (sv_job s)"
  "jb_process (sv_job (dispose_running s)) = jb_process (sv_job s)"
  "jb_process (sv_job (retryTerminalPersistenceNow s)) = jb_process (sv_job s)"
  "jb_process (sv_job (dead_process now s)) = jb_process (sv_job s)"
  "jb_process (sv_job (maybeFlushOutput env now s)) = jb_process (sv_job s)"
  "jb_process (sv_job (flush_begin s)) = jb_process (sv_job s)"
  "jb_process (output_written b j) = jb_process j"
proof -
  have m: "jb_process (sv_job (emitMetrics s)) = jb_process (sv_job s)" for s
    using ends_metrics unfolding end_fields by blast
  have f: "jb_process (sv_job (failQueuedJob r c now s)) = jb_process (sv_job s)" for r c s
    by (simp add: failQueuedJob_def Let_def m)
  have l: "sv_job (leave_queue s) = sv_job s" by (simp add: leave_queue_def)
  show "jb_process (sv_job (failQueuedJob r c now s)) = jb_process (sv_job s)" by (rule f)
  show "jb_process (sv_job (launch now s)) = jb_process (sv_job s)" by (simp add: launch_def Let_def f)
  show "jb_process (sv_job (snd (cancelJob now s))) = jb_process (sv_job s)" by (simp add: cancelJob_def Let_def m l)
  show "jb_process (sv_job (dispose_queued now s)) = jb_process (sv_job s)" by (simp add: dispose_queued_def Let_def f leave_queue_def)
  show "jb_process (sv_job (armFlightCompleteForDeferral s)) = jb_process (sv_job s)"
    by (simp add: armFlightCompleteForDeferral_def Let_def)
  show "jb_process (sv_job (dispose_running s)) = jb_process (sv_job s)" by (simp add: dispose_running_def Let_def)
  show "jb_process (sv_job (retryTerminalPersistenceNow s)) = jb_process (sv_job s)"
    by (simp add: retryTerminalPersistenceNow_def Let_def)
  show "jb_process (sv_job (dead_process now s)) = jb_process (sv_job s)" by (simp add: dead_process_def m)
  show "jb_process (sv_job (maybeFlushOutput env now s)) = jb_process (sv_job s)"
    using ends_fire(5) unfolding end_fields by blast
  show "jb_process (sv_job (flush_begin s)) = jb_process (sv_job s)"
    by (simp add: flush_begin_def split: list.split prod.split)
  show "jb_process (output_written b j) = jb_process j" by (simp add: output_written_def)
qed

lemma process_appears:
  assumes "sup_inv s" and "sup_apply env e s = Some s'" and "jb_process (sv_job s') \<noteq> jb_process (sv_job s)"
  shows "jb_status (sv_job s) = SRunning"
proof (rule ccontr)
  assume r: "jb_status (sv_job s) \<noteq> SRunning"
  show False
  proof (cases "terminal s")
    case True
    from ended_step [OF assms(1) True assms(2)] show False using assms(3) by (simp add: end_fields)
  next
    case False
    then have q: "jb_status (sv_job s) = SQueued" "untouched s"
      using r assms(1) by (auto simp: terminal_def isAsyncJobInProgress_def sup_inv_def)
    then have n: "sv_launch s = Not_launched" using assms(1) inv_queued by blast
    have c: "sv_conts s ! n = K_flush" if "n < length (sv_conts s)" for n
      using q(2) that by (simp add: untouched_def)
    show False using assms(2,3) n q(2) mismatch_never [OF assms(1)]
      by (cases e) (auto simp: queued_process untouched_def from_child_def resume_def c split: if_splits)
  qed
qed

lemma orderly_plain:
  assumes "sup_inv s" and "orderly s" and "plain s s'"
    and "jb_process (sv_job s') \<noteq> jb_process (sv_job s) \<Longrightarrow> jb_status (sv_job s) = SRunning"
  shows "orderly s'"
proof -
  let ?j = "sv_job s" and ?j' = "sv_job s'"
  have same: "jb_hookFired ?j' = jb_hookFired ?j" "jb_cleanupFired ?j' = jb_cleanupFired ?j"
      "jb_permit ?j' = jb_permit ?j" "jb_kit ?j' = jb_kit ?j"
    and ack: "jb_kit ?j \<Longrightarrow> jb_acknowledged ?j \<Longrightarrow> jb_acknowledged ?j'"
    and close: "jb_closeObserved ?j \<Longrightarrow> jb_closeObserved ?j'"
    and conts: "\<And>k. k \<in> set (sv_conts s') \<Longrightarrow> k \<in> set (sv_conts s) \<or> k = K_flush \<or> (\<exists>a b. k = K_persisted a b)"
    using assms(3) by (auto simp: plain_def job_duties_def)
  show ?thesis
  proof (cases "jb_process ?j' = jb_process ?j")
    case True
    then have live: "live_process ?j' \<Longrightarrow> live_process ?j" using close by (auto simp: live_process_def)
    have "\<not> live_process ?j'" if "k \<in> set (sv_conts s')" "cont_live k = Some False" for k
      using conts [OF that(1)] that(2) assms(2) live by (auto simp: orderly_def)
    then show ?thesis using assms(2) live same ack unfolding orderly_def by blast
  next
    case False
    then have r: "untouched s" "jb_permit ?j" using assms(1,4) by (auto simp: sup_inv_def terminal_def isAsyncJobInProgress_def)
    then have "\<forall>k\<in>set (sv_conts s'). cont_live k = None" using conts by (force simp: untouched_def)
    with r same show ?thesis by (simp add: orderly_def untouched_def)
  qed
qed

section \<open>The run slot\<close>

lemma once_quiet: "once s \<Longrightarrow> sv_log t = sv_log s \<Longrightarrow> jb_hookFired (sv_job t) = jb_hookFired (sv_job s)
   \<Longrightarrow> jb_cleanupFired (sv_job t) = jb_cleanupFired (sv_job s) \<Longrightarrow> jb_permit (sv_job t) = jb_permit (sv_job s)
   \<Longrightarrow> sv_grant t = sv_grant s \<or> sv_grant t = G_done \<Longrightarrow> (jb_status (sv_job t) = SQueued \<longrightarrow> jb_status (sv_job s) = SQueued)
   \<Longrightarrow> once t"
  unfolding once_def by auto

lemma once_release:
  assumes "once s" and "sup_inv s" and "sv_grant s = G_held \<longrightarrow> jb_status (sv_job s) \<noteq> SQueued"
  shows "once (releaseJobPermit s)"
proof -
  have "sv_grant s = G_waiting \<longrightarrow> \<not> jb_permit (sv_job s)" using assms(2) by (simp add: sup_inv_def)
  then show ?thesis using assms(1,3) by (auto simp: releaseJobPermit_def once_def)
qed

lemma once_launch:
  assumes "once s" and "sup_inv s" and "sv_grant s = G_waiting \<or> (sv_grant s = G_held \<and> jb_status (sv_job s) = SQueued)"
  shows "once (launch now s)"
proof -
  let ?s1 = "on_job (\<lambda>j. j\<lparr>jb_permit := True\<rparr>) (s\<lparr>sv_grant := G_done\<rparr>)"
  have o: "once ?s1" using assms unfolding once_def by auto
  have "sv_launch s = Not_launched" using assms(2,3) unfolding sup_inv_def by auto
  then have i: "sup_inv ?s1" using assms(2) by (rule inv_granted [rotated])
  have "once (failQueuedJob r c now ?s1)" for r c by (rule once_plain [OF o]) (rule plain_here)
  moreover have "once (releaseJobPermit ?s1)" by (rule once_release [OF o i]) simp
  moreover have "once ((on_job (\<lambda>j. j\<lparr>jb_status := SRunning\<rparr>) ?s1)\<lparr>sv_launch := Starting\<rparr>)" if "jb_status (sv_job s) = SQueued"
    using that by (intro once_quiet [OF o]) simp_all
  ultimately show ?thesis by (simp add: launch_def Let_def)
qed

definition late_fields :: "job \<Rightarrow> bool \<times> bool \<times> bool" where
  "late_fields j = (jb_kit j, jb_hookFired j, jb_acknowledged j)"

lemma late_metrics [simp]: "late_fields (sv_job (emitMetrics s)) = late_fields (sv_job s)"
  by (simp add: emitMetrics_def Let_def late_fields_def)

lemma late_release [simp]: "late_fields (sv_job (releaseJobPermit s)) = late_fields (sv_job s)"
  by (simp add: releaseJobPermit_def late_fields_def)

lemma late_launch: "late_fields (sv_job (launch now s)) = late_fields (sv_job s)"
proof -
  have u: "late_fields (j\<lparr>jb_permit := True\<rparr>) = late_fields j" "late_fields (j\<lparr>jb_status := st\<rparr>) = late_fields j"
      "late_fields (j\<lparr>jb_exitCode := c, jb_error := m, jb_finishedAt := f, jb_exited := b, jb_closeObserved := b\<rparr>)
        = late_fields j"
    for j :: job and st c m f b by (simp_all add: late_fields_def)
  have "late_fields (sv_job (failQueuedJob r c now s)) = late_fields (sv_job s)" for r c s
    by (simp add: failQueuedJob_def Let_def) (simp add: late_fields_def)
  then show ?thesis by (simp add: launch_def Let_def u)
qed

lemma late_cancel: "jb_status (sv_job s) = SQueued \<Longrightarrow> late_fields (sv_job (snd (cancelJob now s))) = late_fields (sv_job s)"
proof -
  have l: "sv_job (leave_queue s) = sv_job s" by (simp add: leave_queue_def)
  assume "jb_status (sv_job s) = SQueued"
  then show ?thesis
    by (simp add: cancelJob_def Let_def) (simp add: late_fields_def releaseJobPermit_def l)
qed

lemma orderly_unborn:
  assumes "jb_process (sv_job s) = None" and "jb_kit (sv_job s) \<and> jb_hookFired (sv_job s) \<longrightarrow> jb_acknowledged (sv_job s)"
  shows "orderly s"
  using assms by (simp add: orderly_def live_process_def)

lemma plain_cancel:
  assumes "jb_status (sv_job s) \<noteq> SQueued"
  shows "plain s (snd (cancelJob now s))"
  using assms by (simp add: cancelJob_def Let_def plain_persist plain_note plain_on_job plain_refl signal_effect_def
      plain_update_def job_duties_def)

lemma once_cancel:
  assumes "once s" and "sup_inv s"
  shows "once (snd (cancelJob now s))"
proof (cases "jb_status (sv_job s) = SQueued")
  case True
  let ?f = "\<lambda>j :: job. j\<lparr>jb_canceled := True, jb_status := SCanceled, jb_finishedAt := Some now, jb_exited := True,
    jb_closeObserved := True\<rparr>"
  have "once (on_job ?f (releaseJobPermit (leave_queue s)))"
    using assms(1) by (auto simp: once_def releaseJobPermit_def leave_queue_def)
  from once_plain [OF this plain_persist [OF plain_metrics [OF plain_refl]]] True show ?thesis
    by (simp add: cancelJob_def Let_def)
next
  case False
  from once_plain [OF assms(1) plain_cancel [OF False]] show ?thesis .
qed

section \<open>The hook and the cleanup\<close>

text \<open>The facts of a finished job that the continuations keep.\<close>

definition accounted :: "sup \<Rightarrow> bool" where
  "accounted s \<longleftrightarrow> sup_inv s \<and> terminal s \<and> once s \<and> orderly s"

lemma accounted_cont:
  assumes "accounted s" and "cont_live k = Some False \<longrightarrow> \<not> live_process (sv_job s)"
  shows "accounted (push_cont k s)"
proof -
  have "once (push_cont k s)" using assms(1) by (simp add: accounted_def once_def)
  then show ?thesis using assms by (auto simp: accounted_def inv_push_cont orderly_def)
qed

lemma accounted_plain:
  assumes "accounted s" and "plain s t" and "sup_inv t" and "job_end (sv_job t) = job_end (sv_job s)"
  shows "accounted t"
proof -
  have "once t" using once_plain [OF _ assms(2)] assms(1) by (simp add: accounted_def)
  moreover have "orderly t"
    using orderly_plain [OF _ _ assms(2)] assms(1,4) by (simp add: accounted_def end_fields)
  moreover have "terminal t" using assms(1,4) by (simp add: accounted_def terminal_def end_fields)
  ultimately show ?thesis using assms(3) by (simp add: accounted_def)
qed

lemma accounted_release:
  assumes "accounted s" and "jb_kit (sv_job s) \<longrightarrow> \<not> live_process (sv_job s)"
  shows "accounted (releaseJobPermit s)"
proof -
  have t: "sup_inv s" "terminal s" "once s" "orderly s" using assms(1) by (simp_all add: accounted_def)
  have q: "jb_status (sv_job s) \<noteq> SQueued" using t(2) by (auto simp: terminal_def isAsyncJobInProgress_def)
  have "orderly (releaseJobPermit s)"
    using t(4) assms(2) by (cases "jb_kit (sv_job s)") (simp_all add: orderly_def releaseJobPermit_def live_process_def)
  with t once_release [OF t(3,1)] q inv_release [OF t(1,2)] show ?thesis by (simp add: accounted_def)
qed

lemma accounted_fired:
  assumes "accounted s" and "\<not> jb_hookFired (sv_job s)"
    and "jb_kit (sv_job s) \<longrightarrow> \<not> live_process (sv_job s) \<and> jb_acknowledged (sv_job s)"
  shows "accounted (note_effect Hook_fired (on_job (\<lambda>j. j\<lparr>jb_hookFired := True\<rparr>) s))"
proof -
  have t: "sup_inv s" "terminal s" "once s" "orderly s" using assms(1) by (simp_all add: accounted_def)
  have k: "keeps_end (\<lambda>j. j\<lparr>jb_hookFired := True\<rparr>)" by (simp add: keeps_end_def)
  have "once (note_effect Hook_fired (on_job (\<lambda>j. j\<lparr>jb_hookFired := True\<rparr>) s))"
    using t(3) assms(2) by (simp add: once_def)
  moreover have "orderly (note_effect Hook_fired (on_job (\<lambda>j. j\<lparr>jb_hookFired := True\<rparr>) s))"
    using t(4) assms(3) by (simp add: orderly_def live_process_def)
  ultimately show ?thesis using inv_keeps_end [OF t(1,2) k] by (simp add: accounted_def)
qed

lemma accounted_settled:
  assumes "accounted s" and "f = Some False \<longrightarrow> \<not> live_process (sv_job s)"
  shows "accounted (hook_settled b f s)" "accounted (settleTerminalHook b f s)"
proof -
  have t: "sup_inv s" "terminal s" using assms(1) by (simp_all add: accounted_def)
  have c: "accounted (then_cleanup f u)" if "accounted u" "live_process (sv_job u) = live_process (sv_job s)" for u
    using that assms(2) by (auto simp: then_cleanup_def accounted_cont split: option.split)
  have o: "accounted (on_job (\<lambda>j. j\<lparr>jb_hookOutcome := Some b\<rparr>) s)"
  proof -
    have "keeps_end (\<lambda>j. j\<lparr>jb_hookOutcome := Some b\<rparr>)" by (simp add: keeps_end_def)
    with inv_keeps_end [OF t] assms(1) show ?thesis
      by (simp add: accounted_def once_def orderly_def live_process_def)
  qed
  show h: "accounted (hook_settled b f s)" using c [OF o] by (simp add: hook_settled_def live_process_def)
  have "accounted (note_effect Write_finalized s)"
    by (rule accounted_plain [OF assms(1)]) (simp_all add: plain_note plain_refl signal_effect_def t)
  then have "accounted (push_cont (K_mark f) (note_effect Write_finalized s))"
    using assms(2) by (simp add: accounted_cont)
  then show "accounted (settleTerminalHook b f s)"
    using h c [OF assms(1)] by (simp add: settleTerminalHook_def Let_def)
qed

lemma accounted_fire:
  assumes "accounted s"
  shows "accounted (fireOnComplete hook s)"
proof -
  let ?j = "sv_job s"
  have rt: "accounted (on_job scheduleTerminalPersistenceRetry s)"
  proof (rule accounted_plain [OF assms])
    show "plain s (on_job scheduleTerminalPersistenceRetry s)" by (rule plain_on_job) (simp_all add: plain_refl)
    show "sup_inv (on_job scheduleTerminalPersistenceRetry s)"
      using inv_keeps_end [OF _ _ keeps_dirty(5)] assms by (simp add: accounted_def)
    show "job_end (sv_job (on_job scheduleTerminalPersistenceRetry s)) = job_end ?j" by (simp add: end_fields)
  qed
  show ?thesis
  proof (cases "jb_kit ?j \<and> (live_process ?j \<or> \<not> jb_acknowledged ?j)")
    case True
    then show ?thesis using rt assms by (auto simp: fireOnComplete_def Let_def)
  next
    case False
    let ?s1 = "releaseJobPermit s"
    have a: "accounted ?s1" using False accounted_release [OF assms] by blast
    have j: "jb_kit (sv_job ?s1) = jb_kit ?j" "jb_acknowledged (sv_job ?s1) = jb_acknowledged ?j"
      "live_process (sv_job ?s1) = live_process ?j" "jb_hookFired (sv_job ?s1) = jb_hookFired ?j"
      by (simp_all add: releaseJobPermit_def live_process_def)
    have l: "live_process (j\<lparr>jb_hookFired := True\<rparr>) = live_process j" for j :: job by (simp add: live_process_def)
    note f = accounted_fired [OF a, unfolded j]
    show ?thesis using False f a j
      by (auto simp: fireOnComplete_def Let_def accounted_cont accounted_settled l split: hook_result.split)
  qed
qed

lemma accounted_cleanup:
  assumes "accounted s" and "live = False \<longrightarrow> \<not> live_process (sv_job s)"
  shows "accounted (artifact_cleanup live s)"
proof (cases "\<not> live \<and> \<not> jb_cleanupFired (sv_job s) \<and> jb_hasCleanup (sv_job s)")
  case True
  have "keeps_end (\<lambda>j. j\<lparr>jb_cleanupFired := True\<rparr>)" by (simp add: keeps_end_def)
  with inv_keeps_end [of s "\<lambda>j. j\<lparr>jb_cleanupFired := True\<rparr>"] assms True show ?thesis
    by (simp add: artifact_cleanup_def accounted_def once_def orderly_def live_process_def)
next
  case False
  then show ?thesis using assms(1) by (auto simp: artifact_cleanup_def)
qed

section \<open>Every step\<close>

definition accounts :: "sup \<Rightarrow> bool" where
  "accounts s \<longleftrightarrow> sup_inv s \<and> once s \<and> orderly s"

lemma flight_plain: "accounted s \<Longrightarrow> accounted (writeFlightComplete st ov s)" "accounted s \<Longrightarrow> accounted (flight_by_status s)"
proof -
  have w: "accounted s \<Longrightarrow> accounted (writeFlightComplete st ov s)" for st ov
    by (rule accounted_plain, assumption) (simp_all add: plain_here, simp add: writeFlightComplete_def accounted_def inv_push_chain)
  then show "accounted s \<Longrightarrow> accounted (writeFlightComplete st ov s)" .
  show "accounted s \<Longrightarrow> accounted (flight_by_status s)" by (simp add: flight_by_status_def Let_def w)
qed

lemma accounted_resume:
  assumes "accounted s" and "cont_live k = Some False \<longrightarrow> \<not> live_process (sv_job s)"
  shows "accounted (resume env hook ans now k s)"
proof -
  have "accounted (on_job (\<lambda>j. j\<lparr>jb_kitTerminalFinalized := True\<rparr>) s)"
  proof (rule accounted_plain [OF assms(1)])
    show "sup_inv (on_job (\<lambda>j. j\<lparr>jb_kitTerminalFinalized := True\<rparr>) s)"
      using assms(1) inv_keeps_end [of s "\<lambda>j. j\<lparr>jb_kitTerminalFinalized := True\<rparr>"] by (simp add: accounted_def keeps_end_def)
  qed (simp_all add: plain_on_job plain_refl end_fields)
  moreover have "accounted (maybeFlushOutput env now s)"
    using assms(1) by (rule accounted_plain) (use assms(1) in \<open>simp_all add: plain_here accounted_def inv_flush\<close>)
  moreover have "live_process (j\<lparr>jb_kitTerminalFinalized := True\<rparr>) = live_process j" for j :: job
    by (simp add: live_process_def)
  ultimately show ?thesis
    using assms by (cases k) (auto simp: resume_def accounted_fire flight_plain accounted_settled accounted_cleanup split: after.split)
qed

lemma accounts_resume:
  assumes "accounts s" and "n < length (sv_conts s)"
  shows "accounts (resume env hook ans now (sv_conts s ! n) (s\<lparr>sv_conts := take n (sv_conts s) @ drop (Suc n) (sv_conts s)\<rparr>))"
proof -
  let ?t = "s\<lparr>sv_conts := take n (sv_conts s) @ drop (Suc n) (sv_conts s)\<rparr>" and ?k = "sv_conts s ! n"
  have k: "?k \<in> set (sv_conts s)" using assms(2) by simp
  have sub: "set (sv_conts ?t) \<subseteq> set (sv_conts s)" by (auto dest: in_set_takeD in_set_dropD)
  have i: "sup_inv ?t" using assms(1) by (intro inv_conts) (auto simp: accounts_def dest: in_set_takeD in_set_dropD)
  have o: "once ?t" "orderly ?t" using assms(1) sub by (auto simp: accounts_def once_def orderly_def)
  have live: "cont_live ?k = Some False \<longrightarrow> \<not> live_process (sv_job s)"
    using assms(1) k by (auto simp: accounts_def orderly_def)
  show ?thesis
  proof (cases "?k = K_flush")
    case True
    have p: "plain ?t (maybeFlushOutput env now ?t)" by (rule plain_here)
    have "once (maybeFlushOutput env now ?t)" "orderly (maybeFlushOutput env now ?t)"
      using once_plain [OF o(1) p] orderly_plain [OF i o(2) p] by (simp_all add: queued_process)
    with True i show ?thesis by (simp add: accounts_def resume_def inv_flush)
  next
    case False
    then have "terminal s" using cont_terminal [OF _ k] assms(1) by (simp add: accounts_def)
    then have "accounted ?t" using i o by (simp add: accounted_def terminal_def)
    from accounted_resume [OF this, of ?k] live show ?thesis by (simp add: accounts_def accounted_def)
  qed
qed

lemma accounts_step:
  assumes "accounts s" and "sup_apply env e s = Some s'"
  shows "accounts s'"
proof (cases "slot_event e")
  case False
  from plain_step [OF assms(2) False] have "plain s s'" .
  moreover have i: "sup_inv s'" using assms sup_inv_step by (auto simp: accounts_def)
  ultimately show ?thesis using assms once_plain orderly_plain process_appears unfolding accounts_def by blast
next
  case True
  have i: "sup_inv s" "once s" "orderly s" "sup_inv s'" using assms sup_inv_step by (auto simp: accounts_def)
  have unborn: "orderly s'" if "sv_launch s = Not_launched" "jb_process (sv_job s') = jb_process (sv_job s)"
      "late_fields (sv_job s') = late_fields (sv_job s)"
  proof -
    have "jb_process (sv_job s') = None" using that(1,2) i(1) by (simp add: sup_inv_def)
    then show ?thesis using that(3) i(3) by (intro orderly_unborn) (auto simp: late_fields_def orderly_def)
  qed
  have waiting: "sv_launch s = Not_launched" if "sv_grant s \<noteq> G_done" using that i(1) by (auto simp: sup_inv_def)
  consider (hold) "e = Hold" | (granted) t where "e = Grant t" | (released) t where "e = Release t"
    | (cancel) t where "e = Cancel t" | (resumed) n h a t where "e = Resume n h a t"
    using True by (auto simp: slot_event_def)
  then show ?thesis
  proof cases
    case hold
    then have s': "sv_grant s = G_waiting" "s' = (on_job (\<lambda>j. j\<lparr>jb_permit := True\<rparr>) s)\<lparr>sv_grant := G_held\<rparr>"
      using assms(2) by (auto split: if_splits)
    then have "once s'" using i(2) by (simp add: once_def)
    moreover have "orderly s'" using s' waiting by (intro unborn) (simp_all add: late_fields_def)
    ultimately show ?thesis using i(4) by (simp add: accounts_def)
  next
    case granted
    then have s': "sv_grant s = G_waiting" "s' = launch t s" using assms(2) by (auto split: if_splits)
    then have "orderly s'" using waiting by (intro unborn) (simp_all add: queued_process late_launch)
    then show ?thesis using s' i once_launch by (simp add: accounts_def)
  next
    case released
    then have g: "sv_grant s = G_held" using assms(2) by (auto split: if_splits)
    show ?thesis
    proof (cases "jb_status (sv_job s) = SQueued")
      case q: True
      then have s': "s' = launch t s" using released g assms(2) by simp
      then have "orderly s'" using waiting g by (intro unborn) (simp_all add: queued_process late_launch)
      then show ?thesis using s' g q i once_launch by (simp add: accounts_def)
    next
      case False
      then have s': "s' = s\<lparr>sv_grant := G_done\<rparr>" using released g assms(2) by simp
      then have "once s'" "orderly s'" using i(2,3) by (auto simp: once_def orderly_def)
      then show ?thesis using i(4) by (simp add: accounts_def)
    qed
  next
    case cancel
    then have s': "s' = snd (cancelJob t s)" using assms(2) by simp
    have o: "once s'" unfolding s' using once_cancel [OF i(2,1)] .
    show ?thesis
    proof (cases "jb_status (sv_job s) = SQueued")
      case q: True
      have "orderly s'" using q inv_queued [OF i(1)] by (intro unborn) (simp_all add: s' queued_process late_cancel)
      with o i(4) show ?thesis by (simp add: accounts_def)
    next
      case False
      then have "plain s s'" unfolding s' by (rule plain_cancel)
      from orderly_plain [OF i(1,3) this] o i(4) show ?thesis by (simp add: accounts_def s' queued_process)
    qed
  next
    case resumed
    then show ?thesis using assms accounts_resume [OF assms(1)] by (auto split: if_splits)
  qed
qed

lemma accounts_init: "sup_ini env s \<Longrightarrow> accounts s"
  using sup_inv_init [of env s]
  by (auto simp: sup_ini_def accounts_def new_sup_def new_job_def once_def orderly_def live_process_def)

interpretation account: inv_system "sup_ini env" "sup_step env" accounts for env
  by unfold_locales (auto simp: sup_step_def intro: accounts_init accounts_step)

end
