(* ===== verification/Supervisor_Quiescence.thy ===== *)
theory Supervisor_Quiescence
  imports Supervisor_Effects
begin

text \<open>
  No completion is lost: as long as a finished job whose process is gone has not run its terminal hook,
  its artifact cleanup and the release of its slot, some write, continuation or retry is still pending.
\<close>

declare nat_text.simps [simp del]

section \<open>What is still owed\<close>

text \<open>Nothing more can come from the process: there is none, or its end has been handled.\<close>

definition closed :: "sup \<Rightarrow> bool" where
  "closed s \<longleftrightarrow> jb_process (sv_job s) = None \<or> sv_closeHandled s"

definition will_fire :: "sup \<Rightarrow> bool" where
  "will_fire s \<longleftrightarrow> (\<exists>a. a \<noteq> After_retry \<and> (Persist a \<in> set (sv_chain s) \<or> (\<exists>b. K_persisted a b \<in> set (sv_conts s))))"

definition kit_retries :: "sup \<Rightarrow> bool" where
  "kit_retries s \<longleftrightarrow> jb_kit (sv_job s)
     \<and> (jb_retryTimer (sv_job s) \<or> Persist After_retry \<in> set (sv_chain s) \<or> K_persisted After_retry True \<in> set (sv_conts s))"

fun settles :: "continuation \<Rightarrow> bool" where
  "settles (K_mark f) = True"
| "settles K_promise = True"
| "settles k = False"

fun cleans :: "continuation \<Rightarrow> bool" where
  "cleans (K_mark f) = (f = Some False)"
| "cleans (K_cleanup live) = (\<not> live)"
| "cleans k = False"

definition hook_settling :: "sup \<Rightarrow> bool" where
  "hook_settling s \<longleftrightarrow> jb_hookOutcome (sv_job s) \<noteq> None \<or> (\<exists>k\<in>set (sv_conts s). settles k)"

definition cleanup_due :: "sup \<Rightarrow> bool" where
  "cleanup_due s \<longleftrightarrow> \<not> jb_hasCleanup (sv_job s) \<or> jb_cleanupFired (sv_job s) \<or> (\<exists>k\<in>set (sv_conts s). cleans k)"

definition completing :: "sup \<Rightarrow> bool" where
  "completing s \<longleftrightarrow> \<not> jb_permit (sv_job s) \<and> (jb_hasHook (sv_job s) \<longrightarrow> jb_hookFired (sv_job s))
     \<and> hook_settling s \<and> cleanup_due s"

definition owed :: "sup \<Rightarrow> bool" where
  "owed s \<longleftrightarrow> will_fire s \<or> kit_retries s \<or> completing s"

text \<open>The acknowledgement of a Kit job and the phase of its terminal write.\<close>

definition writes_inv :: "sup_env \<Rightarrow> sup \<Rightarrow> bool" where
  "writes_inv env s \<longleftrightarrow>
     (sv_phase s = W_flight \<longrightarrow> (\<exists>st ov rest. sv_chain s = Flight st ov # rest))
     \<and> (jb_kit (sv_job s) \<longrightarrow> se_store env \<and> (jb_acknowledged (sv_job s) \<longrightarrow> jb_terminalPersisted (sv_job s))
          \<and> (\<forall>c. sv_phase s = W_complete c \<longrightarrow> \<not> c \<and> \<not> jb_terminalPersisted (sv_job s))
          \<and> sv_phase s \<notin> {W_late, W_capture, W_reconcile}
          \<and> (\<forall>a. K_persisted a True \<in> set (sv_conts s) \<longrightarrow> jb_acknowledged (sv_job s)))"

definition debt_inv :: "sup_env \<Rightarrow> sup \<Rightarrow> bool" where
  "debt_inv env s \<longleftrightarrow> sup_inv s \<and> writes_inv env s \<and> (sv_closeHandled s \<longrightarrow> jb_closeObserved (sv_job s))
     \<and> (terminal s \<longrightarrow> sv_grant s \<noteq> G_waiting) \<and> (jb_hookFired (sv_job s) \<longrightarrow> hook_settling s)
     \<and> (terminal s \<and> closed s \<longrightarrow> owed s)"

lemmas owed_defs = owed_def will_fire_def kit_retries_def completing_def hook_settling_def cleanup_due_def

section \<open>Steps that only add work\<close>

definition owed_fields where
  "owed_fields j = (jb_kit j, jb_acknowledged j, jb_terminalPersisted j, jb_retryTimer j, jb_hookFired j, jb_hookOutcome j,
     jb_permit j, jb_hasCleanup j, jb_cleanupFired j, jb_hasHook j)"

definition adds :: "sup \<Rightarrow> sup \<Rightarrow> bool" where
  "adds s t \<longleftrightarrow> (\<exists>xs. sv_chain t = sv_chain s @ xs) \<and> (\<exists>ks. sv_conts t = sv_conts s @ ks \<and> set ks \<subseteq> {K_flush})
     \<and> sv_phase t = sv_phase s \<and> owed_fields (sv_job t) = owed_fields (sv_job s)
     \<and> (sv_closeHandled t \<longrightarrow> sv_closeHandled s \<or> jb_closeObserved (sv_job t))
     \<and> (jb_closeObserved (sv_job s) \<longrightarrow> jb_closeObserved (sv_job t))
     \<and> (sv_grant t = G_waiting \<longrightarrow> sv_grant s = G_waiting \<and> (terminal t \<longrightarrow> terminal s))
     \<and> (terminal t \<and> closed t \<longrightarrow> terminal s \<and> closed s \<or> will_fire t)"

lemma adds_refl [simp]: "adds s s"
  by (simp add: adds_def)

lemma owed_adds:
  assumes "debt_inv env s" and "adds s t" and "sup_inv t"
  shows "debt_inv env t"
proof -
  obtain xs ks where x: "sv_chain t = sv_chain s @ xs" "sv_conts t = sv_conts s @ ks" "set ks \<subseteq> {K_flush}"
    and f: "owed_fields (sv_job t) = owed_fields (sv_job s)" "sv_phase t = sv_phase s"
    using assms(2) by (auto simp: adds_def)
  have j: "jb_kit (sv_job t) = jb_kit (sv_job s)" "jb_acknowledged (sv_job t) = jb_acknowledged (sv_job s)"
    "jb_terminalPersisted (sv_job t) = jb_terminalPersisted (sv_job s)" "jb_retryTimer (sv_job t) = jb_retryTimer (sv_job s)"
    "jb_hookFired (sv_job t) = jb_hookFired (sv_job s)" "jb_hookOutcome (sv_job t) = jb_hookOutcome (sv_job s)"
    "jb_permit (sv_job t) = jb_permit (sv_job s)" "jb_hasCleanup (sv_job t) = jb_hasCleanup (sv_job s)"
    "jb_cleanupFired (sv_job t) = jb_cleanupFired (sv_job s)" "jb_hasHook (sv_job t) = jb_hasHook (sv_job s)"
    using f(1) by (simp_all add: owed_fields_def)
  have o: "owed s \<Longrightarrow> owed t" unfolding owed_defs j x(1,2) by auto
  have h: "hook_settling s \<Longrightarrow> hook_settling t" unfolding hook_settling_def j x(2) by auto
  have k: "K_persisted a b \<in> set (sv_conts t) \<longleftrightarrow> K_persisted a b \<in> set (sv_conts s)" for a b using x(2,3) by auto
  have w: "writes_inv env s" "sup_inv s" using assms(1) by (simp_all add: debt_inv_def)
  have "\<exists>st ov rest. sv_chain t = Flight st ov # rest" if "sv_phase t = W_flight"
    using that w(1) f(2) x(1) by (auto simp: writes_inv_def)
  then have w': "writes_inv env t" using w(1) unfolding writes_inv_def j f(2) k by blast
  have "owed t" if "terminal t" "closed t"
  proof -
    from that assms(2) consider "will_fire t" | "terminal s" "closed s" unfolding adds_def by blast
    then show ?thesis using assms(1) o by cases (simp_all add: owed_def debt_inv_def)
  qed
  moreover have "sv_closeHandled t \<longrightarrow> jb_closeObserved (sv_job t)" "terminal t \<longrightarrow> sv_grant t \<noteq> G_waiting"
    "jb_hookFired (sv_job t) \<longrightarrow> hook_settling t"
    using assms(1,2) h unfolding debt_inv_def adds_def j by blast+
  ultimately show ?thesis using assms(3) w' by (simp add: debt_inv_def)
qed

lemma owed_updates [simp]:
  "owed_fields (jb_status_update u_status j) = owed_fields j"
  "owed_fields (jb_finishedAt_update u_finishedAt j) = owed_fields j"
  "owed_fields (jb_exitCode_update u_exitCode j) = owed_fields j"
  "owed_fields (jb_stdout_update u_stdout j) = owed_fields j"
  "owed_fields (jb_stderr_update u_stderr j) = owed_fields j"
  "owed_fields (jb_outputTruncated_update u_outputTruncated j) = owed_fields j"
  "owed_fields (jb_outputDroppedBytes_update u_outputDroppedBytes j) = owed_fields j"
  "owed_fields (jb_canceled_update u_canceled j) = owed_fields j"
  "owed_fields (jb_error_update u_error j) = owed_fields j"
  "owed_fields (jb_errorCategory_update u_errorCategory j) = owed_fields j"
  "owed_fields (jb_retryable_update u_retryable j) = owed_fields j"
  "owed_fields (jb_process_update u_process j) = owed_fields j"
  "owed_fields (jb_exited_update u_exited j) = owed_fields j"
  "owed_fields (jb_closeObserved_update u_closeObserved j) = owed_fields j"
  "owed_fields (jb_terminationRequested_update u_terminationRequested j) = owed_fields j"
  "owed_fields (jb_stdinIncomplete_update u_stdinIncomplete j) = owed_fields j"
  "owed_fields (jb_stdinFailed_update u_stdinFailed j) = owed_fields j"
  "owed_fields (jb_metricsRecorded_update u_metricsRecorded j) = owed_fields j"
  "owed_fields (jb_kitTerminalFinalized_update u_kitTerminalFinalized j) = owed_fields j"
  "owed_fields (jb_retryDelayMs_update u_retryDelayMs j) = owed_fields j"
  "owed_fields (jb_outputDirty_update u_outputDirty j) = owed_fields j"
  "owed_fields (jb_rowLost_update u_rowLost j) = owed_fields j"
  "owed_fields (jb_lastFlushAt_update u_lastFlushAt j) = owed_fields j"
  "owed_fields (jb_terminalRowOwned_update u_terminalRowOwned j) = owed_fields j"
  "owed_fields (jb_capturePersisted_update u_capturePersisted j) = owed_fields j"
  "owed_fields (jb_flightEntry_update u_flightEntry j) = owed_fields j"
  "owed_fields (jb_flightArmed_update u_flightArmed j) = owed_fields j"
  "owed_fields (jb_flightComplete_update u_flightComplete j) = owed_fields j"
  by (simp_all add: owed_fields_def)

lemma metrics_owed [simp]:
  "owed_fields (sv_job (emitMetrics s)) = owed_fields (sv_job s)" "jb_process (sv_job (emitMetrics s)) = jb_process (sv_job s)"
  "jb_closeObserved (sv_job (emitMetrics s)) = jb_closeObserved (sv_job s)"
  by (simp_all add: emitMetrics_def Let_def owed_fields_def)

lemma close_owed [simp]:
  "owed_fields (close_outcome code inc j) = owed_fields j" "owed_fields (close_exit code sg j) = owed_fields j"
  by (simp_all add: close_outcome_def close_exit_def Let_def owed_fields_def split: option.split prod.split)

text \<open>An end of the job that schedules its first terminal write.\<close>

lemma fires_here [simp]: "a \<noteq> After_retry \<Longrightarrow> will_fire (persistComplete a s)"
  by (auto simp: will_fire_def persistComplete_def)

lemma fires_fields [simp]: "will_fire (s\<lparr>sv_closeHandled := b\<rparr>) = will_fire s"
  by (simp add: will_fire_def)

lemma adds_end:
  assumes "a \<noteq> After_retry" and "sv_chain u = sv_chain s" and "sv_conts u = sv_conts s" and "sv_phase u = sv_phase s"
    and "owed_fields (sv_job u) = owed_fields (sv_job s)" and "sv_closeHandled u \<longrightarrow> sv_closeHandled s"
    and "jb_closeObserved (sv_job s) \<longrightarrow> jb_closeObserved (sv_job u)"
    and "sv_grant u = G_waiting \<longrightarrow> sv_grant s = G_waiting \<and> terminal s"
  shows "adds s (persistComplete a u)" "jb_closeObserved (sv_job u) \<Longrightarrow> adds s ((persistComplete a u)\<lparr>sv_closeHandled := True\<rparr>)"
proof -
  have f: "will_fire (persistComplete a u)" "will_fire ((persistComplete a u)\<lparr>sv_closeHandled := True\<rparr>)" using assms(1) by simp_all
  show "adds s (persistComplete a u)" using assms f(1) by (simp add: adds_def persistComplete_def)
  show "adds s ((persistComplete a u)\<lparr>sv_closeHandled := True\<rparr>)" if "jb_closeObserved (sv_job u)"
    using that assms f(2) by (simp add: adds_def persistComplete_def)
qed

text \<open>A step that leaves the end of the job and the limiter alone.\<close>

lemma adds_same:
  assumes "sv_chain t = sv_chain s" and "sv_conts t = sv_conts s @ ks" and "set ks \<subseteq> {K_flush}" and "sv_phase t = sv_phase s"
    and "owed_fields (sv_job t) = owed_fields (sv_job s)" and "sv_closeHandled t = sv_closeHandled s"
    and "jb_closeObserved (sv_job s) \<longrightarrow> jb_closeObserved (sv_job t)" and "sv_grant t = sv_grant s"
    and "jb_status (sv_job t) = jb_status (sv_job s)"
    and "jb_process (sv_job t) = jb_process (sv_job s) \<or> \<not> terminal s"
  shows "adds s t"
  using assms by (auto simp: adds_def closed_def terminal_def)

lemma running_grant: "sup_inv s \<Longrightarrow> jb_status (sv_job s) = SRunning \<Longrightarrow> sv_grant s \<noteq> G_waiting"
  by (auto simp: sup_inv_def)

lemma launched_grant: "sup_inv s \<Longrightarrow> sv_launch s \<noteq> Not_launched \<Longrightarrow> sv_grant s \<noteq> G_waiting"
  by (simp add: sup_inv_def)

lemma adds_append:
  assumes "sup_inv s" and "sv_launch s = Wired"
  shows "adds s (appendOutput env st b chunk now s)"
proof -
  have g: "sv_grant s \<noteq> G_waiting" using launched_grant [OF assms(1)] assms(2) by simp
  have k: "adds s (push_cont K_flush (on_job (\<lambda>j. (case st of Stdout \<Rightarrow> j\<lparr>jb_stdout := jb_stdout j @ chunk\<rparr>
      | Stderr \<Rightarrow> j\<lparr>jb_stderr := jb_stderr j @ chunk\<rparr>)\<lparr>jb_outputDirty := True\<rparr>) s))"
    by (rule adds_same [where ks = "[K_flush]"]) (simp_all split: stream.split)
  show ?thesis
    unfolding appendOutput_def Let_def using k g
    by (simp del: fires_here)
      (intro conjI impI; (rule adds_end(1) | rule adds_same [where ks = "[]"]); simp add: terminal_def)
qed

lemma adds_child:
  assumes "sup_inv s" and "sv_launch s = Wired"
  shows "adds s (idle_timeout env now s)" "adds s (child_error x now s)" "adds s (child_close code sg inc now s)"
    "adds s (stdin_error b s)"
proof -
  have g: "sv_grant s \<noteq> G_waiting" using launched_grant [OF assms(1)] assms(2) by simp
  show "adds s (idle_timeout env now s)"
  proof (cases "jb_status (sv_job s) = SRunning \<and> \<not> jb_terminationRequested (sv_job s)")
    case True
    show ?thesis
    proof (cases "jb_kit (sv_job s)")
      case k: True
      show ?thesis using True k by (simp add: idle_timeout_def Let_def) (rule adds_same [where ks = "[]"]; simp)
    next
      case False
      show ?thesis using True False by (simp add: idle_timeout_def Let_def) (rule adds_end; simp add: g)
    qed
  qed (auto simp: idle_timeout_def)
  show "adds s (child_error x now s)"
  proof (cases "jb_process (sv_job s) = Some None")
    case True
    show ?thesis
    proof (cases "jb_status (sv_job s) = SRunning")
      case r: True
      show ?thesis using True r by (simp add: child_error_def Let_def) (rule adds_end; simp add: g)
    next
      case False
      show ?thesis using True False by (simp add: child_error_def Let_def) (rule adds_same [where ks = "[]"]; simp)
    qed
  qed (simp add: child_error_def)
  show "adds s (child_close code sg inc now s)"
  proof (cases "jb_status (sv_job s) = SRunning")
    case True
    then show ?thesis by (simp add: child_close_def Let_def) (rule adds_end; simp add: g)
  next
    case False
    then show ?thesis by (simp add: child_close_def Let_def) (rule adds_end; simp add: g)
  qed
  show "adds s (stdin_error b s)"
  proof (cases "jb_exited (sv_job s) \<or> jb_canceled (sv_job s) \<or> jb_terminationRequested (sv_job s)")
    case False
    then show ?thesis by (cases b) (simp add: stdin_error_def Let_def, rule adds_same [where ks = "[]"]; simp)+
  qed (simp add: stdin_error_def)
qed

lemma adds_others:
  assumes "sup_inv s"
  shows "adds s (dispose_running s)" "adds s (dead_process now s)" "adds s (armFlightCompleteForDeferral s)"
    "adds s (flush_begin s)" "sv_launch s = Marking \<Longrightarrow> adds s (marked a s)"
    "adds s ((on_job (output_written b) s)\<lparr>sv_flushes := fs, sv_flushing := c\<rparr>)" "adds s (maybeFlushOutput env now s)"
proof -
  show "adds s (dispose_running s)"
  proof (cases "jb_status (sv_job s) = SRunning")
    case True
    then show ?thesis
      by (cases "jb_process (sv_job s)") (simp add: dispose_running_def Let_def, rule adds_same [where ks = "[]"]; simp)+
  qed (simp add: dispose_running_def)
  show "adds s (dead_process now s)"
  proof (cases "jb_status (sv_job s) = SRunning \<and> has_pid (sv_job s)")
    case True
    then show ?thesis using running_grant [OF assms] by (simp add: dead_process_def) (rule adds_end; simp)
  qed (auto simp: dead_process_def)
  show "adds s (armFlightCompleteForDeferral s)"
    by (auto simp: armFlightCompleteForDeferral_def Let_def adds_def writeFlightComplete_def terminal_def closed_def)
  show "adds s (flush_begin s)" by (auto simp: flush_begin_def adds_def terminal_def closed_def split: list.split prod.split)
  show "adds s (marked a s)" if "sv_launch s = Marking"
  proof -
    have "owed_fields (mark_failed m j) = owed_fields j" "jb_status (mark_failed m j) = jb_status j"
      "jb_process (mark_failed m j) = jb_process j" "jb_closeObserved (mark_failed m j) = jb_closeObserved j" for m j
      by (simp_all add: mark_failed_def Let_def)
    then show ?thesis by (cases a) (simp add: marked_def Let_def, rule adds_same [where ks = "[]"]; simp)+
  qed
  show "adds s ((on_job (output_written b) s)\<lparr>sv_flushes := fs, sv_flushing := c\<rparr>)"
    by (rule adds_same [where ks = "[]"]) (simp_all add: output_written_def)
  show "adds s (maybeFlushOutput env now s)"
    by (auto simp: maybeFlushOutput_def Let_def adds_def terminal_def closed_def)
qed

section \<open>Before the end\<close>

lemma debt_first:
  assumes "sup_inv t" and "sv_phase t = W_idle" and "\<forall>k\<in>set (sv_conts t). k = K_flush" and "\<not> jb_hookFired (sv_job t)"
    and "\<not> sv_closeHandled t" and "terminal t \<longrightarrow> sv_grant t \<noteq> G_waiting \<and> will_fire t"
    and "jb_kit (sv_job t) \<longrightarrow> se_store env \<and> (jb_acknowledged (sv_job t) \<longrightarrow> jb_terminalPersisted (sv_job t))"
  shows "debt_inv env t"
  using assms by (auto simp: debt_inv_def writes_inv_def owed_def)

definition durable :: "job \<Rightarrow> bool \<times> bool \<times> bool" where
  "durable j = (jb_kit j, jb_acknowledged j, jb_terminalPersisted j)"

lemma durable_metrics [simp]: "durable (sv_job (emitMetrics s)) = durable (sv_job s)"
  by (simp add: emitMetrics_def Let_def durable_def)

lemma durable_updates [simp]:
  "durable (jb_status_update u1 j) = durable j" "durable (jb_exitCode_update u2 j) = durable j"
  "durable (jb_error_update u3 j) = durable j" "durable (jb_finishedAt_update u4 j) = durable j"
  "durable (jb_exited_update u5 j) = durable j" "durable (jb_closeObserved_update u6 j) = durable j"
  "durable (jb_permit_update u7 j) = durable j" "durable (jb_canceled_update u8 j) = durable j"
  "durable (jb_errorCategory_update u9 j) = durable j" "durable (jb_retryable_update u10 j) = durable j"
  "durable (jb_stderr_update u11 j) = durable j" "durable (jb_process_update u12 j) = durable j"
  by (simp_all add: durable_def)

text \<open>The steps of an unfinished job: what they leave is fresh, or has its first terminal write scheduled.\<close>

definition fresh :: "sup \<Rightarrow> sup \<Rightarrow> bool" where
  "fresh s t \<longleftrightarrow> sv_phase t = W_idle \<and> sv_conts t = sv_conts s \<and> jb_hookFired (sv_job t) = jb_hookFired (sv_job s)
     \<and> \<not> sv_closeHandled t \<and> durable (sv_job t) = durable (sv_job s)
     \<and> (terminal t \<longrightarrow> sv_grant t \<noteq> G_waiting \<and> will_fire t)"

lemma debt_fresh:
  assumes "debt_inv env s" and "\<not> terminal s" and "fresh s t" and "sup_inv t"
  shows "debt_inv env t"
proof -
  have u: "untouched s" "sup_inv s" using assms(1,2) by (auto simp: debt_inv_def sup_inv_def)
  have "jb_kit (sv_job t) = jb_kit (sv_job s)" "jb_acknowledged (sv_job t) = jb_acknowledged (sv_job s)"
    "jb_terminalPersisted (sv_job t) = jb_terminalPersisted (sv_job s)" using assms(3) by (simp_all add: fresh_def durable_def)
  with assms u show ?thesis by (intro debt_first) (auto simp: fresh_def untouched_def debt_inv_def writes_inv_def)
qed

lemma hook_metrics [simp]: "jb_hookFired (sv_job (emitMetrics s)) = jb_hookFired (sv_job s)"
  by (simp add: emitMetrics_def Let_def)

lemma fresh_end:
  assumes "a \<noteq> After_retry" and "sv_phase u = W_idle" and "sv_conts u = sv_conts s"
    and "jb_hookFired (sv_job u) = jb_hookFired (sv_job s)" and "\<not> sv_closeHandled u"
    and "durable (sv_job u) = durable (sv_job s)" and "sv_grant u \<noteq> G_waiting"
  shows "fresh s (persistComplete a u)"
proof -
  have f: "will_fire (persistComplete a u)" using assms(1) by simp
  show ?thesis using assms f by (simp add: fresh_def persistComplete_def)
qed

lemma fresh_fail:
  assumes "sv_phase u = W_idle" and "sv_conts u = sv_conts s" and "jb_hookFired (sv_job u) = jb_hookFired (sv_job s)"
    and "\<not> sv_closeHandled u" and "durable (sv_job u) = durable (sv_job s)" and "sv_grant u \<noteq> G_waiting"
    and "\<not> terminal u"
  shows "fresh s (failQueuedJob r c now u)"
proof (cases "jb_status (sv_job u) = SQueued")
  case True
  then show ?thesis using assms by (cases "c = 75") (simp add: failQueuedJob_def Let_def, rule fresh_end; simp)+
next
  case False
  then show ?thesis using assms by (simp add: failQueuedJob_def fresh_def)
qed

lemma unfinished:
  assumes "sup_inv s" and "\<not> terminal s"
  shows "sv_phase s = W_idle" "\<not> sv_closeHandled s" "sv_conts s = [] \<or> (\<forall>k\<in>set (sv_conts s). k = K_flush)"
  using assms by (auto simp: sup_inv_def untouched_def)

lemma fresh_launch:
  assumes "sup_inv s" and "jb_status (sv_job s) = SQueued"
  shows "fresh s (launch now s)"
proof -
  have n: "\<not> terminal s" using assms(2) by (simp add: terminal_def isAsyncJobInProgress_def)
  note u = unfinished [OF assms(1) n]
  let ?s1 = "on_job (\<lambda>j. j\<lparr>jb_permit := True\<rparr>) (s\<lparr>sv_grant := G_done\<rparr>)"
  have "fresh s (failQueuedJob r c now ?s1)" for r c
    using u n by (intro fresh_fail) (simp_all add: terminal_def)
  moreover have "fresh s ((on_job (\<lambda>j. j\<lparr>jb_status := SRunning\<rparr>) ?s1)\<lparr>sv_launch := Starting\<rparr>)"
    using u by (simp add: fresh_def terminal_def isAsyncJobInProgress_def)
  ultimately show ?thesis using assms(2) by (simp add: launch_def Let_def)
qed

lemma fresh_process:
  assumes "sup_inv s" and "sv_launch s = Starting"
  shows "fresh s (launchProcessJob env r now s)"
proof -
  have st: "jb_status (sv_job s) = SRunning" using assms by (simp add: sup_inv_def)
  then have n: "\<not> terminal s" by (simp add: terminal_def isAsyncJobInProgress_def)
  note u = unfinished [OF assms(1) n] running_grant [OF assms(1) st]
  have f: "fresh s (launch_fails x now s)" for x
    using u by (simp add: launch_fails_def Let_def) (rule fresh_end; simp)
  show ?thesis
  proof (cases r)
    case (Spawns pid)
    then show ?thesis using f u st
      by (simp add: launchProcessJob_def Let_def) (simp add: fresh_def terminal_def isAsyncJobInProgress_def)
  qed (simp add: launchProcessJob_def Let_def f)
qed

lemma fresh_queue:
  assumes "sup_inv s" and "\<not> terminal s"
  shows "sv_grant s = G_waiting \<Longrightarrow> fresh s ((on_job (\<lambda>j. j\<lparr>jb_permit := True\<rparr>) s)\<lparr>sv_grant := G_held\<rparr>)"
    "fresh s (failQueuedJob r c now (s\<lparr>sv_grant := G_done\<rparr>))" "fresh s (dispose_queued now s)"
    "jb_status (sv_job s) = SQueued \<Longrightarrow> fresh s (snd (cancelJob now s))"
proof -
  note u = unfinished [OF assms]
  have g: "sv_grant (leave_queue s) \<noteq> G_waiting" "sv_job (leave_queue s) = sv_job s" "sv_phase (leave_queue s) = sv_phase s"
    "sv_conts (leave_queue s) = sv_conts s" "sv_closeHandled (leave_queue s) = sv_closeHandled s"
    by (auto simp: leave_queue_def)
  show "fresh s ((on_job (\<lambda>j. j\<lparr>jb_permit := True\<rparr>) s)\<lparr>sv_grant := G_held\<rparr>)"
    using u assms(2) by (simp add: fresh_def terminal_def)
  show "fresh s (failQueuedJob r c now (s\<lparr>sv_grant := G_done\<rparr>))"
    using u assms(2) by (intro fresh_fail) (simp_all add: terminal_def)
  show "fresh s (dispose_queued now s)"
  proof (cases "jb_status (sv_job s) = SQueued")
    case True
    then show ?thesis using u assms(2)
      by (simp add: dispose_queued_def Let_def) (rule fresh_fail; simp add: leave_queue_def terminal_def)
  next
    case False
    then show ?thesis using u assms(2) by (simp add: dispose_queued_def fresh_def terminal_def)
  qed
  show "fresh s (snd (cancelJob now s))" if "jb_status (sv_job s) = SQueued"
  proof -
    have r: "sv_grant (releaseJobPermit (leave_queue s)) \<noteq> G_waiting"
        "durable (sv_job (releaseJobPermit (leave_queue s))) = durable (sv_job s)"
        "jb_hookFired (sv_job (releaseJobPermit (leave_queue s))) = jb_hookFired (sv_job s)"
      using g by (simp_all add: releaseJobPermit_def)
    show ?thesis using that u r g by (simp add: cancelJob_def Let_def) (rule fresh_end; simp)
  qed
qed

lemma adds_cancel:
  assumes "sup_inv s" and "jb_status (sv_job s) \<noteq> SQueued"
  shows "adds s (snd (cancelJob now s))"
proof (cases "jb_status (sv_job s) = SRunning \<and> jb_process (sv_job s) \<noteq> None")
  case True
  show ?thesis
  proof (cases "jb_kit (sv_job s)")
    case k: True
    show ?thesis using True k by (simp add: cancelJob_def Let_def) (rule adds_same [where ks = "[]"]; simp)
  next
    case False
    show ?thesis using True False running_grant [OF assms(1)]
      by (simp add: cancelJob_def Let_def) (rule adds_end; simp)
  qed
next
  case False
  then show ?thesis using assms(2) by (auto simp: cancelJob_def Let_def)
qed

section \<open>The terminal writes\<close>

text \<open>A step of the write at the head of the chain that is not its last.\<close>

definition at_rest where
  "at_rest j = (jb_status j, jb_process j, jb_closeObserved j, jb_kit j, jb_permit j, jb_hasHook j, jb_hookFired j,
     jb_hookOutcome j, jb_hasCleanup j, jb_cleanupFired j)"

definition progress :: "sup \<Rightarrow> sup \<Rightarrow> bool" where
  "progress s t \<longleftrightarrow> sv_chain t = sv_chain s \<and> sv_conts t = sv_conts s \<and> sv_grant t = sv_grant s
     \<and> sv_closeHandled t = sv_closeHandled s \<and> at_rest (sv_job t) = at_rest (sv_job s)
     \<and> (jb_retryTimer (sv_job s) \<longrightarrow> jb_retryTimer (sv_job t))"

text \<open>The invariant without the phase of the write.\<close>

definition debts :: "sup \<Rightarrow> bool" where
  "debts s \<longleftrightarrow> (sv_closeHandled s \<longrightarrow> jb_closeObserved (sv_job s)) \<and> (terminal s \<longrightarrow> sv_grant s \<noteq> G_waiting)
     \<and> (jb_hookFired (sv_job s) \<longrightarrow> hook_settling s) \<and> (terminal s \<and> closed s \<longrightarrow> owed s)"

lemma debt_parts: "debt_inv env s \<longleftrightarrow> sup_inv s \<and> writes_inv env s \<and> debts s"
  by (auto simp: debt_inv_def debts_def)

lemma debts_progress:
  assumes "debts s" and "progress s t"
  shows "debts t"
proof -
  have j: "jb_status (sv_job t) = jb_status (sv_job s)" "jb_process (sv_job t) = jb_process (sv_job s)"
    "jb_closeObserved (sv_job t) = jb_closeObserved (sv_job s)" "jb_kit (sv_job t) = jb_kit (sv_job s)"
    "jb_permit (sv_job t) = jb_permit (sv_job s)" "jb_hasHook (sv_job t) = jb_hasHook (sv_job s)"
    "jb_hookFired (sv_job t) = jb_hookFired (sv_job s)" "jb_hookOutcome (sv_job t) = jb_hookOutcome (sv_job s)"
    "jb_hasCleanup (sv_job t) = jb_hasCleanup (sv_job s)" "jb_cleanupFired (sv_job t) = jb_cleanupFired (sv_job s)"
    and s: "sv_chain t = sv_chain s" "sv_conts t = sv_conts s" "sv_grant t = sv_grant s" "sv_closeHandled t = sv_closeHandled s"
    using assms(2) by (simp_all add: progress_def at_rest_def)
  have "owed s \<longrightarrow> owed t" using assms(2) unfolding owed_defs j s by (auto simp: progress_def)
  then show ?thesis using assms(1) unfolding debts_def terminal_def closed_def hook_settling_def j s by blast
qed

lemma debts_chain_done:
  assumes "debts s" and "jb_kit (sv_job s) \<and> \<not> ok \<longrightarrow> jb_retryTimer (sv_job s)"
  shows "debts (chain_done ok s)"
proof (cases "sv_chain s")
  case Nil
  then show ?thesis using assms(1) by (simp add: chain_done_def)
next
  case (Cons i rest)
  show ?thesis
  proof (cases i)
    case (Persist k)
    let ?t = "push_cont (K_persisted k ok) (s\<lparr>sv_chain := rest, sv_phase := W_idle\<rparr>)"
    have "will_fire s \<Longrightarrow> will_fire ?t" using Cons Persist by (auto simp: will_fire_def)
    moreover have "kit_retries s \<Longrightarrow> kit_retries ?t"
      using Cons Persist assms(2) by (cases ok) (auto simp: kit_retries_def)
    moreover have "hook_settling s \<Longrightarrow> hook_settling ?t" "completing s \<Longrightarrow> completing ?t"
      by (auto simp: hook_settling_def completing_def cleanup_due_def)
    ultimately have "debts ?t" using assms(1) by (auto simp: debts_def owed_def terminal_def closed_def)
    then show ?thesis using Cons Persist by (simp add: chain_done_def)
  next
    case (Flight st ov)
    let ?t = "s\<lparr>sv_chain := rest, sv_phase := W_idle\<rparr>"
    have "owed s \<Longrightarrow> owed ?t" using Cons Flight by (auto simp: owed_defs)
    then have "debts ?t" using assms(1) by (simp add: debts_def terminal_def closed_def hook_settling_def)
    then show ?thesis using Cons Flight by (simp add: chain_done_def)
  qed
qed

lemma writes_chain_done:
  assumes "writes_inv env s" and "jb_kit (sv_job s) \<and> ok \<longrightarrow> jb_acknowledged (sv_job s) \<or> (\<exists>st ov rest. sv_chain s = Flight st ov # rest)"
    and "sv_chain s = [] \<longrightarrow> sv_phase s = W_idle"
  shows "writes_inv env (chain_done ok s)"
  using assms by (auto simp: writes_inv_def chain_done_def split: list.split chain_item.split)

definition pending :: "sup_env \<Rightarrow> sup \<Rightarrow> bool" where
  "pending env s \<longleftrightarrow> writes_inv env s \<and> debts s"

lemma at_rest_updates [simp]:
  "at_rest (jb_acknowledged_update u1 j) = at_rest j" "at_rest (jb_outputDirty_update u2 j) = at_rest j"
  "at_rest (jb_capturePersisted_update u3 j) = at_rest j" "at_rest (scheduleTerminalPersistenceRetry j) = at_rest j"
  "at_rest (output_written b j) = at_rest j" "at_rest (row_settled c b j) = at_rest j" "at_rest (flight_written b j) = at_rest j"
  by (simp_all add: at_rest_def output_written_def row_settled_def flight_written_def)

lemma retry_updates [simp]:
  "jb_retryTimer (output_written b j) = jb_retryTimer j" "jb_retryTimer (row_settled c b j) = jb_retryTimer j"
  "jb_retryTimer (flight_written b j) = jb_retryTimer j" "jb_retryTimer j \<Longrightarrow> scheduleTerminalPersistenceRetry j = j"
  by (simp_all add: output_written_def row_settled_def flight_written_def scheduleTerminalPersistenceRetry_def)

lemma durable_writes [simp]:
  "jb_kit (output_written b j) = jb_kit j" "jb_acknowledged (output_written b j) = jb_acknowledged j"
  "jb_terminalPersisted (output_written b j) = jb_terminalPersisted j"
  "jb_kit (flight_written b j) = jb_kit j" "jb_acknowledged (flight_written b j) = jb_acknowledged j"
  "jb_terminalPersisted (flight_written b j) = jb_terminalPersisted j"
  "jb_kit (row_settled c b j) = jb_kit j" "jb_acknowledged (row_settled c b j)" "jb_terminalPersisted (row_settled c b j)"
  "jb_terminalPersisted (scheduleTerminalPersistenceRetry j) = jb_terminalPersisted j"
  by (simp_all add: output_written_def row_settled_def flight_written_def scheduleTerminalPersistenceRetry_def Let_def)

lemma progress_on_job:
  assumes "at_rest (f (sv_job s)) = at_rest (sv_job s)" and "jb_retryTimer (sv_job s) \<longrightarrow> jb_retryTimer (f (sv_job s))"
  shows "progress s (on_job f s)"
  using assms by (simp add: progress_def)

lemma progress_view [simp]:
  "progress s (note_effect x t) = progress s t" "progress s (t\<lparr>sv_phase := p\<rparr>) = progress s t"
  by (simp_all add: progress_def)

text \<open>The end of the head of the chain, after an update of the job.\<close>

lemma pending_done:
  assumes "pending env s" and "sv_chain s \<noteq> []" and "at_rest (f (sv_job s)) = at_rest (sv_job s)"
    and "jb_retryTimer (sv_job s) \<longrightarrow> jb_retryTimer (f (sv_job s))"
    and "jb_kit (sv_job s) \<and> \<not> ok \<longrightarrow> jb_retryTimer (f (sv_job s))"
    and "jb_kit (sv_job s) \<and> ok \<longrightarrow> jb_acknowledged (f (sv_job s)) \<or> (\<exists>st ov rest. sv_chain s = Flight st ov # rest)"
    and "jb_kit (sv_job s) \<longrightarrow> (jb_acknowledged (f (sv_job s)) \<longrightarrow> jb_terminalPersisted (f (sv_job s)))
      \<and> (jb_acknowledged (sv_job s) \<longrightarrow> jb_acknowledged (f (sv_job s)))"
  shows "pending env (chain_done ok (on_job f s))"
proof -
  let ?u = "on_job f s" and ?t = "(on_job f s)\<lparr>sv_phase := W_idle\<rparr>"
  have kit: "jb_kit (f (sv_job s)) = jb_kit (sv_job s)" using assms(3) by (simp add: at_rest_def)
  have "progress s ?t" using assms(3,4) by (simp add: progress_on_job)
  from debts_progress [OF _ this] have "debts ?t" using assms(1) by (simp add: pending_def)
  then have d: "debts (chain_done ok ?t)" using assms(5) kit by (intro debts_chain_done) simp_all
  have "writes_inv env s" using assms(1) by (simp add: pending_def)
  then have "jb_kit (sv_job s) \<longrightarrow> se_store env \<and> (\<forall>a. K_persisted a True \<in> set (sv_conts s) \<longrightarrow> jb_acknowledged (f (sv_job s)))"
    using assms(7) unfolding writes_inv_def by blast
  then have "writes_inv env ?t" using assms(7) unfolding writes_inv_def by (simp add: kit)
  then have w: "writes_inv env (chain_done ok ?t)" using assms(6) kit by (intro writes_chain_done) simp_all
  have "chain_done ok ?t = chain_done ok ?u"
    using assms(2) by (cases "sv_chain s"; cases "hd (sv_chain s)") (simp_all add: chain_done_def)
  then show ?thesis using d w by (simp add: pending_def)
qed

text \<open>The head of the chain waits for the next answer.\<close>

lemma pending_phase:
  assumes "pending env s" and "progress s t" and "durable (sv_job t) = durable (sv_job s)"
    and "p = W_flight \<longrightarrow> (\<exists>st ov rest. sv_chain s = Flight st ov # rest)"
    and "jb_kit (sv_job s) \<longrightarrow> p \<notin> {W_late, W_capture, W_reconcile} \<and> (\<forall>c. p = W_complete c \<longrightarrow> \<not> c \<and> \<not> jb_terminalPersisted (sv_job s))"
  shows "pending env (t\<lparr>sv_phase := p\<rparr>)"
proof -
  have d: "debts (t\<lparr>sv_phase := p\<rparr>)"
    by (rule debts_progress [of s]) (use assms(1,2) in \<open>simp_all add: pending_def\<close>)
  have j: "jb_kit (sv_job t) = jb_kit (sv_job s)" "jb_acknowledged (sv_job t) = jb_acknowledged (sv_job s)"
    "jb_terminalPersisted (sv_job t) = jb_terminalPersisted (sv_job s)" using assms(3) by (simp_all add: durable_def)
  have c: "sv_chain t = sv_chain s" "sv_conts t = sv_conts s" using assms(2) by (simp_all add: progress_def)
  have "writes_inv env (t\<lparr>sv_phase := p\<rparr>)"
    using assms(1,4,5) unfolding pending_def writes_inv_def by (simp add: j c) blast
  with d show ?thesis by (simp add: pending_def)
qed

lemma pending_again:
  assumes "pending env s" and "sv_chain s \<noteq> []" and "jb_kit (sv_job s) \<longrightarrow> jb_terminalPersisted (sv_job s)"
  shows "pending env (persisted_again c s)"
proof -
  have a: "pending env (chain_done True (on_job (\<lambda>j. j\<lparr>jb_acknowledged := True\<rparr>) s))"
    by (rule pending_done) (use assms in simp_all)
  have "pending env (chain_done False (on_job (\<lambda>j. scheduleTerminalPersistenceRetry (j\<lparr>jb_acknowledged := False\<rparr>)) s))"
    if "\<not> jb_kit (sv_job s)"
    by (rule pending_done) (use assms that in simp_all)
  with a show ?thesis by (simp add: persisted_again_def Let_def)
qed

lemma pending_capture:
  assumes "pending env s" and "sv_chain s \<noteq> []" and "jb_kit (sv_job s) \<longrightarrow> jb_terminalPersisted (sv_job s)"
  shows "pending env (persistCapture s)"
proof -
  have "pending env ((note_effect Write_capture s)\<lparr>sv_phase := W_capture\<rparr>)" if "\<not> jb_kit (sv_job s)"
    using assms(1) by (rule pending_phase) (use that in \<open>simp_all add: progress_def\<close>)
  then show ?thesis using pending_again [OF assms] by (simp add: persistCapture_def Let_def)
qed

lemma pending_on_job:
  assumes "pending env s" and "at_rest (f (sv_job s)) = at_rest (sv_job s)" and "durable (f (sv_job s)) = durable (sv_job s)"
    and "jb_retryTimer (sv_job s) \<longrightarrow> jb_retryTimer (f (sv_job s))"
  shows "pending env (on_job f s)"
proof -
  have e: "(on_job f s)\<lparr>sv_phase := sv_phase s\<rparr> = on_job f s" by (simp add: on_job_def)
  have "pending env ((on_job f s)\<lparr>sv_phase := sv_phase s\<rparr>)"
    using assms(1) progress_on_job [where f = f, OF assms(2,4)]
    by (rule pending_phase) (use assms in \<open>auto simp: pending_def writes_inv_def\<close>)
  then show ?thesis unfolding e .
qed

lemma pending_progressed:
  assumes "pending env s" and "sv_chain s \<noteq> []"
  shows "pending env (chain_progressed s)"
proof -
  let ?s1 = "on_job (\<lambda>j. j\<lparr>jb_outputDirty := False\<rparr>) s"
  have p: "pending env ?s1" by (rule pending_on_job) (use assms(1) in \<open>simp_all add: durable_def\<close>)
  have "pending env ((note_effect x ?s1)\<lparr>sv_phase := W_late\<rparr>)" if "\<not> jb_kit (sv_job s)" for x
    using p by (rule pending_phase) (use that in \<open>simp_all add: progress_def\<close>)
  moreover have "pending env (persistCapture ?s1)" if "jb_terminalPersisted (sv_job s)"
    using that assms(2) by (intro pending_capture p) simp_all
  moreover have "pending env ((note_effect x ?s1)\<lparr>sv_phase := W_complete (\<not> jb_kit (sv_job s) \<and> jb_closeObserved (sv_job s))\<rparr>)"
    if "\<not> jb_terminalPersisted (sv_job s)" for x
    using p by (rule pending_phase) (use that in \<open>simp_all add: progress_def\<close>)
  ultimately show ?thesis by (simp add: chain_progressed_def Let_def)
qed

lemma pending_completed:
  assumes "pending env s" and "sv_chain s \<noteq> []" and "sv_phase s = W_complete c" and "jb_finishedAt (sv_job s) \<noteq> None"
  shows "pending env (completed c a s)"
proof -
  have k: "\<not> c" "\<not> jb_acknowledged (sv_job s)" if "jb_kit (sv_job s)"
    using assms(1,3) that by (auto simp: pending_def writes_inv_def)
  have timer: "jb_kit (sv_job s) \<longrightarrow> jb_retryTimer (scheduleTerminalPersistenceRetry (sv_job s))"
    using k assms(4) by (auto simp: scheduleTerminalPersistenceRetry_def Let_def)
  have "pending env (chain_done False (on_job scheduleTerminalPersistenceRetry s))"
    by (rule pending_done) (use assms(1,2) timer k in \<open>simp_all\<close>)
  moreover have "pending env (chain_done True (on_job (row_settled c b) s))" for b
    by (rule pending_done) (use assms(1,2) in simp_all)
  moreover have "pending env ((on_job (row_settled c b) s)\<lparr>sv_phase := W_reconcile\<rparr>)" if c for b
  proof -
    have nk: "\<not> jb_kit (sv_job s)" using k that by blast
    then have "writes_inv env ((on_job (row_settled c b) s)\<lparr>sv_phase := W_reconcile\<rparr>)" by (simp add: writes_inv_def)
    moreover have "progress s ((on_job (row_settled c b) s)\<lparr>sv_phase := W_reconcile\<rparr>)" by (simp add: progress_on_job)
    ultimately show ?thesis using assms(1) debts_progress by (auto simp: pending_def)
  qed
  ultimately show ?thesis by (simp add: completed_def Let_def)
qed

lemma pending_begin:
  assumes "pending env s" and "sv_chain s \<noteq> []" and "terminal s" and "jb_finishedAt (sv_job s) \<noteq> None"
  shows "pending env (chain_begin env s)"
proof -
  have id: "on_job (\<lambda>j. j) s = s" by (simp add: on_job_def)
  have "pending env (chain_done ok (on_job (\<lambda>j. j) s))"
    if "jb_kit (sv_job s) \<longrightarrow> (\<exists>st ov rest. sv_chain s = Flight st ov # rest)" "jb_kit (sv_job s) \<longrightarrow> ok" for ok
    by (rule pending_done) (use assms(1,2) that in \<open>auto simp: pending_def writes_inv_def\<close>)
  then have d: "pending env (chain_done ok s)"
    if "jb_kit (sv_job s) \<longrightarrow> (\<exists>st ov rest. sv_chain s = Flight st ov # rest)" "jb_kit (sv_job s) \<longrightarrow> ok" for ok
    using that unfolding id by blast
  have st: "\<not> se_store env \<longrightarrow> \<not> jb_kit (sv_job s)" using assms(1) by (auto simp: pending_def writes_inv_def)
  have r: "progress s s" "durable (sv_job s) = durable (sv_job s)" by (simp_all add: progress_def)
  show ?thesis
  proof (cases "sv_chain s")
    case (Cons i rest)
    show ?thesis
    proof (cases i)
      case (Persist k)
      have "pending env (s\<lparr>sv_phase := W_progress\<rparr>)" by (rule pending_phase [OF assms(1) r]) simp_all
      then show ?thesis using Cons Persist d st assms(3,4) by (auto simp: chain_begin_def Let_def terminal_def)
    next
      case (Flight fs ov)
      have "pending env ((note_effect (Write_flight fs) s)\<lparr>sv_phase := W_flight\<rparr>)"
        by (rule pending_phase [OF assms(1)]) (use Cons Flight r in simp_all)
      then show ?thesis using Cons Flight d [of True] by (simp add: chain_begin_def Let_def)
    qed
  qed (use assms(2) in simp)
qed

lemma pending_answer:
  assumes "pending env s" and "sv_chain s \<noteq> []" and "sv_phase s \<noteq> W_idle" and "jb_finishedAt (sv_job s) \<noteq> None"
  shows "pending env (chain_answer a s)"
proof -
  have w: "writes_inv env s" using assms(1) by (simp add: pending_def)
  have o: "pending env (on_job f s)" if "f = output_written b \<or> f = (\<lambda>j. j\<lparr>jb_capturePersisted := jb_capturePersisted j \<or> b\<rparr>)" for f b
    by (rule pending_on_job) (use that assms(1) in \<open>auto simp: durable_def\<close>)
  show ?thesis
  proof (cases "sv_phase s")
    case W_idle
    with assms(3) show ?thesis by simp
  next
    case W_progress
    then show ?thesis using pending_progressed [OF assms(1,2)] by (simp add: chain_answer_def)
  next
    case W_late
    then have "\<not> jb_kit (sv_job s)" using w by (auto simp: writes_inv_def)
    then have "pending env (persistCapture (on_job (output_written (a \<noteq> Rejected)) s))"
      using o assms(2) by (intro pending_capture) auto
    then show ?thesis using W_late by (simp add: chain_answer_def)
  next
    case W_capture
    then have "\<not> jb_kit (sv_job s)" using w by (auto simp: writes_inv_def)
    then have "pending env (persisted_again (a = Applied)
        (on_job (\<lambda>j. j\<lparr>jb_capturePersisted := jb_capturePersisted j \<or> a = Applied\<rparr>) s))"
      using o assms(2) by (intro pending_again) auto
    then show ?thesis using W_capture by (simp add: chain_answer_def)
  next
    case (W_complete c)
    then show ?thesis using pending_completed [OF assms(1,2) _ assms(4)] by (simp add: chain_answer_def)
  next
    case W_reconcile
    then have k: "\<not> jb_kit (sv_job s)" using w by (auto simp: writes_inv_def)
    have "pending env (chain_done True (on_job (\<lambda>j. j\<lparr>jb_capturePersisted := jb_capturePersisted j \<or> a = Applied\<rparr>) s))"
      by (rule pending_done) (use assms(1,2) k in simp_all)
    then show ?thesis using W_reconcile by (simp add: chain_answer_def)
  next
    case W_flight
    then have "\<exists>st ov rest. sv_chain s = Flight st ov # rest" using w by (simp add: writes_inv_def)
    then have "pending env (chain_done True (on_job (flight_written (a \<noteq> Raised)) s))"
      by (intro pending_done) (use assms(1,2) w in \<open>auto simp: writes_inv_def\<close>)
    then show ?thesis using W_flight by (simp add: chain_answer_def)
  qed
qed

section \<open>The continuations\<close>

definition without :: "nat \<Rightarrow> sup \<Rightarrow> sup" where
  "without n s = s\<lparr>sv_conts := take n (sv_conts s) @ drop (Suc n) (sv_conts s)\<rparr>"

lemma without_simps [simp]:
  "sv_job (without n s) = sv_job s" "sv_chain (without n s) = sv_chain s" "sv_phase (without n s) = sv_phase s"
  "sv_grant (without n s) = sv_grant s" "sv_closeHandled (without n s) = sv_closeHandled s"
  "terminal (without n s) = terminal s" "closed (without n s) = closed s"
  by (simp_all add: without_def terminal_def closed_def)

lemma without_conts: "n < length (sv_conts s) \<Longrightarrow> set (sv_conts s) = insert (sv_conts s ! n) (set (sv_conts (without n s)))"
  using id_take_nth_drop [of n "sv_conts s"] by (simp add: without_def) (metis Un_insert_right list.simps(15) set_append)

text \<open>The terminal hook at the end of the process.\<close>

lemma release_owed:
  "jb_permit (sv_job (releaseJobPermit s)) = False" "jb_hookFired (sv_job (releaseJobPermit s)) = jb_hookFired (sv_job s)"
  "jb_hasHook (sv_job (releaseJobPermit s)) = jb_hasHook (sv_job s)" "jb_kit (sv_job (releaseJobPermit s)) = jb_kit (sv_job s)"
  "jb_hookOutcome (sv_job (releaseJobPermit s)) = jb_hookOutcome (sv_job s)"
  by (simp_all add: releaseJobPermit_def)

definition slot :: "job \<Rightarrow> bool \<times> bool \<times> bool \<times> bool" where
  "slot j = (jb_kit j, jb_permit j, jb_hasHook j, jb_hookFired j)"

text \<open>The fields that settling and cleaning leave alone.\<close>

lemma settle_core:
  "slot (sv_job (hook_settled b f s)) = slot (sv_job s)" "slot (sv_job (settleTerminalHook b f s)) = slot (sv_job s)"
  "slot (sv_job (artifact_cleanup live s)) = slot (sv_job s)"
  "sv_chain (hook_settled b f s) = sv_chain s" "sv_chain (settleTerminalHook b f s) = sv_chain s"
  "sv_chain (artifact_cleanup live s) = sv_chain s"
  "jb_retryTimer (sv_job (hook_settled b f s)) = jb_retryTimer (sv_job s)"
  "jb_retryTimer (sv_job (settleTerminalHook b f s)) = jb_retryTimer (sv_job s)"
  "jb_retryTimer (sv_job (artifact_cleanup live s)) = jb_retryTimer (sv_job s)"
  "set (sv_conts s) \<subseteq> set (sv_conts (hook_settled b f s))" "set (sv_conts s) \<subseteq> set (sv_conts (settleTerminalHook b f s))"
  "set (sv_conts s) \<subseteq> set (sv_conts (artifact_cleanup live s))"
  by (auto simp: hook_settled_def settleTerminalHook_def Let_def then_cleanup_def artifact_cleanup_def slot_def split: option.split)

lemma settle_settles: "hook_settling (hook_settled b f s)" "hook_settling (settleTerminalHook b f s)"
  by (auto simp: hook_settling_def hook_settled_def settleTerminalHook_def Let_def then_cleanup_def split: option.split)

lemma settle_cleans:
  "cleanup_due s \<or> f = Some False \<Longrightarrow> cleanup_due (hook_settled b f s)"
  "cleanup_due s \<or> f = Some False \<Longrightarrow> cleanup_due (settleTerminalHook b f s)"
  "cleanup_due s \<or> \<not> live \<Longrightarrow> cleanup_due (artifact_cleanup live s)"
  by (auto simp: cleanup_due_def hook_settled_def settleTerminalHook_def Let_def then_cleanup_def artifact_cleanup_def split: option.split)

lemma cleanup_settles: "hook_settling s \<Longrightarrow> hook_settling (artifact_cleanup live s)"
  by (auto simp: artifact_cleanup_def hook_settling_def)

lemma settling_views:
  "hook_settling (push_cont k s) \<longleftrightarrow> settles k \<or> hook_settling s" "hook_settling (note_effect x s) = hook_settling s"
  "hook_settling (on_job (\<lambda>j. j\<lparr>jb_hookFired := b\<rparr>) s) = hook_settling s" "hook_settling (releaseJobPermit s) = hook_settling s"
  "hook_settling (on_job scheduleTerminalPersistenceRetry s) = hook_settling s"
  "cleanup_due (push_cont k s) \<longleftrightarrow> cleans k \<or> cleanup_due s"
  by (auto simp: hook_settling_def cleanup_due_def releaseJobPermit_def)

lemma settle_slots:
  "jb_permit (sv_job (settleTerminalHook b f s)) = jb_permit (sv_job s)"
  "jb_hookFired (sv_job (settleTerminalHook b f s)) = jb_hookFired (sv_job s)"
  "jb_hasHook (sv_job (settleTerminalHook b f s)) = jb_hasHook (sv_job s)"
  using settle_core(2) [of b f s] by (simp_all add: slot_def)

lemma fire_settles:
  "(jb_hookFired (sv_job s) \<longrightarrow> hook_settling s) \<Longrightarrow> jb_hookFired (sv_job (fireOnComplete hook s)) \<longrightarrow> hook_settling (fireOnComplete hook s)"
  by (simp add: fireOnComplete_def Let_def settling_views settle_settles release_owed split: hook_result.split)

lemma fire_owed:
  assumes "jb_hookFired (sv_job s) \<longrightarrow> hook_settling s" and "\<not> live_process (sv_job s)" and "jb_finishedAt (sv_job s) \<noteq> None"
  shows "owed (fireOnComplete hook s)"
proof (cases "jb_kit (sv_job s) \<and> \<not> jb_acknowledged (sv_job s)")
  case True
  have "jb_retryTimer (scheduleTerminalPersistenceRetry (sv_job s))"
    using True assms(3) by (auto simp: scheduleTerminalPersistenceRetry_def Let_def)
  then have "kit_retries (fireOnComplete hook s)" using True assms(2) by (simp add: fireOnComplete_def Let_def kit_retries_def)
  then show ?thesis by (simp add: owed_def)
next
  case False
  have "completing (fireOnComplete hook s)"
    using False assms(1,2)
    by (auto simp: fireOnComplete_def Let_def completing_def settling_views settle_settles settle_cleans settle_slots release_owed
        split: hook_result.split)
  then show ?thesis by (simp add: owed_def)
qed

text \<open>What a resumed continuation other than a first terminal write takes over.\<close>

lemma owed_resumed:
  assumes "owed s" and "set (sv_conts s) \<subseteq> insert k (set (sv_conts t))" and "set (sv_chain s) \<subseteq> set (sv_chain t)"
    and "\<forall>a b. k = K_persisted a b \<longrightarrow> a = After_retry \<and> \<not> b"
    and "slot (sv_job t) = slot (sv_job s)"
    and "jb_retryTimer (sv_job s) \<longrightarrow> jb_retryTimer (sv_job t)"
    and "hook_settling s \<longrightarrow> hook_settling t" and "cleanup_due s \<longrightarrow> cleanup_due t"
  shows "owed t"
proof -
  have j: "jb_kit (sv_job t) = jb_kit (sv_job s)" "jb_permit (sv_job t) = jb_permit (sv_job s)"
      "jb_hasHook (sv_job t) = jb_hasHook (sv_job s)" "jb_hookFired (sv_job t) = jb_hookFired (sv_job s)"
    using assms(5) by (simp_all add: slot_def)
  have "will_fire s \<Longrightarrow> will_fire t" using assms(2,3,4) unfolding will_fire_def by blast
  moreover have "kit_retries s \<Longrightarrow> kit_retries t" using assms(2,3,4,6) unfolding kit_retries_def j by blast
  moreover have "completing s \<Longrightarrow> completing t" using assms(7,8) unfolding completing_def j by blast
  ultimately show ?thesis using assms(1) by (auto simp: owed_def)
qed

lemma without_settling:
  assumes "n < length (sv_conts s)"
  shows "hook_settling s \<longleftrightarrow> hook_settling (without n s) \<or> settles (sv_conts s ! n)"
    "cleanup_due s \<longleftrightarrow> cleanup_due (without n s) \<or> cleans (sv_conts s ! n)"
  by (auto simp: hook_settling_def cleanup_due_def without_conts [OF assms])

lemma resumed_owed:
  assumes "n < length (sv_conts s)" and "sv_conts s ! n = k" and "owed s" and "k = K_mark f \<or> k = K_promise \<and> f = None"
    and "t = settleTerminalHook b f u \<or> t = hook_settled b f u" and "sv_conts u = sv_conts (without n s)" and "sv_chain u = sv_chain s"
    and "slot (sv_job u) = slot (sv_job s)" and "jb_retryTimer (sv_job u) = jb_retryTimer (sv_job s)"
    and "cleanup_due u = cleanup_due (without n s)"
  shows "owed t"
proof (rule owed_resumed [OF assms(3)])
  show "set (sv_conts s) \<subseteq> insert k (set (sv_conts t))"
    using assms(5) settle_core(10,11) [of u b f] unfolding without_conts [OF assms(1)] assms(2) assms(6) [symmetric] by auto
  show "hook_settling s \<longrightarrow> hook_settling t" using assms(5) settle_settles by auto
  show "cleanup_due s \<longrightarrow> cleanup_due t"
    using assms(4,5) settle_cleans unfolding without_settling(2) [OF assms(1)] assms(2) assms(10) [symmetric] by auto
qed (use assms settle_core in auto)

lemma debts_resume:
  assumes "debts s" and "terminal s" and "n < length (sv_conts s)" and "sv_conts s ! n \<noteq> K_flush"
    and "jb_finishedAt (sv_job s) \<noteq> None" and "t = resume env hook ans now (sv_conts s ! n) (without n s)"
  shows "(jb_hookFired (sv_job t) \<longrightarrow> hook_settling t) \<and> (closed s \<longrightarrow> owed t)"
proof -
  let ?u = "without n s"
  have o: "closed s \<longrightarrow> owed s" and h: "jb_hookFired (sv_job s) \<longrightarrow> hook_settling s"
    and live: "closed s \<longrightarrow> \<not> live_process (sv_job s)"
    using assms(1,2) by (auto simp: debts_def closed_def live_process_def)
  show ?thesis
  proof (cases "sv_conts s ! n")
    case (K_persisted a b)
    then have u: "jb_hookFired (sv_job ?u) \<longrightarrow> hook_settling ?u" using h without_settling(1) [OF assms(3)] by simp
    show ?thesis
    proof (cases "a = After_retry \<and> \<not> b")
      case True
      then have t: "t = ?u" using assms(6) K_persisted by (simp add: resume_def)
      have "owed ?u" if "closed s"
        by (rule owed_resumed [of s "K_persisted After_retry False"])
          (use o that True K_persisted without_conts [OF assms(3)] without_settling [OF assms(3)] in auto)
      with u t show ?thesis by simp
    next
      case False
      have f: "(jb_hookFired (sv_job v) \<longrightarrow> hook_settling v) \<and> \<not> (closed s \<and> live_process (sv_job v))
          \<and> jb_finishedAt (sv_job v) \<noteq> None"
        if "v = writeFlightComplete st ov ?u \<or> v = flight_by_status ?u" for v st ov
        using that u live assms(5) by (auto simp: writeFlightComplete_def flight_by_status_def Let_def hook_settling_def)
      have "\<exists>v st ov. t = fireOnComplete hook v \<and> (v = writeFlightComplete st ov ?u \<or> v = flight_by_status ?u)"
        using assms(6) K_persisted False by (auto simp: resume_def split: after.split)
      then obtain v st ov where v: "t = fireOnComplete hook v" "v = writeFlightComplete st ov ?u \<or> v = flight_by_status ?u" by blast
      from f [OF v(2)] show ?thesis using fire_settles [of v hook] fire_owed [of v hook] v(1) by blast
    qed
  next
    case (K_mark f)
    let ?v = "if ans then on_job (\<lambda>j. j\<lparr>jb_kitTerminalFinalized := True\<rparr>) ?u else ?u"
    have t: "t = hook_settled ans f ?v" using assms(6) K_mark by (simp add: resume_def)
    have "owed t" if "closed s"
      by (rule resumed_owed [OF assms(3) K_mark _ _ disjI2 [OF t]])
        (use o that in \<open>simp_all add: slot_def cleanup_due_def\<close>)
    with t settle_settles show ?thesis by blast
  next
    case K_promise
    then have t: "t = settleTerminalHook ans None ?u" using assms(6) by (simp add: resume_def)
    have "owed t" if "closed s"
      by (rule resumed_owed [OF assms(3) K_promise _ _ disjI1 [OF t]]) (use o that in \<open>simp_all\<close>)
    with t settle_settles show ?thesis by blast
  next
    case (K_cleanup live')
    then have t: "t = artifact_cleanup live' ?u" using assms(6) by (simp add: resume_def)
    have s: "hook_settling s \<longrightarrow> hook_settling t"
      using t K_cleanup without_settling(1) [OF assms(3)] cleanup_settles by auto
    have "owed t" if "closed s"
    proof (rule owed_resumed [of s "K_cleanup live'"])
      show "cleanup_due s \<longrightarrow> cleanup_due t" using t K_cleanup without_settling(2) [OF assms(3)] settle_cleans(3) by auto
      show "set (sv_conts s) \<subseteq> insert (K_cleanup live') (set (sv_conts t))"
        using settle_core(12) [of ?u live'] K_cleanup unfolding t without_conts [OF assms(3)] by auto
    qed (use o that t s settle_core in auto)
    moreover have "jb_hookFired (sv_job t) = jb_hookFired (sv_job s)" using t settle_core(3) [of live' ?u] by (simp add: slot_def)
    ultimately show ?thesis using h s by blast
  qed (use assms(4) in simp)
qed

text \<open>A continuation writes nothing to the store but through the chain.\<close>

definition undisturbed :: "sup \<Rightarrow> sup \<Rightarrow> bool" where
  "undisturbed s t \<longleftrightarrow> sv_phase t = sv_phase s \<and> (\<exists>xs. sv_chain t = sv_chain s @ xs) \<and> durable (sv_job t) = durable (sv_job s)
     \<and> (\<forall>a. K_persisted a True \<in> set (sv_conts t) \<longrightarrow> K_persisted a True \<in> set (sv_conts s)) \<and> sv_grant t = sv_grant s
     \<and> sv_closeHandled t = sv_closeHandled s \<and> jb_closeObserved (sv_job t) = jb_closeObserved (sv_job s)"

lemma undisturbed_refl [simp]: "undisturbed s s"
  by (simp add: undisturbed_def)

lemma undisturbed_writes: "writes_inv env s \<Longrightarrow> undisturbed s t \<Longrightarrow> writes_inv env t"
proof -
  assume w: "writes_inv env s" and c: "undisturbed s t"
  have j: "jb_kit (sv_job t) = jb_kit (sv_job s)" "jb_acknowledged (sv_job t) = jb_acknowledged (sv_job s)"
    "jb_terminalPersisted (sv_job t) = jb_terminalPersisted (sv_job s)" "sv_phase t = sv_phase s"
    using c by (simp_all add: undisturbed_def durable_def)
  obtain xs where x: "sv_chain t = sv_chain s @ xs" using c by (auto simp: undisturbed_def)
  have "sv_phase s = W_flight \<Longrightarrow> \<exists>st ov rest. sv_chain t = Flight st ov # rest" using w x by (auto simp: writes_inv_def)
  then show ?thesis using w c unfolding writes_inv_def undisturbed_def j by blast
qed

lemma undisturbed_trans: "undisturbed s t \<Longrightarrow> undisturbed t u \<Longrightarrow> undisturbed s u"
  by (auto simp: undisturbed_def)

lemma undisturbed_durable [simp]:
  "durable (scheduleTerminalPersistenceRetry j) = durable j" "durable (jb_hookFired_update u1 j) = durable j"
  "durable (jb_hookOutcome_update u2 j) = durable j" "durable (jb_cleanupFired_update u3 j) = durable j"
  "durable (jb_kitTerminalFinalized_update u4 j) = durable j"
  by (simp_all add: durable_def)

lemma undisturbed_push: "\<forall>a. k \<noteq> K_persisted a True \<Longrightarrow> undisturbed s (push_cont k t) = undisturbed s t"
  by (auto simp: undisturbed_def)

lemma undisturbed_fired:
  "undisturbed s (note_effect x t) = undisturbed s t" "undisturbed s (on_job (\<lambda>j. j\<lparr>jb_hookFired := b\<rparr>) t) = undisturbed s t"
  "undisturbed s (on_job scheduleTerminalPersistenceRetry t) = undisturbed s t"
  by (auto simp: undisturbed_def)

lemma undisturbed_handlers:
  "undisturbed s (writeFlightComplete st ov s)" "undisturbed s (flight_by_status s)" "undisturbed s (fireOnComplete hook s)"
  "undisturbed s (hook_settled b f s)" "undisturbed s (settleTerminalHook b f s)" "undisturbed s (artifact_cleanup live s)"
proof -
  show w: "undisturbed s (writeFlightComplete st ov s)" for st ov by (simp add: undisturbed_def writeFlightComplete_def)
  show "undisturbed s (flight_by_status s)" by (simp add: flight_by_status_def Let_def w)
  have r: "undisturbed s (releaseJobPermit s)" by (simp add: undisturbed_def releaseJobPermit_def)
  have st: "undisturbed s (settleTerminalHook b f s)" for b f s
    by (auto simp: undisturbed_def hook_settled_def settleTerminalHook_def Let_def then_cleanup_def split: option.split)
  then show "undisturbed s (settleTerminalHook b f s)" .
  show "undisturbed s (fireOnComplete hook s)"
    by (simp add: fireOnComplete_def Let_def undisturbed_push undisturbed_fired r undisturbed_trans [OF _ st] split: hook_result.split)
  show "undisturbed s (hook_settled b f s)" "undisturbed s (artifact_cleanup live s)"
    by (auto simp: undisturbed_def hook_settled_def settleTerminalHook_def Let_def then_cleanup_def artifact_cleanup_def split: option.split)
qed

section \<open>Every step\<close>

lemma debt_retry:
  assumes "debt_inv env s" and "sup_inv t" and "t = persistComplete After_retry (on_job (\<lambda>j. j\<lparr>jb_retryTimer := False\<rparr>) s)"
  shows "debt_inv env t"
proof -
  have c: "undisturbed s t" by (simp add: assms(3) undisturbed_def persistComplete_def durable_def)
  have o: "owed s \<Longrightarrow> owed t" unfolding assms(3) by (auto simp: owed_defs persistComplete_def)
  have e: "terminal t = terminal s" "closed t = closed s" "hook_settling t = hook_settling s"
    "jb_hookFired (sv_job t) = jb_hookFired (sv_job s)"
    by (simp_all add: assms(3) terminal_def closed_def hook_settling_def persistComplete_def)
  show ?thesis using assms(1,2) o undisturbed_writes [OF _ c] c unfolding debt_inv_def e by (simp add: undisturbed_def)
qed

lemma debt_resume:
  assumes "debt_inv env s" and "n < length (sv_conts s)" and "t = resume env hook ans now (sv_conts s ! n) (without n s)"
    and "sup_inv t"
  shows "debt_inv env t"
proof (cases "sv_conts s ! n = K_flush")
  case True
  have u: "debt_inv env (without n s)"
  proof -
    have i: "sup_inv (without n s)" unfolding without_def
      using assms(1) by (intro inv_conts) (auto simp: debt_inv_def dest: in_set_takeD in_set_dropD)
    have set: "set (sv_conts s) = insert K_flush (set (sv_conts (without n s)))" using without_conts [OF assms(2)] True by simp
    have c: "undisturbed s (without n s)" by (simp add: undisturbed_def set)
    have o: "owed s \<Longrightarrow> owed (without n s)" by (auto simp: owed_defs set)
    show ?thesis using assms(1) i o undisturbed_writes [OF _ c] unfolding debt_inv_def
      by (simp add: without_settling(1) [OF assms(2)] True)
  qed
  have "t = maybeFlushOutput env now (without n s)" using assms(3) True by (simp add: resume_def)
  then show ?thesis using owed_adds [OF u adds_others(7)] u assms(4) by (simp add: debt_inv_def)
next
  case False
  let ?u = "without n s"
  have k: "sv_conts s ! n \<in> set (sv_conts s)" using assms(2) by simp
  have tm: "terminal s" using assms(1) cont_terminal [OF _ k False] by (simp add: debt_inv_def)
  have f: "jb_finishedAt (sv_job s) \<noteq> None" using assms(1) tm terminal_finished by (simp add: debt_inv_def)
  have u: "undisturbed s ?u" using without_conts [OF assms(2)] by (simp add: undisturbed_def)
  have kf: "undisturbed u (on_job (\<lambda>j. j\<lparr>jb_kitTerminalFinalized := True\<rparr>) u)" for u by (simp add: undisturbed_def)
  have "undisturbed ?u t" unfolding assms(3) using False
    by (cases "sv_conts s ! n") (auto simp: resume_def undisturbed_handlers
        intro: undisturbed_trans undisturbed_handlers kf split: after.split)
  then have c: "undisturbed s t" using undisturbed_trans [OF u] by blast
  have e: "job_end (sv_job t) = job_end (sv_job s)" unfolding assms(3) by simp
  have j: "terminal t = terminal s" "closed t = closed s"
    using e c by (simp_all add: terminal_def closed_def end_fields undisturbed_def)
  note d = debts_resume [OF _ tm assms(2) False f assms(3)]
  have "(jb_hookFired (sv_job t) \<longrightarrow> hook_settling t) \<and> (closed s \<longrightarrow> owed t)" using assms(1) d by (simp add: debt_parts)
  then show ?thesis using assms(1,4) undisturbed_writes [OF _ c] c unfolding debt_inv_def j by (simp add: undisturbed_def)
qed

lemma pending_parts: "debt_inv env s \<longleftrightarrow> sup_inv s \<and> pending env s"
  by (auto simp: debt_parts pending_def)

lemma waiting_queued:
  assumes "debt_inv env s" and "sv_grant s = G_waiting"
  shows "\<not> terminal s" "jb_status (sv_job s) = SQueued"
proof -
  show n: "\<not> terminal s" using assms by (auto simp: debt_inv_def)
  have "jb_status (sv_job s) \<noteq> SRunning" using running_grant assms by (auto simp: debt_inv_def)
  with n show "jb_status (sv_job s) = SQueued" by (auto simp: terminal_def isAsyncJobInProgress_def)
qed

lemma debt_step:
  assumes "debt_inv env s" and "sup_apply env e s = Some s'"
  shows "debt_inv env s'"
proof -
  have i: "sup_inv s" using assms(1) by (simp add: debt_inv_def)
  have i': "sup_inv s'" using sup_inv_step [OF i assms(2)] .
  have fresh: "debt_inv env s'" if "fresh s s'" "\<not> terminal s" using debt_fresh [OF assms(1) that(2,1) i'] .
  have adds: "debt_inv env s'" if "adds s s'" using owed_adds [OF assms(1) that i'] .
  have queued: "\<not> terminal s" if "jb_status (sv_job s) = SQueued" using that by (simp add: terminal_def isAsyncJobInProgress_def)
  show ?thesis
  proof (cases e)
    case (Grant now)
    then have "sv_grant s = G_waiting" "s' = launch now s" using assms(2) by (auto split: if_splits)
    then show ?thesis using waiting_queued [OF assms(1)] fresh fresh_launch [OF i] by simp
  next
    case Hold
    then have "sv_grant s = G_waiting" "s' = (on_job (\<lambda>j. j\<lparr>jb_permit := True\<rparr>) s)\<lparr>sv_grant := G_held\<rparr>"
      using assms(2) by (auto split: if_splits)
    then show ?thesis using waiting_queued [OF assms(1)] fresh fresh_queue(1) [OF i] by simp
  next
    case (Release now)
    show ?thesis
    proof (cases "jb_status (sv_job s) = SQueued")
      case True
      then show ?thesis using Release assms(2) fresh fresh_launch [OF i] queued by (auto split: if_splits)
    next
      case False
      then have "s' = s\<lparr>sv_grant := G_done\<rparr>" using Release assms(2) by (auto split: if_splits)
      then show ?thesis by (intro adds) (simp add: adds_def terminal_def closed_def)
    qed
  next
    case (Queue_timeout now)
    then have "sv_grant s = G_waiting" using assms(2) by (auto split: if_splits)
    then show ?thesis using Queue_timeout assms(2) waiting_queued [OF assms(1)] fresh fresh_queue(2) [OF i] by auto
  next
    case (Launch_progressed r now)
    then have l: "sv_launch s = Starting" "s' = launchProcessJob env r now s" using assms(2) by (auto split: if_splits)
    moreover have "\<not> terminal s" using l(1) i by (auto simp: sup_inv_def terminal_def isAsyncJobInProgress_def)
    ultimately show ?thesis using fresh fresh_process [OF i] by simp
  next
    case (Cancel now)
    then show ?thesis
      using assms(2) fresh fresh_queue(4) [OF i] adds adds_cancel [OF i] queued by (cases "jb_status (sv_job s) = SQueued") auto
  next
    case (Dispose_queued now)
    show ?thesis
    proof (cases "terminal s")
      case True
      then have "s' = s\<lparr>sv_disposed := True\<rparr>"
        using Dispose_queued assms(2) queued by (auto simp: dispose_queued_def Let_def)
      then show ?thesis by (intro adds) (simp add: adds_def terminal_def closed_def)
    next
      case False
      then show ?thesis using Dispose_queued assms(2) fresh fresh_queue(3) [OF i] by auto
    qed
  next
    case Retry_now
    then have "s' = s \<or> s' = persistComplete After_retry (on_job (\<lambda>j. j\<lparr>jb_retryTimer := False\<rparr>) s)"
      using assms(2) by (auto simp: retryTerminalPersistenceNow_def Let_def split: if_splits)
    then show ?thesis using debt_retry [OF assms(1) i'] assms(1) by blast
  next
    case Retry_timer
    then show ?thesis using assms(2) debt_retry [OF assms(1) i'] by (auto split: if_splits)
  next
    case Begin_write
    then have c: "sv_chain s \<noteq> []" "s' = chain_begin env s" using assms(2) by (auto split: if_splits)
    note t = chain_terminal [OF i c(1)]
    show ?thesis using pending_begin [OF _ c(1) t terminal_finished [OF i t]] assms(1) c(2) i' by (simp add: pending_parts)
  next
    case (Store_answer a)
    then have p: "sv_phase s \<noteq> W_idle" "s' = chain_answer a s" using assms(2) by (auto split: if_splits)
    then have c: "sv_chain s \<noteq> []" using i by (simp add: sup_inv_def)
    note t = chain_terminal [OF i c]
    show ?thesis using pending_answer [OF _ c p(1) terminal_finished [OF i t]] assms(1) p(2) i' by (simp add: pending_parts)
  next
    case (Resume n hook ans now)
    then show ?thesis using assms(2) debt_resume [OF assms(1) _ _ i'] by (auto simp: without_def split: if_splits)
  qed (use assms adds adds_append [OF i] adds_child [OF i] adds_others [OF i] mismatch_never [OF i] in
      \<open>auto simp: from_child_def split: if_splits\<close>)
qed

lemma debt_init: "sup_ini env s \<Longrightarrow> debt_inv env s"
  using sup_inv_init [of env s]
  by (auto simp: sup_ini_def new_sup_def new_job_def debt_inv_def writes_inv_def terminal_def isAsyncJobInProgress_def)

interpretation debt: inv_system "sup_ini env" "sup_step env" "debt_inv env" for env
  by unfold_locales (auto simp: sup_step_def intro: debt_init debt_step)

end
