(* ===== verification/Supervisor_Liveness.thy ===== *)
theory Supervisor_Liveness
  imports Supervisor_Quiescence
begin

text \<open>
  A finished job is brought to its end whenever the store answers: the work left is bounded, and when none
  is left every terminal effect has happened.
\<close>

section \<open>The work left\<close>

fun phase_work :: "write_phase \<Rightarrow> nat" where
  "phase_work W_idle = 4"
| "phase_work W_progress = 3"
| "phase_work W_flight = 3"
| "phase_work (W_complete c) = 2"
| "phase_work W_late = 2"
| "phase_work W_capture = 1"
| "phase_work W_reconcile = 1"

fun item_work :: "chain_item \<Rightarrow> nat" where
  "item_work (Persist a) = 16"
| "item_work (Flight st ov) = 5"

fun cont_work :: "continuation \<Rightarrow> nat" where
  "cont_work (K_persisted a b) = (if b then 11 else 28)"
| "cont_work K_promise = 3"
| "cont_work (K_mark f) = 2"
| "cont_work (K_cleanup live) = 1"
| "cont_work K_flush = 1"

definition work :: "sup \<Rightarrow> nat" where
  "work s = phase_work (sv_phase s) + sum_list (map item_work (sv_chain s)) + sum_list (map cont_work (sv_conts s))
     + (if jb_retryTimer (sv_job s) then 17 else 0)"

text \<open>The steps that finish a job when the store answers every write.\<close>

definition finishing :: "sup_event \<Rightarrow> bool" where
  "finishing e \<longleftrightarrow> e = Begin_write \<or> e = Store_answer Applied \<or> e = Retry_timer \<or> (\<exists>n hook ans now. e = Resume n hook ans now)"

definition finish_step :: "sup_env \<Rightarrow> sup \<Rightarrow> sup \<Rightarrow> bool" where
  "finish_step env s s' \<longleftrightarrow> (\<exists>e. finishing e \<and> sup_apply env e s = Some s')"

lemma work_simps [simp]:
  "work (note_effect x s) = work s" "work (push_chain i s) = work s + item_work i" "work (push_cont k s) = work s + cont_work k"
  by (simp_all add: work_def)

lemma work_on_job: "jb_retryTimer (f (sv_job s)) = jb_retryTimer (sv_job s) \<Longrightarrow> work (on_job f s) = work s"
  by (simp add: work_def)

lemma work_phase: "work (s\<lparr>sv_phase := p\<rparr>) + phase_work (sv_phase s) = work s + phase_work p"
  by (simp add: work_def)

lemma work_done:
  assumes "sv_chain s \<noteq> []" and "(\<exists>a rest. sv_chain s = Persist a # rest) \<longrightarrow> ok"
  shows "work (chain_done ok s) < work s"
  using assms by (auto simp: work_def chain_done_def neq_Nil_conv split: chain_item.split)

lemma work_again:
  assumes "sv_chain s \<noteq> []" and "c \<or> jb_kit (sv_job s) \<or> \<not> jb_closeObserved (sv_job s)"
  shows "work (persisted_again c s) < work s"
proof -
  let ?u = "on_job (\<lambda>j. j\<lparr>jb_acknowledged := True\<rparr>) s"
  have "work (chain_done True ?u) < work ?u" by (rule work_done) (use assms(1) in simp_all)
  moreover have "work ?u = work s" by (rule work_on_job) simp
  ultimately show ?thesis using assms(2) by (auto simp: persisted_again_def Let_def)
qed

lemma work_capture:
  assumes "sv_chain s \<noteq> []" and "1 < phase_work (sv_phase s)"
  shows "work (persistCapture s) < work s"
proof -
  have "work ((note_effect Write_capture s)\<lparr>sv_phase := W_capture\<rparr>) < work s"
    using assms(2) work_phase [of W_capture "note_effect Write_capture s"] by simp
  then show ?thesis using work_again [OF assms(1)] by (simp add: persistCapture_def Let_def)
qed

lemma work_progressed:
  assumes "sv_chain s \<noteq> []" and "sv_phase s = W_progress"
  shows "work (chain_progressed s) < work s"
proof -
  let ?u = "on_job (\<lambda>j. j\<lparr>jb_outputDirty := False\<rparr>) s"
  have u: "work ?u = work s" by (rule work_on_job) simp
  have "work (persistCapture ?u) < work ?u" by (rule work_capture) (use assms in simp_all)
  moreover have "work ((note_effect x ?u)\<lparr>sv_phase := p\<rparr>) < work ?u" if "phase_work p = 2" for x p
    using that assms(2) work_phase [of p "note_effect x ?u"] by simp
  ultimately show ?thesis using u by (simp add: chain_progressed_def Let_def)
qed

lemma work_answer:
  assumes "sv_chain s \<noteq> []" and "sv_phase s \<noteq> W_idle"
  shows "work (chain_answer Applied s) < work s"
proof -
  have o: "work (on_job (output_written b) s) = work s" "work (on_job (flight_written b) s) = work s"
    "work (on_job (row_settled c b) s) = work s"
    "work (on_job (\<lambda>j. j\<lparr>jb_capturePersisted := jb_capturePersisted j \<or> b\<rparr>) s) = work s" for b c
    by (rule work_on_job; simp)+
  have d: "work (chain_done True (on_job f s)) < work s" if "work (on_job f s) = work s" for f
    using work_done [of "on_job f s" True] assms(1) that by simp
  have l: "sv_phase s = W_late \<Longrightarrow> work (persistCapture (on_job (output_written b) s)) < work s" for b
    using work_capture [of "on_job (output_written b) s"] assms(1) o by simp
  have a: "work (persisted_again True (on_job (\<lambda>j. j\<lparr>jb_capturePersisted := jb_capturePersisted j \<or> b\<rparr>) s)) < work s" for b
    using work_again [of "on_job (\<lambda>j. j\<lparr>jb_capturePersisted := jb_capturePersisted j \<or> b\<rparr>) s"] assms(1) o by simp
  have c: "work (chain_done True (on_job (\<lambda>j. j\<lparr>jb_capturePersisted := True\<rparr>) s)) < work s"
    "work (persisted_again True (on_job (\<lambda>j. j\<lparr>jb_capturePersisted := True\<rparr>) s)) < work s"
    using d [OF o(4) [of True]] a [of True] by simp_all
  show ?thesis
    using assms(2) work_progressed [OF assms(1)] l d o c by (cases "sv_phase s") (simp_all add: chain_answer_def completed_def)
qed

lemma work_begin:
  assumes "debt_inv env s" and "sv_chain s \<noteq> []" and "sv_phase s = W_idle"
  shows "work (chain_begin env s) < work s"
proof -
  have i: "sup_inv s" using assms(1) by (simp add: debt_inv_def)
  have t: "\<not> isAsyncJobInProgress (jb_status (sv_job s))" using chain_terminal [OF i assms(2)] by (simp add: terminal_def)
  have f: "jb_finishedAt (sv_job s) \<noteq> None" using terminal_finished [OF i chain_terminal [OF i assms(2)]] .
  have k: "\<not> se_store env \<longrightarrow> \<not> jb_kit (sv_job s)" using assms(1) by (auto simp: debt_inv_def writes_inv_def)
  have p: "work ((note_effect x s)\<lparr>sv_phase := q\<rparr>) < work s" "work (s\<lparr>sv_phase := q\<rparr>) < work s" if "phase_work q = 3" for q x
    using that assms(3) work_phase [of q "note_effect x s"] work_phase [of q s] by simp_all
  have d: "work (chain_done True s) < work s" using assms(2) by (intro work_done) simp_all
  show ?thesis
    using assms(2) t f k p d by (cases "sv_chain s"; cases "hd (sv_chain s)") (auto simp: chain_begin_def Let_def)
qed

lemma work_without: "n < length (sv_conts s) \<Longrightarrow> work s = work (without n s) + cont_work (sv_conts s ! n)"
proof -
  assume n: "n < length (sv_conts s)"
  have "sv_conts s = take n (sv_conts s) @ sv_conts s ! n # drop (Suc n) (sv_conts s)" using n by (rule id_take_nth_drop)
  then have "sum_list (map cont_work (sv_conts s))
      = sum_list (map cont_work (take n (sv_conts s))) + (cont_work (sv_conts s ! n) + sum_list (map cont_work (drop (Suc n) (sv_conts s))))"
    by (metis list.simps(9) map_append sum_list.Cons sum_list_append)
  then show ?thesis by (simp add: work_def without_def)
qed

lemma work_settled: "work (hook_settled b f s) \<le> work s + 1" "work (settleTerminalHook b f s) \<le> work s + 2"
proof -
  have o: "work (on_job (\<lambda>j. j\<lparr>jb_hookOutcome := Some b\<rparr>) s) = work s" by (rule work_on_job) simp
  show h: "work (hook_settled b f s) \<le> work s + 1" by (simp add: hook_settled_def then_cleanup_def o split: option.split)
  then show "work (settleTerminalHook b f s) \<le> work s + 2"
    by (simp add: settleTerminalHook_def Let_def then_cleanup_def split: option.split)
qed

lemma work_fire:
  "work (fireOnComplete hook s) \<le> work s + (if jb_kit (sv_job s) \<and> \<not> jb_acknowledged (sv_job s) then 17 else 4)"
proof -
  have r: "work (releaseJobPermit s) = work s" using work_on_job [of "\<lambda>j. j\<lparr>jb_permit := False\<rparr>" s]
    by (simp add: releaseJobPermit_def)
  have h: "work (on_job (\<lambda>j. j\<lparr>jb_hookFired := True\<rparr>) u) = work u" for u by (rule work_on_job) simp
  have t: "work (on_job scheduleTerminalPersistenceRetry s) \<le> work s + 17" by (simp add: work_def)
  have l: "work u = work s \<Longrightarrow> work (settleTerminalHook b f u) \<le> work s + 4" for b f u
    using work_settled(2) [of b f u] by simp
  show ?thesis using t by (auto simp: fireOnComplete_def Let_def r h l split: hook_result.split)
qed

lemma work_resume:
  assumes "debt_inv env s" and "n < length (sv_conts s)"
  shows "work (resume env hook ans now (sv_conts s ! n) (without n s)) < work s"
proof -
  let ?u = "without n s"
  have w: "work s = work ?u + cont_work (sv_conts s ! n)" using work_without [OF assms(2)] .
  have ack: "jb_acknowledged (sv_job s)" if "jb_kit (sv_job s)" "sv_conts s ! n = K_persisted a True" for a
    using that assms nth_mem [OF assms(2)] unfolding debt_inv_def writes_inv_def by metis
  show ?thesis
  proof (cases "sv_conts s ! n")
    case (K_persisted a b)
    have f: "work (fireOnComplete hook v) < work s"
      if "v = writeFlightComplete st ov ?u \<or> v = flight_by_status ?u" for v st ov
    proof -
      have v: "work v = work ?u + 5" "sv_job v = sv_job s"
        using that by (auto simp: writeFlightComplete_def flight_by_status_def Let_def)
      show ?thesis using work_fire [of hook v] w K_persisted ack v by (cases b) (auto split: if_splits)
    qed
    from f [OF disjI1 [OF refl]] f [OF disjI2 [OF refl]] show ?thesis
      using K_persisted w by (auto simp: resume_def split: after.split)
  next
    case (K_mark f)
    have "work (if ans then on_job (\<lambda>j. j\<lparr>jb_kitTerminalFinalized := True\<rparr>) ?u else ?u) = work ?u"
      by (simp add: work_on_job)
    then show ?thesis using K_mark w work_settled(1) [of ans f "if ans then on_job (\<lambda>j. j\<lparr>jb_kitTerminalFinalized := True\<rparr>) ?u else ?u"]
      by (simp add: resume_def)
  next
    case (K_cleanup live)
    have "work (on_job (\<lambda>j. j\<lparr>jb_cleanupFired := True\<rparr>) ?u) = work ?u" by (rule work_on_job) simp
    then show ?thesis using K_cleanup w by (simp add: resume_def artifact_cleanup_def)
  next
    case K_flush
    have "work (maybeFlushOutput env now ?u) = work ?u" by (simp add: maybeFlushOutput_def Let_def work_def)
    then show ?thesis using K_flush w by (simp add: resume_def)
  next
    case K_promise
    then show ?thesis using w work_settled(2) [of ans None ?u] by (simp add: resume_def)
  qed
qed

lemma finish_work:
  assumes "debt_inv env s" and "finish_step env s s'"
  shows "work s' < work s"
proof -
  have i: "sup_inv s" using assms(1) by (simp add: debt_inv_def)
  obtain e where e: "finishing e" "sup_apply env e s = Some s'" using assms(2) by (auto simp: finish_step_def)
  show ?thesis
  proof (cases e)
    case Begin_write
    then show ?thesis using e(2) work_begin [OF assms(1)] by (auto split: if_splits)
  next
    case (Store_answer a)
    then have "a = Applied" "sv_phase s \<noteq> W_idle" "s' = chain_answer a s" using e by (auto simp: finishing_def split: if_splits)
    moreover from this have "sv_chain s \<noteq> []" using i by (simp add: sup_inv_def)
    ultimately show ?thesis using work_answer by simp
  next
    case Retry_timer
    then have r: "jb_retryTimer (sv_job s)" "s' = persistComplete After_retry (on_job (\<lambda>j. j\<lparr>jb_retryTimer := False\<rparr>) s)"
      using e(2) by (auto split: if_splits)
    then have "work (on_job (\<lambda>j. j\<lparr>jb_retryTimer := False\<rparr>) s) + 17 = work s" by (simp add: work_def)
    then show ?thesis using r(2) by (simp add: persistComplete_def)
  next
    case (Resume n hook ans now)
    then show ?thesis using e(2) work_resume [OF assms(1)] by (auto simp: without_def split: if_splits)
  qed (use e(1) in \<open>simp_all add: finishing_def\<close>)
qed

section \<open>The end\<close>

lemma handled_writes:
  "sv_closeHandled (persisted_again c s) = sv_closeHandled s" "sv_closeHandled (persistCapture s) = sv_closeHandled s"
  "sv_closeHandled (chain_progressed s) = sv_closeHandled s" "sv_closeHandled (completed c a s) = sv_closeHandled s"
  "sv_closeHandled (chain_answer a s) = sv_closeHandled s" "sv_closeHandled (chain_begin env s) = sv_closeHandled s"
proof -
  show a: "sv_closeHandled (persisted_again c s) = sv_closeHandled s" for c s by (simp add: persisted_again_def Let_def)
  show c: "sv_closeHandled (persistCapture s) = sv_closeHandled s" for s by (simp add: persistCapture_def Let_def a)
  show p: "sv_closeHandled (chain_progressed s) = sv_closeHandled s" for s by (simp add: chain_progressed_def Let_def c)
  show d: "sv_closeHandled (completed c a s) = sv_closeHandled s" for c a s by (simp add: completed_def Let_def)
  show "sv_closeHandled (chain_answer a s) = sv_closeHandled s"
    by (simp add: chain_answer_def a c p d split: write_phase.split)
  show "sv_closeHandled (chain_begin env s) = sv_closeHandled s"
    by (simp add: chain_begin_def Let_def split: list.split chain_item.split)
qed

lemma handled_resume: "sv_closeHandled (resume env hook ans now k s) = sv_closeHandled s"
proof -
  have c: "undisturbed s t \<Longrightarrow> sv_closeHandled t = sv_closeHandled s" for s t by (simp add: undisturbed_def)
  have "sv_closeHandled (maybeFlushOutput env now s) = sv_closeHandled s" by (simp add: maybeFlushOutput_def Let_def)
  then show ?thesis
    by (simp add: resume_def c [OF undisturbed_handlers(1)] c [OF undisturbed_handlers(2)] c [OF undisturbed_handlers(3)] c [OF undisturbed_handlers(4)]
        c [OF undisturbed_handlers(5)] c [OF undisturbed_handlers(6)] split: continuation.split after.split)
qed

lemma finish_handled: "finishing e \<Longrightarrow> sup_apply env e s = Some s' \<Longrightarrow> sv_closeHandled s' = sv_closeHandled s"
  by (auto simp: finishing_def handled_writes handled_resume persistComplete_def split: if_splits)

lemma finish_keeps:
  assumes "(finish_step env ^^ n) s s'" and "debt_inv env s" and "terminal s" and "closed s"
  shows "debt_inv env s' \<and> terminal s' \<and> closed s' \<and> work s' + n \<le> work s"
  using assms(1)
proof (induction n arbitrary: s')
  case (Suc n)
  then obtain t where t: "(finish_step env ^^ n) s t" "finish_step env t s'" by auto
  from Suc.IH [OF t(1)] have h: "debt_inv env t" "terminal t" "closed t" "work t + n \<le> work s" by simp_all
  obtain e where e: "finishing e" "sup_apply env e t = Some s'" using t(2) by (auto simp: finish_step_def)
  have i: "sup_inv t" using h(1) by (simp add: debt_inv_def)
  have "terminal s'" "jb_process (sv_job s') = jb_process (sv_job t)"
    using ended_step [OF i h(2) e(2)] h(2) by (simp_all add: end_fields terminal_def)
  moreover have "sv_closeHandled s' = sv_closeHandled t"
    using finish_handled [OF e] .
  ultimately show ?case using h finish_work [OF h(1) t(2)] debt_step [OF h(1) e(2)] by (auto simp: closed_def)
qed (use assms in simp)

lemma finish_stuck:
  assumes "debt_inv env s" and "terminal s" and "closed s" and "\<nexists>t. finish_step env s t"
  shows "completing s \<and> sv_conts s = [] \<and> sv_chain s = []"
proof -
  have none: "sup_apply env e s = None" if "finishing e" for e
    using assms(4) that unfolding finish_step_def by (metis not_None_eq)
  have b: "sup_apply env Begin_write s = None" "sup_apply env (Store_answer Applied) s = None"
    "sup_apply env Retry_timer s = None" "sup_apply env (Resume 0 Hook_returns True 0) s = None"
    by (rule none, force simp: finishing_def)+
  have c: "sv_chain s = []" using b(1,2) by (auto split: if_splits)
  have k: "sv_conts s = []" using b(4) by (auto split: if_splits)
  have r: "\<not> jb_retryTimer (sv_job s)" using b(3) by (auto split: if_splits)
  have "owed s" using assms(1-3) by (simp add: debt_inv_def)
  with c k r show ?thesis by (simp add: owed_def will_fire_def kit_retries_def)
qed

end
