(* ===== verification/Supervisor_Privacy.thy ===== *)
theory Supervisor_Privacy
  imports Supervisor_Quiescence
begin

text \<open>
  What a Personal Agent Config Kit job leaves in the store: no output, and of a failure only that it failed.
\<close>

definition kit_private :: "effect \<Rightarrow> bool" where
  "kit_private x \<longleftrightarrow> (case x of
       Write_output out err trunc sts \<Rightarrow> False
     | Write_capture \<Rightarrow> False
     | Write_complete st code out err m \<Rightarrow>
         out = [] \<and> err = [] \<and> (st \<noteq> SCompleted \<longrightarrow> m = Some PERSONAL_KIT_FAILURE_WITHHELD)
     | _ \<Rightarrow> True)"

definition kept_private :: "sup \<Rightarrow> bool" where
  "kept_private s \<longleftrightarrow> (jb_kit (sv_job s) \<longrightarrow> list_all kit_private (sv_log s) \<and> sv_flushes s = [])"

text \<open>A step of a private job that stays private and keeps being a Kit job or not.\<close>

definition discreet :: "sup \<Rightarrow> sup \<Rightarrow> bool" where
  "discreet s t \<longleftrightarrow> (kept_private s \<longrightarrow> kept_private t) \<and> jb_kit (sv_job t) = jb_kit (sv_job s)"

lemma discreet_refl [simp]: "discreet s s"
  by (simp add: discreet_def)

lemma flush_view [simp]:
  "sv_flushes (note_effect x s) = sv_flushes s" "sv_flushes (on_job f s) = sv_flushes s"
  "sv_flushes (push_chain i s) = sv_flushes s" "sv_flushes (push_cont k s) = sv_flushes s"
  by (simp_all add: note_effect_def on_job_def push_chain_def push_cont_def)

lemma discreet_views [simp]:
  "discreet s (push_chain i t) = discreet s t" "discreet s (push_cont k t) = discreet s t"
  "discreet s (t\<lparr>sv_disposed := b\<rparr>) = discreet s t" "discreet s (t\<lparr>sv_grant := g\<rparr>) = discreet s t"
  "discreet s (t\<lparr>sv_launch := l\<rparr>) = discreet s t" "discreet s (t\<lparr>sv_chain := c\<rparr>) = discreet s t"
  "discreet s (t\<lparr>sv_phase := p\<rparr>) = discreet s t" "discreet s (t\<lparr>sv_conts := ks\<rparr>) = discreet s t"
  "discreet s (t\<lparr>sv_flushing := b\<rparr>) = discreet s t" "discreet s (t\<lparr>sv_closeHandled := b\<rparr>) = discreet s t"
  by (simp_all add: discreet_def kept_private_def)

lemma discreet_note: "kit_private x \<or> \<not> jb_kit (sv_job t) \<Longrightarrow> discreet s t \<Longrightarrow> discreet s (note_effect x t)"
  by (auto simp: discreet_def kept_private_def)

lemma discreet_on_job: "jb_kit (f (sv_job t)) = jb_kit (sv_job t) \<Longrightarrow> discreet s t \<Longrightarrow> discreet s (on_job f t)"
  by (auto simp: discreet_def kept_private_def)

lemma private_effects [simp]:
  "kit_private Permit_released" "kit_private Hook_fired" "kit_private Cleanup_fired" "kit_private (Metrics b)"
  "kit_private Terminate_group" "kit_private Spawned" "kit_private Mark_running" "\<not> kit_private Write_capture"
  "kit_private (Write_flight st)" "kit_private Write_finalized" "\<not> kit_private (Write_output out err trunc sts)"
  by (simp_all add: kit_private_def)

lemma kit_updates [simp]:
  "jb_kit (mark_failed m j) = jb_kit j" "jb_kit (close_outcome code inc j) = jb_kit j" "jb_kit (close_exit code sg j) = jb_kit j"
  by (simp_all add: mark_failed_def Let_def)

lemma discreet_handlers:
  "discreet s t \<Longrightarrow> discreet s (emitMetrics t)" "discreet s t \<Longrightarrow> discreet s (releaseJobPermit t)"
  "discreet s t \<Longrightarrow> discreet s (leave_queue t)" "discreet s t \<Longrightarrow> discreet s (chain_done ok t)"
  "discreet s t \<Longrightarrow> discreet s (flight_by_status t)" "discreet s t \<Longrightarrow> discreet s (then_cleanup f t)"
  by (simp_all add: emitMetrics_def releaseJobPermit_def leave_queue_def chain_done_def flight_by_status_def then_cleanup_def
      Let_def writeFlightComplete_def discreet_note discreet_on_job split: list.split chain_item.split option.split)

lemmas discreet_intros = discreet_note discreet_on_job discreet_handlers

lemma discreet_jobs:
  "discreet s t \<Longrightarrow> discreet s (failQueuedJob r c now t)" "discreet s t \<Longrightarrow> discreet s (launch_fails x now t)"
  "discreet s t \<Longrightarrow> discreet s (idle_timeout env now t)" "discreet s t \<Longrightarrow> discreet s (child_error x now t)"
  "discreet s t \<Longrightarrow> discreet s (child_close code sg inc now t)" "discreet s t \<Longrightarrow> discreet s (stdin_error inc t)"
  "discreet s t \<Longrightarrow> discreet s (dispose_running t)" "discreet s t \<Longrightarrow> discreet s (dead_process now t)"
  "discreet s t \<Longrightarrow> discreet s (exited_mismatch now t)"
  "discreet s t \<Longrightarrow> discreet s (retryTerminalPersistenceNow t)" "discreet s t \<Longrightarrow> discreet s (marked a t)"
  "discreet s t \<Longrightarrow> discreet s (snd (cancelJob now t))" "discreet s t \<Longrightarrow> discreet s (armFlightCompleteForDeferral t)"
  by (simp_all add: failQueuedJob_def launch_fails_def idle_timeout_def child_error_def child_close_def stdin_error_def
      dispose_running_def dead_process_def exited_mismatch_def retryTerminalPersistenceNow_def marked_def cancelJob_def
      armFlightCompleteForDeferral_def
      Let_def persistComplete_def writeFlightComplete_def discreet_intros split: mark_answer.split)

lemma discreet_open: "\<not> jb_kit (sv_job t) \<Longrightarrow> jb_kit (sv_job s) = jb_kit (sv_job t) \<Longrightarrow> discreet s t"
  by (simp add: discreet_def kept_private_def)

lemma discreet_output:
  "discreet s (maybeFlushOutput env now s)" "discreet s (flush_begin s)"
  "discreet s ((on_job (output_written b) s)\<lparr>sv_flushes := tl (sv_flushes s)\<rparr>)"
  "discreet s (appendOutput env st n chunk now s)"
proof -
  show "discreet s (maybeFlushOutput env now s)"
  proof (cases "jb_kit (sv_job s)")
    case True
    then show ?thesis by (simp add: maybeFlushOutput_def Let_def)
  next
    case False
    then show ?thesis by (simp add: maybeFlushOutput_def Let_def discreet_open)
  qed
  show "discreet s (flush_begin s)"
    by (auto simp: flush_begin_def discreet_def kept_private_def split: list.split)
  show "discreet s ((on_job (output_written b) s)\<lparr>sv_flushes := tl (sv_flushes s)\<rparr>)"
    by (simp add: discreet_def kept_private_def)
  have u: "jb_kit ((case st of Stdout \<Rightarrow> j\<lparr>jb_stdout := jb_stdout j @ chunk\<rparr>
      | Stderr \<Rightarrow> j\<lparr>jb_stderr := jb_stderr j @ chunk\<rparr>)\<lparr>jb_outputDirty := True\<rparr>) = jb_kit j" for j :: job
    by (cases st) simp_all
  show "discreet s (appendOutput env st n chunk now s)"
    by (cases st) (simp_all add: appendOutput_def Let_def persistComplete_def discreet_intros)
qed

lemma discreet_writes:
  "discreet s t \<Longrightarrow> discreet s (persisted_again c t)" "discreet s t \<Longrightarrow> discreet s (persistCapture t)"
  "discreet s t \<Longrightarrow> discreet s (chain_progressed t)" "discreet s t \<Longrightarrow> discreet s (completed c a t)"
  "discreet s t \<Longrightarrow> discreet s (chain_answer a t)" "discreet s t \<Longrightarrow> discreet s (chain_begin env t)"
proof -
  show again: "discreet s t \<Longrightarrow> discreet s (persisted_again c t)" for t c
    by (simp add: persisted_again_def Let_def discreet_intros)
  show cap: "discreet s t \<Longrightarrow> discreet s (persistCapture t)" for t
    by (simp add: persistCapture_def Let_def again discreet_intros)
  show prog: "discreet s t \<Longrightarrow> discreet s (chain_progressed t)" for t
    by (simp add: chain_progressed_def Let_def cap discreet_intros kit_private_def withheld_error_def)
  show comp: "discreet s t \<Longrightarrow> discreet s (completed c a t)" for t c a
    by (simp add: completed_def Let_def discreet_intros)
  show "discreet s t \<Longrightarrow> discreet s (chain_answer a t)"
    by (simp add: chain_answer_def prog comp cap again discreet_intros split: write_phase.split)
  show "discreet s t \<Longrightarrow> discreet s (chain_begin env t)"
    by (simp add: chain_begin_def Let_def discreet_intros split: list.split chain_item.split)
qed

lemma discreet_terminal:
  "discreet s t \<Longrightarrow> discreet s (fireOnComplete hook t)" "discreet s t \<Longrightarrow> discreet s (hook_settled b f t)"
  "discreet s t \<Longrightarrow> discreet s (settleTerminalHook b f t)" "discreet s t \<Longrightarrow> discreet s (artifact_cleanup live t)"
  "discreet s t \<Longrightarrow> discreet s (launch now t)" "discreet s t \<Longrightarrow> discreet s (launchProcessJob env r now t)"
  "discreet s t \<Longrightarrow> discreet s (dispose_queued now t)"
proof -
  show h: "discreet s t \<Longrightarrow> discreet s (hook_settled b f t)" for t b f by (simp add: hook_settled_def discreet_intros)
  show st: "discreet s t \<Longrightarrow> discreet s (settleTerminalHook b f t)" for t b f
    by (simp add: settleTerminalHook_def Let_def h discreet_intros)
  show "discreet s t \<Longrightarrow> discreet s (fireOnComplete hook t)"
    by (simp add: fireOnComplete_def Let_def discreet_intros st split: hook_result.split)
  show "discreet s t \<Longrightarrow> discreet s (artifact_cleanup live t)" by (simp add: artifact_cleanup_def discreet_intros)
  show "discreet s t \<Longrightarrow> discreet s (launch now t)" by (simp add: launch_def Let_def discreet_intros discreet_jobs)
  show "discreet s t \<Longrightarrow> discreet s (launchProcessJob env r now t)"
    by (simp add: launchProcessJob_def Let_def discreet_intros discreet_jobs split: spawn_result.split)
  show "discreet s t \<Longrightarrow> discreet s (dispose_queued now t)"
    by (simp add: dispose_queued_def Let_def discreet_intros discreet_jobs)
qed

lemma discreet_resume: "discreet s t \<Longrightarrow> discreet s (resume env hook ans now k t)"
proof -
  assume d: "discreet s t"
  have tr: "discreet t u \<Longrightarrow> discreet s u" for u using d by (auto simp: discreet_def)
  have w: "discreet s (writeFlightComplete st ov t)" for st ov using d by (simp add: writeFlightComplete_def)
  show ?thesis using d
    by (simp add: resume_def w tr discreet_output discreet_terminal discreet_handlers discreet_on_job split: continuation.split after.split)
qed

lemmas discreet_here = discreet_jobs [OF discreet_refl] discreet_writes [OF discreet_refl] discreet_terminal [OF discreet_refl]
  discreet_output discreet_on_job [OF _ discreet_refl]

lemma private_step: "sup_apply env e s = Some s' \<Longrightarrow> discreet s s'"
proof (cases e)
  case (Queue_timeout now)
  have "discreet s (s\<lparr>sv_grant := G_done\<rparr>)" by simp
  from discreet_jobs(1) [OF this] show "sup_apply env e s = Some s' \<Longrightarrow> discreet s s'"
    using Queue_timeout by (auto split: if_splits)
next
  case (Resume n hook ans now)
  have "discreet s (without n s)" by (simp add: without_def)
  from discreet_resume [OF this] show "sup_apply env e s = Some s' \<Longrightarrow> discreet s s'"
    using Resume by (auto simp: without_def split: if_splits)
qed (auto simp: from_child_def persistComplete_def discreet_here split: if_splits)

interpretation privacy: inv_system "sup_ini env" "sup_step env" kept_private for env
  by unfold_locales (auto simp: sup_step_def sup_ini_def new_sup_def kept_private_def dest: private_step [unfolded discreet_def])

end
