(* ===== verification/Supervisor_Properties.thy ===== *)
theory Supervisor_Properties
  imports Supervisor_Once Supervisor_Liveness Supervisor_Privacy
begin

text \<open>
  What holds of a supervised process job: its outcome, which is final, its terminal effects, which happen
  once and in order, and its completion, which is not lost. The runs at the end of each section are the
  witnesses: a Kit job that completes, and a job canceled while its process lives.
\<close>

section \<open>Runs\<close>

fun sup_run :: "sup_env \<Rightarrow> sup_event list \<Rightarrow> sup \<Rightarrow> sup option" where
  "sup_run env [] s = Some s"
| "sup_run env (e # es) s = (case sup_apply env e s of None \<Rightarrow> None | Some t \<Rightarrow> sup_run env es t)"

lemma sup_run_steps: "sup_run env es s = Some s' \<Longrightarrow> (sup_step env)\<^sup>*\<^sup>* s s'"
proof (induction es arbitrary: s)
  case (Cons e es)
  then obtain t where "sup_apply env e s = Some t" "sup_run env es t = Some s'" by (auto split: option.splits)
  then show ?case using Cons.IH [of t] by (auto simp: sup_step_def intro: converse_rtranclp_into_rtranclp)
qed simp

lemma sup_run_reach: "sup_run env es s = Some s' \<Longrightarrow> sup_ini env s \<Longrightarrow> reach (sup_ini env) (sup_step env) s'"
  using sup.reach_steps [OF sup_run_steps] reach_init by fastforce

definition demo_env :: sup_env where
  "demo_env = \<lparr>se_store = True, se_maxOutput = 100, se_idleMs = 1000\<rparr>"

definition demo_job :: "bool \<Rightarrow> sup" where
  "demo_job kit = new_sup (new_job ''claude'' kit True True True True 0)"

lemma demo_ini: "sup_ini demo_env (demo_job kit)"
  unfolding sup_ini_def demo_job_def by (simp add: demo_env_def) blast

definition demo_started :: "sup_event list" where
  "demo_started = [Hold, Release 1, Launch_progressed (Spawns (Some 42)) 2, Mark_answered Marked,
     Data Stdout 2 [104, 105] 3, Resume 0 Hook_returns True 3]"

definition demo_completed :: "sup_event list" where
  "demo_completed = demo_started @ [Child_close (Some 0) None False 4]"

definition demo_settled :: "sup_event list" where
  "demo_settled = [Begin_write, Store_answer Applied, Store_answer Applied, Resume 0 Hook_returns True 5,
     Begin_write, Store_answer Applied, Resume 0 Hook_returns True 6, Resume 0 Hook_returns True 7]"

lemma demo_kit:
  "map_option (\<lambda>s. (jb_status (sv_job s), sv_closeHandled s, sv_chain s, sv_conts s, jb_retryTimer (sv_job s)))
     (sup_run demo_env demo_completed (demo_job True)) = Some (SCompleted, True, [Persist After_status], [], False)"
  "map_option (\<lambda>s. (sv_log s, jb_hookOutcome (sv_job s), sv_chain s, sv_conts s, jb_retryTimer (sv_job s), sv_phase s))
     (sup_run demo_env (demo_completed @ demo_settled) (demo_job True))
   = Some ([Spawned, Mark_running, Metrics True, Write_complete SCompleted (Some 0) [] [] None, Permit_released, Hook_fired,
       Write_finalized, Write_flight Flight_completed, Cleanup_fired], Some True, [], [], False, W_idle)"
  by code_simp+

section \<open>The outcome\<close>

text \<open>C5: a terminal outcome is final. Once a process job is terminal, no event of the limiter, the child,
  the store, the timers, a cancellation, an eviction or the shutdown changes its status, its end or its
  process again.\<close>

theorem terminal_status_final:
  assumes "reach (sup_ini env) (sup_step env) s" and "terminal s" and "(sup_step env)\<^sup>*\<^sup>* s s'"
  shows "jb_status (sv_job s') = jb_status (sv_job s) \<and> jb_finishedAt (sv_job s') = jb_finishedAt (sv_job s)
    \<and> jb_process (sv_job s') = jb_process (sv_job s)"
proof -
  have "sup_inv s' \<and> terminal s' \<and> job_end (sv_job s') = job_end (sv_job s)"
    using assms(3)
  proof (induction rule: rtranclp_induct)
    case base
    show ?case using sup.reach_inv [OF assms(1)] assms(2) by simp
  next
    case (step t u)
    then obtain e where e: "sup_apply env e t = Some u" by (auto simp: sup_step_def)
    from ended_step [OF _ _ e] sup_inv_step [OF _ e] step.IH show ?case by (auto simp: terminal_def end_fields)
  qed
  then show ?thesis by (simp add: end_fields)
qed

definition demo_canceled :: "sup_event list" where
  "demo_canceled = demo_started @ [Cancel 4]"

text \<open>A canceled job whose child then exits with 0 stays canceled.\<close>

theorem terminal_status_final_witness:
  "\<exists>s s'. sup_run demo_env demo_canceled (demo_job False) = Some s
     \<and> sup_run demo_env [Child_close (Some 0) None False 9, Begin_write] s = Some s'
     \<and> jb_status (sv_job s') = SCanceled \<and> jb_finishedAt (sv_job s') = Some 4"
proof -
  have "map_option (\<lambda>s. (jb_status (sv_job s), jb_finishedAt (sv_job s))) (sup_run demo_env demo_canceled (demo_job False))
      = Some (SCanceled, Some 4)"
    "map_option (\<lambda>s. sup_run demo_env [Child_close (Some 0) None False 9, Begin_write] s \<noteq> None)
      (sup_run demo_env demo_canceled (demo_job False)) = Some True"
    by code_simp+
  then obtain s s' where s: "sup_run demo_env demo_canceled (demo_job False) = Some s" "jb_status (sv_job s) = SCanceled"
      "jb_finishedAt (sv_job s) = Some 4"
    and s': "sup_run demo_env [Child_close (Some 0) None False 9, Begin_write] s = Some s'"
    by fastforce
  have "terminal s" using s(2) by (simp add: terminal_def isAsyncJobInProgress_def)
  from terminal_status_final [OF sup_run_reach [OF s(1) demo_ini] this sup_run_steps [OF s']] s s' show ?thesis by auto
qed

text \<open>The job that the close of a running child leaves.\<close>

definition closing :: "int option \<Rightarrow> string option \<Rightarrow> bool \<Rightarrow> time \<Rightarrow> job \<Rightarrow> job" where
  "closing code sg inc now j = close_outcome code inc
     ((close_exit code sg (j\<lparr>jb_exited := True, jb_closeObserved := True\<rparr>))\<lparr>jb_finishedAt := Some now\<rparr>)"

lemma exit_requests [simp]:
  "jb_terminationRequested (close_exit code sg j) \<longleftrightarrow> jb_terminationRequested j \<or> (sg \<noteq> None \<and> \<not> jb_canceled j)"
  "jb_canceled (close_exit code sg j) = jb_canceled j" "jb_stdinFailed (close_exit code sg j) = jb_stdinFailed j"
  "jb_stdinIncomplete (close_exit code sg j) = jb_stdinIncomplete j"
  by (auto simp: close_exit_def Let_def split: option.split)

lemma windows_exit: "describeWindowsLaunchExit cli n = Some (c, m) \<Longrightarrow> c = 127 \<and> n = - 4058"
  by (simp add: describeWindowsLaunchExit_def split: if_splits)

lemma exit_code:
  "sg = None \<Longrightarrow> \<not> jb_terminationRequested j \<Longrightarrow> jb_exitCode (close_exit code sg j) = Some 0 \<longleftrightarrow> nullish code 0 = 0"
  by (auto simp: close_exit_def Let_def nullish_def dest: windows_exit split: option.splits)

lemma exit_diagnostic:
  assumes "jb_terminationRequested j" and "jb_exitCode j \<noteq> None" and "code \<noteq> Some (- 4058)"
  shows "jb_exitCode (close_exit code sg j) = jb_exitCode j" "jb_error (close_exit code sg j) = jb_error j"
  using assms by (auto simp: close_exit_def Let_def nullish_def dest: windows_exit split: option.splits)

lemma closing_status:
  "jb_status (closing code sg inc now j) = SCanceled \<longleftrightarrow> jb_canceled j"
  "jb_status (closing code sg inc now j) = SCompleted \<longleftrightarrow> \<not> jb_canceled j \<and> \<not> jb_terminationRequested j \<and> sg = None
     \<and> nullish code 0 = 0 \<and> \<not> jb_stdinIncomplete j \<and> \<not> inc"
  by (auto simp: closing_def close_outcome_def exit_code nullish_def split: option.splits)

lemma closing_failures:
  "\<not> jb_canceled j \<Longrightarrow> jb_stdinFailed j \<Longrightarrow> nullish code 0 \<noteq> 0
     \<Longrightarrow> jb_exitCode (closing code sg inc now j) = code \<and> jb_error (closing code sg inc now j) = None"
  "jb_status (closing code sg inc now j) = SCompleted \<Longrightarrow> jb_exitCode (closing code sg inc now j) = Some 0"
  "\<not> jb_canceled j \<Longrightarrow> \<not> jb_terminationRequested j \<Longrightarrow> sg = None \<Longrightarrow> nullish code 0 = 0 \<Longrightarrow> \<not> jb_stdinFailed j
     \<Longrightarrow> jb_stdinIncomplete j \<or> inc
     \<Longrightarrow> jb_exitCode (closing code sg inc now j) = Some 126 \<and> jb_error (closing code sg inc now j) = Some CHILD_STDIN_INCOMPLETE_MESSAGE
       \<and> jb_retryable (closing code sg inc now j) = Some False"
  "\<not> jb_canceled j \<Longrightarrow> jb_terminationRequested j \<Longrightarrow> \<not> jb_stdinFailed j \<Longrightarrow> jb_exitCode j \<noteq> None \<Longrightarrow> code \<noteq> Some (- 4058)
     \<Longrightarrow> jb_exitCode (closing code sg inc now j) = jb_exitCode j \<and> jb_error (closing code sg inc now j) = jb_error j"
  by (auto simp: closing_def close_outcome_def exit_code exit_diagnostic nullish_def split: option.splits if_splits)

text \<open>C4: what the close of the child decides. A running job is canceled when its caller canceled it; it
  completes exactly when nobody asked for its termination, no signal ended it, its exit code is zero and its
  input was delivered in full, and then with exit code 0; a non-zero exit of a child whose input failed keeps
  the child's own code with no gateway error; input that was not delivered in full is failure 126 with its
  message and is not retryable; a requested termination keeps the code and message of its diagnostic, unless
  the output is empty and the exit code is that of a missing Windows command. The end is stamped, the process
  is gone and the first terminal write is scheduled.\<close>
theorem close_decides_outcome:
  assumes "jb_status (sv_job s) = SRunning" and "sv_launch s = Wired"
    and "sup_apply env (Child_close code sg inc now) s = Some s'"
  shows "jb_finishedAt (sv_job s') = Some now \<and> \<not> live_process (sv_job s') \<and> sv_chain s' = sv_chain s @ [Persist After_status]
    \<and> (jb_status (sv_job s') = SCanceled \<longleftrightarrow> jb_canceled (sv_job s))
    \<and> (jb_status (sv_job s') = SCompleted \<longleftrightarrow> \<not> jb_canceled (sv_job s) \<and> \<not> jb_terminationRequested (sv_job s) \<and> sg = None
         \<and> nullish code 0 = 0 \<and> \<not> jb_stdinIncomplete (sv_job s) \<and> \<not> inc)
    \<and> (jb_status (sv_job s') = SCompleted \<longrightarrow> jb_exitCode (sv_job s') = Some 0)
    \<and> (\<not> jb_canceled (sv_job s) \<and> jb_stdinFailed (sv_job s) \<and> nullish code 0 \<noteq> 0
         \<longrightarrow> jb_exitCode (sv_job s') = code \<and> jb_error (sv_job s') = None)
    \<and> (\<not> jb_canceled (sv_job s) \<and> \<not> jb_terminationRequested (sv_job s) \<and> sg = None \<and> nullish code 0 = 0
         \<and> \<not> jb_stdinFailed (sv_job s) \<and> (jb_stdinIncomplete (sv_job s) \<or> inc)
         \<longrightarrow> jb_exitCode (sv_job s') = Some 126 \<and> jb_error (sv_job s') = Some CHILD_STDIN_INCOMPLETE_MESSAGE
           \<and> jb_retryable (sv_job s') = Some False)
    \<and> (\<not> jb_canceled (sv_job s) \<and> jb_terminationRequested (sv_job s) \<and> \<not> jb_stdinFailed (sv_job s)
         \<and> jb_exitCode (sv_job s) \<noteq> None \<and> code \<noteq> Some (- 4058)
         \<longrightarrow> jb_exitCode (sv_job s') = jb_exitCode (sv_job s) \<and> jb_error (sv_job s') = jb_error (sv_job s))"
proof -
  let ?u = "on_job (closing code sg inc now) s"
  have "s' = (persistComplete After_status (emitMetrics ?u))\<lparr>sv_closeHandled := True\<rparr>"
    using assms by (auto simp: from_child_def child_close_def Let_def closing_def [abs_def])
  then have m: "sv_chain s' = sv_chain s @ [Persist After_status]" "sv_job s' = sv_job (emitMetrics ?u)"
    by (simp_all add: persistComplete_def)
  have f: "jb_status (sv_job (emitMetrics u)) = jb_status (sv_job u)" "jb_exitCode (sv_job (emitMetrics u)) = jb_exitCode (sv_job u)"
    "jb_error (sv_job (emitMetrics u)) = jb_error (sv_job u)" "jb_retryable (sv_job (emitMetrics u)) = jb_retryable (sv_job u)"
    "jb_finishedAt (sv_job (emitMetrics u)) = jb_finishedAt (sv_job u)"
    "live_process (sv_job (emitMetrics u)) = live_process (sv_job u)" for u
    by (simp_all add: emitMetrics_def Let_def live_process_def)
  have "jb_finishedAt (closing code sg inc now j) = Some now" "\<not> live_process (closing code sg inc now j)" for j
    by (simp_all add: closing_def live_process_def)
  then show ?thesis unfolding m f on_job_simps
    using closing_failures(2) [of code sg inc now "sv_job s"] by (simp add: closing_status closing_failures)
qed

text \<open>A child that exits with 0 before its input was delivered.\<close>

theorem close_decides_outcome_witness:
  "\<exists>s s'. sup_run demo_env demo_started (demo_job False) = Some s \<and> sup_apply demo_env (Child_close (Some 0) None True 4) s = Some s'
     \<and> jb_status (sv_job s') \<noteq> SCompleted \<and> jb_exitCode (sv_job s') = Some 126"
proof -
  have "map_option (\<lambda>s. (jb_status (sv_job s), sv_launch s, jb_canceled (sv_job s), jb_terminationRequested (sv_job s),
      jb_stdinFailed (sv_job s), sup_apply demo_env (Child_close (Some 0) None True 4) s \<noteq> None))
    (sup_run demo_env demo_started (demo_job False)) = Some (SRunning, Wired, False, False, False, True)"
    by code_simp
  then obtain s s' where s: "sup_run demo_env demo_started (demo_job False) = Some s" "jb_status (sv_job s) = SRunning"
      "sv_launch s = Wired" "\<not> jb_canceled (sv_job s)" "\<not> jb_terminationRequested (sv_job s)" "\<not> jb_stdinFailed (sv_job s)"
    and s': "sup_apply demo_env (Child_close (Some 0) None True 4) s = Some s'"
    by auto
  from close_decides_outcome [OF s(2,3) s'] s s' show ?thesis by (auto simp: nullish_def)
qed

section \<open>The terminal effects\<close>

text \<open>C3: each terminal effect happens at most once, and in order. Over any run of a job the hook is called,
  the artifacts are cleaned up and the run slot is given back at most once each; the artifacts only once no
  process of the job lives; for a Kit job the hook is called only once the process is gone and its terminal
  row is acknowledged by the store, and the slot is not given back while the process lives.\<close>

theorem terminal_effects_once:
  assumes "reach (sup_ini env) (sup_step env) s"
  shows "count_list (sv_log s) Hook_fired \<le> 1 \<and> count_list (sv_log s) Cleanup_fired \<le> 1
    \<and> count_list (sv_log s) Permit_released \<le> 1
    \<and> (Cleanup_fired \<in> set (sv_log s) \<longrightarrow> \<not> live_process (sv_job s))
    \<and> (jb_kit (sv_job s) \<and> Hook_fired \<in> set (sv_log s) \<longrightarrow> \<not> live_process (sv_job s) \<and> jb_acknowledged (sv_job s))
    \<and> (jb_kit (sv_job s) \<and> live_process (sv_job s) \<longrightarrow> Permit_released \<notin> set (sv_log s))"
proof -
  have a: "once s" "orderly s" using account.reach_inv [OF assms] by (simp_all add: accounts_def)
  have "x \<in> set xs \<longleftrightarrow> count_list xs x \<noteq> 0" for x and xs :: "effect list" by (simp add: count_list_0_iff)
  then show ?thesis using a by (auto simp: once_def orderly_def)
qed

theorem terminal_effects_once_witness:
  "\<exists>s. sup_run demo_env (demo_completed @ demo_settled) (demo_job True) = Some s \<and> jb_kit (sv_job s)
     \<and> count_list (sv_log s) Hook_fired = 1 \<and> \<not> live_process (sv_job s) \<and> jb_acknowledged (sv_job s)"
proof -
  have "map_option (\<lambda>s. (sv_log s, jb_kit (sv_job s))) (sup_run demo_env (demo_completed @ demo_settled) (demo_job True))
    = Some ([Spawned, Mark_running, Metrics True, Write_complete SCompleted (Some 0) [] [] None, Permit_released, Hook_fired,
       Write_finalized, Write_flight Flight_completed, Cleanup_fired], True)"
    by code_simp
  then obtain s where s: "sup_run demo_env (demo_completed @ demo_settled) (demo_job True) = Some s" "jb_kit (sv_job s)"
      "count_list (sv_log s) Hook_fired = 1" "Hook_fired \<in> set (sv_log s)"
    by auto
  with terminal_effects_once [OF sup_run_reach [OF s(1) demo_ini]] show ?thesis by auto
qed

section \<open>The completion\<close>

lemma finish_sup: "finish_step env \<le> sup_step env"
  by (auto simp: finish_step_def sup_step_def)

lemma run_finishes:
  "sup_run env es s = Some s' \<Longrightarrow> list_all finishing es \<Longrightarrow> (finish_step env ^^ length es) s s'"
proof (induction es arbitrary: s)
  case (Cons e es)
  then obtain t where t: "sup_apply env e s = Some t" "sup_run env es t = Some s'" by (auto split: option.splits)
  then have "finish_step env s t" using Cons.prems(2) by (auto simp: finish_step_def)
  moreover have "(finish_step env ^^ length es) t s'" using Cons t(2) by simp
  ultimately show ?case using relpowp_Suc_I2 by fastforce
qed simp

lemma sup_run_append: "sup_run env (es @ es') s = (case sup_run env es s of None \<Rightarrow> None | Some t \<Rightarrow> sup_run env es' t)"
  by (induction es arbitrary: s) (auto split: option.split)

text \<open>No finishing step is possible with nothing pending.\<close>

lemma nothing_pending:
  "sv_chain s = [] \<Longrightarrow> sv_conts s = [] \<Longrightarrow> \<not> jb_retryTimer (sv_job s) \<Longrightarrow> sv_phase s = W_idle \<Longrightarrow> \<not> finish_step env s t"
  by (auto simp: finish_step_def finishing_def)



section \<open>Privacy\<close>

text \<open>C6: a Kit job leaves no output in the store. Whatever its child prints and however the job ends, no
  output write, no captured output and no queued flush exists for it; its terminal row carries empty output,
  and unless it completed the fixed message that withholds the failure.\<close>

theorem kit_output_withheld:
  assumes "reach (sup_ini env) (sup_step env) s" and "jb_kit (sv_job s)"
  shows "Write_output out err trunc sts \<notin> set (sv_log s) \<and> Write_capture \<notin> set (sv_log s) \<and> sv_flushes s = []
    \<and> (Write_complete st code out err m \<in> set (sv_log s)
         \<longrightarrow> out = [] \<and> err = [] \<and> (st \<noteq> SCompleted \<longrightarrow> m = Some PERSONAL_KIT_FAILURE_WITHHELD))"
proof -
  have "list_all kit_private (sv_log s)" "sv_flushes s = []"
    using privacy.reach_inv [OF assms(1)] assms(2) by (simp_all add: kept_private_def)
  then show ?thesis by (auto simp: list_all_iff kit_private_def dest: bspec)
qed

text \<open>A Kit child that prints and exits with 3.\<close>

definition failed_row :: "effect \<Rightarrow> bool" where
  "failed_row x = (case x of Write_complete st code out err m \<Rightarrow> st = SFailed \<and> code = Some 3 \<and> out = [] \<and> err = [] | _ \<Rightarrow> False)"

lemma failed_row_in: "list_ex failed_row xs \<Longrightarrow> \<exists>m. Write_complete SFailed (Some 3) [] [] m \<in> set xs"
  by (induction xs) (auto simp: failed_row_def split: effect.splits)

theorem kit_output_withheld_witness:
  "\<exists>s. sup_run demo_env (demo_started @ [Child_close (Some 3) None False 4, Begin_write, Store_answer Applied]) (demo_job True) = Some s
     \<and> jb_stdout (sv_job s) = [104, 105]
     \<and> (\<exists>m. Write_complete SFailed (Some 3) [] [] m \<in> set (sv_log s) \<and> m = Some PERSONAL_KIT_FAILURE_WITHHELD)"
proof -
  have "map_option (\<lambda>s. (jb_kit (sv_job s), jb_stdout (sv_job s), list_ex failed_row (sv_log s)))
    (sup_run demo_env (demo_started @ [Child_close (Some 3) None False 4, Begin_write, Store_answer Applied]) (demo_job True))
    = Some (True, [104, 105], True)"
    by code_simp
  then obtain s where s: "sup_run demo_env (demo_started @ [Child_close (Some 3) None False 4, Begin_write, Store_answer Applied]) (demo_job True) = Some s"
      "jb_kit (sv_job s)" "jb_stdout (sv_job s) = [104, 105]"
      "list_ex failed_row (sv_log s)"
    by auto
  obtain m where m: "Write_complete SFailed (Some 3) [] [] m \<in> set (sv_log s)" using failed_row_in [OF s(4)] by blast
  with kit_output_withheld [OF sup_run_reach [OF s(1) demo_ini] s(2)] have "m = Some PERSONAL_KIT_FAILURE_WITHHELD" by blast
  with s(1,3) m show ?thesis by blast
qed

end
