(* ===== verification/Json_Rpc.thy ===== *)
theory Json_Rpc
  imports Text
begin

text \<open>
  The newline-delimited JSON-RPC transport to an ACP provider (src/src/acp/json-rpc-stdio.ts): line
  framing, correlation of responses with the requests that wait for them, dispatch of the
  provider's own requests and notifications, timeouts, and the ways the channel ends.

  The injected hooks (onNotification, onRequest, onActivity, onTerminal) may call back into the
  transport before they return, and a write to the provider's stdin may be accepted or fail at
  once. What they do is a function of the transport at that moment (its private line buffers aside),
  collected in an environment the definitions take as an argument, together with JSON.parse and the
  redactor of stderr lines.
\<close>

section \<open>Messages\<close>

datatype rpc_id = Id_num rat | Id_str jstext

fun rpc_id_of :: "json option \<Rightarrow> rpc_id option" where
  "rpc_id_of (Some (JNum r)) = Some (Id_num r)"
| "rpc_id_of (Some (JStr s)) = Some (Id_str s)"
| "rpc_id_of _ = None"

fun method_of :: "json option \<Rightarrow> jstext option" where
  "method_of (Some (JStr s)) = Some s"
| "method_of _ = None"

text \<open>isJsonRpcErrorObject: the code and the message, when both have their types.\<close>

fun rpc_error_of :: "json \<Rightarrow> (rat \<times> jstext) option" where
  "rpc_error_of (JObj ms) =
     (case (map_of ms ''code'', map_of ms ''message'') of
        (Some (JNum c), Some (JStr m)) \<Rightarrow> Some (c, m)
      | _ \<Rightarrow> None)"
| "rpc_error_of _ = None"

fun is_object :: "json \<Rightarrow> bool" where
  "is_object (JObj _) = True"
| "is_object (JArr _) = True"
| "is_object _ = False"

text \<open>An argument the caller passes: JSON.stringify throws on a cyclic one.\<close>

datatype payload = Absent | Payload json | Unserialisable

datatype frame =
    Request_frame nat jstext payload
  | Notify_frame jstext payload
  | Result_frame rpc_id payload
  | Error_frame rpc_id rat jstext payload

datatype exit_reason =
    Stdin_write_failed | Stdout_channel_closed | Disposed | Transport_closed
  | Process_exit "int option" "string option" | Unexplained

datatype outcome =
    Resolved "json option"
  | Protocol_error jstext rat jstext
  | Malformed_error jstext
  | Timeout_error jstext nat
  | Exit_error exit_reason
  | Not_serialised

datatype rpc_log =
    Log_stdin_error string "string option" | Log_stdout_error string | Log_stderr_error string
  | Log_stderr nat bool | Log_invalid_json nat | Log_invalid_message | Log_unroutable
  | Log_notification_error jstext string | Log_request_error jstext string | Log_orphan
  | Log_timeout jstext nat | Log_exit "int option" "string option" nat | Log_stdout_closed nat

datatype rpc_event =
    Frame frame
  | Activity
  | Notified jstext "json option"
  | Requested rpc_id jstext "json option"
  | Terminal exit_reason
  | Refused jstext exit_reason
  | Logged rpc_log

section \<open>The transport\<close>

record pending_request =
  p_method :: jstext
  p_no :: nat
  p_timer :: "nat option"

text \<open>
  The fields of the class, and what can be seen of it from outside: the promises settled so far,
  by the number of their request, and everything written, dispatched or logged.
\<close>

record transport =
  pending :: "(rpc_id, pending_request) js_map"
  next_id :: nat
  stdout_buffer :: jstext
  stderr_buffer :: jstext
  closed :: bool
  exit_error :: "exit_reason option"
  settled :: "(nat \<times> outcome) list"
  history :: "rpc_event list"

definition opened :: transport where
  "opened = \<lparr>pending = [], next_id = 1, stdout_buffer = [], stderr_buffer = [], closed = False,
     exit_error = None, settled = [], history = []\<rparr>"

datatype teardown = Dispose | Exit "int option" "string option"

datatype call =
    Teardown teardown
  | Call_request jstext payload "nat option"
  | Call_notify jstext payload
  | Call_respond rpc_id payload
  | Call_respond_error rpc_id rat jstext payload

datatype write_result = Accepted | Write_fails string "string option"

record env =
  parse :: "jstext \<Rightarrow> json option"
  redacts :: "jstext \<Rightarrow> bool"
  default_timeout :: nat
  on_write :: "transport \<Rightarrow> write_result"
  on_activity :: "transport \<Rightarrow> teardown list"
  on_terminal :: "transport \<Rightarrow> teardown list"
  on_notification :: "transport \<Rightarrow> call list \<times> string option"
  on_request :: "transport \<Rightarrow> call list \<times> string option"

text \<open>What code outside the class can observe: everything but the two line buffers.\<close>

definition visible :: "transport \<Rightarrow> transport" where
  "visible t = t\<lparr>stdout_buffer := [], stderr_buffer := []\<rparr>"

definition note_event :: "rpc_event \<Rightarrow> transport \<Rightarrow> transport" where
  "note_event e t = t\<lparr>history := history t @ [e]\<rparr>"

text \<open>A promise keeps the first outcome it is given.\<close>

definition settle :: "nat \<Rightarrow> outcome \<Rightarrow> transport \<Rightarrow> transport" where
  "settle n w t = (if n \<in> fst ` set (settled t) then t else t\<lparr>settled := settled t @ [(n, w)]\<rparr>)"

section \<open>The ends of the channel\<close>

definition failPending :: "exit_reason \<Rightarrow> transport \<Rightarrow> transport" where
  "failPending r t =
     fold (\<lambda>(i, p) u. settle (p_no p) (Exit_error r) (u\<lparr>pending := js_delete (pending u) i\<rparr>))
       (pending t) t"

definition dispose :: "transport \<Rightarrow> transport" where
  "dispose t =
     (if closed t then t
      else failPending (nullish (exit_error t) Disposed) (t\<lparr>closed := True\<rparr>))"

definition handleProcessExit :: "int option \<Rightarrow> string option \<Rightarrow> transport \<Rightarrow> transport" where
  "handleProcessExit code signal t =
     (if exit_error t \<noteq> None then t
      else
        let t1 = t\<lparr>exit_error := Some (Process_exit code signal)\<rparr>;
            t2 = note_event (Logged (Log_exit code signal (length (pending t1)))) t1
        in (failPending (Process_exit code signal) t2)\<lparr>closed := True\<rparr>)"

fun tear_down :: "teardown \<Rightarrow> transport \<Rightarrow> transport" where
  "tear_down Dispose t = dispose t"
| "tear_down (Exit code signal) t = handleProcessExit code signal t"

definition emitActivity :: "env \<Rightarrow> transport \<Rightarrow> transport" where
  "emitActivity e t = (let t1 = note_event Activity t in fold tear_down (on_activity e (visible t1)) t1)"

definition emitTerminal :: "env \<Rightarrow> exit_reason \<Rightarrow> transport \<Rightarrow> transport" where
  "emitTerminal e r t = (let t1 = note_event (Terminal r) t in fold tear_down (on_terminal e (visible t1)) t1)"

definition handleStdinError :: "env \<Rightarrow> string \<Rightarrow> string option \<Rightarrow> transport \<Rightarrow> transport" where
  "handleStdinError e cls code t =
     (let t1 = note_event (Logged (Log_stdin_error cls code)) t in
      if exit_error t1 \<noteq> None \<or> closed t1 then t1
      else emitTerminal e Stdin_write_failed
        ((failPending Stdin_write_failed (t1\<lparr>exit_error := Some Stdin_write_failed\<rparr>))\<lparr>closed := True\<rparr>))"

definition handleStreamClose :: "env \<Rightarrow> transport \<Rightarrow> transport" where
  "handleStreamClose e t =
     (if exit_error t \<noteq> None \<or> closed t then t
      else
        let t1 = note_event (Logged (Log_stdout_closed (length (pending t))))
                   (t\<lparr>exit_error := Some Stdout_channel_closed\<rparr>)
        in emitTerminal e Stdout_channel_closed
             ((failPending Stdout_channel_closed t1)\<lparr>closed := True\<rparr>))"

section \<open>Writing\<close>

definition writeFrame :: "env \<Rightarrow> frame \<Rightarrow> transport \<Rightarrow> transport" where
  "writeFrame e f t =
     (let t1 = note_event (Frame f) t in
      case on_write e (visible t1) of
        Accepted \<Rightarrow> t1
      | Write_fails cls code \<Rightarrow> handleStdinError e cls code t1)"

abbreviation id_of :: "nat \<Rightarrow> rpc_id" where
  "id_of n \<equiv> Id_num (of_nat n)"

text \<open>
  request: a frame that cannot be serialised throws inside the promise's executor, which rejects
  the promise and leaves the entry in the map.
\<close>

definition new_request :: "env \<Rightarrow> jstext \<Rightarrow> nat option \<Rightarrow> nat \<Rightarrow> pending_request" where
  "new_request e m timeout n =
     (let ms = nullish timeout (default_timeout e)
      in \<lparr>p_method = m, p_no = n, p_timer = (if 0 < ms then Some ms else None)\<rparr>)"

definition send_request :: "env \<Rightarrow> payload \<Rightarrow> pending_request \<Rightarrow> transport \<Rightarrow> transport" where
  "send_request e params p t =
     (let n = p_no p; t1 = t\<lparr>pending := js_set (pending t) (id_of n) p\<rparr> in
      case params of
        Unserialisable \<Rightarrow> settle n Not_serialised t1
      | _ \<Rightarrow>
          let t2 = writeFrame e (Request_frame n (p_method p) params) t1 in
          if (exit_error t2 \<noteq> None \<or> closed t2) \<and> js_get (pending t2) (id_of n) = Some p
          then settle n (Exit_error (nullish (exit_error t2) Unexplained))
                 (t2\<lparr>pending := js_delete (pending t2) (id_of n)\<rparr>)
          else t2)"

definition request :: "env \<Rightarrow> jstext \<Rightarrow> payload \<Rightarrow> nat option \<Rightarrow> transport \<Rightarrow> transport" where
  "request e m params timeout t =
     (case exit_error t of
        Some r \<Rightarrow> note_event (Refused m r) t
      | None \<Rightarrow>
          if closed t then note_event (Refused m Transport_closed) t
          else send_request e params (new_request e m timeout (next_id t))
                 (emitActivity e (t\<lparr>next_id := Suc (next_id t)\<rparr>)))"

text \<open>notify, respond and respondError: a payload that cannot be serialised throws to the caller.\<close>

definition send :: "env \<Rightarrow> frame \<Rightarrow> bool \<Rightarrow> transport \<Rightarrow> transport" where
  "send e f ok t = (if exit_error t \<noteq> None \<or> closed t \<or> \<not> ok then t else writeFrame e f t)"

fun do_call :: "env \<Rightarrow> call \<Rightarrow> transport \<Rightarrow> transport" where
  "do_call e (Teardown d) t = tear_down d t"
| "do_call e (Call_request m params timeout) t = request e m params timeout t"
| "do_call e (Call_notify m params) t = send e (Notify_frame m params) (params \<noteq> Unserialisable) t"
| "do_call e (Call_respond i res) t = send e (Result_frame i res) (res \<noteq> Unserialisable) t"
| "do_call e (Call_respond_error i c m data) t =
     send e (Error_frame i c m data) (data \<noteq> Unserialisable) t"

section \<open>Reading\<close>

definition dispatchNotification :: "env \<Rightarrow> jstext \<Rightarrow> json option \<Rightarrow> transport \<Rightarrow> transport" where
  "dispatchNotification e m params t =
     (let t1 = note_event (Notified m params) t;
          (calls, thrown) = on_notification e (visible t1);
          t2 = fold (do_call e) calls t1
      in case thrown of
           None \<Rightarrow> t2
         | Some cls \<Rightarrow> note_event (Logged (Log_notification_error m cls)) t2)"

definition dispatchInboundRequest ::
  "env \<Rightarrow> rpc_id \<Rightarrow> jstext \<Rightarrow> json option \<Rightarrow> transport \<Rightarrow> transport" where
  "dispatchInboundRequest e i m params t =
     (let t1 = note_event (Requested i m params) t;
          (calls, thrown) = on_request e (visible t1);
          t2 = fold (do_call e) calls t1
      in case thrown of
           None \<Rightarrow> t2
         | Some cls \<Rightarrow> note_event (Logged (Log_request_error m cls)) t2)"

definition response_outcome :: "jstext \<Rightarrow> json \<Rightarrow> outcome" where
  "response_outcome m j =
     (case jfield j ''error'' of
        None \<Rightarrow> Resolved (jfield j ''result'')
      | Some JNull \<Rightarrow> Resolved (jfield j ''result'')
      | Some err \<Rightarrow>
          (case rpc_error_of err of
             Some (c, msg) \<Rightarrow> Protocol_error m c msg
           | None \<Rightarrow> Malformed_error m))"

definition resolveResponse :: "rpc_id \<Rightarrow> json \<Rightarrow> transport \<Rightarrow> transport" where
  "resolveResponse i j t =
     (case js_get (pending t) i of
        None \<Rightarrow> note_event (Logged Log_orphan) t
      | Some p \<Rightarrow>
          settle (p_no p) (response_outcome (p_method p) j)
            (t\<lparr>pending := js_delete (pending t) i\<rparr>))"

definition handleLine :: "env \<Rightarrow> jstext \<Rightarrow> transport \<Rightarrow> transport" where
  "handleLine e line t =
     (let trimmed = js_trim line in
      if trimmed = [] then t
      else case parse e trimmed of
        None \<Rightarrow> note_event (Logged (Log_invalid_json (length trimmed))) t
      | Some j \<Rightarrow>
          if \<not> is_object j then note_event (Logged Log_invalid_message) t
          else
            let i = rpc_id_of (jfield j ''id''); m = method_of (jfield j ''method'');
                t1 = (if m \<noteq> None \<or> i \<noteq> None then emitActivity e t else t)
            in case (m, i) of
                 (Some m, Some i) \<Rightarrow> dispatchInboundRequest e i m (jfield j ''params'') t1
               | (Some m, None) \<Rightarrow> dispatchNotification e m (jfield j ''params'') t1
               | (None, Some i) \<Rightarrow> resolveResponse i j t1
               | (None, None) \<Rightarrow> note_event (Logged Log_unroutable) t1)"

text \<open>The text up to the first newline, and the text after it.\<close>

definition line_feed :: nat where "line_feed = 10"

definition first_line :: "jstext \<Rightarrow> jstext" where
  "first_line b = takeWhile (\<lambda>u. u \<noteq> line_feed) b"

definition after_line :: "jstext \<Rightarrow> jstext" where
  "after_line b = tl (dropWhile (\<lambda>u. u \<noteq> line_feed) b)"

subsection \<open>What the handlers leave alone\<close>

named_theorems rpc_frame \<open>fields an operation of the transport leaves alone\<close>

lemma note_event_frame [rpc_frame, simp]:
  "stdout_buffer (note_event x t) = stdout_buffer t" "stderr_buffer (note_event x t) = stderr_buffer t"
  "pending (note_event x t) = pending t" "next_id (note_event x t) = next_id t"
  "closed (note_event x t) = closed t" "exit_error (note_event x t) = exit_error t"
  "settled (note_event x t) = settled t" "history (note_event x t) = history t @ [x]"
  by (simp_all add: note_event_def)

lemma settle_frame [rpc_frame, simp]:
  "stdout_buffer (settle n w t) = stdout_buffer t" "stderr_buffer (settle n w t) = stderr_buffer t"
  "pending (settle n w t) = pending t" "next_id (settle n w t) = next_id t"
  "closed (settle n w t) = closed t" "exit_error (settle n w t) = exit_error t"
  "history (settle n w t) = history t"
  by (simp_all add: settle_def)

lemma fold_keeps: "(\<And>x u. f (g x u) = f u) \<Longrightarrow> f (fold g xs u) = f u"
  by (induction xs arbitrary: u) simp_all

lemma failPending_frame [rpc_frame, simp]:
  "stdout_buffer (failPending r t) = stdout_buffer t" "stderr_buffer (failPending r t) = stderr_buffer t"
  "next_id (failPending r t) = next_id t" "closed (failPending r t) = closed t"
  "exit_error (failPending r t) = exit_error t" "history (failPending r t) = history t"
  unfolding failPending_def by (subst fold_keeps; simp add: case_prod_beta)+

lemma tear_down_frame [rpc_frame, simp]:
  "stdout_buffer (tear_down d t) = stdout_buffer t" "stderr_buffer (tear_down d t) = stderr_buffer t"
  "next_id (tear_down d t) = next_id t"
  by (cases d; simp add: dispose_def handleProcessExit_def Let_def)+

lemma emit_frame [rpc_frame, simp]:
  "stdout_buffer (emitActivity e t) = stdout_buffer t" "stderr_buffer (emitActivity e t) = stderr_buffer t"
  "next_id (emitActivity e t) = next_id t"
  "stdout_buffer (emitTerminal e r t) = stdout_buffer t" "stderr_buffer (emitTerminal e r t) = stderr_buffer t"
  "next_id (emitTerminal e r t) = next_id t"
  unfolding emitActivity_def emitTerminal_def Let_def
  by (subst fold_keeps; simp)+

lemma handleStdinError_frame [rpc_frame, simp]:
  "stdout_buffer (handleStdinError e c d t) = stdout_buffer t"
  "stderr_buffer (handleStdinError e c d t) = stderr_buffer t"
  "next_id (handleStdinError e c d t) = next_id t"
  by (simp_all add: handleStdinError_def Let_def)

lemma writeFrame_frame [rpc_frame, simp]:
  "stdout_buffer (writeFrame e f t) = stdout_buffer t"
  "stderr_buffer (writeFrame e f t) = stderr_buffer t"
  "next_id (writeFrame e f t) = next_id t"
  by (simp_all add: writeFrame_def Let_def split: write_result.split)

lemma send_request_frame [rpc_frame, simp]:
  "stdout_buffer (send_request e q p t) = stdout_buffer t"
  "stderr_buffer (send_request e q p t) = stderr_buffer t"
  "next_id (send_request e q p t) = next_id t"
  by (simp_all add: send_request_def Let_def split: payload.split)

lemma request_frame [rpc_frame, simp]:
  "stdout_buffer (request e m q ms t) = stdout_buffer t"
  "stderr_buffer (request e m q ms t) = stderr_buffer t"
  by (simp_all add: request_def split: option.split)

lemma do_call_frame [rpc_frame, simp]:
  "stdout_buffer (do_call e c t) = stdout_buffer t"
  "stderr_buffer (do_call e c t) = stderr_buffer t"
  by (cases c; simp add: send_def)+

lemma handleLine_buffer [rpc_frame, simp]: "stdout_buffer (handleLine e line t) = stdout_buffer t"
  by (simp add: handleLine_def dispatchInboundRequest_def dispatchNotification_def
      resolveResponse_def Let_def case_prod_beta fold_keeps [of stdout_buffer] split: option.split)

lemma after_line_shorter: "line_feed \<in> set b \<Longrightarrow> length (after_line b) < length b"
proof -
  assume "line_feed \<in> set b"
  then have "dropWhile (\<lambda>u. u \<noteq> line_feed) b \<noteq> []" by (simp add: dropWhile_eq_Nil_conv)
  then show ?thesis
    using length_dropWhile_le [of "\<lambda>u. u \<noteq> line_feed" b] unfolding after_line_def
    by (cases "dropWhile (\<lambda>u. u \<noteq> line_feed) b") (simp_all add: Suc_le_eq)
qed

subsection \<open>The read loops\<close>

function drain_stdout :: "env \<Rightarrow> transport \<Rightarrow> transport" where
  "drain_stdout e t =
     (if line_feed \<in> set (stdout_buffer t)
      then drain_stdout e
             (handleLine e (first_line (stdout_buffer t))
               (t\<lparr>stdout_buffer := after_line (stdout_buffer t)\<rparr>))
      else t)"
  by pat_completeness auto
termination
  by (relation "measure (\<lambda>(e, t). length (stdout_buffer t))") (simp_all add: after_line_shorter)

declare drain_stdout.simps [simp del]

definition onStdoutData :: "env \<Rightarrow> jstext \<Rightarrow> transport \<Rightarrow> transport" where
  "onStdoutData e chunk t = drain_stdout e (t\<lparr>stdout_buffer := stdout_buffer t @ chunk\<rparr>)"

definition strip_cr :: "jstext \<Rightarrow> jstext" where
  "strip_cr l = (if l \<noteq> [] \<and> last l = 13 then butlast l else l)"

definition stderr_line :: "env \<Rightarrow> jstext \<Rightarrow> transport \<Rightarrow> transport" where
  "stderr_line e l t =
     (if strip_cr l = [] then t
      else note_event (Logged (Log_stderr (utf8_len (strip_cr l)) (redacts e (strip_cr l)))) t)"

function drain_stderr :: "env \<Rightarrow> transport \<Rightarrow> transport" where
  "drain_stderr e t =
     (if line_feed \<in> set (stderr_buffer t)
      then drain_stderr e
             (stderr_line e (first_line (stderr_buffer t))
               (t\<lparr>stderr_buffer := after_line (stderr_buffer t)\<rparr>))
      else t)"
  by pat_completeness auto
termination
  by (relation "measure (\<lambda>(e, t). length (stderr_buffer t))")
    (simp_all add: after_line_shorter stderr_line_def)

declare drain_stderr.simps [simp del]

definition onStderrData :: "env \<Rightarrow> jstext \<Rightarrow> transport \<Rightarrow> transport" where
  "onStderrData e chunk t = drain_stderr e (t\<lparr>stderr_buffer := stderr_buffer t @ chunk\<rparr>)"

section \<open>Timers and events\<close>

definition fire_timer :: "nat \<Rightarrow> transport \<Rightarrow> transport" where
  "fire_timer n t =
     (case js_get (pending t) (id_of n) of
        None \<Rightarrow> t
      | Some p \<Rightarrow>
          (case p_timer p of
             None \<Rightarrow> t
           | Some ms \<Rightarrow>
               settle n (Timeout_error (p_method p) ms)
                 (note_event (Logged (Log_timeout (p_method p) ms))
                   (t\<lparr>pending := js_delete (pending t) (id_of n)\<rparr>))))"

datatype stream_event =
    Stdout_data jstext
  | Stderr_data jstext
  | Stdin_failed string "string option"
  | Stdout_failed string
  | Stderr_failed string
  | Stdout_ended
  | Timer_fired nat
  | Called call

fun apply_event :: "env \<Rightarrow> stream_event \<Rightarrow> transport \<Rightarrow> transport" where
  "apply_event e (Stdout_data c) t = onStdoutData e c t"
| "apply_event e (Stderr_data c) t = onStderrData e c t"
| "apply_event e (Stdin_failed cls code) t = handleStdinError e cls code t"
| "apply_event e (Stdout_failed cls) t = handleStreamClose e (note_event (Logged (Log_stdout_error cls)) t)"
| "apply_event e (Stderr_failed cls) t = note_event (Logged (Log_stderr_error cls)) t"
| "apply_event e Stdout_ended t = handleStreamClose e t"
| "apply_event e (Timer_fired n) t = fire_timer n t"
| "apply_event e (Called c) t = do_call e c t"

definition rpc_step :: "env \<Rightarrow> transport \<Rightarrow> transport \<Rightarrow> bool" where
  "rpc_step e t t' \<longleftrightarrow> (\<exists>ev. t' = apply_event e ev t)"

end
