(* ===== verification/Json_Rpc_Laws.thy ===== *)
theory Json_Rpc_Laws
  imports Json_Rpc
begin

text \<open>
  What the operations of the JSON-RPC transport keep (src/src/acp/json-rpc-stdio.ts): every request
  number is either settled or waiting in the map, a closed transport has nothing left to settle,
  what happened is only ever added to, and the way the provider's output is cut into chunks does
  not matter.
\<close>

section \<open>The books\<close>

definition settled_nos :: "transport \<Rightarrow> nat set" where
  "settled_nos t = fst ` set (settled t)"

definition pending_nos :: "transport \<Rightarrow> nat set" where
  "pending_nos t = (\<lambda>(i, p). p_no p) ` set (pending t)"

definition keyed :: "transport \<Rightarrow> bool" where
  "keyed t \<longleftrightarrow> js_wf (pending t) \<and> (\<forall>(i, p)\<in>set (pending t). i = id_of (p_no p))"

text \<open>
  The numbers given out are those settled, those waiting and the set S of those just drawn; the
  promises are settled at most once.
\<close>

definition balanced :: "nat set \<Rightarrow> transport \<Rightarrow> bool" where
  "balanced S t \<longleftrightarrow> keyed t \<and> distinct (map fst (settled t))
     \<and> {1..<next_id t} = settled_nos t \<union> pending_nos t \<union> S
     \<and> S \<inter> (settled_nos t \<union> pending_nos t) = {} \<and> 1 \<le> next_id t"

definition terminated_ok :: "transport \<Rightarrow> bool" where
  "terminated_ok t \<longleftrightarrow> (exit_error t \<noteq> None \<longrightarrow> closed t)
     \<and> (closed t \<longrightarrow> pending_nos t \<subseteq> settled_nos t)"

definition rpc_ok :: "nat set \<Rightarrow> transport \<Rightarrow> bool" where
  "rpc_ok S t \<longleftrightarrow> balanced S t \<and> terminated_ok t"

lemma settled_nos_settle [simp]: "settled_nos (settle n w t) = insert n (settled_nos t)"
  by (auto simp: settle_def settled_nos_def)

lemma pending_nos_settle [simp]: "pending_nos (settle n w t) = pending_nos t"
  by (simp add: pending_nos_def)

lemma settle_distinct: "distinct (map fst (settled t)) \<Longrightarrow> distinct (map fst (settled (settle n w t)))"
  by (simp add: settle_def)

lemma keyed_settle [simp]: "keyed (settle n w t) = keyed t"
  by (simp add: keyed_def)

lemma nos_frame [simp]:
  "settled_nos (note_event x t) = settled_nos t" "pending_nos (note_event x t) = pending_nos t"
  "keyed (note_event x t) = keyed t"
  "settled_nos (t\<lparr>history := h\<rparr>) = settled_nos t" "pending_nos (t\<lparr>history := h\<rparr>) = pending_nos t"
  "keyed (t\<lparr>history := h\<rparr>) = keyed t"
  by (simp_all add: settled_nos_def pending_nos_def keyed_def)

lemma set_js_delete: "set (js_delete m k) = {x \<in> set m. fst x \<noteq> k}"
  by (auto simp: AList.delete_eq)

lemma keyed_delete: "keyed t \<Longrightarrow> keyed (t\<lparr>pending := js_delete (pending t) i\<rparr>)"
  by (auto simp: keyed_def set_js_delete)

lemma pending_nos_delete:
  "keyed t \<Longrightarrow> pending_nos (t\<lparr>pending := js_delete (pending t) (id_of n)\<rparr>) = pending_nos t - {n}"
  by (force simp: keyed_def pending_nos_def set_js_delete)

lemma keyed_get: "keyed t \<Longrightarrow> js_get (pending t) i = Some p \<Longrightarrow> i = id_of (p_no p) \<and> p_no p \<in> pending_nos t"
  by (force simp: keyed_def pending_nos_def dest: map_of_SomeD)

lemma pending_nos_get: "keyed t \<Longrightarrow> n \<in> pending_nos t \<Longrightarrow> \<exists>p. js_get (pending t) (id_of n) = Some p \<and> p_no p = n"
  by (force simp: keyed_def pending_nos_def map_of_eq_Some_iff)

text \<open>Settling a waiting request moves its number from one side of the books to the other.\<close>

lemma rpc_ok_note [simp]: "rpc_ok S (note_event x t) = rpc_ok S t"
  by (simp add: rpc_ok_def balanced_def terminated_ok_def)

lemma rpc_ok_settle_pending:
  assumes "rpc_ok S t" and "js_get (pending t) (id_of n) = Some p"
  shows "rpc_ok S (settle n w (t\<lparr>pending := js_delete (pending t) (id_of n)\<rparr>))"
proof -
  have k: "keyed t" using assms(1) by (simp add: rpc_ok_def balanced_def)
  from keyed_get [OF this assms(2)] have n: "n \<in> pending_nos t" by simp
  let ?u = "t\<lparr>pending := js_delete (pending t) (id_of n)\<rparr>"
  have u: "pending_nos ?u = pending_nos t - {n}" "settled_nos ?u = settled_nos t"
    using pending_nos_delete [OF k] by (simp_all add: settled_nos_def)
  show ?thesis
    using assms(1) n keyed_delete [OF k, of "id_of n"] settle_distinct [of ?u n w]
    unfolding rpc_ok_def balanced_def terminated_ok_def by (auto simp: u)
qed

section \<open>Failing everything that waits\<close>

lemma fold_fail:
  assumes "keyed t" and "distinct (map fst (settled t))" and "set xs \<subseteq> set (pending t)"
  shows "let u = fold (\<lambda>(i, p) u. settle (p_no p) (Exit_error r) (u\<lparr>pending := js_delete (pending u) i\<rparr>)) xs t
     in keyed u \<and> distinct (map fst (settled u)) \<and> settled_nos u = settled_nos t \<union> (\<lambda>(i, p). p_no p) ` set xs
        \<and> set (pending u) = {x \<in> set (pending t). fst x \<notin> fst ` set xs}"
  using assms
proof (induction xs arbitrary: t rule: rev_induct)
  case Nil
  then show ?case by (simp add: Let_def)
next
  case (snoc x xs)
  obtain i p where x: "x = (i, p)" by (cases x)
  let ?u = "fold (\<lambda>(i, p) u. settle (p_no p) (Exit_error r) (u\<lparr>pending := js_delete (pending u) i\<rparr>)) xs t"
  have "keyed ?u" "distinct (map fst (settled ?u))"
    "settled_nos ?u = settled_nos t \<union> (\<lambda>(i, p). p_no p) ` set xs"
    "set (pending ?u) = {x \<in> set (pending t). fst x \<notin> fst ` set xs}"
    using snoc.IH [of t] snoc.prems by (auto simp: Let_def)
  moreover have "settled_nos (?u\<lparr>pending := js_delete (pending ?u) i\<rparr>) = settled_nos ?u"
    by (simp add: settled_nos_def)
  ultimately show ?case
    using keyed_delete [of ?u i] settle_distinct [of "?u\<lparr>pending := js_delete (pending ?u) i\<rparr>" "p_no p"]
    by (auto simp: x Let_def set_js_delete)
qed

lemma failPending_books:
  assumes "keyed t" and "distinct (map fst (settled t))"
  shows "pending (failPending r t) = []" "distinct (map fst (settled (failPending r t)))"
    "settled_nos (failPending r t) = settled_nos t \<union> pending_nos t"
    "pending_nos (failPending r t) = {}" "keyed (failPending r t)"
proof -
  let ?u = "failPending r t"
  have "keyed ?u \<and> distinct (map fst (settled ?u)) \<and> settled_nos ?u = settled_nos t \<union> pending_nos t
      \<and> set (pending ?u) = {}"
    using fold_fail [OF assms subset_refl, of r]
    by (force simp: failPending_def Let_def pending_nos_def)
  then show "pending ?u = []" "distinct (map fst (settled ?u))" "settled_nos ?u = settled_nos t \<union> pending_nos t"
    "pending_nos ?u = {}" "keyed ?u"
    by (simp_all add: pending_nos_def)
qed

lemma rpc_ok_fail:
  assumes "balanced S t"
  shows "rpc_ok S ((failPending r t)\<lparr>closed := True\<rparr>)"
    and "closed t \<Longrightarrow> rpc_ok S (failPending r t)"
proof -
  have b: "keyed t" "distinct (map fst (settled t))" using assms by (simp_all add: balanced_def)
  note f = failPending_books [OF b, of r]
  have k: "keyed ((failPending r t)\<lparr>closed := True\<rparr>)" using f(5) by (simp add: keyed_def)
  have s: "settled_nos ((failPending r t)\<lparr>closed := True\<rparr>) = settled_nos t \<union> pending_nos t"
    "pending_nos ((failPending r t)\<lparr>closed := True\<rparr>) = {}"
    using f(3,4) by (simp_all add: settled_nos_def pending_nos_def)
  show "rpc_ok S ((failPending r t)\<lparr>closed := True\<rparr>)"
    using assms f(2) k by (auto simp: rpc_ok_def balanced_def terminated_ok_def s)
  show "rpc_ok S (failPending r t)" if "closed t"
    using that assms f(2,5) by (auto simp: rpc_ok_def balanced_def terminated_ok_def f(3,4))
qed

section \<open>Every operation keeps the books\<close>

lemma balanced_fields:
  "balanced S (t\<lparr>closed := b\<rparr>) = balanced S t" "balanced S (t\<lparr>exit_error := x\<rparr>) = balanced S t"
  "balanced S (note_event y t) = balanced S t"
  "balanced S (t\<lparr>stdout_buffer := v\<rparr>) = balanced S t" "balanced S (t\<lparr>stderr_buffer := v\<rparr>) = balanced S t"
  by (simp_all add: balanced_def keyed_def settled_nos_def pending_nos_def)

lemma rpc_ok_buffers [simp]:
  "rpc_ok S (t\<lparr>stdout_buffer := v\<rparr>) = rpc_ok S t" "rpc_ok S (t\<lparr>stderr_buffer := v\<rparr>) = rpc_ok S t"
  by (simp_all add: rpc_ok_def balanced_fields terminated_ok_def settled_nos_def pending_nos_def)

lemma rpc_ok_balanced: "rpc_ok S t \<Longrightarrow> balanced S t"
  by (simp add: rpc_ok_def)

lemma fold_rpc_ok: "(\<And>x u. rpc_ok S u \<Longrightarrow> rpc_ok S (f x u)) \<Longrightarrow> rpc_ok S u \<Longrightarrow> rpc_ok S (fold f xs u)"
  by (induction xs arbitrary: u) simp_all

lemma tear_down_ok [inv_intros]: "rpc_ok S t \<Longrightarrow> rpc_ok S (tear_down d t)"
proof (cases d)
  case Dispose
  assume ok: "rpc_ok S t"
  show ?thesis
  proof (cases "closed t")
    case False
    have "balanced S (t\<lparr>closed := True\<rparr>)" using ok by (simp add: balanced_fields rpc_ok_balanced)
    from rpc_ok_fail(2) [OF this] False show ?thesis by (simp add: Dispose dispose_def)
  qed (simp add: Dispose dispose_def ok)
next
  case (Exit c s)
  assume ok: "rpc_ok S t"
  then show ?thesis
    by (simp add: Exit handleProcessExit_def Let_def balanced_fields rpc_ok_fail(1) rpc_ok_balanced)
qed

lemma emit_ok [inv_intros]:
  "rpc_ok S t \<Longrightarrow> rpc_ok S (emitActivity e t)" "rpc_ok S t \<Longrightarrow> rpc_ok S (emitTerminal e r t)"
  by (simp_all add: emitActivity_def emitTerminal_def Let_def fold_rpc_ok tear_down_ok)

lemma handleStdinError_ok [inv_intros]: "rpc_ok S t \<Longrightarrow> rpc_ok S (handleStdinError e c d t)"
  by (simp add: handleStdinError_def Let_def balanced_fields emit_ok rpc_ok_fail(1) rpc_ok_balanced)

lemma handleStreamClose_ok [inv_intros]: "rpc_ok S t \<Longrightarrow> rpc_ok S (handleStreamClose e t)"
  by (simp add: handleStreamClose_def Let_def balanced_fields emit_ok rpc_ok_fail(1) rpc_ok_balanced)

lemma writeFrame_ok [inv_intros]: "rpc_ok S t \<Longrightarrow> rpc_ok S (writeFrame e f t)"
  by (simp add: writeFrame_def Let_def handleStdinError_ok split: write_result.split)


lemma writeFrame_closed: "closed t \<Longrightarrow> \<exists>h. writeFrame e f t = t\<lparr>history := h\<rparr>"
  by (cases "on_write e (visible (note_event (Frame f) t))")
    (auto simp: writeFrame_def handleStdinError_def note_event_def Let_def)

lemma send_request_ok [inv_intros]:
  assumes ok: "rpc_ok {p_no p} t" and n: "1 \<le> p_no p"
  shows "rpc_ok {} (send_request e q p t)"
proof -
  let ?n = "p_no p" and ?t = "t\<lparr>pending := js_set (pending t) (id_of (p_no p)) p\<rparr>"
  have fresh: "?n \<notin> pending_nos t" "?n \<notin> settled_nos t" and k: "keyed t"
    using ok by (auto simp: rpc_ok_def balanced_def)
  have "id_of ?n \<notin> fst ` set (pending t)"
    using fresh(1) k by (force simp: keyed_def pending_nos_def)
  then have set: "js_set (pending t) (id_of ?n) p = pending t @ [(id_of ?n, p)]" by (simp add: js_set_fresh)
  have nos: "pending_nos ?t = insert ?n (pending_nos t)" "settled_nos ?t = settled_nos t"
    by (auto simp: pending_nos_def settled_nos_def set)
  have k': "keyed ?t"
    using k \<open>id_of ?n \<notin> fst ` set (pending t)\<close> by (simp add: keyed_def set)
  have b: "balanced {} ?t"
    using ok k' by (auto simp: rpc_ok_def balanced_def nos)
  have settle_ok: "rpc_ok {} (settle ?n w ?t)" for w
    using b ok settle_distinct [of ?t ?n w] by (auto simp: rpc_ok_def balanced_def terminated_ok_def nos)
  show ?thesis
  proof (cases "q = Unserialisable")
    case False
    let ?w = "writeFrame e (Request_frame ?n (p_method p) q) ?t"
    have w: "send_request e q p t =
       (if (exit_error ?w \<noteq> None \<or> closed ?w) \<and> js_get (pending ?w) (id_of ?n) = Some p
        then settle ?n (Exit_error (nullish (exit_error ?w) Unexplained))
               (?w\<lparr>pending := js_delete (pending ?w) (id_of ?n)\<rparr>)
        else ?w)"
      using False by (cases q) (simp_all add: send_request_def Let_def)
    show ?thesis
    proof (cases "closed t")
      case True
      obtain h where h: "?w = ?t\<lparr>history := h\<rparr>"
        using True writeFrame_closed [of ?t e "Request_frame ?n (p_method p) q"] by auto
      have "js_delete (js_set (pending t) (id_of ?n) p) (id_of ?n) = pending t"
        using \<open>id_of ?n \<notin> fst ` set (pending t)\<close> by (simp add: set AList.delete_eq filter_id_conv) force
      then have "(?t\<lparr>history := h\<rparr>)\<lparr>pending := js_delete (pending ?t) (id_of ?n)\<rparr> = t\<lparr>history := h\<rparr>"
        by (cases t) simp
      moreover have "rpc_ok {} (settle ?n w (t\<lparr>history := h\<rparr>))" for w
        using ok settle_distinct [of "t\<lparr>history := h\<rparr>" ?n w]
        by (auto simp: rpc_ok_def balanced_def terminated_ok_def)
      ultimately show ?thesis
        unfolding w h using True by simp
    next
      case False
      then have "rpc_ok {} ?t" using b ok by (auto simp: rpc_ok_def terminated_ok_def)
      then show ?thesis unfolding w by (simp add: writeFrame_ok rpc_ok_settle_pending)
    qed
  qed (simp add: send_request_def Let_def settle_ok)
qed

lemma request_ok [inv_intros]: "rpc_ok {} t \<Longrightarrow> rpc_ok {} (request e m q ms t)"
proof -
  assume ok: "rpc_ok {} t"
  let ?u = "t\<lparr>next_id := Suc (next_id t)\<rparr>"
  have "rpc_ok {next_id t} ?u"
    using ok
    by (auto simp: rpc_ok_def balanced_def terminated_ok_def keyed_def settled_nos_def pending_nos_def
        atLeastLessThanSuc)
  moreover have "1 \<le> next_id t" using ok by (simp add: rpc_ok_def balanced_def)
  moreover have "p_no (new_request e m ms (next_id t)) = next_id t"
    by (simp add: new_request_def Let_def)
  ultimately show ?thesis
    using send_request_ok [of "new_request e m ms (next_id t)" "emitActivity e ?u" e q]
    by (simp add: request_def emit_ok ok split: option.split)
qed

lemma do_call_ok [inv_intros]: "rpc_ok {} t \<Longrightarrow> rpc_ok {} (do_call e c t)"
  by (cases c) (simp_all add: tear_down_ok request_ok send_def writeFrame_ok)

lemma handleLine_ok [inv_intros]: "rpc_ok {} t \<Longrightarrow> rpc_ok {} (handleLine e line t)"
proof -
  have resolve: "rpc_ok {} (resolveResponse i j t)" if "rpc_ok {} t" for i j t
  proof (cases "js_get (pending t) i")
    case (Some p)
    have "i = id_of (p_no p)" using that keyed_get [OF _ Some] by (simp add: rpc_ok_def balanced_def)
    then show ?thesis using rpc_ok_settle_pending [OF that, of "p_no p" p] Some
      by (simp add: resolveResponse_def)
  qed (simp add: resolveResponse_def that)
  show "rpc_ok {} t \<Longrightarrow> ?thesis"
    by (simp add: handleLine_def dispatchInboundRequest_def dispatchNotification_def Let_def
        case_prod_beta fold_rpc_ok do_call_ok emit_ok resolve split: option.split)
qed

lemma drain_stdout_ok [inv_intros]: "rpc_ok {} t \<Longrightarrow> rpc_ok {} (drain_stdout e t)"
proof (induction e t rule: drain_stdout.induct)
  case (1 e t)
  show ?case
    by (subst drain_stdout.simps) (simp add: 1 handleLine_ok)
qed

lemma drain_stderr_ok [inv_intros]: "rpc_ok {} t \<Longrightarrow> rpc_ok {} (drain_stderr e t)"
proof (induction e t rule: drain_stderr.induct)
  case (1 e t)
  have "rpc_ok {} (stderr_line e l t)" if "rpc_ok {} t" for l t using that by (simp add: stderr_line_def)
  then show ?case by (subst drain_stderr.simps) (simp add: 1)
qed

lemma fire_timer_ok [inv_intros]: "rpc_ok {} t \<Longrightarrow> rpc_ok {} (fire_timer n t)"
proof -
  assume ok: "rpc_ok {} t"
  have "rpc_ok {} (settle n w (note_event x (t\<lparr>pending := js_delete (pending t) (id_of n)\<rparr>)))"
    if "js_get (pending t) (id_of n) = Some p" for p w x
  proof -
    have "note_event x (t\<lparr>pending := js_delete (pending t) (id_of n)\<rparr>)
       = (note_event x t)\<lparr>pending := js_delete (pending (note_event x t)) (id_of n)\<rparr>"
      by (simp add: note_event_def)
    then show ?thesis using rpc_ok_settle_pending [of "{}" "note_event x t" n p w] ok that by (simp only: rpc_ok_note note_event_frame)
  qed
  then show ?thesis by (simp add: fire_timer_def ok split: option.split)
qed

lemma apply_event_ok [inv_intros]: "rpc_ok {} t \<Longrightarrow> rpc_ok {} (apply_event e ev t)"
  by (cases ev)
    (simp_all add: onStdoutData_def onStderrData_def drain_stdout_ok drain_stderr_ok
      handleStdinError_ok handleStreamClose_ok fire_timer_ok do_call_ok)

lemma opened_ok: "rpc_ok {} opened"
  by (simp add: rpc_ok_def balanced_def terminated_ok_def keyed_def opened_def settled_nos_def pending_nos_def)

interpretation rpc_books: inv_system "\<lambda>t. t = opened" "rpc_step e" "rpc_ok {}" for e
  by unfold_locales (auto simp: opened_ok rpc_step_def apply_event_ok)

end
