(* ===== verification/Json_Rpc_Properties.thy ===== *)
theory Json_Rpc_Properties
  imports Json_Rpc_Laws
begin

text \<open>
  What the JSON-RPC transport promises (src/src/acp/json-rpc-stdio.ts): each request settles once
  and none is left open when the channel ends, a closed transport is silent and final, the framing
  does not see chunk boundaries, and a response settles the request it answers.
\<close>

section \<open>What happened is only added to\<close>

fun is_frame :: "rpc_event \<Rightarrow> bool" where
  "is_frame (Frame f) = True"
| "is_frame _ = False"

fun is_terminal_event :: "rpc_event \<Rightarrow> bool" where
  "is_terminal_event (Terminal r) = True"
| "is_terminal_event _ = False"

definition frames :: "transport \<Rightarrow> rpc_event list" where
  "frames t = filter is_frame (history t)"

definition terminals :: "transport \<Rightarrow> rpc_event list" where
  "terminals t = filter is_terminal_event (history t)"

text \<open>At most one end is reported, when its reason is recorded.\<close>

definition ends_once :: "transport \<Rightarrow> transport \<Rightarrow> bool" where
  "ends_once t u \<longleftrightarrow> terminals u = terminals t
     \<or> (\<exists>r. terminals u = terminals t @ [Terminal r] \<and> exit_error t = None \<and> exit_error u = Some r)"

text \<open>A later transport: outcomes stand, the end of the channel and its reason stand.\<close>

definition extends :: "transport \<Rightarrow> transport \<Rightarrow> bool" where
  "extends t u \<longleftrightarrow> prefix (settled t) (settled u) \<and> prefix (history t) (history u)
     \<and> (closed t \<longrightarrow> closed u) \<and> (exit_error t \<noteq> None \<longrightarrow> exit_error u = exit_error t)
     \<and> next_id t \<le> next_id u \<and> ends_once t u"

text \<open>A closed transport draws no number, writes no frame and reports no second end.\<close>

definition silent :: "transport \<Rightarrow> transport \<Rightarrow> bool" where
  "silent t u \<longleftrightarrow> (closed t \<longrightarrow> next_id u = next_id t \<and> frames u = frames t)
     \<and> (exit_error t \<noteq> None \<or> closed t \<longrightarrow> terminals u = terminals t)"

definition follows :: "transport \<Rightarrow> transport \<Rightarrow> bool" where
  "follows t u \<longleftrightarrow> extends t u \<and> silent t u"

lemma extends_refl [simp]: "extends t t"
  by (simp add: extends_def ends_once_def)

lemma extends_trans: "extends t u \<Longrightarrow> extends u v \<Longrightarrow> extends t v"
  by (auto simp: extends_def ends_once_def intro: prefix_order.trans)

lemma follows_refl [simp]: "follows t t"
  by (simp add: follows_def silent_def)

lemma follows_trans: "follows t u \<Longrightarrow> follows u v \<Longrightarrow> follows t v"
  unfolding follows_def using extends_trans [of t u v]
  by (auto simp: silent_def extends_def)

lemma fold_follows: "(\<And>x u. follows u (f x u)) \<Longrightarrow> follows u (fold f xs u)"
  by (induction xs arbitrary: u) (auto intro: follows_trans)

lemma note_follows [intro]: "\<not> is_frame x \<Longrightarrow> \<not> is_terminal_event x \<Longrightarrow> follows t (note_event x t)"
  by (simp add: follows_def extends_def silent_def frames_def terminals_def ends_once_def)

lemma settle_follows [intro]: "follows t (settle n w t)"
  by (auto simp: follows_def extends_def silent_def frames_def terminals_def settle_def ends_once_def)

lemma fields_follow [intro]:
  "follows t (t\<lparr>pending := m\<rparr>)" "follows t (t\<lparr>closed := True\<rparr>)"
  "exit_error t = None \<Longrightarrow> follows t (t\<lparr>exit_error := x\<rparr>)"
  "follows t (t\<lparr>stdout_buffer := v\<rparr>)" "follows t (t\<lparr>stderr_buffer := v\<rparr>)"
  by (simp_all add: follows_def extends_def silent_def frames_def terminals_def ends_once_def)

lemma failPending_follows [intro]: "follows t (failPending r t)"
  unfolding failPending_def
  by (rule fold_follows) (auto intro: follows_trans)

lemma dispose_follows: "follows t (dispose t)"
  by (auto simp: dispose_def intro: follows_trans)

lemma handleProcessExit_follows: "follows t (handleProcessExit c s t)"
proof (cases "exit_error t")
  case None
  let ?a = "t\<lparr>exit_error := Some (Process_exit c s)\<rparr>"
  let ?b = "note_event (Logged (Log_exit c s (length (pending ?a)))) ?a"
  have "follows t ?a" "follows ?a ?b" "follows ?b (failPending (Process_exit c s) ?b)"
    "follows (failPending (Process_exit c s) ?b) ((failPending (Process_exit c s) ?b)\<lparr>closed := True\<rparr>)"
    using None by auto
  then have "follows t ((failPending (Process_exit c s) ?b)\<lparr>closed := True\<rparr>)"
    by (blast intro: follows_trans)
  then show ?thesis using None by (simp add: handleProcessExit_def Let_def)
qed (simp add: handleProcessExit_def)

lemma tear_down_follows: "follows t (tear_down d t)"
  by (cases d) (simp_all add: dispose_follows handleProcessExit_follows)

lemma emitActivity_follows: "follows t (emitActivity e t)"
  unfolding emitActivity_def Let_def
  by (rule follows_trans [OF note_follows fold_follows]) (simp_all add: tear_down_follows)

text \<open>The end of the channel, from the state in which it is discovered.\<close>

lemma terminal_follows:
  assumes "exit_error t = None" and "\<not> closed t"
  shows "follows t (emitTerminal e r ((failPending r (t\<lparr>exit_error := Some r\<rparr>))\<lparr>closed := True\<rparr>))"
proof -
  let ?u = "(failPending r (t\<lparr>exit_error := Some r\<rparr>))\<lparr>closed := True\<rparr>"
  have tu: "follows t ?u"
    using follows_trans [OF follows_trans [OF fields_follow(3) [OF assms(1)] failPending_follows]
      fields_follow(2)] .
  have "tear_down d (note_event (Terminal r) ?u) = note_event (Terminal r) ?u" for d
    by (cases d) (simp_all add: dispose_def handleProcessExit_def)
  then have down: "fold tear_down ds (note_event (Terminal r) ?u) = note_event (Terminal r) ?u" for ds
    by (induction ds) simp_all
  have "terminals (note_event (Terminal r) ?u) = terminals t @ [Terminal r]"
    by (simp add: terminals_def)
  then have "extends t (note_event (Terminal r) ?u)"
    using tu assms by (simp add: follows_def extends_def ends_once_def)
  then show ?thesis
    unfolding emitTerminal_def Let_def down follows_def silent_def using assms by simp
qed

lemma handleStdinError_follows: "follows t (handleStdinError e c d t)"
proof -
  let ?a = "note_event (Logged (Log_stdin_error c d)) t"
  have "follows t ?a" by auto
  then show ?thesis
    using terminal_follows [of ?a e Stdin_write_failed] follows_trans [of t ?a]
    by (simp add: handleStdinError_def Let_def)
qed

lemma handleStreamClose_follows: "follows t (handleStreamClose e t)"
proof (cases "exit_error t = None \<and> \<not> closed t")
  case True
  let ?a = "note_event (Logged (Log_stdout_closed (length (pending t)))) t"
  have swap: "note_event x (t\<lparr>exit_error := y\<rparr>) = (note_event x t)\<lparr>exit_error := y\<rparr>" for x and y
    by (cases t) (simp add: note_event_def)
  have "handleStreamClose e t
     = emitTerminal e Stdout_channel_closed
         ((failPending Stdout_channel_closed (?a\<lparr>exit_error := Some Stdout_channel_closed\<rparr>))\<lparr>closed := True\<rparr>)"
    using True by (simp add: handleStreamClose_def Let_def swap)
  moreover have "follows t ?a" by auto
  ultimately show ?thesis
    using True terminal_follows [of ?a e Stdout_channel_closed] follows_trans [of t ?a] by simp
qed (auto simp: handleStreamClose_def)

lemma writeFrame_extends: "extends t (writeFrame e f t)"
proof -
  have "extends t (note_event (Frame f) t)" by (simp add: extends_def ends_once_def terminals_def)
  then show ?thesis
    using handleStdinError_follows [of "note_event (Frame f) t" e] extends_trans
    by (auto simp: writeFrame_def Let_def follows_def split: write_result.split)
qed

lemma writeFrame_follows: "\<not> closed t \<Longrightarrow> exit_error t = None \<Longrightarrow> follows t (writeFrame e f t)"
  by (simp add: follows_def writeFrame_extends silent_def)

lemma send_request_extends: "extends t (send_request e q p t)"
proof -
  have x: "follows u v \<Longrightarrow> extends u v" for u v by (simp add: follows_def)
  let ?t = "t\<lparr>pending := js_set (pending t) (id_of (p_no p)) p\<rparr>"
  let ?w = "writeFrame e (Request_frame (p_no p) (p_method p) q) ?t"
  have t: "extends t ?t" by (simp add: extends_def ends_once_def terminals_def)
  have w: "extends t ?w" using extends_trans [OF t writeFrame_extends] .
  have "extends ?w (settle n r (?w\<lparr>pending := m\<rparr>))" for n r m
    by (intro x follows_trans [OF fields_follow(1) settle_follows])
  with w have "extends t (settle n r (?w\<lparr>pending := m\<rparr>))" for n r m by (rule extends_trans)
  moreover have "extends t (settle n r ?t)" for n r using extends_trans [OF t x [OF settle_follows]] .
  ultimately show ?thesis using w by (cases q) (simp_all add: send_request_def Let_def)
qed

lemma request_follows: "follows t (request e m q ms t)"
proof (cases "exit_error t = None \<and> \<not> closed t")
  case True
  let ?u = "t\<lparr>next_id := Suc (next_id t)\<rparr>"
  have "extends t ?u" by (simp add: extends_def ends_once_def terminals_def)
  moreover have "extends ?u (emitActivity e ?u)" using emitActivity_follows by (simp add: follows_def)
  ultimately have "extends t (send_request e q p (emitActivity e ?u))" for p
    by (blast intro: extends_trans send_request_extends)
  then show ?thesis using True by (simp add: request_def follows_def silent_def)
next
  case False
  then show ?thesis by (cases "exit_error t") (auto simp: request_def)
qed

lemma do_call_follows: "follows t (do_call e c t)"
  by (cases c) (simp_all add: tear_down_follows request_follows send_def writeFrame_follows)

lemma handleLine_follows: "follows t (handleLine e line t)"
proof -
  have calls: "follows u (fold (do_call e) cs u)" for cs u by (rule fold_follows [OF do_call_follows])
  have logged: "follows t u \<Longrightarrow> \<not> is_frame x \<Longrightarrow> \<not> is_terminal_event x \<Longrightarrow> follows t (note_event x u)" for t u x
    using follows_trans [OF _ note_follows] .
  have "follows u (dispatchInboundRequest e i m q u)" "follows u (dispatchNotification e m q u)" for i m q u
    using follows_trans [OF note_follows calls]
    by (auto simp: dispatchInboundRequest_def dispatchNotification_def Let_def case_prod_beta logged
        split: option.split)
  moreover have "follows u (resolveResponse i j u)" for i j u
    using follows_trans [OF fields_follow(1) settle_follows]
    by (auto simp: resolveResponse_def split: option.split)
  ultimately show ?thesis
    using emitActivity_follows [of t e] follows_trans note_follows
    by (simp add: handleLine_def Let_def split: option.split)
qed

lemma drain_stdout_follows: "follows t (drain_stdout e t)"
proof (induction e t rule: drain_stdout.induct)
  case (1 e t)
  show ?case
    by (subst drain_stdout.simps)
      (simp add: 1 follows_trans [OF follows_trans [OF fields_follow(4) handleLine_follows] 1])
qed

lemma drain_stderr_follows: "follows t (drain_stderr e t)"
proof (induction e t rule: drain_stderr.induct)
  case (1 e t)
  have "follows u (stderr_line e l u)" for l u by (auto simp: stderr_line_def)
  from follows_trans [OF fields_follow(5) this] have
    "follows t (stderr_line e l (t\<lparr>stderr_buffer := v\<rparr>))" for l v .
  note tr = follows_trans [OF this 1]
  show ?case
    by (subst drain_stderr.simps)
      (simp add: tr)
qed

lemma fire_timer_follows: "follows t (fire_timer n t)"
proof -
  have "follows t (settle n w (note_event (Logged x) (t\<lparr>pending := m\<rparr>)))" for w x m
    by (rule follows_trans [OF fields_follow(1) follows_trans [OF note_follows settle_follows]]) simp_all
  then show ?thesis by (simp add: fire_timer_def split: option.split)
qed

lemma apply_event_follows: "follows t (apply_event e ev t)"
proof (cases ev)
  case (Stdout_failed c)
  then show ?thesis by simp (rule follows_trans [OF note_follows handleStreamClose_follows]; simp)
qed (auto simp: onStdoutData_def onStderrData_def handleStdinError_follows handleStreamClose_follows
      fire_timer_follows do_call_follows
      intro: follows_trans [OF fields_follow(4) drain_stdout_follows]
        follows_trans [OF fields_follow(5) drain_stderr_follows])


lemma apply_events_follows: "follows t (fold (apply_event e) evs t)"
  by (rule fold_follows [OF apply_event_follows])

section \<open>The framing\<close>

text \<open>
  No hook sees the line buffers, so an operation commutes with a change of the standard-output
  buffer.
\<close>

abbreviation with_buffer :: "jstext \<Rightarrow> transport \<Rightarrow> transport" where
  "with_buffer b t \<equiv> t\<lparr>stdout_buffer := b\<rparr>"

named_theorems buffered \<open>operations that do not look at the buffer\<close>

lemma visible_buffer [buffered]: "visible (with_buffer b t) = visible t"
  by (simp add: visible_def)

lemma note_buffer [buffered]: "note_event x (with_buffer b t) = with_buffer b (note_event x t)"
  by (cases t) (simp add: note_event_def)

lemma settle_buffer [buffered]: "settle n w (with_buffer b t) = with_buffer b (settle n w t)"
  by (cases t) (simp add: settle_def)

lemma fields_buffer [buffered]:
  "(with_buffer b t)\<lparr>pending := m\<rparr> = with_buffer b (t\<lparr>pending := m\<rparr>)"
  "(with_buffer b t)\<lparr>closed := c\<rparr> = with_buffer b (t\<lparr>closed := c\<rparr>)"
  "(with_buffer b t)\<lparr>exit_error := x\<rparr> = with_buffer b (t\<lparr>exit_error := x\<rparr>)"
  "(with_buffer b t)\<lparr>next_id := n\<rparr> = with_buffer b (t\<lparr>next_id := n\<rparr>)"
  "(with_buffer b t)\<lparr>stderr_buffer := v\<rparr> = with_buffer b (t\<lparr>stderr_buffer := v\<rparr>)"
  by simp_all

lemma fold_buffer:
  "(\<And>x u. f x (with_buffer b u) = with_buffer b (f x u)) \<Longrightarrow> fold f xs (with_buffer b u) = with_buffer b (fold f xs u)"
  by (induction xs arbitrary: u) simp_all

lemma failPending_buffer [buffered]: "failPending r (with_buffer b t) = with_buffer b (failPending r t)"
proof -
  let ?f = "\<lambda>(i, p) u. settle (p_no p) (Exit_error r) (u\<lparr>pending := js_delete (pending u) i\<rparr>)"
  have "?f x (with_buffer b u) = with_buffer b (?f x u)" for x u
    by (cases x) (simp add: buffered)
  from fold_buffer [where f = ?f and b = b, OF this] show ?thesis by (simp add: failPending_def)
qed

lemma tear_down_buffer [buffered]: "tear_down d (with_buffer b t) = with_buffer b (tear_down d t)"
  by (cases d) (simp_all add: dispose_def handleProcessExit_def Let_def buffered)

lemma emit_buffer [buffered]:
  "emitActivity e (with_buffer b t) = with_buffer b (emitActivity e t)"
  "emitTerminal e r (with_buffer b t) = with_buffer b (emitTerminal e r t)"
  by (simp_all add: emitActivity_def emitTerminal_def Let_def buffered fold_buffer [where f = tear_down, OF tear_down_buffer])

lemma write_buffer [buffered]:
  "handleStdinError e c d (with_buffer b t) = with_buffer b (handleStdinError e c d t)"
  "writeFrame e f (with_buffer b t) = with_buffer b (writeFrame e f t)"
proof -
  show h: "handleStdinError e c d (with_buffer b t) = with_buffer b (handleStdinError e c d t)" for c d t
    by (simp add: handleStdinError_def Let_def buffered)
  show "writeFrame e f (with_buffer b t) = with_buffer b (writeFrame e f t)"
    by (simp add: writeFrame_def Let_def buffered h split: write_result.split)
qed

lemma send_request_buffer [buffered]:
  "send_request e q p (with_buffer b t) = with_buffer b (send_request e q p t)"
  by (cases q) (simp_all add: send_request_def Let_def buffered)

lemma do_call_buffer [buffered]: "do_call e c (with_buffer b t) = with_buffer b (do_call e c t)"
  by (cases c) (simp_all add: request_def send_def buffered split: option.split)

lemma handleLine_buffer_commutes [buffered]:
  "handleLine e line (with_buffer b t) = with_buffer b (handleLine e line t)"
  by (simp add: handleLine_def dispatchInboundRequest_def dispatchNotification_def resolveResponse_def
      Let_def case_prod_beta buffered fold_buffer [where f = "do_call e", OF do_call_buffer] split: option.split)

lemma first_line_append: "line_feed \<in> set a \<Longrightarrow> first_line (a @ b) = first_line a"
  by (auto simp: first_line_def takeWhile_append)

lemma after_line_append: "line_feed \<in> set a \<Longrightarrow> after_line (a @ b) = after_line a @ b"
proof -
  assume "line_feed \<in> set a"
  moreover from this have "dropWhile (\<lambda>u. u \<noteq> line_feed) a \<noteq> []" by (simp add: dropWhile_eq_Nil_conv)
  ultimately show ?thesis by (auto simp: after_line_def dropWhile_append)
qed

text \<open>Draining what is there, and then what follows, is draining both.\<close>

lemma drain_append:
  "drain_stdout e (with_buffer (stdout_buffer (drain_stdout e t) @ b) (drain_stdout e t))
   = drain_stdout e (with_buffer (stdout_buffer t @ b) t)"
proof (induction e t rule: drain_stdout.induct)
  case (1 e t)
  let ?line = "first_line (stdout_buffer t)" and ?rest = "after_line (stdout_buffer t)"
  show ?case
  proof (cases "line_feed \<in> set (stdout_buffer t)")
    case True
    let ?u = "handleLine e ?line (with_buffer ?rest t)"
    have d: "drain_stdout e t = drain_stdout e ?u" by (subst drain_stdout.simps) (simp add: True)
    have "drain_stdout e (with_buffer (stdout_buffer t @ b) t)
       = drain_stdout e (handleLine e ?line (with_buffer (?rest @ b) t))"
      by (subst drain_stdout.simps) (simp add: True first_line_append after_line_append)
    also have "handleLine e ?line (with_buffer (?rest @ b) t) = with_buffer (stdout_buffer ?u @ b) ?u"
      by (simp add: handleLine_buffer_commutes)
    finally show ?thesis using 1 [OF True] by (simp add: d)
  next
    case False
    have "drain_stdout e t = t" by (subst drain_stdout.simps) (simp add: False)
    then show ?thesis by simp
  qed
qed

lemma onStdoutData_append: "onStdoutData e b (onStdoutData e a t) = onStdoutData e (a @ b) t"
  using drain_append [of e "with_buffer (stdout_buffer t @ a) t" b] by (simp add: onStdoutData_def)

lemma drain_stderr_frame: "stdout_buffer (drain_stderr e t) = stdout_buffer t"
proof (induction e t rule: drain_stderr.induct)
  case (1 e t)
  then show ?case by (subst drain_stderr.simps) (simp add: stderr_line_def)
qed

lemma onStderrData_frame: "stdout_buffer (onStderrData e c t) = stdout_buffer t"
  by (simp add: onStderrData_def drain_stderr_frame)

lemma drain_stdout_idle: "line_feed \<notin> set (stdout_buffer t) \<Longrightarrow> drain_stdout e t = t"
  by (subst drain_stdout.simps) simp

lemma drain_stdout_left: "line_feed \<notin> set (stdout_buffer (drain_stdout e t))"
proof (induction e t rule: drain_stdout.induct)
  case (1 e t)
  then show ?case by (subst drain_stdout.simps) simp
qed

definition rpc_reachable :: "env \<Rightarrow> transport \<Rightarrow> bool" where
  "rpc_reachable e t \<longleftrightarrow> (\<exists>evs. t = fold (apply_event e) evs opened)"

lemma rpc_reachable_ok: "rpc_reachable e t \<Longrightarrow> rpc_ok {} t"
proof -
  have "rpc_ok {} (fold (apply_event e) evs opened)" for evs
    by (rule fold_rpc_ok) (simp_all add: apply_event_ok opened_ok)
  then show "rpc_reachable e t \<Longrightarrow> ?thesis" by (auto simp: rpc_reachable_def)
qed

lemma rpc_reachable_buffer: "rpc_reachable e t \<Longrightarrow> line_feed \<notin> set (stdout_buffer t)"
proof -
  have "line_feed \<notin> set (stdout_buffer (apply_event e ev t))" if "line_feed \<notin> set (stdout_buffer t)" for ev t
    using that drain_stdout_left
    by (cases ev) (simp_all add: onStdoutData_def handleStreamClose_def Let_def fire_timer_def
        onStderrData_frame split: option.split)
  then have "line_feed \<notin> set (stdout_buffer (fold (apply_event e) evs t))"
    if "line_feed \<notin> set (stdout_buffer t)" for evs t
    using that by (induction evs arbitrary: t) auto
  then show "rpc_reachable e t \<Longrightarrow> ?thesis" by (auto simp: rpc_reachable_def opened_def)
qed

lemma reachable_ends: "rpc_reachable e t \<Longrightarrow> length (terminals t) \<le> 1"
proof -
  assume "rpc_reachable e t"
  then have "extends opened t"
    using apply_events_follows by (auto simp: rpc_reachable_def follows_def)
  moreover have "terminals opened = []" by (simp add: terminals_def opened_def)
  ultimately show ?thesis by (auto simp: extends_def ends_once_def)
qed

lemma requests_settle_once_books:
  assumes "rpc_reachable e t"
  shows "distinct (map fst (settled t))" and "closed t \<Longrightarrow> settled_nos t = {1..<next_id t}"
  using rpc_reachable_ok [OF assms]
  by (auto simp: rpc_ok_def balanced_def terminated_ok_def)

lemma settled_all_eq:
  assumes "prefix xs ys" and "distinct (map fst ys)" and "fst ` set ys = fst ` set xs"
  shows "ys = xs"
proof -
  obtain zs where ys: "ys = xs @ zs" using assms(1) by (auto simp: prefix_def)
  have "fst ` set xs \<inter> fst ` set zs = {}" using assms(2) by (simp add: ys)
  moreover have "fst ` set zs \<subseteq> fst ` set ys" by (simp add: ys image_Un)
  ultimately have "fst ` set zs = {}" using assms(3) by (metis inf.absorb_iff2)
  then show ?thesis by (simp add: ys)
qed

lemma rpc_reachable_later: "rpc_reachable e t \<Longrightarrow> rpc_reachable e (fold (apply_event e) evs t)"
  unfolding rpc_reachable_def by (metis fold_append comp_apply)

text \<open>A text as the lines it completes and the rest.\<close>

fun split_lines :: "jstext \<Rightarrow> jstext list \<times> jstext" where
  "split_lines [] = ([], [])"
| "split_lines (u # us) =
     (let (ls, r) = split_lines us in
      if u = line_feed then ([] # ls, r)
      else case ls of [] \<Rightarrow> ([], u # r) | l # ls' \<Rightarrow> ((u # l) # ls', r))"

lemma split_lines_none: "line_feed \<notin> set b \<Longrightarrow> split_lines b = ([], b)"
  by (induction b) auto

lemma split_lines_first:
  "line_feed \<in> set b \<Longrightarrow>
     split_lines b = (first_line b # fst (split_lines (after_line b)), snd (split_lines (after_line b)))"
  by (induction b)
    (auto simp: first_line_def after_line_def case_prod_beta split: list.split)

lemma drain_lines:
  "drain_stdout e t
   = with_buffer (snd (split_lines (stdout_buffer t))) (fold (handleLine e) (fst (split_lines (stdout_buffer t))) t)"
proof (induction e t rule: drain_stdout.induct)
  case (1 e t)
  let ?b = "stdout_buffer t"
  have f: "fold (handleLine e) ls (with_buffer b u) = with_buffer b (fold (handleLine e) ls u)" for ls b u
    by (rule fold_buffer) (rule handleLine_buffer_commutes)
  show ?case
  proof (cases "line_feed \<in> set ?b")
    case True
    then show ?thesis
      using 1 [OF True]
      by (subst drain_stdout.simps) (simp add: split_lines_first [of ?b] handleLine_buffer_commutes f)
  next
    case False
    then show ?thesis by (simp add: drain_stdout_idle split_lines_none)
  qed
qed

section \<open>The properties\<close>

text \<open>
  C16: a request of the transport settles exactly once. In every state the transport reaches,
  whatever its hooks, its streams and its callers do, no promise is settled twice; the numbers given
  to requests are exactly those settled and those waiting in the map; a closed transport has settled
  every request it ever issued; and whatever happens later, no outcome changes.
\<close>

theorem requests_settle_once:
  assumes "rpc_reachable e t"
  shows "distinct (map fst (settled t)) \<and> settled_nos t \<union> pending_nos t = {1..<next_id t}
    \<and> (if closed t then settled_nos t = {1..<next_id t} else exit_error t = None)
    \<and> prefix (settled t) (settled (fold (apply_event e) evs t))"
  using rpc_reachable_ok [OF assms] apply_events_follows [of t e evs]
  by (auto simp: rpc_ok_def balanced_def terminated_ok_def follows_def extends_def)

text \<open>
  C17: a closed transport is silent and final. Once closed, whatever arrives on its streams and
  whoever calls it, it writes no frame, settles no promise, draws no request number and reports no
  end; and over a whole life at most one end of the channel is reported.
\<close>

theorem closed_transport_silent:
  assumes "rpc_reachable e t"
  shows "length (terminals t) \<le> 1 \<and>
    (closed t \<longrightarrow> (let u = fold (apply_event e) evs t in
       closed u \<and> frames u = frames t \<and> settled u = settled t \<and> next_id u = next_id t
       \<and> terminals u = terminals t))"
proof -
  let ?u = "fold (apply_event e) evs t"
  have u: "rpc_reachable e ?u"
    by (rule rpc_reachable_later [OF assms])
  have "settled ?u = settled t" if "closed t"
  proof -
    have f: "follows t ?u" by (rule apply_events_follows)
    then have "closed ?u" "next_id ?u = next_id t" and p: "prefix (settled t) (settled ?u)"
      using that by (auto simp: follows_def extends_def silent_def)
    then have "settled_nos ?u = settled_nos t"
      using requests_settle_once_books [OF assms] requests_settle_once_books [OF u] that by simp
    then show ?thesis
      using settled_all_eq [OF p requests_settle_once_books(1) [OF u]] by (simp add: settled_nos_def)
  qed
  then show ?thesis
    using reachable_ends [OF assms] apply_events_follows [of t e evs]
    by (auto simp: follows_def extends_def silent_def Let_def)
qed


definition quiet_env :: "(jstext \<Rightarrow> json option) \<Rightarrow> env" where
  "quiet_env f = \<lparr>parse = f, redacts = (\<lambda>l. False), default_timeout = 0, on_write = (\<lambda>u. Accepted),
     on_activity = (\<lambda>u. []), on_terminal = (\<lambda>u. [Dispose]), on_notification = (\<lambda>u. ([], None)),
     on_request = (\<lambda>u. ([], None))\<rparr>"

text \<open>Two requests, one answered; then the provider's stdout ends, and a late answer arrives.\<close>

definition answer :: "jstext \<Rightarrow> json option" where
  "answer l = (if l = lit ''1'' then Some (JObj [(''id'', JNum 1), (''result'', JBool True)])
     else if l = lit ''2'' then Some (JObj [(''id'', JNum 2), (''result'', JBool True)]) else None)"

definition two_requests :: "stream_event list" where
  "two_requests = [Called (Call_request (lit ''a'') Absent None), Called (Call_request (lit ''b'') Absent None),
     Stdout_data (lit ''1'' @ [10])]"

lemma quiet_reachable: "rpc_reachable e (fold (apply_event e) evs opened)"
  by (auto simp: rpc_reachable_def)

lemmas rpc_eval = two_requests_def opened_def request_def send_request_def emitActivity_def writeFrame_def
  new_request_def onStdoutData_def drain_lines handleLine_def resolveResponse_def
  response_outcome_def note_event_def settle_def quiet_env_def answer_def lit_def js_trim_def is_ws_def
  line_feed_def handleStreamClose_def failPending_def emitTerminal_def dispose_def visible_def
  settled_nos_def Let_def send_def

theorem requests_settle_once_witness:
  "let e = quiet_env answer; t = fold (apply_event e) two_requests opened in
     prefix (settled t) (settled (fold (apply_event e) [Stdout_ended] t))
     \<and> settled (fold (apply_event e) [Stdout_ended] t)
        = [(1, Resolved (Some (JBool True))), (2, Exit_error Stdout_channel_closed)]"
  using requests_settle_once [OF quiet_reachable [of "quiet_env answer" two_requests], of "[Stdout_ended]"]
  unfolding Let_def by (simp add: rpc_eval)

theorem closed_transport_silent_witness:
  "let e = quiet_env answer; t = fold (apply_event e) (two_requests @ [Stdout_ended]) opened in
     closed t \<and> settled (fold (apply_event e) [Stdout_data (lit ''2'' @ [10])] t) = settled t"
proof -
  let ?e = "quiet_env answer" and ?t = "fold (apply_event (quiet_env answer)) (two_requests @ [Stdout_ended]) opened"
  have "closed ?t" by (simp add: rpc_eval)
  then show ?thesis
    using closed_transport_silent [OF quiet_reachable [of ?e "two_requests @ [Stdout_ended]"],
        of "[Stdout_data (lit ''2'' @ [10])]"]
    unfolding Let_def by blast
qed

text \<open>
  C18: framing does not depend on how the provider's output is cut. Feeding the transport any chunks
  one after the other is feeding it their concatenation, and that is handling each completed line of
  the buffered text in order, whatever the hooks do meanwhile, and keeping the incomplete rest.
\<close>

theorem framing_ignores_chunks:
  assumes "rpc_reachable e t"
  shows "fold (onStdoutData e) chunks t = onStdoutData e (concat chunks) t
    \<and> onStdoutData e (concat chunks) t
       = with_buffer (snd (split_lines (stdout_buffer t @ concat chunks)))
           (fold (handleLine e) (fst (split_lines (stdout_buffer t @ concat chunks))) t)"
proof (intro conjI)
  have "fold (onStdoutData e) chunks (onStdoutData e c t) = onStdoutData e (c @ concat chunks) t" for c
    by (induction chunks arbitrary: c) (simp_all add: onStdoutData_append)
  from this [of "[]"] show "fold (onStdoutData e) chunks t = onStdoutData e (concat chunks) t"
    using drain_stdout_idle [OF rpc_reachable_buffer [OF assms]] by (simp add: onStdoutData_def)
  have f: "fold (handleLine e) ls (with_buffer b u) = with_buffer b (fold (handleLine e) ls u)" for ls b u
    by (rule fold_buffer) (rule handleLine_buffer_commutes)
  show "onStdoutData e (concat chunks) t
     = with_buffer (snd (split_lines (stdout_buffer t @ concat chunks)))
         (fold (handleLine e) (fst (split_lines (stdout_buffer t @ concat chunks))) t)"
    by (simp add: onStdoutData_def drain_lines f)
qed

theorem framing_ignores_chunks_witness:
  "let e = quiet_env answer; t = fold (apply_event e) two_requests opened in
     fold (onStdoutData e) [lit ''2'', [10], lit ''x''] t = onStdoutData e (lit ''2'' @ [10] @ lit ''x'') t"
  using framing_ignores_chunks [OF quiet_reachable [of "quiet_env answer" two_requests],
      of "[lit ''2'', [10], lit ''x'']"]
  unfolding Let_def by simp

text \<open>
  A response settles the request it answers, and nothing else. When no hook tears the transport
  down, a line that is a response (an id, no method) takes the request waiting under exactly that id
  out of the map and settles its promise with the response's result, or with an error that carries
  the method and the code but keeps the agent's text out of it; a response nobody waits for (a second
  one, one after a timeout, a string id) changes no promise and no entry.
\<close>

theorem response_settles_its_request:
  assumes "rpc_reachable e t" and "js_trim line \<noteq> []" and "parse e (js_trim line) = Some j"
    and "rpc_id_of (jfield j ''id'') = Some i" and "method_of (jfield j ''method'') = None"
    and "\<And>u. on_activity e u = []"
  shows "case js_get (pending t) i of
      None \<Rightarrow> settled (handleLine e line t) = settled t \<and> pending (handleLine e line t) = pending t
    | Some p \<Rightarrow> i = id_of (p_no p) \<and> pending (handleLine e line t) = js_delete (pending t) i
        \<and> settled (handleLine e line t)
           = (if p_no p \<in> settled_nos t then settled t
              else settled t @ [(p_no p, response_outcome (p_method p) j)])"
proof -
  have "is_object j" using assms(4) by (cases j) auto
  then have h: "handleLine e line t = resolveResponse i j (note_event Activity t)"
    using assms by (simp add: handleLine_def emitActivity_def Let_def)
  have "i = id_of (p_no p)" if "js_get (pending t) i = Some p" for p
    using keyed_get [OF _ that] rpc_reachable_ok [OF assms(1)] by (simp add: rpc_ok_def balanced_def)
  then show ?thesis
    by (simp add: h resolveResponse_def settle_def settled_nos_def split: option.split)
qed

theorem response_settles_its_request_witness:
  "let e = quiet_env answer; t = fold (apply_event e) two_requests opened in
     settled (handleLine e (lit ''2'') t) = settled t @ [(2, Resolved (Some (JBool True)))]"
proof -
  let ?e = "quiet_env answer" and ?t = "fold (apply_event (quiet_env answer)) two_requests opened"
  let ?j = "JObj [(''id'', JNum 2), (''result'', JBool True)]"
  have p: "js_get (pending ?t) (Id_num 2) = Some \<lparr>p_method = lit ''b'', p_no = 2, p_timer = None\<rparr>"
    "2 \<notin> settled_nos ?t"
    by (simp_all add: rpc_eval)
  have "js_trim (lit ''2'') = lit ''2''" by (simp add: rpc_eval)
  then show ?thesis
    using response_settles_its_request [OF quiet_reachable [of ?e two_requests], of "lit ''2''" ?j "Id_num 2"] p
    by (simp add: Let_def quiet_env_def answer_def lit_def response_outcome_def)
qed

end
