(* ===== verification/Minify.thy ===== *)
theory Minify
  imports Text
begin

text \<open>
  The JSON minifier of the output compressor (src/src/compressor/transforms/json.ts): a validating
  recursive-descent pass that copies every token as it is spelled and drops the white space between
  tokens. A copying function takes the text from the cursor on and returns what it appends to the
  output and the text it leaves; a throw of fail() is None.
\<close>

section \<open>The copying functions\<close>

definition json_ws :: "nat \<Rightarrow> bool" where
  "json_ws u \<longleftrightarrow> u = 32 \<or> u = 9 \<or> u = 10 \<or> u = 13"

definition skipWs :: "jstext \<Rightarrow> jstext" where
  "skipWs s = dropWhile json_ws s"

definition hex_digit :: "nat \<Rightarrow> bool" where
  "hex_digit u \<longleftrightarrow> (48 \<le> u \<and> u \<le> 57) \<or> (97 \<le> u \<and> u \<le> 102) \<or> (65 \<le> u \<and> u \<le> 70)"

definition digit :: "nat \<Rightarrow> bool" where
  "digit u \<longleftrightarrow> 48 \<le> u \<and> u \<le> 57"

definition SIMPLE_ESCAPES :: "nat set" where
  "SIMPLE_ESCAPES = {34, 92, 47, 98, 102, 110, 114, 116}"

text \<open>The loop of copyString, from the character after the opening quote.\<close>

function string_body :: "jstext \<Rightarrow> (jstext \<times> jstext) option" where
  "string_body [] = None"
| "string_body (ch # s) =
     (if ch = 92 then
        (case s of
           [] \<Rightarrow> None
         | esc # s1 \<Rightarrow>
             if esc = 117 then
               (if length (take 4 s1) = 4 \<and> list_all hex_digit (take 4 s1)
                then map_option (\<lambda>(w, r). (ch # esc # take 4 s1 @ w, r)) (string_body (drop 4 s1))
                else None)
             else if esc \<notin> SIMPLE_ESCAPES then None
             else map_option (\<lambda>(w, r). (ch # esc # w, r)) (string_body s1))
      else if ch = 34 then Some ([ch], s)
      else if ch < 32 then None
      else map_option (\<lambda>(w, r). (ch # w, r)) (string_body s))"
  by pat_completeness auto
termination
  by (relation "measure length") auto

definition copyString :: "jstext \<Rightarrow> (jstext \<times> jstext) option" where
  "copyString s =
     (case s of
        [] \<Rightarrow> None
      | ch # r \<Rightarrow> if ch \<noteq> 34 then None else map_option (\<lambda>(w, r). (ch # w, r)) (string_body r))"

text \<open>
  The regular expression NUMBER: a sign, an integer part, and the two optional groups, each taken
  when it is complete.
\<close>

definition digits :: "jstext \<Rightarrow> jstext" where
  "digits s = takeWhile digit s"

definition int_part :: "jstext \<Rightarrow> jstext" where
  "int_part s =
     (case s of
        [] \<Rightarrow> []
      | ch # r \<Rightarrow> if ch = 48 then [ch] else if digit ch then ch # digits r else [])"

definition frac_part :: "jstext \<Rightarrow> jstext" where
  "frac_part s =
     (case s of
        [] \<Rightarrow> []
      | ch # r \<Rightarrow> if ch = 46 \<and> digits r \<noteq> [] then ch # digits r else [])"

definition exp_part :: "jstext \<Rightarrow> jstext" where
  "exp_part s =
     (case s of
        [] \<Rightarrow> []
      | ch # r \<Rightarrow>
          if ch = 101 \<or> ch = 69 then
            (case r of
               [] \<Rightarrow> []
             | sg # r1 \<Rightarrow>
                 if sg = 43 \<or> sg = 45 then (if digits r1 \<noteq> [] then ch # sg # digits r1 else [])
                 else if digits r \<noteq> [] then ch # digits r else [])
          else [])"

definition copyNumber :: "jstext \<Rightarrow> (jstext \<times> jstext) option" where
  "copyNumber s =
     (let sign = (if s \<noteq> [] \<and> hd s = 45 then [45] else []);
          s1 = drop (length sign) s; i = int_part s1;
          s2 = drop (length i) s1; f = frac_part s2;
          s3 = drop (length f) s2; x = exp_part s3
      in if i = [] then None else Some (sign @ i @ f @ x, drop (length x) s3))"

definition copyLiteral :: "string \<Rightarrow> jstext \<Rightarrow> (jstext \<times> jstext) option" where
  "copyLiteral word s =
     (if prefix (lit word) s then Some (lit word, drop (length (lit word)) s) else None)"

definition head_is :: "nat \<Rightarrow> jstext \<Rightarrow> bool" where
  "head_is u s \<longleftrightarrow> s \<noteq> [] \<and> hd s = u"

lemma skipWs_length: "length (skipWs s) \<le> length s"
  by (simp add: skipWs_def length_dropWhile_le)

lemma string_body_shorter: "string_body s = Some (w, r) \<Longrightarrow> length r < length s"
proof (induction s arbitrary: w r rule: string_body.induct)
  case (2 ch s)
  show ?case
  proof (cases "ch = 92")
    case True
    then obtain esc s1 where s: "s = esc # s1" using 2(4) by (cases s) auto
    show ?thesis using 2 True unfolding s by (fastforce split: if_splits)
  next
    case False
    then show ?thesis using 2(3) [OF False] 2(4) by (fastforce split: if_splits)
  qed
qed simp

lemma copyString_shorter: "copyString s = Some (w, r) \<Longrightarrow> length r < length s"
  by (auto simp: copyString_def split: list.splits if_splits dest: string_body_shorter)

lemma copyNumber_shorter: "copyNumber s = Some (w, r) \<Longrightarrow> length r < length s"
  by (cases s)
    (auto simp: copyNumber_def Let_def int_part_def split: if_splits list.splits)

lemma copyLiteral_shorter: "word \<noteq> [] \<Longrightarrow> copyLiteral word s = Some (w, r) \<Longrightarrow> length r < length s"
  by (auto simp: copyLiteral_def lit_def prefix_def split: if_splits)

text \<open>
  copyValue, with the member loop of an object and the element loop of an array. An output ends with
  the bracket that closes it.
\<close>

definition put :: "jstext \<Rightarrow> (jstext \<times> jstext) option \<Rightarrow> (jstext \<times> jstext) option" where
  "put w x = map_option (\<lambda>(v, r). (w @ v, r)) x"

lemma put_simps [simp]: "put w None = None" "put w (Some (v, r)) = Some (w @ v, r)"
  by (simp_all add: put_def)

lemma put_eq_Some: "put w x = Some (v, r) \<longleftrightarrow> (\<exists>v'. x = Some (v', r) \<and> v = w @ v')"
  by (cases x) (auto simp: put_def)

lemma put_cong [fundef_cong]: "w = w' \<Longrightarrow> x = x' \<Longrightarrow> put w x = put w' x'"
  by simp

function copyValue :: "jstext \<Rightarrow> (jstext \<times> jstext) option"
  and copyMembers :: "jstext \<Rightarrow> (jstext \<times> jstext) option"
  and copyElements :: "jstext \<Rightarrow> (jstext \<times> jstext) option" where
  "copyValue s =
     (case skipWs s of
        [] \<Rightarrow> None
      | ch # r \<Rightarrow>
          if ch = 123 then
            (if head_is 125 (skipWs r) then Some ([123, 125], tl (skipWs r)) else put [123] (copyMembers r))
          else if ch = 91 then
            (if head_is 93 (skipWs r) then Some ([91, 93], tl (skipWs r)) else put [91] (copyElements r))
          else if ch = 34 then copyString (ch # r)
          else if ch = 116 then copyLiteral ''true'' (ch # r)
          else if ch = 102 then copyLiteral ''false'' (ch # r)
          else if ch = 110 then copyLiteral ''null'' (ch # r)
          else if ch = 45 \<or> digit ch then copyNumber (ch # r)
          else None)"
| "copyMembers s =
     (case copyString (skipWs s) of
        None \<Rightarrow> None
      | Some (k, r) \<Rightarrow>
          if \<not> head_is 58 (skipWs r) then None
          else (case copyValue (tl (skipWs r)) of
                  None \<Rightarrow> None
                | Some (v, r1) \<Rightarrow>
                    if head_is 44 (skipWs r1) then put (k @ [58] @ v @ [44]) (copyMembers (tl (skipWs r1)))
                    else if head_is 125 (skipWs r1) then Some (k @ [58] @ v @ [125], tl (skipWs r1))
                    else None))"
| "copyElements s =
     (case copyValue s of
        None \<Rightarrow> None
      | Some (v, r) \<Rightarrow>
          if head_is 44 (skipWs r) then put (v @ [44]) (copyElements (tl (skipWs r)))
          else if head_is 93 (skipWs r) then Some (v @ [93], tl (skipWs r))
          else None)"
  by pat_completeness auto

lemma skipWs_Cons: "skipWs s = ch # r \<Longrightarrow> length r < length s"
  using skipWs_length [of s] by simp

lemma tl_skipWs: "head_is u (skipWs s) \<Longrightarrow> length (tl (skipWs s)) < length s"
  using skipWs_length [of s] by (cases "skipWs s") (auto simp: head_is_def)

text \<open>Where the functions are defined, they leave a shorter text; so they are defined everywhere.\<close>

lemma copy_shorter_dom:
  "copyValue_copyMembers_copyElements_dom (Inl s) \<Longrightarrow> copyValue s = Some (w, r) \<Longrightarrow> length r < length s"
  "copyValue_copyMembers_copyElements_dom (Inr (Inl s)) \<Longrightarrow> copyMembers s = Some (w, r) \<Longrightarrow> length r < length s"
  "copyValue_copyMembers_copyElements_dom (Inr (Inr s)) \<Longrightarrow> copyElements s = Some (w, r) \<Longrightarrow> length r < length s"
proof (induction s and s and s arbitrary: w r and w r and w r
    rule: copyValue_copyMembers_copyElements.pinduct)
  case (1 s)
  show ?case
  proof (cases "skipWs s")
    case (Cons ch q)
    note q = skipWs_Cons [OF Cons]
    have dec: "copyString (u # q) = Some (w, r) \<Longrightarrow> length r < Suc (length q)"
      "copyNumber (u # q) = Some (w, r) \<Longrightarrow> length r < Suc (length q)"
      "word \<noteq> [] \<Longrightarrow> copyLiteral word (u # q) = Some (w, r) \<Longrightarrow> length r < Suc (length q)" for u word
      using copyString_shorter [of "u # q" w r] copyNumber_shorter [of "u # q" w r]
        copyLiteral_shorter [of word "u # q" w r] by simp_all
    have m: "put [123] (copyMembers q) = Some (w, r) \<Longrightarrow> length r < Suc (length q)"
      if "ch = 123" "\<not> head_is 125 (skipWs q)"
      using 1(2) [OF Cons that] by (auto simp: put_eq_Some intro: less_SucI)
    have e: "put [91] (copyElements q) = Some (w, r) \<Longrightarrow> length r < Suc (length q)"
      if "ch = 91" "\<not> head_is 93 (skipWs q)"
      using 1(3) [OF Cons _ that] that by (auto simp: put_eq_Some intro: less_SucI)
    note eq = 1(4) [unfolded copyValue.psimps [OF 1(1)] Cons list.case]
    have "length r < length (ch # q)"
      using eq m e skipWs_length [of q] by (auto split: if_splits intro: dec)
    then show ?thesis using skipWs_length [of s] Cons by simp
  qed (use 1 in \<open>simp add: copyValue.psimps\<close>)
next
  case (2 s)
  obtain k q where k: "copyString (skipWs s) = Some (k, q)" and c: "head_is 58 (skipWs q)"
    using 2(4) by (simp add: copyMembers.psimps [OF 2(1)] split: option.splits if_splits prod.splits)
  from copyString_shorter [OF k] skipWs_length [of s] have q: "length q < length s" by simp
  obtain v q1 where v: "copyValue (tl (skipWs q)) = Some (v, q1)"
    using 2(4) k c by (simp add: copyMembers.psimps [OF 2(1)] split: option.splits if_splits prod.splits)
  have q1: "length q1 < length s"
    using 2(2) [OF k refl _ v] c tl_skipWs [OF c] q by simp
  show ?case
  proof (cases "head_is 44 (skipWs q1)")
    case True
    then obtain w' where "copyMembers (tl (skipWs q1)) = Some (w', r)"
      using 2(4) k c v by (auto simp: copyMembers.psimps [OF 2(1)] put_eq_Some)
    from 2(3) [OF k refl _ v refl True this] c tl_skipWs [OF True] q1 show ?thesis by simp
  next
    case False
    then have "r = tl (skipWs q1)" "head_is 125 (skipWs q1)"
      using 2(4) k c v by (auto simp: copyMembers.psimps [OF 2(1)] split: if_splits)
    then show ?thesis using tl_skipWs q1 by fastforce
  qed
next
  case (3 s)
  obtain v q1 where v: "copyValue s = Some (v, q1)"
    using 3(4) by (simp add: copyElements.psimps [OF 3(1)] split: option.splits prod.splits)
  have q1: "length q1 < length s" using 3(2) [OF v] .
  show ?case
  proof (cases "head_is 44 (skipWs q1)")
    case True
    then obtain w' where "copyElements (tl (skipWs q1)) = Some (w', r)"
      using 3(4) v by (auto simp: copyElements.psimps [OF 3(1)] put_eq_Some)
    from 3(3) [OF v refl True this] tl_skipWs [OF True] q1 show ?thesis by simp
  next
    case False
    then have "r = tl (skipWs q1)" "head_is 93 (skipWs q1)"
      using 3(4) v by (auto simp: copyElements.psimps [OF 3(1)] split: if_splits)
    then show ?thesis using tl_skipWs q1 by fastforce
  qed
qed

termination copyValue
proof (relation "measure (case_sum (\<lambda>s. 2 * length s) (case_sum (\<lambda>s. 2 * length s + 1) (\<lambda>s. 2 * length s + 1)))",
    goal_cases)
  case (2 s ch r)
  then show ?case using skipWs_Cons [of s ch r] by simp
next
  case (3 s ch r)
  then show ?case using skipWs_Cons [of s ch r] by simp
next
  case (4 s x k q)
  then have "length q < length s" "head_is 58 (skipWs q)"
    using copyString_shorter [of "skipWs s" k q] skipWs_length [of s] by auto
  then show ?case using tl_skipWs [of 58 q] by simp
next
  case (5 s x k q y v q1)
  then have "length q < length s" "head_is 58 (skipWs q)" "head_is 44 (skipWs q1)"
    using copyString_shorter [of "skipWs s" k q] skipWs_length [of s] by auto
  moreover from this have "length (tl (skipWs q)) < length s" using tl_skipWs [of 58 q] by simp
  moreover have "length q1 < length (tl (skipWs q))"
    using 5 copy_shorter_dom(1) [of "tl (skipWs q)" v q1] by auto
  ultimately show ?case using tl_skipWs [of 44 q1] by simp
next
  case (7 s y v q1)
  then have "length q1 < length s" "head_is 44 (skipWs q1)"
    using copy_shorter_dom(1) [of s v q1] by auto
  then show ?case using tl_skipWs [of 44 q1] by simp
qed simp_all

declare copyValue.simps [simp del] copyMembers.simps [simp del] copyElements.simps [simp del]

text \<open>minifyJson: the whole text must be one value.\<close>

definition minifyJson :: "jstext \<Rightarrow> jstext option" where
  "minifyJson s =
     (case copyValue s of
        None \<Rightarrow> None
      | Some (w, r) \<Rightarrow> if skipWs r \<noteq> [] then None else Some w)"

section \<open>What the copy is\<close>

text \<open>The reference: drop the white space outside strings, with no look at the grammar.\<close>

fun squeeze :: "bool \<Rightarrow> jstext \<Rightarrow> jstext" where
  "squeeze b [] = []"
| "squeeze False (u # s) = (if json_ws u then squeeze False s else u # squeeze (u = 34) s)"
| "squeeze True [u] = [u]"
| "squeeze True (u # v # s) =
     (if u = 92 then u # v # squeeze True s else u # squeeze (u \<noteq> 34) (v # s))"

lemma squeeze_string: "u \<noteq> 92 \<Longrightarrow> squeeze True (u # s) = u # squeeze (u \<noteq> 34) s"
  by (cases s) simp_all

lemma squeeze_skip: "squeeze False (skipWs s) = squeeze False s"
  by (induction s) (simp_all add: skipWs_def)

lemma squeeze_token: "\<forall>u\<in>set w. \<not> json_ws u \<and> u \<noteq> 34 \<Longrightarrow> squeeze False (w @ s) = w @ squeeze False s"
  by (induction w) auto

lemma squeeze_hex: "list_all hex_digit w \<Longrightarrow> squeeze True (w @ s) = w @ squeeze True s"
  by (induction w) (auto simp: squeeze_string hex_digit_def)

lemma squeeze_length: "length (squeeze b s) \<le> length s"
  by (induction b s rule: squeeze.induct) auto

lemma string_body_squeeze: "string_body s = Some (w, r) \<Longrightarrow> squeeze True s = w @ squeeze False r"
proof (induction s arbitrary: w r rule: string_body.induct)
  case (2 ch s)
  show ?case
  proof (cases "ch = 92")
    case True
    then obtain esc s1 where s: "s = esc # s1" using 2(4) by (cases s) auto
    show ?thesis
    proof (cases "esc = 117")
      case u: True
      have x: "length (take 4 s1) = 4 \<and> list_all hex_digit (take 4 s1)"
        using 2(4) True unfolding s u by (auto split: if_splits)
      obtain w' where w': "string_body (drop 4 s1) = Some (w', r)" "w = ch # esc # take 4 s1 @ w'"
        using 2(4) True x unfolding s u by auto
      have "squeeze True (take 4 s1 @ drop 4 s1) = take 4 s1 @ w' @ squeeze False r"
        using 2(1) [OF True s u x w'(1)] squeeze_hex x by metis
      then show ?thesis using w'(2) True by (simp add: s)
    next
      case False
      then show ?thesis using 2(2) [OF True s] 2(4) True unfolding s by (auto split: if_splits)
    qed
  next
    case False
    then show ?thesis using 2(3) [OF False] 2(4) by (auto simp: squeeze_string split: if_splits)
  qed
qed simp

lemma copyString_squeeze: "copyString s = Some (w, r) \<Longrightarrow> squeeze False s = w @ squeeze False r"
  by (auto simp: copyString_def json_ws_def split: list.splits if_splits dest: string_body_squeeze)

lemma token_copied:
  assumes "s = w @ r" and "\<forall>u\<in>set w. \<not> json_ws u \<and> u \<noteq> 34"
  shows "squeeze False s = w @ squeeze False r"
  using squeeze_token [OF assms(2)] assms(1) by simp

lemma digits_prefix: "\<exists>r. s = digits s @ r"
  by (rule exI [of _ "dropWhile digit s"]) (simp add: digits_def)

lemma part_prefix:
  "\<exists>r. s = int_part s @ r" "\<exists>r. s = frac_part s @ r" "\<exists>r. s = exp_part s @ r"
  using digits_prefix
  by (auto simp: int_part_def frac_part_def exp_part_def split: list.split)

definition number_unit :: "nat \<Rightarrow> bool" where
  "number_unit u \<longleftrightarrow> digit u \<or> u = 45 \<or> u = 43 \<or> u = 46 \<or> u = 101 \<or> u = 69"

lemma digits_units: "u \<in> set (digits s) \<Longrightarrow> number_unit u"
  by (simp add: digits_def number_unit_def) (metis set_takeWhileD)

lemma int_units: "u \<in> set (int_part s) \<Longrightarrow> number_unit u"
  by (cases s) (auto simp: int_part_def number_unit_def digit_def dest!: digits_units split: if_splits)

lemma frac_part_cases: "frac_part s = [] \<or> (\<exists>r. frac_part s = 46 # digits r)"
  by (simp add: frac_part_def split: list.split) blast

lemma exp_part_cases:
  "exp_part s = [] \<or> (\<exists>ch r. (ch = 101 \<or> ch = 69) \<and> exp_part s = ch # digits r)
   \<or> (\<exists>ch sg r. (ch = 101 \<or> ch = 69) \<and> (sg = 43 \<or> sg = 45) \<and> exp_part s = ch # sg # digits r)"
  by (simp add: exp_part_def split: list.split) blast

lemma sign_units: "number_unit 45" "number_unit 43" "number_unit 46" "number_unit 101" "number_unit 69"
  by (simp_all add: number_unit_def)

lemma frac_units: "u \<in> set (frac_part s) \<Longrightarrow> number_unit u"
  using frac_part_cases [of s] digits_units sign_units by (metis empty_iff list.set(1) set_ConsD)

lemma exp_units: "u \<in> set (exp_part s) \<Longrightarrow> number_unit u"
  using exp_part_cases [of s] digits_units sign_units by (metis empty_iff list.set(1) set_ConsD)

lemma drop_part: "s = w @ r \<Longrightarrow> drop (length w) s = r"
  by simp

lemma copyNumber_parts:
  assumes "copyNumber s = Some (w, r)"
  obtains sign i f x s1 s2 s3 where "s = sign @ s1" "s1 = i @ s2" "s2 = f @ s3" "s3 = x @ r"
    "w = sign @ i @ f @ x" "sign = [] \<or> sign = [45]" "(s \<noteq> [] \<and> hd s = 45) = (sign = [45])"
    "i = int_part s1" "i \<noteq> []" "f = frac_part s2" "x = exp_part s3"
proof -
  define sign where "sign = (if s \<noteq> [] \<and> hd s = 45 then [45 :: nat] else [])"
  define s1 where "s1 = drop (length sign) s"
  define s2 where "s2 = drop (length (int_part s1)) s1"
  define s3 where "s3 = drop (length (frac_part s2)) s2"
  have "s = sign @ s1" by (cases s) (auto simp: sign_def s1_def)
  moreover have "s1 = int_part s1 @ s2" using part_prefix(1) [of s1] drop_part by (metis s2_def)
  moreover have "s2 = frac_part s2 @ s3" using part_prefix(2) [of s2] drop_part by (metis s3_def)
  moreover have eq: "copyNumber s = (if int_part s1 = [] then None
      else Some (sign @ int_part s1 @ frac_part s2 @ exp_part s3, drop (length (exp_part s3)) s3))"
    by (simp only: copyNumber_def Let_def sign_def s1_def s2_def s3_def)
  then have "w = sign @ int_part s1 @ frac_part s2 @ exp_part s3" "int_part s1 \<noteq> []"
    "r = drop (length (exp_part s3)) s3"
    using assms by (auto split: if_splits)
  moreover from this have "s3 = exp_part s3 @ r" using part_prefix(3) [of s3] drop_part by metis
  moreover have "(s \<noteq> [] \<and> hd s = 45) = (sign = [45])" "sign = [] \<or> sign = [45]" by (auto simp: sign_def)
  ultimately show thesis using that by blast
qed

lemma copyNumber_units: "copyNumber s = Some (w, r) \<Longrightarrow> s = w @ r \<and> (\<forall>u\<in>set w. number_unit u)"
proof (erule copyNumber_parts)
  fix sign i f x s1 s2 s3
  assume p: "w = sign @ i @ f @ x" "sign = [] \<or> sign = [45]" "i = int_part s1" "f = frac_part s2" "x = exp_part s3"
  assume q: "s = sign @ s1" "s1 = i @ s2" "s2 = f @ s3" "s3 = x @ r"
  have "number_unit 45" by (simp add: number_unit_def)
  then have "\<forall>u\<in>set w. number_unit u"
    using p(2) int_units frac_units exp_units unfolding p(1,3-5) by auto
  then show ?thesis using p(1) q by simp
qed

lemma number_unit_plain: "number_unit u \<Longrightarrow> \<not> json_ws u \<and> u \<noteq> 34"
  by (auto simp: number_unit_def digit_def json_ws_def)

lemma copyNumber_squeeze: "copyNumber s = Some (w, r) \<Longrightarrow> squeeze False s = w @ squeeze False r"
  using token_copied [of s w r] copyNumber_units [of s w r] number_unit_plain by blast

lemma copyLiteral_squeeze:
  "word \<in> {''true'', ''false'', ''null''} \<Longrightarrow> copyLiteral word s = Some (w, r) \<Longrightarrow> squeeze False s = w @ squeeze False r"
  by (rule token_copied)
    (auto simp: copyLiteral_def lit_def json_ws_def prefix_def split: if_splits)

lemma squeeze_head: "head_is u (skipWs s) \<Longrightarrow> u \<noteq> 34 \<Longrightarrow> \<not> json_ws u \<Longrightarrow>
    squeeze False s = u # squeeze False (tl (skipWs s))"
  by (subst squeeze_skip [symmetric]) (cases "skipWs s"; simp add: head_is_def)

lemma copy_squeeze:
  "copyValue s = Some (w, r) \<Longrightarrow> squeeze False s = w @ squeeze False r"
  "copyMembers s = Some (w, r) \<Longrightarrow> squeeze False s = w @ squeeze False r"
  "copyElements s = Some (w, r) \<Longrightarrow> squeeze False s = w @ squeeze False r"
proof (induction s and s and s arbitrary: w r and w r and w r rule: copyValue_copyMembers_copyElements.induct)
  case (1 s)
  show ?case
  proof (cases "skipWs s")
    case (Cons ch q)
    have sq: "squeeze False s = squeeze False (ch # q)" using squeeze_skip [of s] Cons by simp
    have lits: "ch \<noteq> 34 \<Longrightarrow> \<not> json_ws ch \<Longrightarrow> squeeze False s = ch # squeeze False q"
      using sq by simp
    have tok: "copyString (u # q) = Some (w, r) \<Longrightarrow> squeeze False (u # q) = w @ squeeze False r"
      "copyNumber (u # q) = Some (w, r) \<Longrightarrow> squeeze False (u # q) = w @ squeeze False r"
      "copyLiteral ''true'' (u # q) = Some (w, r) \<Longrightarrow> squeeze False (u # q) = w @ squeeze False r"
      "copyLiteral ''false'' (u # q) = Some (w, r) \<Longrightarrow> squeeze False (u # q) = w @ squeeze False r"
      "copyLiteral ''null'' (u # q) = Some (w, r) \<Longrightarrow> squeeze False (u # q) = w @ squeeze False r" for u
      using copyString_squeeze copyNumber_squeeze copyLiteral_squeeze by blast+
    have m: "squeeze False s = w @ squeeze False r"
      if "ch = 123" "\<not> head_is 125 (skipWs q)" "put [123] (copyMembers q) = Some (w, r)"
      using 1(1) [OF Cons that(1,2)] that lits by (auto simp: put_eq_Some json_ws_def)
    have e: "squeeze False s = w @ squeeze False r"
      if "ch = 91" "\<not> head_is 93 (skipWs q)" "put [91] (copyElements q) = Some (w, r)"
      using 1(2) [OF Cons _ that(1,2)] that lits by (auto simp: put_eq_Some json_ws_def)
    have z: "squeeze False s = w @ squeeze False r"
      if "ch = u" "head_is v (skipWs q)" "w = [u, v]" "r = tl (skipWs q)" "u = 123 \<and> v = 125 \<or> u = 91 \<and> v = 93" for u v
      using that lits squeeze_head [of v q] by (auto simp: json_ws_def)
    note eq = 1(3) [unfolded copyValue.simps [of s] Cons list.case]
    show ?thesis
      using eq m e z [of 123 125] z [of 91 93] tok [of ch] unfolding sq
      by (simp split: if_splits)
  qed (use 1 in \<open>simp add: copyValue.simps\<close>)
next
  case (2 s)
  obtain k q where k: "copyString (skipWs s) = Some (k, q)" and c: "head_is 58 (skipWs q)"
    using 2(3) by (simp add: copyMembers.simps [of s] split: option.splits if_splits prod.splits)
  obtain v q1 where v: "copyValue (tl (skipWs q)) = Some (v, q1)"
    using 2(3) k c by (simp add: copyMembers.simps [of s] split: option.splits if_splits prod.splits)
  have "squeeze False s = k @ 58 # v @ squeeze False q1"
    using copyString_squeeze [OF k] squeeze_head [OF c] 2(1) [OF k refl _ v] c
    by (simp add: squeeze_skip json_ws_def)
  moreover have "squeeze False q1 = u # squeeze False (tl (skipWs q1))" if "head_is u (skipWs q1)" "u = 44 \<or> u = 125" for u
    using squeeze_head [OF that(1)] that(2) by (auto simp: json_ws_def)
  moreover have "squeeze False (tl (skipWs q1)) = w' @ squeeze False r"
    if "head_is 44 (skipWs q1)" "copyMembers (tl (skipWs q1)) = Some (w', r)" for w'
    using 2(2) [OF k refl _ v refl that] c by simp
  ultimately show ?case
    using 2(3) k c v by (auto simp: copyMembers.simps [of s] put_eq_Some split: if_splits)
next
  case (3 s)
  obtain v q1 where v: "copyValue s = Some (v, q1)"
    using 3(3) by (simp add: copyElements.simps [of s] split: option.splits prod.splits)
  have "squeeze False s = v @ squeeze False q1" by (rule 3(1) [OF v])
  moreover have "squeeze False q1 = u # squeeze False (tl (skipWs q1))" if "head_is u (skipWs q1)" "u = 44 \<or> u = 93" for u
    using squeeze_head [OF that(1)] that(2) by (auto simp: json_ws_def)
  moreover have "squeeze False (tl (skipWs q1)) = w' @ squeeze False r"
    if "head_is 44 (skipWs q1)" "copyElements (tl (skipWs q1)) = Some (w', r)" for w'
    using 3(2) [OF v refl that] by simp
  ultimately show ?case
    using 3(3) v by (auto simp: copyElements.simps [of s] put_eq_Some split: if_splits)
qed

lemma minifyJson_squeeze: "minifyJson s = Some w \<Longrightarrow> w = squeeze False s"
proof -
  assume "minifyJson s = Some w"
  then obtain r where r: "copyValue s = Some (w, r)" "skipWs r = []"
    by (auto simp: minifyJson_def split: option.splits if_splits)
  have "squeeze False r = []" using squeeze_skip [of r] r(2) by simp
  then show ?thesis using copy_squeeze(1) [OF r(1)] by simp
qed

section \<open>A minified text is minified\<close>

text \<open>A copied token is copied again, whatever follows it; a number, when no part of a number follows.\<close>

lemma string_body_again: "string_body s = Some (w, r) \<Longrightarrow> string_body (w @ r') = Some (w, r')"
proof (induction s arbitrary: w r rule: string_body.induct)
  case (2 ch s)
  show ?case
  proof (cases "ch = 92")
    case True
    then obtain esc s1 where s: "s = esc # s1" using 2(4) by (cases s) auto
    show ?thesis
    proof (cases "esc = 117")
      case u: True
      have x: "length (take 4 s1) = 4 \<and> list_all hex_digit (take 4 s1)"
        using 2(4) True unfolding s u by (auto split: if_splits)
      obtain w' where w': "string_body (drop 4 s1) = Some (w', r)" "w = ch # esc # take 4 s1 @ w'"
        using 2(4) True x unfolding s u by auto
      then have "string_body (w' @ r') = Some (w', r')" using 2(1) [OF True s u x] by simp
      moreover have "take 4 (take 4 s1 @ w' @ r') = take 4 s1" "drop 4 (take 4 s1 @ w' @ r') = w' @ r'"
        using x by simp_all
      ultimately show ?thesis using True u x w'(2) by simp
    next
      case False
      then show ?thesis using 2(2) [OF True s False] 2(4) True unfolding s by (auto split: if_splits)
    qed
  next
    case False
    then show ?thesis using 2(3) [OF False] 2(4) by (auto split: if_splits)
  qed
qed simp

lemma copyString_again: "copyString s = Some (w, r) \<Longrightarrow> copyString (w @ r') = Some (w, r')"
  by (auto simp: copyString_def string_body_again split: list.splits if_splits)

lemma copyString_head: "copyString s = Some (w, r) \<Longrightarrow> \<exists>w'. w = 34 # w'"
  by (auto simp: copyString_def split: list.splits if_splits)

lemma copyLiteral_again: "copyLiteral word s = Some (w, r) \<Longrightarrow> copyLiteral word (w @ r') = Some (w, r')"
  by (auto simp: copyLiteral_def split: if_splits)

definition no_digit :: "jstext \<Rightarrow> bool" where
  "no_digit y \<longleftrightarrow> (case y of [] \<Rightarrow> True | u # _ \<Rightarrow> \<not> digit u)"

lemma no_digit_digits: "no_digit y \<Longrightarrow> digits y = []"
  by (cases y) (auto simp: digits_def no_digit_def)

lemma digits_again: "no_digit y \<Longrightarrow> digits (digits s @ y) = digits s"
proof (induction s)
  case Nil
  then show ?case using no_digit_digits [OF Nil] by (simp add: digits_def)
next
  case (Cons u s)
  then show ?case using no_digit_digits [of y] by (simp add: digits_def)
qed

lemma int_again: "int_part s \<noteq> [] \<Longrightarrow> no_digit y \<Longrightarrow> int_part (int_part s @ y) = int_part s"
  by (cases s) (auto simp: int_part_def digits_again split: if_splits)

lemma frac_again:
  "no_digit y \<Longrightarrow> \<not> head_is 46 y \<Longrightarrow> frac_part (frac_part s @ y) = frac_part s"
proof (cases "frac_part s = []")
  case False
  then obtain r where r: "frac_part s = 46 # digits r" "digits r \<noteq> []"
    by (auto simp: frac_part_def split: list.splits if_splits)
  then show "no_digit y \<Longrightarrow> frac_part (frac_part s @ y) = frac_part s"
    by (simp add: r frac_part_def digits_again)
next
  case True
  then show "\<not> head_is 46 y \<Longrightarrow> frac_part (frac_part s @ y) = frac_part s"
    by (cases y) (auto simp: frac_part_def head_is_def)
qed

lemma exp_part_nonempty:
  assumes "exp_part s \<noteq> []"
  obtains (plain) ch r where "ch = 101 \<or> ch = 69" "digits r \<noteq> []" "exp_part s = ch # digits r"
    | (signed) ch sg r where "ch = 101 \<or> ch = 69" "sg = 43 \<or> sg = 45" "digits r \<noteq> []"
        "exp_part s = ch # sg # digits r"
proof -
  obtain ch sg r where s: "s = ch # sg # r" "ch = 101 \<or> ch = 69"
    using assms by (cases s; cases "tl s") (auto simp: exp_part_def split: if_splits)
  show thesis
  proof (cases "sg = 43 \<or> sg = 45")
    case True
    then have "digits r \<noteq> []" "exp_part s = ch # sg # digits r"
      using assms s(2) unfolding s(1) by (auto simp: exp_part_def split: if_splits)
    with True s(2) show thesis using signed by metis
  next
    case False
    then have "digits (sg # r) \<noteq> []" "exp_part s = ch # digits (sg # r)"
      using assms s(2) unfolding s(1) by (simp_all add: exp_part_def split: if_splits)
    with s(2) show thesis using plain by metis
  qed
qed

lemma digits_first: "digits r = u # d \<Longrightarrow> digit u"
  by (cases r) (auto simp: digits_def split: if_splits)

lemma exp_again:
  assumes "no_digit y" and "\<not> head_is 101 y" and "\<not> head_is 69 y"
  shows "exp_part (exp_part s @ y) = exp_part s"
proof (cases "exp_part s = []")
  case True
  moreover have "exp_part y = []" using assms(2,3) by (cases y) (simp_all add: exp_part_def head_is_def)
  ultimately show ?thesis by simp
next
  case False
  then show ?thesis
  proof (cases rule: exp_part_nonempty)
    case (plain ch r)
    note ch = plain(1) and d = plain(2) and e = plain(3)
    obtain u q where u: "digits r = u # q" using d by (cases "digits r") auto
    moreover have "u \<noteq> 43 \<and> u \<noteq> 45" using digits_first [OF u] by (auto simp: digit_def)
    moreover have "digits (u # q @ y) = u # q" using digits_again [OF assms(1), of r] u by simp
    ultimately show ?thesis unfolding e using ch by (simp add: exp_part_def)
  next
    case (signed ch sg r)
    then show ?thesis using digits_again [OF assms(1), of r] by (simp add: exp_part_def)
  qed
qed

definition stops :: "jstext \<Rightarrow> bool" where
  "stops y \<longleftrightarrow> (case y of [] \<Rightarrow> True | u # _ \<Rightarrow> \<not> number_unit u)"

lemma stops_no_digit: "stops y \<Longrightarrow> no_digit y" "stops y \<Longrightarrow> number_unit u \<Longrightarrow> \<not> head_is u y"
  by (auto simp: stops_def no_digit_def head_is_def number_unit_def split: list.splits)

lemma copyNumber_again:
  assumes "copyNumber s = Some (w, r)" and st: "stops y"
  shows "copyNumber (w @ y) = Some (w, y)"
proof -
  obtain sign i f x s1 s2 s3 where p: "w = sign @ i @ f @ x" "sign = [] \<or> sign = [45]"
    "i = int_part s1" "i \<noteq> []" "f = frac_part s2" "x = exp_part s3"
    by (rule copyNumber_parts [OF assms(1)])
  have nd: "no_digit (x @ y)" "\<not> head_is 46 (x @ y)"
    using exp_part_cases [of s3] stops_no_digit(1) [OF st] stops_no_digit(2) [OF st sign_units(3)] p(6)
    by (auto simp: no_digit_def head_is_def digit_def)
  have nd': "no_digit (f @ x @ y)"
    using frac_part_cases [of s2] nd p(5) by (auto simp: no_digit_def digit_def)
  have i: "int_part (i @ f @ x @ y) = i" using int_again [OF _ nd'] p(3,4) by simp
  have f: "frac_part (f @ x @ y) = f" using frac_again [OF nd] p(5) by simp
  have x: "exp_part (x @ y) = x"
    using exp_again [OF stops_no_digit(1) [OF st]] stops_no_digit(2) [OF st] sign_units p(6) by simp
  have "hd (i @ f @ x @ y) \<noteq> 45"
    using p(3,4) by (auto simp: int_part_def digit_def split: list.splits if_splits)
  then have sign: "(if w @ y \<noteq> [] \<and> hd (w @ y) = 45 then [45] else []) = sign"
    using p(2,4) by (auto simp: p(1))
  show ?thesis
    unfolding copyNumber_def Let_def sign using p(4) by (simp add: p(1) i f x)
qed

lemma copyNumber_nonempty: "copyNumber s = Some (w, r) \<Longrightarrow> w \<noteq> []"
  by (erule copyNumber_parts) (metis append_is_Nil_conv)

lemma skipWs_id: "\<not> json_ws u \<Longrightarrow> skipWs (u # s) = u # s"
  by (simp add: skipWs_def)

text \<open>How a copied value begins.\<close>

lemma copyLiteral_word: "copyLiteral word s = Some (w, r) \<Longrightarrow> w = lit word"
  by (simp add: copyLiteral_def split: if_splits)

lemma copyValue_head:
  assumes "copyValue s = Some (w, r)"
  obtains u w' where "w = u # w'" "u \<noteq> 93" "u \<noteq> 125" "\<not> json_ws u"
proof (cases "skipWs s")
  case (Cons ch q)
  note eq = assms [unfolded copyValue.simps [of s] Cons list.case]
  have ch: "ch \<noteq> 93" "ch \<noteq> 125" using eq by (intro notI, simp add: digit_def)+
  have "\<not> json_ws ch" using Cons by (metis hd_dropWhile list.distinct(1) list.sel(1) skipWs_def)
  moreover have "w \<noteq> []"
  proof -
    consider "ch = 123" | "ch = 91" | "ch = 34" | "ch = 116" | "ch = 102" | "ch = 110"
      | "ch \<noteq> 123" "ch \<noteq> 91" "ch \<noteq> 34" "ch \<noteq> 116" "ch \<noteq> 102" "ch \<noteq> 110" by blast
    then show ?thesis
    proof cases
      case 1
      then show ?thesis using eq by (auto simp: put_eq_Some split: if_splits)
    next
      case 2
      then show ?thesis using eq by (auto simp: put_eq_Some split: if_splits)
    next
      case 3
      then show ?thesis using eq copyString_head [of "ch # q" w r] by auto
    next
      case 4
      then show ?thesis using eq copyLiteral_word [of "''true''" "ch # q" w r] by (simp add: lit_def)
    next
      case 5
      then show ?thesis using eq copyLiteral_word [of "''false''" "ch # q" w r] by (simp add: lit_def)
    next
      case 6
      then show ?thesis using eq copyLiteral_word [of "''null''" "ch # q" w r] by (simp add: lit_def)
    next
      case 7
      then show ?thesis using eq copyNumber_nonempty [of "ch # q" w r] by (simp split: if_splits)
    qed
  qed
  moreover have "w @ squeeze False r = squeeze False (ch # q)"
    using copy_squeeze(1) [OF assms] squeeze_skip [of s] Cons by simp
  ultimately have "w = ch # tl w" by (cases w) auto
  then show thesis using that ch \<open>\<not> json_ws ch\<close> by blast
qed (use assms in \<open>simp add: copyValue.simps\<close>)

lemma copyMembers_head: "copyMembers s = Some (w, r) \<Longrightarrow> \<exists>w'. w = 34 # w'"
proof -
  assume m: "copyMembers s = Some (w, r)"
  then obtain k q w' where k: "copyString (skipWs s) = Some (k, q)" and w: "w = k @ w'"
    by (auto simp: copyMembers.simps [of s] put_eq_Some split: option.splits if_splits)
  from copyString_head [OF k] show ?thesis by (auto simp: w)
qed

lemma copyElements_head:
  assumes "copyElements s = Some (w, r)"
  obtains u w' where "w = u # w'" "u \<noteq> 93" "u \<noteq> 125" "\<not> json_ws u"
proof -
  obtain v q w'' where v: "copyValue s = Some (v, q)" and w: "w = v @ w''"
    using assms by (auto simp: copyElements.simps [of s] put_eq_Some split: option.splits if_splits)
  from copyValue_head [OF v] show thesis using that w by (metis append_Cons)
qed

text \<open>Copying a copied value gives it back, whatever follows a bracket or a quote.\<close>

definition closes_value :: "jstext \<Rightarrow> bool" where
  "closes_value y \<longleftrightarrow> (case y of [] \<Rightarrow> True | u # _ \<Rightarrow> u = 44 \<or> u = 93 \<or> u = 125)"

lemma closes_stops: "closes_value y \<Longrightarrow> stops y"
  by (auto simp: closes_value_def stops_def number_unit_def digit_def split: list.splits)

lemma head_is_Cons [simp]: "head_is u (v # s) = (v = u)"
  by (simp add: head_is_def)

lemma copy_again:
  "copyValue s = Some (w, r) \<Longrightarrow> closes_value y \<Longrightarrow> copyValue (w @ y) = Some (w, y)"
  "copyMembers s = Some (w, r) \<Longrightarrow> copyMembers (w @ y) = Some (w, y)"
  "copyElements s = Some (w, r) \<Longrightarrow> copyElements (w @ y) = Some (w, y)"
proof (induction s and s and s arbitrary: w r y and w r y and w r y rule: copyValue_copyMembers_copyElements.induct)
  case (1 s)
  show ?case
  proof (cases "skipWs s")
    case (Cons ch q)
    note eq = 1(3) [unfolded copyValue.simps [of s] Cons list.case]
    obtain u w' where w: "w = u # w'" "\<not> json_ws u" by (rule copyValue_head [OF 1(3)])
    have "w @ squeeze False r = squeeze False (ch # q)"
      using copy_squeeze(1) [OF 1(3)] squeeze_skip [of s] Cons by simp
    moreover have "\<not> json_ws ch" using Cons by (metis hd_dropWhile list.distinct(1) list.sel(1) skipWs_def)
    ultimately have u: "u = ch" using w by simp
    have goal: "copyValue (w @ y) = (case w @ y of [] \<Rightarrow> None | ch # r \<Rightarrow>
          if ch = 123 then
            (if head_is 125 (skipWs r) then Some ([123, 125], tl (skipWs r)) else put [123] (copyMembers r))
          else if ch = 91 then
            (if head_is 93 (skipWs r) then Some ([91, 93], tl (skipWs r)) else put [91] (copyElements r))
          else if ch = 34 then copyString (ch # r)
          else if ch = 116 then copyLiteral ''true'' (ch # r)
          else if ch = 102 then copyLiteral ''false'' (ch # r)
          else if ch = 110 then copyLiteral ''null'' (ch # r)
          else if ch = 45 \<or> digit ch then copyNumber (ch # r)
          else None)"
      unfolding w(1) append_Cons copyValue.simps [of "u # w' @ y"] skipWs_id [OF w(2)] ..
    consider "ch = 123" | "ch = 91" | "ch = 34" | "ch = 116" | "ch = 102" | "ch = 110"
      | "ch \<noteq> 123" "ch \<noteq> 91" "ch \<noteq> 34" "ch \<noteq> 116" "ch \<noteq> 102" "ch \<noteq> 110" by blast
    then show ?thesis
    proof cases
      case c1: 1
      show ?thesis
      proof (cases "head_is 125 (skipWs q)")
        case True
        then have "w = [123, 125]" using eq c1 by simp
        then show ?thesis unfolding goal by (simp add: skipWs_id json_ws_def)
      next
        case False
        then obtain m where m: "copyMembers q = Some (m, r)" "w = 123 # m" using eq c1 by (auto simp: put_eq_Some)
        obtain m' where "m = 34 # m'" using copyMembers_head [OF m(1)] by blast
        then have "\<not> head_is 125 (skipWs (m @ y))" by (simp add: skipWs_id json_ws_def)
        then show ?thesis using goal m(2) 1(1) [OF Cons c1 False m(1)] c1 by simp
      qed
    next
      case c2: 2
      show ?thesis
      proof (cases "head_is 93 (skipWs q)")
        case True
        then have "w = [91, 93]" using eq c2 by simp
        then show ?thesis unfolding goal by (simp add: skipWs_id json_ws_def)
      next
        case False
        then obtain m where m: "copyElements q = Some (m, r)" "w = 91 # m" using eq c2 by (auto simp: put_eq_Some)
        obtain v m' where "m = v # m'" "v \<noteq> 93" "\<not> json_ws v" by (rule copyElements_head [OF m(1)])
        then have "\<not> head_is 93 (skipWs (m @ y))" by (simp add: skipWs_id)
        then show ?thesis using goal m(2) 1(2) [OF Cons _ c2 False m(1)] c2 by simp
      qed
    next
      case c3: 3
      then have "copyString (ch # q) = Some (w, r)" using eq by simp
      from copyString_again [OF this] show ?thesis unfolding goal using w u c3 by simp
    next
      case c4: 4
      then have "copyLiteral ''true'' (ch # q) = Some (w, r)" using eq by simp
      from copyLiteral_again [OF this] show ?thesis unfolding goal using w u c4 by simp
    next
      case c5: 5
      then have "copyLiteral ''false'' (ch # q) = Some (w, r)" using eq by simp
      from copyLiteral_again [OF this] show ?thesis unfolding goal using w u c5 by simp
    next
      case c6: 6
      then have "copyLiteral ''null'' (ch # q) = Some (w, r)" using eq by simp
      from copyLiteral_again [OF this] show ?thesis unfolding goal using w u c6 by simp
    next
      case c7: 7
      then have n: "copyNumber (ch # q) = Some (w, r)" "ch = 45 \<or> digit ch" using eq by (simp_all split: if_splits)
      from copyNumber_again [OF n(1) closes_stops [OF 1(4)]] show ?thesis
        unfolding goal using w u c7 n(2) by simp
    qed
  qed (use 1 in \<open>simp add: copyValue.simps\<close>)
next
  case (2 s)
  obtain k q where k: "copyString (skipWs s) = Some (k, q)" and c: "head_is 58 (skipWs q)"
    using 2(3) by (simp add: copyMembers.simps [of s] split: option.splits if_splits prod.splits)
  obtain v q1 where v: "copyValue (tl (skipWs q)) = Some (v, q1)"
    using 2(3) k c by (simp add: copyMembers.simps [of s] split: option.splits if_splits prod.splits)
  obtain k' where k': "k = 34 # k'" using copyString_head [OF k] by blast
  have ks: "copyString (skipWs (k @ z)) = Some (k, z)" for z
    using copyString_again [OF k] by (simp add: k' skipWs_id json_ws_def)
  have colon: "skipWs (58 # z) = 58 # z" "skipWs (44 # z) = 44 # z" "skipWs (125 # z) = 125 # z" for z
    by (simp_all add: skipWs_id json_ws_def)
  have vs: "copyValue (v @ u # z) = Some (v, u # z)" if "u = 44 \<or> u = 125" for u z
    using 2(1) [OF k refl _ v, of "u # z"] c that by (auto simp: closes_value_def)
  show ?case
  proof (cases "head_is 44 (skipWs q1)")
    case True
    then obtain m where m: "copyMembers (tl (skipWs q1)) = Some (m, r)" "w = k @ [58] @ v @ [44] @ m"
      using 2(3) k c v by (auto simp: copyMembers.simps [of s] put_eq_Some)
    have "copyMembers (m @ y) = Some (m, y)" using 2(2) [OF k refl _ v refl True m(1)] c by simp
    then show ?thesis
      by (simp add: m(2) copyMembers.simps [of "k @ 58 # v @ 44 # m @ y"] ks colon vs)
  next
    case False
    then have "w = k @ [58] @ v @ [125]" using 2(3) k c v
      by (auto simp: copyMembers.simps [of s] split: if_splits)
    then show ?thesis by (simp add: copyMembers.simps [of "k @ 58 # v @ 125 # y"] ks colon vs)
  qed
next
  case (3 s)
  obtain v q1 where v: "copyValue s = Some (v, q1)"
    using 3(3) by (simp add: copyElements.simps [of s] split: option.splits prod.splits)
  have colon: "skipWs (44 # z) = 44 # z" "skipWs (93 # z) = 93 # z" for z
    by (simp_all add: skipWs_id json_ws_def)
  have vs: "copyValue (v @ u # z) = Some (v, u # z)" if "u = 44 \<or> u = 93" for u z
    using 3(1) [OF v, of "u # z"] that by (auto simp: closes_value_def)
  show ?case
  proof (cases "head_is 44 (skipWs q1)")
    case True
    then obtain m where m: "copyElements (tl (skipWs q1)) = Some (m, r)" "w = v @ [44] @ m"
      using 3(3) v by (auto simp: copyElements.simps [of s] put_eq_Some)
    have "copyElements (m @ y) = Some (m, y)" using 3(2) [OF v refl True m(1)] by simp
    then show ?thesis by (simp add: m(2) copyElements.simps [of "v @ 44 # m @ y"] colon vs)
  next
    case False
    then have "w = v @ [93]" using 3(3) v
      by (auto simp: copyElements.simps [of s] split: if_splits)
    then show ?thesis by (simp add: copyElements.simps [of "v @ 93 # y"] colon vs)
  qed
qed

lemma minifyJson_again: "minifyJson s = Some w \<Longrightarrow> minifyJson w = Some w"
proof -
  assume "minifyJson s = Some w"
  then obtain r where "copyValue s = Some (w, r)" by (auto simp: minifyJson_def split: option.splits if_splits)
  from copy_again(1) [OF this, of "[]"] show ?thesis
    by (simp add: minifyJson_def closes_value_def skipWs_def)
qed

end
