(* ===== verification/Fences.thy ===== *)
theory Fences
  imports Text
begin

text \<open>
  The fence splitter of the output compressor and the transforms that work on the text outside
  fences (src/src/compressor/transforms/whitespace.ts and log.ts): white space, the escaping of lines
  that look like a marker of the gateway, and the folding of repeated lines. An operation on a
  segment returns its text and the number of markers it made.
\<close>

section \<open>Fences\<close>

record fence_segment =
  seg_text :: jstext
  seg_fenced :: bool

text \<open>FENCE_OPEN: at most three spaces and a run of three or more backticks or tildes, the marker.\<close>

definition fence_open :: "jstext \<Rightarrow> jstext option" where
  "fence_open l =
     (let r = dropWhile (\<lambda>u. u = 32) l; k = length (takeWhile (\<lambda>u. u = 32) l);
          mk = (if r = [] then [] else takeWhile (\<lambda>u. u = hd r) r)
      in if k \<le> 3 \<and> r \<noteq> [] \<and> (hd r = 96 \<or> hd r = 126) \<and> 3 \<le> length mk then Some mk else None)"

definition fence_closes :: "jstext \<Rightarrow> jstext \<Rightarrow> bool" where
  "fence_closes fenceMarker l =
     (case fence_open l of
        None \<Rightarrow> False
      | Some mk \<Rightarrow> hd mk = hd fenceMarker \<and> length fenceMarker \<le> length mk \<and> js_trim l = mk)"

definition flush_segment :: "jstext list \<Rightarrow> bool \<Rightarrow> fence_segment list" where
  "flush_segment cur fenced =
     (if cur = [] then [] else [\<lparr>seg_text = join_text [10] cur, seg_fenced = fenced\<rparr>])"

fun split_go :: "jstext list \<Rightarrow> bool \<Rightarrow> jstext \<Rightarrow> jstext list \<Rightarrow> fence_segment list" where
  "split_go cur fenced mk [] = flush_segment cur fenced"
| "split_go cur False mk (l # ls) =
     (case fence_open l of
        Some mk' \<Rightarrow> flush_segment cur False @ split_go [l] True mk' ls
      | None \<Rightarrow> split_go (cur @ [l]) False mk ls)"
| "split_go cur True mk (l # ls) =
     (if fence_closes mk l then flush_segment (cur @ [l]) True @ split_go [] False mk ls
      else split_go (cur @ [l]) True mk ls)"

definition splitFences :: "jstext \<Rightarrow> fence_segment list" where
  "splitFences t = split_go [] False [] (text_lines t)"

definition joinFences :: "fence_segment list \<Rightarrow> jstext" where
  "joinFences segments = join_text [10] (map seg_text segments)"

text \<open>mapUnfenced, with the markers its operation adds to the counts.\<close>

definition mapUnfenced :: "(jstext \<Rightarrow> jstext \<times> nat) \<Rightarrow> jstext \<Rightarrow> jstext \<times> nat" where
  "mapUnfenced f t =
     (let segments = splitFences t;
          done = map (\<lambda>s. if seg_fenced s then (s, 0)
                          else (s\<lparr>seg_text := fst (f (seg_text s))\<rparr>, snd (f (seg_text s)))) segments
      in (joinFences (map fst done), sum_list (map snd done)))"

section \<open>White space\<close>

definition strip_trailing :: "jstext \<Rightarrow> jstext" where
  "strip_trailing l = rev (dropWhile (\<lambda>u. u = 32 \<or> u = 9) (rev l))"

definition ws_line :: "jstext \<Rightarrow> jstext" where
  "ws_line l =
     (if 96 \<in> set l then l
      else
        let crlf = (l \<noteq> [] \<and> last l = 13); body = (if crlf then butlast l else l);
            stripped = strip_trailing body
        in if crlf then stripped @ [13] else stripped)"

definition blank_line :: "jstext \<Rightarrow> bool" where
  "blank_line l \<longleftrightarrow> l = [] \<or> l = [13]"

text \<open>collapse: a run of three or more blank lines at the end of the output keeps its first.\<close>

definition collapse :: "jstext list \<Rightarrow> nat \<Rightarrow> jstext list" where
  "collapse out blankRun =
     (if blankRun < 3 then out
      else take (length out - blankRun) out @ [out ! (length out - blankRun)])"

fun ws_go :: "jstext list \<Rightarrow> nat \<Rightarrow> jstext list \<Rightarrow> jstext list" where
  "ws_go out blankRun [] = collapse out blankRun"
| "ws_go out blankRun (l # ls) =
     (if blank_line l then ws_go (out @ [l]) (blankRun + 1) ls
      else ws_go (collapse out blankRun @ [l]) 0 ls)"

definition ws_segment :: "jstext list \<Rightarrow> jstext list" where
  "ws_segment ls = ws_go [] 0 (map ws_line ls)"

definition normalizeWhitespace :: "jstext \<Rightarrow> jstext" where
  "normalizeWhitespace t = fst (mapUnfenced (\<lambda>s. (join_text [10] (ws_segment (text_lines s)), 0)) t)"

section \<open>Markers\<close>

definition SENTINEL_PREFIX :: jstext where "SENTINEL_PREFIX = lit ''[[gateway-''"
definition LIT_MARKER :: jstext where "LIT_MARKER = lit ''[[gateway-lit:v1]] ''"

definition repeatMarker :: "nat \<Rightarrow> nat \<Rightarrow> jstext" where
  "repeatMarker n c =
     lit ''[[gateway-repeat:v1 lines='' @ lit (nat_text n) @ lit '' count='' @ lit (nat_text c) @ lit '']]''"

definition crMarker :: "nat \<Rightarrow> jstext" where
  "crMarker frames = lit ''[[gateway-cr:v1 frames='' @ lit (nat_text frames) @ lit '']]''"

definition noteLine :: "nat \<Rightarrow> nat \<Rightarrow> jstext" where
  "noteLine folded escaped =
     lit ''[[gateway-note:v1 folded='' @ lit (nat_text folded) @ lit '' escaped='' @ lit (nat_text escaped)
     @ lit '']] ''
     @ lit ''Gateway compressor markers follow: [[gateway-repeat:v1 ...]] folds byte-identical repeated lines (count included), ''
     @ lit ''[[gateway-cr:v1 ...]] keeps the final frame of carriage-return-rewritten lines, ''
     @ lit ''and lines opening with [[gateway-lit:v1]] are verbatim input with that prefix added.''"

definition trim_start :: "jstext \<Rightarrow> jstext" where
  "trim_start l = dropWhile is_ws l"

definition sentinel_like :: "jstext \<Rightarrow> bool" where
  "sentinel_like l \<longleftrightarrow> prefix SENTINEL_PREFIX (trim_start l)"

definition escape_line :: "jstext \<Rightarrow> jstext" where
  "escape_line l = (if sentinel_like l then LIT_MARKER @ l else l)"

definition escape_segment :: "jstext \<Rightarrow> jstext \<times> nat" where
  "escape_segment s =
     (join_text [10] (map escape_line (text_lines s)), length (filter sentinel_like (text_lines s)))"

definition escapeSentinelLikeLines :: "jstext \<Rightarrow> jstext \<times> nat" where
  "escapeSentinelLikeLines t = mapUnfenced escape_segment t"

definition MIN_RUN :: nat where "MIN_RUN = 3"

text \<open>The loop of dedupAdjacentLines: runs of equal lines that are not blank.\<close>

function dedup_lines :: "jstext list \<Rightarrow> jstext list \<times> nat" where
  "dedup_lines [] = ([], 0)"
| "dedup_lines (l # ls) =
     (let more = (if js_trim l \<noteq> [] then length (takeWhile (\<lambda>x. x = l) ls) else 0);
          runLength = more + 1; (out, folded) = dedup_lines (drop more ls)
      in if MIN_RUN \<le> runLength then (l # repeatMarker 1 runLength # out, folded + 1)
         else (l # take more ls @ out, folded))"
  by pat_completeness auto
termination
  by (relation "measure length") auto

definition dedup_segment :: "jstext \<Rightarrow> jstext \<times> nat" where
  "dedup_segment s = (let (out, folded) = dedup_lines (text_lines s) in (join_text [10] out, folded))"

definition dedupAdjacentLines :: "jstext \<Rightarrow> jstext \<times> nat" where
  "dedupAdjacentLines t = mapUnfenced dedup_segment t"

section \<open>Segments as blocks of lines\<close>

fun blocks :: "jstext list \<Rightarrow> bool \<Rightarrow> jstext \<Rightarrow> jstext list \<Rightarrow> (bool \<times> jstext list) list" where
  "blocks cur fenced mk [] = (if cur = [] then [] else [(fenced, cur)])"
| "blocks cur False mk (l # ls) =
     (case fence_open l of
        Some mk' \<Rightarrow> (if cur = [] then [] else [(False, cur)]) @ blocks [l] True mk' ls
      | None \<Rightarrow> blocks (cur @ [l]) False mk ls)"
| "blocks cur True mk (l # ls) =
     (if fence_closes mk l then (True, cur @ [l]) # blocks [] False mk ls
      else blocks (cur @ [l]) True mk ls)"

definition text_blocks :: "jstext \<Rightarrow> (bool \<times> jstext list) list" where
  "text_blocks t = blocks [] False [] (text_lines t)"

definition block_segment :: "bool \<times> jstext list \<Rightarrow> fence_segment" where
  "block_segment b = \<lparr>seg_text = join_text [10] (snd b), seg_fenced = fst b\<rparr>"

lemma split_go_blocks: "split_go cur fenced mk ls = map block_segment (blocks cur fenced mk ls)"
  by (induction cur fenced mk ls rule: blocks.induct)
    (auto simp: flush_segment_def block_segment_def split: option.split)

lemma splitFences_blocks: "splitFences t = map block_segment (text_blocks t)"
  by (simp add: splitFences_def text_blocks_def split_go_blocks)

lemma blocks_lines: "concat (map snd (blocks cur fenced mk ls)) = cur @ ls"
  by (induction cur fenced mk ls rule: blocks.induct) (auto split: option.split)

lemma blocks_nonempty: "b \<in> set (blocks cur fenced mk ls) \<Longrightarrow> snd b \<noteq> []"
  by (induction cur fenced mk ls rule: blocks.induct) (auto split: option.splits if_splits)

lemma blocks_unfenced:
  "(False, b) \<in> set (blocks cur fenced mk ls) \<Longrightarrow> (\<not> fenced \<longrightarrow> (\<forall>l\<in>set cur. fence_open l = None))
     \<Longrightarrow> l \<in> set b \<Longrightarrow> fence_open l = None"
  by (induction cur fenced mk ls rule: blocks.induct) (auto split: option.splits if_splits)

lemma text_blocks_unfenced: "(False, b) \<in> set (text_blocks t) \<Longrightarrow> l \<in> set b \<Longrightarrow> fence_open l = None"
  unfolding text_blocks_def by (erule blocks_unfenced) simp_all

lemma text_blocks_no_break: "b \<in> set (text_blocks t) \<Longrightarrow> l \<in> set (snd b) \<Longrightarrow> 10 \<notin> set l"
proof -
  assume "b \<in> set (text_blocks t)" "l \<in> set (snd b)"
  then have "l \<in> set (concat (map snd (text_blocks t)))" by auto
  then show ?thesis using text_lines_no_break by (simp add: text_blocks_def blocks_lines)
qed

lemma concat_blocks_join:
  "\<forall>b\<in>set bs. snd b \<noteq> [] \<Longrightarrow> join_text [10] (map (\<lambda>b. join_text [10] (snd b)) bs) = join_text [10] (concat (map snd bs))"
proof (induction bs)
  case (Cons b bs)
  have "bs \<noteq> [] \<Longrightarrow> concat (map snd bs) \<noteq> []" using Cons.prems by (cases bs) auto
  then show ?case using Cons by (auto simp: join_text_Cons join_text_append)
qed simp

lemma blocks_first: "\<exists>c' bs. blocks (q # c) True mk ls = (True, q # c') # bs"
  by (induction ls arbitrary: c) auto

lemma joinFences_splitFences: "joinFences (splitFences t) = t"
  using concat_blocks_join [of "text_blocks t"] blocks_nonempty
  by (simp add: joinFences_def splitFences_blocks comp_def block_segment_def text_blocks_def blocks_lines join_text_lines)

section \<open>Editing the lines outside fences\<close>

text \<open>
  An edit of the lines of an unfenced block that leaves some line, no line break inside a line, and
  no line that opens a fence, leaves the division into blocks as it is.
\<close>

definition safe_edit :: "(jstext list \<Rightarrow> jstext list) \<Rightarrow> bool" where
  "safe_edit g \<longleftrightarrow> (\<forall>ls. ls \<noteq> [] \<longrightarrow> (\<forall>l\<in>set ls. fence_open l = None \<and> 10 \<notin> set l)
     \<longrightarrow> g ls \<noteq> [] \<and> (\<forall>l\<in>set (g ls). fence_open l = None \<and> 10 \<notin> set l))"

abbreviation edit_block :: "(jstext list \<Rightarrow> jstext list) \<Rightarrow> bool \<times> jstext list \<Rightarrow> bool \<times> jstext list" where
  "edit_block g b \<equiv> (if fst b then b else (False, g (snd b)))"

lemma blocks_plain: "\<forall>l\<in>set xs. fence_open l = None \<Longrightarrow> blocks cur False mk (xs @ ys) = blocks (cur @ xs) False mk ys"
  by (induction xs arbitrary: cur) auto

lemma blocks_open: "\<forall>l\<in>set xs. \<not> fence_closes mk l \<Longrightarrow> blocks cur True mk (xs @ ys) = blocks (cur @ xs) True mk ys"
  by (induction xs arbitrary: cur) auto

definition edited :: "(jstext list \<Rightarrow> jstext list) \<Rightarrow> (bool \<times> jstext list) list \<Rightarrow> jstext list" where
  "edited g bs = concat (map (\<lambda>b. snd (edit_block g b)) bs)"

lemma edited_simps [simp]:
  "edited g [] = []"
  "edited g ((True, ls) # bs) = ls @ edited g bs"
  "edited g ((False, ls) # bs) = g ls @ edited g bs"
  by (simp_all add: edited_def)

definition plain_lines :: "jstext list \<Rightarrow> bool" where
  "plain_lines ls \<longleftrightarrow> (\<forall>l\<in>set ls. fence_open l = None \<and> 10 \<notin> set l)"

lemma safe_edit_block:
  assumes "safe_edit g" and "cur \<noteq> []" and "plain_lines cur"
  shows "g cur \<noteq> []" "\<forall>l\<in>set (g cur). fence_open l = None"
  using assms unfolding safe_edit_def plain_lines_def by blast+

lemma edited_open: "\<exists>X. edited g (blocks (q # c) True mk ls) = q # X"
proof -
  obtain c' bs where "blocks (q # c) True mk ls = (True, q # c') # bs" using blocks_first by blast
  then show ?thesis by simp
qed

lemma blocks_edit:
  assumes g: "safe_edit g" and "\<forall>l\<in>set ls. 10 \<notin> set l"
  shows "(plain_lines cur \<longrightarrow> (\<forall>m mk. blocks [] False m (edited g (blocks cur False mk ls))
      = map (edit_block g) (blocks cur False mk ls)))
    \<and> (\<forall>m q mk. fence_open q = Some mk \<longrightarrow> (\<forall>l\<in>set cur. \<not> fence_closes mk l) \<longrightarrow>
      blocks [] False m (edited g (blocks (q # cur) True mk ls)) = map (edit_block g) (blocks (q # cur) True mk ls))"
  using assms(2)
proof (induction ls arbitrary: cur)
  case Nil
  have "blocks [] False m (edited g (blocks cur False mk [])) = map (edit_block g) (blocks cur False mk [])"
    if "plain_lines cur" for m mk
  proof (cases "cur = []")
    case False
    note s = safe_edit_block [OF g False that]
    then show ?thesis using blocks_plain [OF s(2), of "[]" m "[]"] False by simp
  qed simp
  moreover have "blocks [] False m (edited g (blocks (q # cur) True mk [])) = map (edit_block g) (blocks (q # cur) True mk [])"
    if "fence_open q = Some mk" "\<forall>l\<in>set cur. \<not> fence_closes mk l" for m q mk
    using blocks_open [OF that(2), of "[q]" "[]"] that(1) by simp
  ultimately show ?case by simp
next
  case (Cons l ls)
  have nl: "\<forall>l\<in>set ls. 10 \<notin> set l" "10 \<notin> set l" using Cons.prems by auto
  note IH1 = Cons.IH [OF nl(1), THEN conjunct1, rule_format]
  note IH2 = Cons.IH [OF nl(1), THEN conjunct2, rule_format]
  have "blocks [] False m (edited g (blocks cur False mk (l # ls))) = map (edit_block g) (blocks cur False mk (l # ls))"
    if cur: "plain_lines cur" for m mk
  proof (cases "fence_open l")
    case None
    then have "plain_lines (cur @ [l])" using cur nl(2) by (auto simp: plain_lines_def)
    from IH1 [OF this, of m mk] show ?thesis using None by simp
  next
    case (Some mk')
    obtain X where X: "edited g (blocks [l] True mk' ls) = l # X" using edited_open by blast
    have "blocks [] False m (l # X) = map (edit_block g) (blocks [l] True mk' ls)"
      using IH2 [OF Some, of "[]" m] X by simp
    then have o: "blocks [l] True mk' X = map (edit_block g) (blocks [l] True mk' ls)" by (simp add: Some)
    show ?thesis
    proof (cases "cur = []")
      case True
      then show ?thesis by (simp add: Some X o)
    next
      case False
      note s = safe_edit_block [OF g False cur]
      then show ?thesis using False blocks_plain [OF s(2), of "[]" m "l # X"] by (simp add: Some X o)
    qed
  qed
  moreover have "blocks [] False m (edited g (blocks (q # cur) True mk (l # ls))) = map (edit_block g) (blocks (q # cur) True mk (l # ls))"
    if q: "fence_open q = Some mk" "\<forall>l\<in>set cur. \<not> fence_closes mk l" for m q mk
  proof (cases "fence_closes mk l")
    case False
    have "blocks [] False m (edited g (blocks (q # cur @ [l]) True mk ls)) = map (edit_block g) (blocks (q # cur @ [l]) True mk ls)"
      by (rule IH2 [OF q(1)]) (use q(2) False in auto)
    then show ?thesis using False by simp
  next
    case True
    have "plain_lines []" by (simp add: plain_lines_def)
    then have "blocks [] False mk (edited g (blocks [] False mk ls)) = map (edit_block g) (blocks [] False mk ls)"
      by (rule IH1)
    then show ?thesis
      using blocks_open [OF q(2), of "[q]" "l # edited g (blocks [] False mk ls)"] True q(1) by simp
  qed
  ultimately show ?case by simp
qed

text \<open>An operation on segments given by an edit of their lines.\<close>

definition on_lines :: "(jstext list \<Rightarrow> jstext list) \<Rightarrow> (jstext \<Rightarrow> jstext \<times> nat) \<Rightarrow> bool" where
  "on_lines g f \<longleftrightarrow> (\<forall>s. fst (f s) = join_text [10] (g (text_lines s)))"

definition edit_text :: "(jstext list \<Rightarrow> jstext list) \<Rightarrow> jstext \<Rightarrow> jstext" where
  "edit_text g t = join_text [10] (edited g (text_blocks t))"

lemma safe_edit_all:
  assumes "safe_edit g" and "b \<in> set (text_blocks t)"
  shows "snd (edit_block g b) \<noteq> []" "\<forall>l\<in>set (snd (edit_block g b)). 10 \<notin> set l"
proof -
  obtain f ls where b: "b = (f, ls)" by (cases b)
  have ls: "ls \<noteq> []" "\<forall>l\<in>set ls. 10 \<notin> set l"
    using assms(2) blocks_nonempty [of b] text_blocks_no_break [of b t] by (auto simp: b text_blocks_def)
  show "snd (edit_block g b) \<noteq> []" "\<forall>l\<in>set (snd (edit_block g b)). 10 \<notin> set l"
  proof (atomize (full), cases f)
    case False
    then have "plain_lines ls"
      using assms(2) ls(2) text_blocks_unfenced [of ls t] by (auto simp: plain_lines_def b)
    then show "snd (edit_block g b) \<noteq> [] \<and> (\<forall>l\<in>set (snd (edit_block g b)). 10 \<notin> set l)"
      using assms(1) ls(1) unfolding safe_edit_def plain_lines_def by (simp add: b False)
  qed (simp add: b ls)
qed

lemma mapUnfenced_edit:
  assumes "safe_edit g" and "on_lines g f"
  shows "fst (mapUnfenced f t) = edit_text g t"
proof -
  let ?bs = "text_blocks t"
  have "fst (mapUnfenced f t) = join_text [10] (map (\<lambda>b. join_text [10] (snd (edit_block g b))) ?bs)"
    unfolding mapUnfenced_def Let_def splitFences_blocks joinFences_def fst_conv map_map comp_def
  proof (intro arg_cong [where f = "join_text [10]"] map_cong refl)
    fix b
    assume b: "b \<in> set ?bs"
    have "text_lines (join_text [10] (snd b)) = snd b"
      using blocks_nonempty [of b] text_blocks_no_break [OF b] b by (intro text_lines_join) (auto simp: text_blocks_def)
    then show "seg_text (fst (if seg_fenced (block_segment b) then (block_segment b, 0)
          else (block_segment b\<lparr>seg_text := fst (f (seg_text (block_segment b)))\<rparr>, snd (f (seg_text (block_segment b))))))
        = join_text [10] (snd (edit_block g b))"
      using assms(2) by (simp add: block_segment_def on_lines_def)
  qed
  also have "\<dots> = join_text [10] (map (\<lambda>b. join_text [10] (snd b)) (map (edit_block g) ?bs))"
    by (simp add: comp_def)
  also have "\<dots> = join_text [10] (concat (map snd (map (edit_block g) ?bs)))"
    by (rule concat_blocks_join) (metis (no_types, lifting) safe_edit_all(1) [OF assms(1)] imageE set_map)
  finally show ?thesis by (simp add: edit_text_def edited_def comp_def)
qed

lemma edit_text_lines:
  assumes "safe_edit g"
  shows "text_lines (edit_text g t) = edited g (text_blocks t)"
  unfolding edit_text_def
proof (rule text_lines_join)
  have "text_blocks t \<noteq> []"
    using blocks_lines [of "[]" False "[]" "text_lines t"] text_lines_ne [of t]
    by (metis append_Nil concat.simps(1) list.map(1) text_blocks_def)
  then obtain b bs where bs: "text_blocks t = b # bs" by (cases "text_blocks t") auto
  then have "snd (edit_block g b) \<noteq> []" using safe_edit_all(1) [OF assms, of b t] by simp
  then show "edited g (text_blocks t) \<noteq> []" by (simp add: bs edited_def)
  show "\<forall>l\<in>set (edited g (text_blocks t)). 10 \<notin> set l"
    using safe_edit_all(2) [OF assms] by (auto simp: edited_def simp del: snd_conv)
qed

lemma edit_text_blocks:
  assumes "safe_edit g"
  shows "text_blocks (edit_text g t) = map (edit_block g) (text_blocks t)"
  unfolding text_blocks_def [of "edit_text g t"] edit_text_lines [OF assms]
  using blocks_edit [OF assms, of "text_lines t" "[]"] text_lines_no_break
  by (auto simp: text_blocks_def plain_lines_def)

lemma edit_text_twice:
  assumes "safe_edit g"
  shows "edit_text h (edit_text g t) = edit_text (\<lambda>ls. h (g ls)) t"
proof -
  have "edited h (map (edit_block g) bs) = edited (\<lambda>ls. h (g ls)) bs" for bs
    by (induction bs) (auto simp: edited_def)
  then show ?thesis by (simp add: edit_text_def [of h] edit_text_def [of "\<lambda>ls. h (g ls)"] edit_text_blocks [OF assms])
qed

lemma edit_text_id:
  assumes "\<And>b. (False, b) \<in> set (text_blocks t) \<Longrightarrow> g b = b"
  shows "edit_text g t = t"
proof -
  have "edited g bs = concat (map snd bs)" if "\<And>b. (False, b) \<in> set bs \<Longrightarrow> g b = b" for bs
    using that
  proof (induction bs)
    case (Cons b bs)
    then show ?case by (cases b; cases "fst b") (auto simp: edited_def)
  qed simp
  then show ?thesis
    using assms by (simp add: edit_text_def text_blocks_def blocks_lines join_text_lines)
qed

text \<open>What is inside fences.\<close>

definition fenced_texts :: "jstext \<Rightarrow> jstext list" where
  "fenced_texts t = map seg_text (filter seg_fenced (splitFences t))"

lemma fenced_texts_edit: "safe_edit g \<Longrightarrow> fenced_texts (edit_text g t) = fenced_texts t"
proof -
  assume "safe_edit g"
  moreover have "filter fst (map (edit_block g) bs) = filter fst bs" for bs :: "(bool \<times> jstext list) list"
    by (induction bs) auto
  ultimately show ?thesis
    by (simp add: fenced_texts_def splitFences_blocks edit_text_blocks filter_map comp_def block_segment_def)
qed

end
