(* ===== verification/Folds.thy ===== *)
theory Folds
  imports Fences
begin

text \<open>
  What the transforms outside fences keep (src/src/compressor/transforms/log.ts and whitespace.ts):
  none of them touches a fence or makes one, escaping and folding can be undone, and the white space
  pass drops white space only.
\<close>

declare nat_text.simps [simp del]

section \<open>Markers never open a fence\<close>

lemma fence_open_head: "l \<noteq> [] \<Longrightarrow> hd l \<noteq> 32 \<Longrightarrow> hd l \<noteq> 96 \<Longrightarrow> hd l \<noteq> 126 \<Longrightarrow> fence_open l = None"
  by (cases l) (simp_all add: fence_open_def Let_def)

lemma marker_heads:
  "\<exists>l. LIT_MARKER = 91 # l" "\<exists>l. repeatMarker n c = 91 # l" "\<exists>l. crMarker n = 91 # l"
  by (simp_all add: LIT_MARKER_def repeatMarker_def crMarker_def lit_def)

lemma decimal_char: "k < 10 \<Longrightarrow> of_char (char_of (48 + k) :: char) = (48 + k :: nat)"
  by (simp add: take_bit_nat_eq_self)

lemma nat_text_units: "x \<in> set (lit (nat_text n)) \<Longrightarrow> 48 \<le> x \<and> x \<le> 57"
proof (induction n rule: nat_text.induct)
  case (1 n)
  then show ?case
    by (subst (asm) nat_text.simps) (auto simp: lit_def decimal_char split: if_splits)
qed

lemma marker_no_break:
  "10 \<notin> set LIT_MARKER" "10 \<notin> set (repeatMarker n c)" "10 \<notin> set (crMarker n)"
  using nat_text_units [of 10]
  by (auto simp: LIT_MARKER_def repeatMarker_def crMarker_def) (auto simp: lit_def)

lemma repeatMarker_open: "fence_open (repeatMarker n c) = None"
  using marker_heads(2) [of n c] fence_open_head [of "repeatMarker n c"] by auto

section \<open>Escaping\<close>

lemma escape_line_plain:
  "fence_open l = None \<Longrightarrow> fence_open (escape_line l) = None"
  "10 \<notin> set l \<Longrightarrow> 10 \<notin> set (escape_line l)"
proof -
  have "LIT_MARKER \<noteq> []" "hd LIT_MARKER = 91" by (simp_all add: LIT_MARKER_def lit_def)
  then have "fence_open (LIT_MARKER @ l) = None" by (intro fence_open_head) simp_all
  then show "fence_open l = None \<Longrightarrow> fence_open (escape_line l) = None" by (simp add: escape_line_def)
  show "10 \<notin> set l \<Longrightarrow> 10 \<notin> set (escape_line l)" using marker_no_break(1) by (simp add: escape_line_def)
qed

lemma safe_edit_escape: "safe_edit (map escape_line)"
  by (simp add: safe_edit_def escape_line_plain)

lemma on_lines_escape: "on_lines (map escape_line) escape_segment"
  by (simp add: on_lines_def escape_segment_def)

lemma escapeSentinelLikeLines_edit: "fst (escapeSentinelLikeLines t) = edit_text (map escape_line) t"
  by (simp add: escapeSentinelLikeLines_def mapUnfenced_edit [OF safe_edit_escape on_lines_escape])

section \<open>Folding\<close>

lemma dedup_lines_mem: "l \<in> set (fst (dedup_lines ls)) \<Longrightarrow> l \<in> set ls \<or> (\<exists>n. l = repeatMarker 1 n)"
proof (induction ls rule: dedup_lines.induct)
  case (2 l' ls)
  define more where "more = (if js_trim l' \<noteq> [] then length (takeWhile (\<lambda>x. x = l') ls) else 0)"
  obtain out folded where r: "dedup_lines (drop more ls) = (out, folded)" by (cases "dedup_lines (drop more ls)")
  have IH: "l \<in> set out \<Longrightarrow> l \<in> set ls \<or> (\<exists>n. l = repeatMarker 1 n)"
    using 2(1) [OF more_def] r by (auto dest: in_set_dropD)
  have "dedup_lines (l' # ls) = (if MIN_RUN \<le> more + 1 then (l' # repeatMarker 1 (more + 1) # out, folded + 1)
     else (l' # take more ls @ out, folded))"
    using r by (simp add: more_def)
  with 2(2) IH show ?case by (auto split: if_splits dest: in_set_takeD)
qed simp

lemma dedup_lines_nonempty: "ls \<noteq> [] \<Longrightarrow> fst (dedup_lines ls) \<noteq> []"
  by (cases ls) (simp_all add: Let_def case_prod_beta)

lemma safe_edit_dedup: "safe_edit (\<lambda>ls. fst (dedup_lines ls))"
proof -
  have "fence_open l = None \<and> 10 \<notin> set l"
    if "\<forall>l\<in>set ls. fence_open l = None \<and> 10 \<notin> set l" "l \<in> set (fst (dedup_lines ls))" for ls l
    using dedup_lines_mem [OF that(2)] that(1) repeatMarker_open marker_no_break(2) by auto
  then show ?thesis by (simp add: safe_edit_def dedup_lines_nonempty)
qed

lemma on_lines_dedup: "on_lines (\<lambda>ls. fst (dedup_lines ls)) dedup_segment"
  by (simp add: on_lines_def dedup_segment_def case_prod_beta)

lemma dedupAdjacentLines_edit: "fst (dedupAdjacentLines t) = edit_text (\<lambda>ls. fst (dedup_lines ls)) t"
  by (simp add: dedupAdjacentLines_def mapUnfenced_edit [OF safe_edit_dedup on_lines_dedup])

section \<open>The decoder\<close>

text \<open>
  The reader's side of the markers, as the note line describes it: a repeat marker stands for the
  other occurrences of the line before it, and one literal prefix is stripped from a line.
\<close>

definition decimal :: "jstext \<Rightarrow> nat" where
  "decimal ds = fold (\<lambda>d n. 10 * n + (d - 48)) ds 0"

definition repeat_open :: jstext where "repeat_open = lit ''[[gateway-repeat:v1 lines=1 count=''"

definition repeat_count :: "jstext \<Rightarrow> nat option" where
  "repeat_count l =
     (if prefix repeat_open l
      then
        let r = drop (length repeat_open) l; ds = takeWhile (\<lambda>u. 48 \<le> u \<and> u \<le> 57) r
        in if drop (length ds) r = lit '']]'' then Some (decimal ds) else None
      else None)"

fun expand_repeats :: "jstext list \<Rightarrow> jstext list" where
  "expand_repeats [] = []"
| "expand_repeats [l] = [l]"
| "expand_repeats (l # m # ls) =
     (case repeat_count m of
        None \<Rightarrow> l # expand_repeats (m # ls)
      | Some c \<Rightarrow> replicate c l @ expand_repeats ls)"

definition strip_lit :: "jstext \<Rightarrow> jstext" where
  "strip_lit l = (if prefix LIT_MARKER l then drop (length LIT_MARKER) l else l)"

definition decode_lines :: "jstext list \<Rightarrow> jstext list" where
  "decode_lines ls = map strip_lit (expand_repeats ls)"

lemma decimal_nat_text: "decimal (lit (nat_text n)) = n"
proof (induction n rule: nat_text.induct)
  case (1 n)
  show ?case
  proof (cases "n < 10")
    case True
    then show ?thesis by (subst nat_text.simps) (simp add: lit_def decimal_char decimal_def)
  next
    case False
    then have "decimal (lit (nat_text n)) = 10 * (n div 10) + n mod 10"
      using 1 by (subst nat_text.simps) (simp add: lit_def decimal_char decimal_def)
    then show ?thesis by simp
  qed
qed

lemma repeat_count_marker: "repeat_count (repeatMarker (Suc 0) c) = Some c"
proof -
  let ?d = "lit (nat_text c)"
  have "lit (nat_text 1) = [49]" using decimal_char [of 1] by (subst nat_text.simps) (simp add: lit_def)
  then have m: "repeatMarker (Suc 0) c = repeat_open @ ?d @ lit '']]''"
    by (simp add: repeatMarker_def repeat_open_def lit_def)
  have "takeWhile (\<lambda>u. 48 \<le> u \<and> u \<le> 57) (?d @ lit '']]'') = ?d"
    using nat_text_units [of _ c] by (subst takeWhile_append2) (auto simp: lit_def)
  then show ?thesis by (simp add: repeat_count_def m decimal_nat_text)
qed

text \<open>A line the escaping pass has seen is no marker but a literal one.\<close>

definition decodable :: "jstext \<Rightarrow> bool" where
  "decodable l \<longleftrightarrow> sentinel_like l \<longrightarrow> prefix LIT_MARKER l"

lemma decodable_no_marker: "decodable l \<Longrightarrow> repeat_count l = None"
proof -
  assume d: "decodable l"
  have "\<not> prefix repeat_open l"
  proof
    assume p: "prefix repeat_open l"
    then obtain r where r: "l = repeat_open @ r" by (auto simp: prefix_def)
    have "sentinel_like l"
      by (simp add: r sentinel_like_def trim_start_def repeat_open_def SENTINEL_PREFIX_def lit_def is_ws_def)
    moreover have "\<not> prefix LIT_MARKER l"
      by (simp add: r LIT_MARKER_def repeat_open_def lit_def)
    ultimately show False using d by (simp add: decodable_def)
  qed
  then show ?thesis by (simp add: repeat_count_def)
qed

lemma decodable_escape: "decodable (escape_line l)"
  by (auto simp: decodable_def escape_line_def)

text \<open>The first line of a folded list is a line, so nothing before it is repeated by it.\<close>

lemma dedup_head: "list_all decodable ls \<Longrightarrow> fst (dedup_lines ls) = [] \<or> decodable (hd (fst (dedup_lines ls)))"
  by (cases ls) (simp_all add: Let_def case_prod_beta)

lemma expand_after:
  assumes "ms = [] \<or> decodable (hd ms)"
  shows "expand_repeats (l # ms) = l # expand_repeats ms"
  using assms by (cases ms) (simp_all add: decodable_no_marker)

lemma expand_append:
  assumes "list_all decodable xs" and "ms = [] \<or> decodable (hd ms)"
  shows "expand_repeats (xs @ ms) = xs @ expand_repeats ms"
  using assms(1)
proof (induction xs)
  case (Cons x xs)
  have "xs @ ms = [] \<or> decodable (hd (xs @ ms))" using Cons.prems assms(2) by (cases xs) auto
  then show ?case using Cons expand_after [of "xs @ ms" x] by simp
qed simp

lemma expand_dedup: "list_all decodable ls \<Longrightarrow> expand_repeats (fst (dedup_lines ls)) = ls"
proof (induction ls rule: dedup_lines.induct)
  case (2 l ls)
  define more where "more = (if js_trim l \<noteq> [] then length (takeWhile (\<lambda>x. x = l) ls) else 0)"
  define out where "out = fst (dedup_lines (drop more ls))"
  have d: "list_all decodable (drop more ls)" "decodable l" "list_all decodable (take more ls)"
    using 2(2) by (auto simp: list_all_iff dest: in_set_dropD in_set_takeD)
  have IH: "expand_repeats out = drop more ls" using 2(1) [OF more_def] d(1) by (simp add: out_def)
  have hd: "out = [] \<or> decodable (hd out)" using dedup_head [OF d(1)] by (simp add: out_def)
  have "more \<le> length ls" by (simp add: more_def length_takeWhile_le)
  have run: "take more ls = replicate more l"
  proof (rule nth_equalityI)
    show "length (take more ls) = length (replicate more l)" using \<open>more \<le> length ls\<close> by simp
    show "take more ls ! i = replicate more l ! i" if "i < length (take more ls)" for i
      using that nth_mem [of i "takeWhile (\<lambda>x. x = l) ls"] takeWhile_nth [of i "\<lambda>x. x = l" ls]
      by (auto simp: more_def split: if_splits dest: set_takeWhileD)
  qed
  have step: "fst (dedup_lines (l # ls)) = (if MIN_RUN \<le> more + 1 then l # repeatMarker 1 (more + 1) # out
     else l # take more ls @ out)"
    by (simp add: more_def out_def Let_def case_prod_beta)
  show ?case
  proof (cases "MIN_RUN \<le> more + 1")
    case True
    have "expand_repeats (fst (dedup_lines (l # ls))) = replicate (more + 1) l @ drop more ls"
      using True by (simp add: step repeat_count_marker IH del: dedup_lines.simps)
    also have "\<dots> = l # ls" using run append_take_drop_id [of more ls] by simp
    finally show ?thesis .
  next
    case False
    have "expand_repeats ((l # take more ls) @ out) = (l # take more ls) @ drop more ls"
      using d(2,3) expand_append [OF _ hd, of "l # take more ls"] IH by simp
    then show ?thesis using False by (simp add: step del: dedup_lines.simps)
  qed
qed simp

lemma strip_escape: "strip_lit (escape_line l) = l"
proof (cases "sentinel_like l")
  case False
  have "\<not> prefix LIT_MARKER l"
  proof
    assume "prefix LIT_MARKER l"
    then obtain r where "l = LIT_MARKER @ r" by (auto simp: prefix_def)
    then have "sentinel_like l"
      by (simp add: sentinel_like_def trim_start_def LIT_MARKER_def SENTINEL_PREFIX_def lit_def is_ws_def)
    with False show False by simp
  qed
  with False show ?thesis by (simp add: escape_line_def strip_lit_def)
qed (simp add: escape_line_def strip_lit_def)

lemma decode_escape_dedup: "decode_lines (fst (dedup_lines (map escape_line ls))) = ls"
  using expand_dedup [of "map escape_line ls"]
  by (simp add: decode_lines_def decodable_escape list_all_iff comp_def strip_escape)

lemma decode_escape: "decode_lines (map escape_line ls) = ls"
  using expand_append [of "map escape_line ls" "[]"]
  by (simp add: decode_lines_def decodable_escape list_all_iff comp_def strip_escape)

section \<open>White space\<close>

lemma spaces_split: "\<exists>k r. l = replicate k 32 @ r \<and> (r = [] \<or> hd r \<noteq> (32 :: nat))"
proof (induction l)
  case Nil
  then show ?case by (intro exI [of _ 0]) simp
next
  case (Cons u l)
  then obtain k r where l: "l = replicate k 32 @ r" "r = [] \<or> hd r \<noteq> 32" by blast
  show ?case
  proof (cases "u = 32")
    case True
    then show ?thesis using l by (intro exI [of _ "Suc k"] exI [of _ r]) simp
  next
    case False
    then show ?thesis by (intro exI [of _ 0] exI [of _ "u # l"]) simp
  qed
qed

lemma spaces_while:
  "r = [] \<or> hd r \<noteq> (32 :: nat) \<Longrightarrow> takeWhile (\<lambda>u. u = 32) (replicate k 32 @ r) = replicate k 32
     \<and> dropWhile (\<lambda>u. u = 32) (replicate k 32 @ r) = r"
  by (induction k) (cases r; simp)+

lemma three_of: "3 \<le> length (takeWhile (\<lambda>u. u = c) r) \<longleftrightarrow> prefix [c, c, c] r"
proof (cases r)
  case (Cons a r1)
  then show ?thesis
  proof (cases r1)
    case r1: (Cons b r2)
    then show ?thesis by (cases r2) (auto simp: Cons)
  qed auto
qed simp

lemma fence_open_iff:
  "fence_open l \<noteq> None \<longleftrightarrow> (\<exists>k\<le>3. \<exists>c. (c = 96 \<or> c = 126) \<and> prefix (replicate k 32 @ [c, c, c]) l)"
proof -
  obtain k r where l: "l = replicate k 32 @ r" and r: "r = [] \<or> hd r \<noteq> 32" using spaces_split by blast
  have "fence_open l \<noteq> None \<longleftrightarrow> k \<le> 3 \<and> r \<noteq> [] \<and> (hd r = 96 \<or> hd r = 126) \<and> prefix [hd r, hd r, hd r] r"
    using spaces_while [OF r, of k] three_of [of "hd r" r] by (simp add: l fence_open_def Let_def)
  also have "\<dots> \<longleftrightarrow> k \<le> 3 \<and> (\<exists>c. (c = 96 \<or> c = 126) \<and> prefix [c, c, c] r)"
    by (cases r) auto
  also have "\<dots> \<longleftrightarrow> (\<exists>k\<le>3. \<exists>c. (c = 96 \<or> c = 126) \<and> prefix (replicate k 32 @ [c, c, c]) l)"
  proof
    assume "k \<le> 3 \<and> (\<exists>c. (c = 96 \<or> c = 126) \<and> prefix [c, c, c] r)"
    then show "\<exists>k\<le>3. \<exists>c. (c = 96 \<or> c = 126) \<and> prefix (replicate k 32 @ [c, c, c]) l"
      unfolding l by (metis same_prefix_prefix)
  next
    assume "\<exists>k\<le>3. \<exists>c. (c = 96 \<or> c = 126) \<and> prefix (replicate k 32 @ [c, c, c]) l"
    then obtain k' c x where k': "k' \<le> 3" "c = 96 \<or> c = 126" "l = replicate k' 32 @ c # c # c # x"
      by (auto simp: prefix_def)
    have "dropWhile (\<lambda>u. u = 32) l = r" "takeWhile (\<lambda>u. u = 32) l = replicate k 32"
      using spaces_while [OF r, of k] by (simp_all add: l)
    moreover have "dropWhile (\<lambda>u. u = 32) l = c # c # c # x" "takeWhile (\<lambda>u. u = 32) l = replicate k' 32"
      using spaces_while [of "c # c # c # x" k'] k'(2) by (auto simp: k'(3))
    ultimately have "r = c # c # c # x" "k = k'" by (simp, metis length_replicate)
    then show "k \<le> 3 \<and> (\<exists>c. (c = 96 \<or> c = 126) \<and> prefix [c, c, c] r)" using k'(1,2) by auto
  qed
  finally show ?thesis .
qed

lemma fence_open_prefix:
  assumes "fence_open (p @ e) \<noteq> None" and "e = [] \<or> e = [13]"
  shows "fence_open (p @ z) \<noteq> None"
proof -
  obtain k c where k: "k \<le> 3" "c = 96 \<or> c = 126" "prefix (replicate k 32 @ [c, c, c]) (p @ e)"
    using assms(1) unfolding fence_open_iff by blast
  then have "prefix (replicate k 32 @ [c, c, c]) p"
    using assms(2) by (auto simp: prefix_append prefix_Cons append_eq_Cons_conv)
  then have "prefix (replicate k 32 @ [c, c, c]) (p @ z)" by simp
  then show ?thesis unfolding fence_open_iff using k(1,2) by blast
qed

lemma strip_trailing_prefix: "\<exists>z. l = strip_trailing l @ z \<and> (\<forall>u\<in>set z. u = 32 \<or> u = 9)"
proof -
  let ?P = "\<lambda>u. u = 32 \<or> u = (9 :: nat)"
  have "rev (takeWhile ?P (rev l) @ dropWhile ?P (rev l)) = l" by (simp only: takeWhile_dropWhile_id rev_rev_ident)
  then have "l = strip_trailing l @ rev (takeWhile ?P (rev l))" unfolding strip_trailing_def rev_append ..
  moreover have "\<forall>u\<in>set (rev (takeWhile ?P (rev l))). ?P u" by (auto dest: set_takeWhileD)
  ultimately show ?thesis by blast
qed

text \<open>A line is cut to a prefix of its body, with its carriage return back at the end.\<close>

lemma ws_line_shape:
  "\<exists>p z e. l = p @ z @ e \<and> ws_line l = p @ e \<and> (e = [] \<or> e = [13]) \<and> (\<forall>u\<in>set z. u = 32 \<or> u = 9)"
proof (cases "96 \<in> set l")
  case True
  then show ?thesis by (intro exI [of _ l] exI [of _ "[]"]) (simp add: ws_line_def)
next
  case False
  show ?thesis
  proof (cases "l \<noteq> [] \<and> last l = 13")
    case True
    obtain z where z: "butlast l = strip_trailing (butlast l) @ z" "\<forall>u\<in>set z. u = 32 \<or> u = 9"
      using strip_trailing_prefix by blast
    have "l = butlast l @ [13]" using True by (metis append_butlast_last_id)
    then have "l = strip_trailing (butlast l) @ z @ [13]" using z(1) by (metis append.assoc)
    moreover have "ws_line l = strip_trailing (butlast l) @ [13]" using False True by (simp add: ws_line_def Let_def)
    ultimately show ?thesis using z(2) by blast
  next
    case F: False
    obtain z where z: "l = strip_trailing l @ z" "\<forall>u\<in>set z. u = 32 \<or> u = 9"
      using strip_trailing_prefix by blast
    moreover have "ws_line l = strip_trailing l" using False F by (auto simp: ws_line_def Let_def)
    ultimately show ?thesis by (metis append_Nil2)
  qed
qed

lemma ws_line_plain:
  "fence_open l = None \<Longrightarrow> fence_open (ws_line l) = None"
  "10 \<notin> set l \<Longrightarrow> 10 \<notin> set (ws_line l)"
proof -
  obtain p z e where s: "l = p @ z @ e" "ws_line l = p @ e" "e = [] \<or> e = [13]"
    using ws_line_shape [of l] by blast
  show "fence_open l = None \<Longrightarrow> fence_open (ws_line l) = None"
    using fence_open_prefix [of p e "z @ e"] s by metis
  show "10 \<notin> set l \<Longrightarrow> 10 \<notin> set (ws_line l)" using s by auto
qed

definition ink :: "jstext \<Rightarrow> jstext" where
  "ink t = filter (\<lambda>u. \<not> is_ws u) t"

lemma ink_append [simp]: "ink (s @ t) = ink s @ ink t"
  by (simp add: ink_def)

lemma ws_line_ink: "ink (ws_line l) = ink l"
proof -
  obtain p z e where s: "l = p @ z @ e" "ws_line l = p @ e" "\<forall>u\<in>set z. u = 32 \<or> u = 9"
    using ws_line_shape [of l] by blast
  then have "ink z = []" by (auto simp: ink_def filter_empty_conv is_ws_def)
  then show ?thesis using s by simp
qed

lemma collapse_mem: "blankRun \<le> length out \<Longrightarrow> set (collapse out blankRun) \<subseteq> set out"
  by (auto simp: collapse_def dest: in_set_takeD)

lemma ws_go_mem: "k \<le> length out \<Longrightarrow> set (ws_go out k ls) \<subseteq> set out \<union> set ls"
proof (induction out k ls rule: ws_go.induct)
  case (2 out k l ls)
  then show ?case using collapse_mem [of k out] by (auto split: if_splits)
qed (simp add: collapse_mem)

lemma collapse_nonempty: "out \<noteq> [] \<Longrightarrow> collapse out k \<noteq> []"
  by (simp add: collapse_def)

lemma ws_go_nonempty: "out \<noteq> [] \<or> ls \<noteq> [] \<Longrightarrow> ws_go out k ls \<noteq> []"
  by (induction out k ls rule: ws_go.induct) (simp_all add: collapse_nonempty)

lemma safe_edit_ws: "safe_edit ws_segment"
proof -
  have "fence_open l = None \<and> 10 \<notin> set l"
    if "\<forall>l\<in>set ls. fence_open l = None \<and> 10 \<notin> set l" "l \<in> set (ws_segment ls)" for ls l
    using that ws_go_mem [of 0 "[]" "map ws_line ls"] ws_line_plain by (auto simp: ws_segment_def)
  moreover have "ls \<noteq> [] \<Longrightarrow> ws_segment ls \<noteq> []" for ls by (simp add: ws_segment_def ws_go_nonempty)
  ultimately show ?thesis by (simp add: safe_edit_def)
qed

lemma normalizeWhitespace_edit: "normalizeWhitespace t = edit_text ws_segment t"
proof -
  have "on_lines ws_segment (\<lambda>s. (join_text [10] (ws_segment (text_lines s)), 0))" by (simp add: on_lines_def)
  from mapUnfenced_edit [OF safe_edit_ws this] show ?thesis by (simp add: normalizeWhitespace_def)
qed

lemma ink_join: "ink (join_text [10] ls) = concat (map ink ls)"
  by (induction ls) (auto simp: join_text_Cons ink_def is_ws_def)

lemma blank_ink: "blank_line l \<Longrightarrow> ink l = []"
  by (auto simp: blank_line_def ink_def is_ws_def)

lemma collapse_ink:
  assumes "k \<le> length out" and "\<forall>l\<in>set (drop (length out - k) out). blank_line l"
  shows "concat (map ink (collapse out k)) = concat (map ink out)"
proof (cases "k < 3")
  case False
  let ?n = "length out - k"
  have "out ! ?n \<in> set (drop ?n out)" using False assms(1) by (auto simp: in_set_conv_nth intro!: exI [of _ 0])
  moreover have "concat (map ink (drop ?n out)) = []" using assms(2) blank_ink by simp
  moreover have "concat (map ink out) = concat (map ink (take ?n out)) @ concat (map ink (drop ?n out))"
    by (metis append_take_drop_id concat_append map_append)
  ultimately show ?thesis using False assms(2) blank_ink by (simp add: collapse_def)
qed (simp add: collapse_def)

lemma ws_go_ink:
  "k \<le> length out \<Longrightarrow> \<forall>l\<in>set (drop (length out - k) out). blank_line l \<Longrightarrow>
     concat (map ink (ws_go out k ls)) = concat (map ink out) @ concat (map ink ls)"
proof (induction out k ls rule: ws_go.induct)
  case (2 out k l ls)
  show ?case
  proof (cases "blank_line l")
    case True
    then show ?thesis using 2(1) [OF True] 2(3,4) by (auto simp: Suc_diff_le)
  next
    case False
    then show ?thesis using 2(2) [OF False] collapse_ink [OF 2(3,4)] by simp
  qed
qed (simp add: collapse_ink)

lemma ws_segment_ink: "concat (map ink (ws_segment ls)) = concat (map ink ls)"
  using ws_go_ink [of 0 "[]" "map ws_line ls"] by (simp add: ws_segment_def comp_def ws_line_ink)

text \<open>An edit that keeps the visible characters of a block keeps those of the text.\<close>

lemma edit_text_ink:
  assumes "\<And>ls. concat (map ink (g ls)) = concat (map ink ls)"
  shows "ink (edit_text g t) = ink t"
proof -
  have e: "concat (map ink (edited g bs)) = concat (map ink (concat (map snd bs)))" for bs
  proof (induction bs)
    case (Cons b bs)
    then show ?case by (cases b; cases "fst b") (auto simp: edited_def assms)
  qed simp
  have "ink (edit_text g t) = concat (map ink (edited g (text_blocks t)))"
    by (simp add: edit_text_def ink_join)
  also have "\<dots> = ink (join_text [10] (text_lines t))"
    by (simp add: e ink_join text_blocks_def blocks_lines)
  finally show ?thesis by (simp add: join_text_lines)
qed

lemma normalizeWhitespace_ink: "ink (normalizeWhitespace t) = ink t"
  by (simp add: normalizeWhitespace_edit edit_text_ink [OF ws_segment_ink])

end
