(* ===== verification/Compressor.thy ===== *)
theory Compressor
  imports Minify Folds
begin

text \<open>
  The native output compressor (src/src/compressor): the terminal transform (transforms/ansi.ts), the
  content router (router.ts), the token estimate (estimate.ts) and the entry point compact
  (index.ts), over the JSON, white space and log transforms.
\<close>

section \<open>Control sequences\<close>

definition ESC :: nat where "ESC = 27"

text \<open>
  A matcher looks at a text from a position on and returns, for a match, how many units follow its
  first one. A CSI has parameters, intermediates and a final byte; the classes are disjoint, so no
  match backtracks.
\<close>

definition csi_param :: "nat \<Rightarrow> bool" where
  "csi_param u \<longleftrightarrow> 48 \<le> u \<and> u \<le> 63"

definition csi_inter :: "nat \<Rightarrow> bool" where
  "csi_inter u \<longleftrightarrow> 32 \<le> u \<and> u \<le> 47"

definition csi_match :: "jstext \<Rightarrow> (jstext \<times> nat \<times> nat) option" where
  "csi_match s =
     (case s of
        e # b # r \<Rightarrow>
          if e = ESC \<and> b = 91 then
            (let params = takeWhile csi_param r; r1 = drop (length params) r;
                 inter = takeWhile csi_inter r1
             in case drop (length inter) r1 of
                  [] \<Rightarrow> None
                | fin # _ \<Rightarrow>
                    if 64 \<le> fin \<and> fin \<le> 126 then Some (params, fin, 2 + length params + length inter)
                    else None)
          else None
      | _ \<Rightarrow> None)"

definition csi_len :: "jstext \<Rightarrow> nat option" where
  "csi_len s = map_option (\<lambda>(params, fin, n). n) (csi_match s)"

text \<open>The first end of a control string: a BEL where one is allowed, or ESC and a backslash.\<close>

fun string_end :: "bool \<Rightarrow> jstext \<Rightarrow> nat option" where
  "string_end bel [] = None"
| "string_end bel (u # s) =
     (if bel \<and> u = 7 then Some 1
      else if u = ESC \<and> s \<noteq> [] \<and> hd s = 92 then Some 2
      else map_option Suc (string_end bel s))"

definition osc_len :: "jstext \<Rightarrow> nat option" where
  "osc_len s =
     (case s of
        e # b # r \<Rightarrow> if e = ESC \<and> b = 93 then map_option Suc (string_end True r) else None
      | _ \<Rightarrow> None)"

definition dcs_len :: "jstext \<Rightarrow> nat option" where
  "dcs_len s =
     (case s of
        e # b # r \<Rightarrow>
          if e = ESC \<and> (b = 80 \<or> b = 88 \<or> b = 94 \<or> b = 95) then map_option Suc (string_end False r) else None
      | _ \<Rightarrow> None)"

definition esc_two_len :: "jstext \<Rightarrow> nat option" where
  "esc_two_len s =
     (case s of
        e # b # r \<Rightarrow> if e = ESC \<and> ((64 \<le> b \<and> b \<le> 90) \<or> (92 \<le> b \<and> b \<le> 95)) then Some 1 else None
      | _ \<Rightarrow> None)"

text \<open>A global replacement of the matches by nothing.\<close>

function strip_matches :: "(jstext \<Rightarrow> nat option) \<Rightarrow> jstext \<Rightarrow> jstext" where
  "strip_matches m [] = []"
| "strip_matches m (u # s) =
     (case m (u # s) of
        None \<Rightarrow> u # strip_matches m s
      | Some n \<Rightarrow> strip_matches m (drop n s))"
  by pat_completeness auto
termination
  by (relation "measure (\<lambda>(m, s). length s)") auto

definition stray_c0 :: "nat \<Rightarrow> bool" where
  "stray_c0 u \<longleftrightarrow> u \<le> 7 \<or> u = 11 \<or> u = 12 \<or> (14 \<le> u \<and> u \<le> 31)"

definition stripEscapes :: "jstext \<Rightarrow> jstext" where
  "stripEscapes s =
     filter (\<lambda>u. \<not> stray_c0 u)
       (strip_matches esc_two_len (strip_matches csi_len (strip_matches dcs_len (strip_matches osc_len s))))"

definition DANGEROUS_CSI_FINALS :: jstext where
  "DANGEROUS_CSI_FINALS = lit ''ABCDEFGHfSTJsu''"

function dangerous_csi :: "jstext \<Rightarrow> bool" where
  "dangerous_csi [] = False"
| "dangerous_csi (u # s) =
     (case csi_match (u # s) of
        None \<Rightarrow> dangerous_csi s
      | Some (params, fin, n) \<Rightarrow>
          fin \<in> set DANGEROUS_CSI_FINALS \<or> ((fin = 104 \<or> fin = 108) \<and> 63 \<in> set params)
          \<or> dangerous_csi (drop n s))"
  by pat_completeness auto
termination
  by (relation "measure length") auto

definition hasDangerousSequences :: "jstext \<Rightarrow> bool" where
  "hasDangerousSequences t \<longleftrightarrow> 8 \<in> set t \<or> dangerous_csi t"

section \<open>Carriage returns\<close>

definition isSingleColumnAsciiFrame :: "jstext \<Rightarrow> bool" where
  "isSingleColumnAsciiFrame t \<longleftrightarrow> list_all (\<lambda>u. u = 9 \<or> u = 13 \<or> (32 \<le> u \<and> u \<le> 126)) t"

text \<open>The frames between the carriage returns, and what their columns show in the end.\<close>

fun cr_frames :: "jstext \<Rightarrow> jstext list" where
  "cr_frames [] = [[]]"
| "cr_frames (u # us) =
     (if u = 13 then [] # cr_frames us
      else (case cr_frames us of [] \<Rightarrow> [[u]] | f # fs \<Rightarrow> (u # f) # fs))"

definition overlayFrames :: "jstext list \<Rightarrow> jstext" where
  "overlayFrames frames = fold (\<lambda>frame cells. frame @ drop (length frame) cells) frames []"

definition collapseLine :: "jstext \<Rightarrow> jstext list \<times> nat" where
  "collapseLine l =
     (let crlf = (l \<noteq> [] \<and> last l = 13); body = (if crlf then butlast l else l) in
      if 13 \<notin> set body then ([l], 0)
      else if \<not> isSingleColumnAsciiFrame body then ([l], 0)
      else
        let frames = cr_frames body; visible = overlayFrames frames
        in ([if crlf then visible @ [13] else visible, crMarker (length frames - 1)], 1))"

definition ansi_line :: "jstext \<Rightarrow> jstext list \<times> nat" where
  "ansi_line l = (if 96 \<in> set l then ([l], 0) else collapseLine l)"

definition ansi_segment :: "jstext \<Rightarrow> jstext \<times> nat" where
  "ansi_segment s =
     (let done = map ansi_line (text_lines (stripEscapes s))
      in (join_text [10] (concat (map fst done)), sum_list (map snd done)))"

definition stripAnsi :: "jstext \<Rightarrow> jstext \<times> nat" where
  "stripAnsi t = (if hasDangerousSequences t then (t, 0) else mapUnfenced ansi_segment t)"

section \<open>The router\<close>

datatype content_route = Json_route | Log_route | Ansi_route | Plain_route | Identity_route

text \<open>HAS_INTERNAL_CR: a carriage return before something other than a line feed.\<close>

fun has_internal_cr :: "jstext \<Rightarrow> bool" where
  "has_internal_cr [] = False"
| "has_internal_cr (u # s) = ((u = 13 \<and> s \<noteq> [] \<and> hd s \<noteq> 10) \<or> has_internal_cr s)"

definition line_end :: "nat \<Rightarrow> bool" where
  "line_end u \<longleftrightarrow> u = 10 \<or> u = 13 \<or> u = 8232 \<or> u = 8233"

text \<open>HAS_FENCE with its flag m: a fence opens at the start of the text or after a line terminator.\<close>

fun fence_after :: "bool \<Rightarrow> jstext \<Rightarrow> bool" where
  "fence_after start [] = False"
| "fence_after start (u # s) = ((start \<and> fence_open (u # s) \<noteq> None) \<or> fence_after (line_end u) s)"

definition hasFence :: "jstext \<Rightarrow> bool" where
  "hasFence t = fence_after True t"

fun repeated_run :: "nat \<Rightarrow> jstext list \<Rightarrow> bool" where
  "repeated_run run (l # m # ls) =
     (if m = l \<and> js_trim m \<noteq> [] then (if MIN_RUN \<le> run + 1 then True else repeated_run (run + 1) (m # ls))
      else repeated_run 1 (m # ls))"
| "repeated_run run _ = False"

definition hasRepeatedRuns :: "jstext \<Rightarrow> bool" where
  "hasRepeatedRuns t \<longleftrightarrow>
     list_ex (\<lambda>s. \<not> seg_fenced s \<and> repeated_run 1 (text_lines (seg_text s))) (splitFences t)"

definition isStructuralJson :: "jstext \<Rightarrow> bool" where
  "isStructuralJson t \<longleftrightarrow>
     (let trimmed = js_trim t in
      2 \<le> length trimmed
      \<and> ((hd trimmed = 123 \<and> last trimmed = 125) \<or> (hd trimmed = 91 \<and> last trimmed = 93))
      \<and> minifyJson trimmed \<noteq> None)"

definition classify :: "jstext \<Rightarrow> content_route" where
  "classify t =
     (if t = [] then Identity_route
      else
        let terminal = (ESC \<in> set t \<or> has_internal_cr t) in
        if terminal \<and> hasDangerousSequences t then Identity_route
        else if terminal \<and> \<not> hasFence t then Ansi_route
        else if isStructuralJson t then Json_route
        else if hasRepeatedRuns t then Log_route
        else Plain_route)"

section \<open>The estimate\<close>

fun divisor :: "content_route \<Rightarrow> rat" where
  "divisor Json_route = 3"
| "divisor Log_route = 34 / 10"
| "divisor Ansi_route = 34 / 10"
| "divisor Plain_route = 36 / 10"
| "divisor Identity_route = 36 / 10"

definition estimateTokensForRoute :: "nat \<Rightarrow> content_route \<Rightarrow> nat" where
  "estimateTokensForRoute chars route = (if chars = 0 then 0 else nat \<lceil>of_nat chars / divisor route\<rceil>)"

definition estimateTokensSaved :: "jstext \<Rightarrow> jstext \<Rightarrow> content_route \<Rightarrow> nat" where
  "estimateTokensSaved original compressed route =
     estimateTokensForRoute (length original) route - estimateTokensForRoute (length compressed) route"

section \<open>compact\<close>

record compress_ctx =
  cx_outputFormat :: "string option"
  cx_outputSchemaDeclared :: bool

record compress_result =
  cr_text :: jstext
  cr_originalChars :: nat
  cr_compressedChars :: nat
  cr_route :: content_route
  cr_transforms :: "string list"
  cr_tokensSaved :: nat

definition identityResult :: "jstext \<Rightarrow> content_route \<Rightarrow> compress_result" where
  "identityResult t route = \<lparr>cr_text = t, cr_originalChars = length t, cr_compressedChars = length t,
     cr_route = route, cr_transforms = [], cr_tokensSaved = 0\<rparr>"

text \<open>apply: the transforms that changed something are named.\<close>

definition applied :: "string \<Rightarrow> jstext \<Rightarrow> jstext \<Rightarrow> string list" where
  "applied name before after = (if after = before then [] else [name])"

text \<open>
  The passes of a route other than json, in their order: the text, the markers folded and escaped,
  and the names.
\<close>

definition passes :: "content_route \<Rightarrow> jstext \<Rightarrow> jstext \<times> nat \<times> nat \<times> string list" where
  "passes route t =
     (let (t1, escaped) = escapeSentinelLikeLines t;
          (t2, n2) = (if route = Ansi_route then stripAnsi t1 else (t1, 0));
          (t3, n3) = (if route = Ansi_route \<or> route = Log_route then dedupAdjacentLines t2 else (t2, 0));
          t4 = normalizeWhitespace t3
      in (t4, n2 + n3, escaped,
          applied ''lit-escape'' t t1 @ applied ''ansi-strip'' t1 t2 @ applied ''dedup'' t2 t3
          @ applied ''whitespace'' t3 t4))"

definition compact :: "jstext \<Rightarrow> compress_ctx \<Rightarrow> compress_result" where
  "compact t ctx =
     (if cx_outputFormat ctx = Some ''json'' \<or> cx_outputSchemaDeclared ctx then identityResult t Identity_route
      else
        let route = classify t in
        if route = Identity_route then identityResult t Identity_route
        else if route = Json_route then
          (case minifyJson (js_trim t) of
             None \<Rightarrow> identityResult t Identity_route
           | Some minified \<Rightarrow>
               if length t \<le> length minified then identityResult t Identity_route
               else \<lparr>cr_text = minified, cr_originalChars = length t, cr_compressedChars = length minified,
                      cr_route = route, cr_transforms = [''json-minify''],
                      cr_tokensSaved = estimateTokensSaved t minified route\<rparr>)
        else
          let (body, folded, escaped, names) = passes route t;
              noted = (0 < folded + escaped);
              current = (if noted then noteLine folded escaped @ [10] @ body else body)
          in if length t \<le> length current then identityResult t route
             else \<lparr>cr_text = current, cr_originalChars = length t, cr_compressedChars = length current,
                    cr_route = route, cr_transforms = names @ (if noted then [''leading-note''] else []),
                    cr_tokensSaved = estimateTokensSaved t current route\<rparr>)"

end
