(* ===== verification/Compressor_Properties.thy ===== *)
theory Compressor_Properties
  imports Compressor
begin

text \<open>
  What the output compressor promises (src/src/compressor): it never makes a text longer, its JSON
  route keeps every token, fences are left alone, and outside the terminal route a reader who
  decodes the markers finds every visible character of the input.
\<close>

declare nat_text.simps [simp del]

section \<open>Decoding past the white space pass\<close>

text \<open>The white space pass edits each line and drops some blank ones.\<close>

inductive ws_rel :: "jstext list \<Rightarrow> jstext list \<Rightarrow> bool" where
  ws_nil: "ws_rel [] []"
| ws_keep: "ws_rel xs ys \<Longrightarrow> ws_rel (x # xs) (ws_line x # ys)"
| ws_drop: "blank_line (ws_line x) \<Longrightarrow> ws_rel xs ys \<Longrightarrow> ws_rel (x # xs) ys"

inductive_cases ws_rel_NilE: "ws_rel [] ys"
inductive_cases ws_rel_ConsE: "ws_rel (x # xs) ys"

lemma ws_rel_append: "ws_rel xs ys \<Longrightarrow> ws_rel xs' ys' \<Longrightarrow> ws_rel (xs @ xs') (ys @ ys')"
  by (induction rule: ws_rel.induct) (auto intro: ws_rel.intros)

lemma ws_rel_map: "ws_rel xs (map ws_line xs)"
  by (induction xs) (auto intro: ws_rel.intros)

lemma ws_rel_blanks: "\<forall>x\<in>set xs. blank_line (ws_line x) \<Longrightarrow> ws_rel xs []"
  by (induction xs) (auto intro: ws_rel.intros)

text \<open>The output so far ends with the last k lines, blank and kept as they are.\<close>

lemma collapse_rel:
  assumes "ws_rel ys out" and "\<forall>x\<in>set bs. blank_line (ws_line x)"
  shows "ws_rel (ys @ bs) (collapse (out @ map ws_line bs) (length bs))"
proof (cases "length bs < 3")
  case True
  then show ?thesis using ws_rel_append [OF assms(1) ws_rel_map] by (simp add: collapse_def)
next
  case False
  then obtain b bs' where bs: "bs = b # bs'" by (cases bs) auto
  then have "collapse (out @ map ws_line bs) (length bs) = out @ [ws_line b]"
    using False by (simp add: collapse_def nth_append)
  moreover have "ws_rel bs [ws_line b]"
    using assms(2) unfolding bs by (auto intro: ws_keep ws_rel_blanks)
  ultimately show ?thesis using ws_rel_append [OF assms(1)] by metis
qed

lemma ws_go_rel:
  "ws_rel ys out \<Longrightarrow> \<forall>x\<in>set bs. blank_line (ws_line x) \<Longrightarrow>
     ws_rel (ys @ bs @ ls) (ws_go (out @ map ws_line bs) (length bs) (map ws_line ls))"
proof (induction ls arbitrary: ys out bs)
  case Nil
  then show ?case using collapse_rel by simp
next
  case (Cons l ls)
  show ?case
  proof (cases "blank_line (ws_line l)")
    case True
    then show ?thesis using Cons.IH [of ys out "bs @ [l]"] Cons.prems by simp
  next
    case False
    have "ws_rel (ys @ bs @ [l]) (collapse (out @ map ws_line bs) (length bs) @ [ws_line l])"
      using ws_rel_append [OF collapse_rel [OF Cons.prems] ws_keep [OF ws_nil, of l]] by simp
    then show ?thesis using Cons.IH [of "ys @ bs @ [l]" _ "[]"] False by simp
  qed
qed

lemma ws_segment_rel: "ws_rel xs (ws_segment xs)"
  using ws_go_rel [OF ws_nil, of "[]" xs] by (simp add: ws_segment_def)

text \<open>A folded list: escaped lines, and repeat markers after lines that are not blank.\<close>

definition escaped :: "jstext \<Rightarrow> bool" where
  "escaped l \<longleftrightarrow> (\<exists>l0. l = escape_line l0)"

lemma escaped_decodable: "escaped l \<Longrightarrow> decodable l"
  by (auto simp: escaped_def decodable_escape)

lemma escaped_escape [simp]: "escaped (escape_line l)"
  by (auto simp: escaped_def)

lemma escaped_no_marker: "escaped l \<Longrightarrow> repeat_count l = None"
  by (simp add: escaped_decodable decodable_no_marker)

fun marked :: "jstext list \<Rightarrow> bool" where
  "marked [] = True"
| "marked [l] = escaped l"
| "marked (l # m # ls) =
     (escaped l \<and> (if repeat_count m = None then marked (m # ls)
                    else ink l \<noteq> [] \<and> (\<exists>c. m = repeatMarker (Suc 0) c) \<and> marked ls))"

lemma trim_ink: "js_trim l \<noteq> [] \<Longrightarrow> ink l \<noteq> []"
proof -
  assume n: "js_trim l \<noteq> []"
  obtain us ws where "l = us @ js_trim l @ ws" using js_trim_split by blast
  moreover have "hd (js_trim l) \<in> set (ink (js_trim l))"
    using n js_trim_ends(1) [OF n] by (simp add: ink_def)
  ultimately show ?thesis by (metis append_is_Nil_conv empty_iff ink_append list.set(1))
qed

lemma marked_plain: "list_all escaped xs \<Longrightarrow> ms = [] \<or> escaped (hd ms) \<Longrightarrow> marked ms \<Longrightarrow> marked (xs @ ms)"
proof (induction xs)
  case (Cons x xs)
  have "xs @ ms = [] \<or> escaped (hd (xs @ ms))" using Cons.prems by (cases xs) auto
  then show ?case using Cons by (cases "xs @ ms") (simp_all add: escaped_no_marker)
qed simp

lemma dedup_escaped: "list_all escaped ls \<Longrightarrow> fst (dedup_lines ls) = [] \<or> escaped (hd (fst (dedup_lines ls)))"
  by (cases ls) (simp_all add: Let_def case_prod_beta)

lemma marked_dedup: "list_all escaped ls \<Longrightarrow> marked (fst (dedup_lines ls))"
proof (induction ls rule: dedup_lines.induct)
  case (2 l ls)
  define more where "more = (if js_trim l \<noteq> [] then length (takeWhile (\<lambda>x. x = l) ls) else 0)"
  define out where "out = fst (dedup_lines (drop more ls))"
  have d: "list_all escaped (drop more ls)" "escaped l" "list_all escaped (l # take more ls)"
    using 2(2) by (auto simp: list_all_iff dest: in_set_dropD in_set_takeD)
  have IH: "marked out" using 2(1) [OF more_def] d(1) by (simp add: out_def)
  have hd: "out = [] \<or> escaped (hd out)" using dedup_escaped [OF d(1)] by (simp add: out_def)
  have step: "fst (dedup_lines (l # ls)) = (if MIN_RUN \<le> more + 1 then l # repeatMarker 1 (more + 1) # out
     else (l # take more ls) @ out)"
    by (simp add: more_def out_def Let_def case_prod_beta)
  show ?case
  proof (cases "MIN_RUN \<le> more + 1")
    case True
    then have "js_trim l \<noteq> []" by (auto simp: MIN_RUN_def more_def split: if_splits)
    then show ?thesis
      unfolding step using True d(2) IH trim_ink by (auto simp: repeat_count_marker)
  next
    case False
    then show ?thesis unfolding step using marked_plain [OF d(3) hd IH] by simp
  qed
qed simp

lemma marked_escape: "marked (map escape_line ls)"
  using marked_plain [of "map escape_line ls" "[]"] by (simp add: list_all_iff)

text \<open>What a reader sees of a list of lines.\<close>

definition seen :: "jstext list \<Rightarrow> jstext" where
  "seen ls = concat (map ink (decode_lines ls))"

lemma seen_Nil [simp]: "seen [] = []"
  by (simp add: seen_def decode_lines_def)

lemma seen_plain: "ls = [] \<or> repeat_count (hd ls) = None \<Longrightarrow> seen (l # ls) = ink (strip_lit l) @ seen ls"
  by (cases ls) (simp_all add: seen_def decode_lines_def)

lemma seen_repeat: "repeat_count m = Some c \<Longrightarrow> seen (l # m # ls) = concat (replicate c (ink (strip_lit l))) @ seen ls"
  by (simp add: seen_def decode_lines_def)

lemma sentinel_like_iff: "sentinel_like l \<longleftrightarrow> (\<exists>ws r. l = ws @ SENTINEL_PREFIX @ r \<and> (\<forall>u\<in>set ws. is_ws u))"
proof
  assume "sentinel_like l"
  then obtain r where "dropWhile is_ws l = SENTINEL_PREFIX @ r"
    by (auto simp: sentinel_like_def trim_start_def prefix_def)
  then have "l = takeWhile is_ws l @ SENTINEL_PREFIX @ r" by (metis takeWhile_dropWhile_id)
  then show "\<exists>ws r. l = ws @ SENTINEL_PREFIX @ r \<and> (\<forall>u\<in>set ws. is_ws u)"
    by (metis set_takeWhileD)
next
  assume "\<exists>ws r. l = ws @ SENTINEL_PREFIX @ r \<and> (\<forall>u\<in>set ws. is_ws u)"
  then obtain ws r where l: "l = ws @ SENTINEL_PREFIX @ r" "\<forall>u\<in>set ws. is_ws u" by blast
  obtain h y where S: "SENTINEL_PREFIX = h # y" "\<not> is_ws h"
    by (simp add: SENTINEL_PREFIX_def lit_def is_ws_def)
  have "dropWhile is_ws l = SENTINEL_PREFIX @ r"
    using l(2) S(2) unfolding l(1) S(1) by (simp add: dropWhile_append)
  then show "sentinel_like l" by (simp add: sentinel_like_def trim_start_def)
qed

lemma marker_units: "u \<in> set SENTINEL_PREFIX \<Longrightarrow> u \<noteq> 13 \<and> u \<noteq> 32 \<and> u \<noteq> 9 \<and> u \<noteq> 96 \<and> \<not> is_ws u"
  by (auto simp: SENTINEL_PREFIX_def lit_def is_ws_def)

lemma strip_trailing_append:
  "\<exists>u\<in>set b. u \<noteq> 32 \<and> u \<noteq> 9 \<Longrightarrow> strip_trailing (a @ b) = a @ strip_trailing b"
  by (auto simp: strip_trailing_def dropWhile_append)

lemma ws_line_append:
  assumes "96 \<notin> set a" and "\<exists>u\<in>set b. u \<noteq> 32 \<and> u \<noteq> 9 \<and> u \<noteq> 13"
  shows "ws_line (a @ b) = a @ ws_line b"
proof -
  have b: "b \<noteq> []" using assms(2) by auto
  have x: "\<exists>u\<in>set (butlast b). u \<noteq> 32 \<and> u \<noteq> 9" if "last b = 13"
  proof -
    obtain u where u: "u \<in> set b" "u \<noteq> 32" "u \<noteq> 9" "u \<noteq> 13" using assms(2) by blast
    have "b = butlast b @ [13]" using that b by (metis append_butlast_last_id)
    then have "u \<in> set (butlast b)" using u by (metis Un_iff empty_iff empty_set list.simps(15) insertE set_append)
    then show ?thesis using u by blast
  qed
  show ?thesis
    using assms b x strip_trailing_append [of b a] strip_trailing_append [of "butlast b" a]
    by (auto simp: ws_line_def Let_def butlast_append)
qed

lemma ws_line_keeps: "u \<noteq> 32 \<Longrightarrow> u \<noteq> 9 \<Longrightarrow> u \<noteq> 13 \<Longrightarrow> \<exists>r'. ws_line (u # r) = u # r'"
proof -
  assume u: "u \<noteq> 32" "u \<noteq> 9" "u \<noteq> 13"
  obtain p z e where s: "u # r = p @ z @ e" "ws_line (u # r) = p @ e" "e = [] \<or> e = [13]"
    "\<forall>v\<in>set z. v = 32 \<or> v = 9"
    using ws_line_shape [of "u # r"] by blast
  have "p \<noteq> []"
  proof
    assume "p = []"
    then have "u \<in> set z \<union> set e" using s(1) by (metis append_Nil list.set_intros(1) set_append)
    then show False using s(3,4) u by auto
  qed
  then show ?thesis using s(1,2) by (cases p) auto
qed

lemma ws_line_sentinel: "sentinel_like (ws_line l) = sentinel_like l"
proof
  obtain p z e where s: "l = p @ z @ e" "ws_line l = p @ e" "e = [] \<or> e = [13]"
    using ws_line_shape [of l] by blast
  assume "sentinel_like (ws_line l)"
  then obtain ws r where r: "p @ e = ws @ SENTINEL_PREFIX @ r" "\<forall>u\<in>set ws. is_ws u"
    unfolding sentinel_like_iff s(2) by blast
  have "\<exists>r'. p = ws @ SENTINEL_PREFIX @ r'"
  proof (cases "e = [] \<or> r \<noteq> []")
    case True
    show ?thesis
    proof (cases "e = []")
      case True
      then show ?thesis using r(1) by auto
    next
      case False
      then obtain r' where "r = r' @ [13]" "e = [13]"
        using True s(3) r(1) by (cases r rule: rev_cases) (auto simp flip: append_assoc)
      then have "p = ws @ SENTINEL_PREFIX @ r'" using r(1) by (simp flip: append_assoc)
      then show ?thesis by blast
    qed
  next
    case False
    then have "last (p @ e) = 13" "last (ws @ SENTINEL_PREFIX @ r) \<in> set SENTINEL_PREFIX"
      using s(3) by (auto simp: SENTINEL_PREFIX_def lit_def)
    then show ?thesis using r(1) marker_units by metis
  qed
  then show "sentinel_like l" unfolding sentinel_like_iff s(1) using r(2) by fastforce
next
  assume "sentinel_like l"
  then obtain ws r where r: "l = ws @ SENTINEL_PREFIX @ r" "\<forall>u\<in>set ws. is_ws u"
    unfolding sentinel_like_iff by blast
  obtain a where a: "SENTINEL_PREFIX = a @ [45]" by (simp add: SENTINEL_PREFIX_def lit_def)
  have "set SENTINEL_PREFIX = insert 45 (set a)" unfolding a by simp
  then have "96 \<notin> set (ws @ a)" using r(2) marker_units [of 96] by (auto simp: is_ws_def)
  then have "ws_line ((ws @ a) @ 45 # r) = (ws @ a) @ ws_line (45 # r)" by (rule ws_line_append) simp
  moreover obtain r' where "ws_line (45 # r) = 45 # r'" using ws_line_keeps [of 45 r] by auto
  ultimately have "ws_line l = ws @ SENTINEL_PREFIX @ r'" unfolding r(1) a by simp
  then show "sentinel_like (ws_line l)" unfolding sentinel_like_iff using r(2) by blast
qed

lemma ws_line_escape: "ws_line (escape_line l) = escape_line (ws_line l)"
proof (cases "sentinel_like l")
  case True
  then obtain ws r where r: "l = ws @ SENTINEL_PREFIX @ r" unfolding sentinel_like_iff by blast
  have "45 \<in> set l" by (simp add: r SENTINEL_PREFIX_def lit_def)
  then have "\<exists>u\<in>set l. u \<noteq> 32 \<and> u \<noteq> 9 \<and> u \<noteq> 13" by force
  moreover have "96 \<notin> set LIT_MARKER" by (simp add: LIT_MARKER_def lit_def)
  ultimately show ?thesis using True by (simp add: escape_line_def ws_line_sentinel ws_line_append)
qed (simp add: escape_line_def ws_line_sentinel)

lemma escaped_ws: "escaped l \<Longrightarrow> escaped (ws_line l)"
  by (auto simp: escaped_def ws_line_escape)

lemma escaped_ink: "escaped l \<Longrightarrow> ink (strip_lit (ws_line l)) = ink (strip_lit l)"
  by (auto simp: escaped_def ws_line_escape strip_escape ws_line_ink)

lemma escaped_blank: "escaped l \<Longrightarrow> blank_line (ws_line l) \<Longrightarrow> ink (strip_lit l) = []"
proof -
  assume "escaped l" "blank_line (ws_line l)"
  moreover from this have "\<not> prefix LIT_MARKER (ws_line l)"
    by (auto simp: blank_line_def LIT_MARKER_def lit_def)
  ultimately show ?thesis using escaped_ink blank_ink by (metis strip_lit_def)
qed

lemma ws_line_repeat: "ws_line (repeatMarker n c) = repeatMarker n c"
proof -
  have end2: "lit '']]'' = [93] @ [93]" by (simp add: lit_def)
  obtain b where b: "repeatMarker n c = b @ [93]"
    unfolding repeatMarker_def end2 by (metis append_assoc)
  have "strip_trailing (b @ [93]) = b @ [93]" by (simp add: strip_trailing_def)
  then show ?thesis unfolding b by (simp add: ws_line_def)
qed

lemma marked_head: "marked (l # ls) \<Longrightarrow> escaped l"
  by (cases ls) simp_all

lemma ws_rel_seen: "marked xs \<Longrightarrow> ws_rel xs ys \<Longrightarrow> seen ys = seen xs \<and> (ys = [] \<or> repeat_count (hd ys) = None)"
proof (induction xs arbitrary: ys rule: marked.induct)
  case 1
  then show ?case by (auto elim: ws_rel_NilE)
next
  case (2 l)
  then have l: "escaped l" by simp
  consider (keep) "ys = [ws_line l]" | (drop) "blank_line (ws_line l)" "ys = []"
    using 2(2) by (auto elim!: ws_rel_ConsE ws_rel_NilE)
  then show ?case
  proof cases
    case keep
    then show ?thesis using escaped_ink [OF l] escaped_no_marker [OF escaped_ws [OF l]] by (simp add: seen_plain)
  next
    case drop
    then show ?thesis using escaped_blank [OF l] by (simp add: seen_plain)
  qed
next
  case (3 l m ls)
  have l: "escaped l" using 3(3) by simp
  note lw = escaped_no_marker [OF escaped_ws [OF l]]
  show ?case
  proof (cases "repeat_count m")
    case None
    then have mk: "marked (m # ls)" using 3(3) by simp
    note IH = 3(1) [OF None mk]
    consider (keep) ys' where "ys = ws_line l # ys'" "ws_rel (m # ls) ys'"
      | (drop) "blank_line (ws_line l)" "ws_rel (m # ls) ys"
      using 3(4) by (rule ws_rel_ConsE) blast+
    then show ?thesis
    proof cases
      case keep
      then show ?thesis using IH [of ys'] escaped_ink [OF l] lw None by (auto simp: seen_plain)
    next
      case drop
      then show ?thesis using IH [of ys] escaped_blank [OF l] None by (simp add: seen_plain)
    qed
  next
    case (Some c)
    then obtain c' where m: "m = repeatMarker (Suc 0) c'" "ink l \<noteq> []" "marked ls" using 3(3) by auto
    have nb: "\<not> blank_line (ws_line m)"
      using marker_heads(2) [of "Suc 0" c'] by (auto simp: m(1) ws_line_repeat blank_line_def)
    have lb: "\<not> blank_line (ws_line l)" using blank_ink ws_line_ink m(2) by metis
    obtain ys' where ys: "ys = ws_line l # m # ys'" "ws_rel ls ys'"
      using 3(4) nb lb by (auto elim!: ws_rel_ConsE simp: m(1) ws_line_repeat)
    have "seen ys' = seen ls" using 3(2) m(3) Some ys(2) by simp
    then show ?thesis using ys(1) Some lw escaped_ink [OF l] by (simp add: seen_repeat)
  qed
qed

lemma seen_ws: "marked xs \<Longrightarrow> seen (ws_segment xs) = seen xs"
  using ws_rel_seen ws_segment_rel by blast

section \<open>Fences\<close>

lemma fenced_blocks: "fenced_texts t = map (\<lambda>b. join_text [10] (snd b)) (filter fst (text_blocks t))"
  by (simp add: fenced_texts_def splitFences_blocks filter_map comp_def block_segment_def)

lemma blocks_cur: "filter fst (blocks cur False mk ls) = filter fst (blocks [] False mk' ls)"
proof (induction ls arbitrary: cur mk mk')
  case (Cons l ls)
  show ?case
  proof (cases "fence_open l")
    case None
    then show ?thesis using Cons.IH [of "cur @ [l]" mk "mk'"] Cons.IH [of "[l]" mk' mk'] by simp
  qed simp
qed simp

lemma fenced_texts_note:
  assumes "fence_open n = None" and "10 \<notin> set n"
  shows "fenced_texts (n @ [10] @ t) = fenced_texts t"
proof -
  have "text_blocks (n @ [10] @ t) = blocks [n] False [] (text_lines t)"
    using assms by (simp add: text_blocks_def text_lines_append text_lines_line)
  then show ?thesis using blocks_cur [of "[n]" "[]" "text_lines t" "[]"] by (simp add: fenced_blocks text_blocks_def)
qed

lemma noteLine_open: "fence_open (noteLine f e) = None"
proof -
  have h: "lit ''[[gateway-note:v1 folded='' = 91 # lit ''[gateway-note:v1 folded=''" by (simp add: lit_def)
  obtain x where "noteLine f e = lit ''[[gateway-note:v1 folded='' @ x" unfolding noteLine_def by blast
  then have "noteLine f e = 91 # (lit ''[gateway-note:v1 folded='' @ x)" unfolding h append_Cons .
  moreover have "fence_open (91 # y) = None" for y by (rule fence_open_head) simp_all
  ultimately show ?thesis by metis
qed

lemma lit_break: "10 \<in> set (lit s) \<longleftrightarrow> CHR 0x0A \<in> set s"
proof -
  have "(10 :: nat) = of_char (CHR 0x0A)" by simp
  then show ?thesis by (simp only: lit_def set_map image_iff of_char_eq_iff) auto
qed

lemma noteLine_no_break: "10 \<notin> set (noteLine f e)"
proof -
  have n: "10 \<notin> set (lit (nat_text k))" for k using nat_text_units [of 10 k] by auto
  have "10 \<notin> set (lit ''[[gateway-note:v1 folded='')" "10 \<notin> set (lit '' escaped='')" "10 \<notin> set (lit '']] '')"
    by (simp_all add: lit_break)
  moreover have "10 \<notin> set (lit ''Gateway compressor markers follow: [[gateway-repeat:v1 ...]] folds byte-identical repeated lines (count included), '')"
    by (simp add: lit_break)
  moreover have "10 \<notin> set (lit ''[[gateway-cr:v1 ...]] keeps the final frame of carriage-return-rewritten lines, '')"
    by (simp add: lit_break)
  moreover have "10 \<notin> set (lit ''and lines opening with [[gateway-lit:v1]] are verbatim input with that prefix added.'')"
    by (simp add: lit_break)
  ultimately show ?thesis using n unfolding noteLine_def set_append Un_iff by blast
qed

lemma no_fence_lines: "\<not> fence_after start t \<Longrightarrow>
    (start \<longrightarrow> fence_open (hd (text_lines t)) = None) \<and> (\<forall>l\<in>set (tl (text_lines t)). fence_open l = None)"
proof (induction start t rule: fence_after.induct)
  case (1 start)
  then show ?case by (simp add: fence_open_def)
next
  case (2 start u s)
  obtain l ls where l: "text_lines s = l # ls" by (cases "text_lines s") auto
  have pre: "\<exists>z. u # s = l' @ z" if "text_lines (u # s) = l' # ls'" for l' ls'
    using join_text_lines [of "u # s"] that by (metis join_text_Cons append_Nil2)
  have open_pre: "fence_open l' = None" if "fence_open (l' @ z) = None" for l' z
  proof (rule ccontr)
    assume "fence_open l' \<noteq> None"
    then have "fence_open (l' @ z) \<noteq> None" unfolding fence_open_iff by (metis prefix_prefix)
    with that show False by simp
  qed
  have IH: "line_end u \<longrightarrow> fence_open l = None" "\<forall>l\<in>set ls. fence_open l = None"
    using 2 l by auto
  have first: "fence_open (u # l) = None" if start "u \<noteq> 10"
  proof -
    have "text_lines (u # s) = (u # l) # ls" using that(2) l by simp
    then obtain z where "u # s = (u # l) @ z" using pre by blast
    moreover have "fence_open (u # s) = None" using 2(2) that(1) by simp
    ultimately show ?thesis using open_pre [of "u # l" z] by metis
  qed
  show ?case
  proof (cases "u = 10")
    case True
    then show ?thesis using IH l by (simp add: line_end_def) (simp add: fence_open_def)
  next
    case False
    then show ?thesis using IH l first by simp
  qed
qed

lemma hasFence_none: "\<not> hasFence t \<Longrightarrow> fenced_texts t = []"
proof -
  assume "\<not> hasFence t"
  then have o: "\<forall>l\<in>set (text_lines t). fence_open l = None"
    using no_fence_lines [of True t] by (cases "text_lines t") (auto simp: hasFence_def)
  then have "blocks [] False [] (text_lines t) = [(False, text_lines t)]"
    using blocks_plain [OF o, of "[]" "[]" "[]"] by simp
  then show ?thesis by (simp add: fenced_blocks text_blocks_def)
qed

text \<open>The passes one after the other, without the counts and the names.\<close>

lemma passes_fst:
  "fst (passes route t) = normalizeWhitespace
     (let t1 = fst (escapeSentinelLikeLines t); t2 = (if route = Ansi_route then fst (stripAnsi t1) else t1)
      in if route = Ansi_route \<or> route = Log_route then fst (dedupAdjacentLines t2) else t2)"
proof -
  obtain t1 n1 where 1: "escapeSentinelLikeLines t = (t1, n1)" by (cases "escapeSentinelLikeLines t")
  obtain t2 n2 where 2: "(if route = Ansi_route then stripAnsi t1 else (t1, 0)) = (t2, n2)" by fastforce
  obtain t3 n3 where 3: "(if route = Ansi_route \<or> route = Log_route then dedupAdjacentLines t2 else (t2, 0)) = (t3, n3)"
    by fastforce
  have "fst (passes route t) = normalizeWhitespace t3"
    by (simp only: passes_def 1 2 3 Let_def prod.case fst_conv)
  moreover have "t2 = (if route = Ansi_route then fst (stripAnsi t1) else t1)" using 2 by (auto split: if_splits)
  moreover have "t3 = (if route = Ansi_route \<or> route = Log_route then fst (dedupAdjacentLines t2) else t2)"
    using 3 by (auto split: if_splits)
  ultimately show ?thesis by (simp only: 1 fst_conv Let_def)
qed

lemma safe_edit_comp:
  assumes "safe_edit g" and "safe_edit h"
  shows "safe_edit (\<lambda>ls. h (g ls))"
  unfolding safe_edit_def
proof (intro allI impI)
  fix ls :: "jstext list"
  assume "ls \<noteq> []" "\<forall>l\<in>set ls. fence_open l = None \<and> 10 \<notin> set l"
  then have "g ls \<noteq> []" "\<forall>l\<in>set (g ls). fence_open l = None \<and> 10 \<notin> set l"
    using assms(1) unfolding safe_edit_def by blast+
  then show "h (g ls) \<noteq> [] \<and> (\<forall>l\<in>set (h (g ls)). fence_open l = None \<and> 10 \<notin> set l)"
    using assms(2) unfolding safe_edit_def by blast
qed

lemma passes_text:
  assumes "route \<noteq> Ansi_route"
  shows "fst (passes route t)
    = edit_text (\<lambda>ls. ws_segment (if route = Log_route then fst (dedup_lines (map escape_line ls)) else map escape_line ls)) t"
proof -
  let ?e = "edit_text (map escape_line) t"
  have e: "fst (escapeSentinelLikeLines t) = ?e" by (rule escapeSentinelLikeLines_edit)
  have d: "fst (dedupAdjacentLines ?e) = edit_text (\<lambda>ls. fst (dedup_lines (map escape_line ls))) t"
    by (simp add: dedupAdjacentLines_edit edit_text_twice [OF safe_edit_escape])
  have safe: "safe_edit (\<lambda>ls. fst (dedup_lines (map escape_line ls)))"
    by (rule safe_edit_comp [OF safe_edit_escape safe_edit_dedup])
  have "fst (passes route t) = normalizeWhitespace (if route = Log_route then fst (dedupAdjacentLines ?e) else ?e)"
    using assms e passes_fst [of route t] by simp
  moreover have "normalizeWhitespace (fst (dedupAdjacentLines ?e))
     = edit_text (\<lambda>ls. ws_segment (fst (dedup_lines (map escape_line ls)))) t"
    unfolding d normalizeWhitespace_edit by (rule edit_text_twice [OF safe])
  moreover have "normalizeWhitespace ?e = edit_text (\<lambda>ls. ws_segment (map escape_line ls)) t"
    unfolding normalizeWhitespace_edit by (rule edit_text_twice [OF safe_edit_escape])
  ultimately show ?thesis by (cases "route = Log_route") (simp_all only: if_True if_False simp_thms)
qed

section \<open>What compact returns\<close>

lemma compact_cases:
  obtains (identity) route where "compact t ctx = identityResult t route"
  | (json) m where "classify t = Json_route" "minifyJson (js_trim t) = Some m" "length m < length t"
      "compact t ctx = \<lparr>cr_text = m, cr_originalChars = length t, cr_compressedChars = length m,
         cr_route = Json_route, cr_transforms = [''json-minify''],
         cr_tokensSaved = estimateTokensSaved t m Json_route\<rparr>"
  | (passed) body folded esc names current where "classify t \<noteq> Identity_route" "classify t \<noteq> Json_route"
      "passes (classify t) t = (body, folded, esc, names)"
      "current = (if 0 < folded + esc then noteLine folded esc @ [10] @ body else body)"
      "length current < length t"
      "compact t ctx = \<lparr>cr_text = current, cr_originalChars = length t, cr_compressedChars = length current,
         cr_route = classify t, cr_transforms = names @ (if 0 < folded + esc then [''leading-note''] else []),
         cr_tokensSaved = estimateTokensSaved t current (classify t)\<rparr>"
proof (cases "cx_outputFormat ctx = Some ''json'' \<or> cx_outputSchemaDeclared ctx \<or> classify t = Identity_route")
  case True
  then have "compact t ctx = identityResult t Identity_route" by (auto simp: compact_def)
  then show thesis by (rule identity)
next
  case False
  show thesis
  proof (cases "classify t = Json_route")
    case True
    show thesis
    proof (cases "minifyJson (js_trim t)")
      case None
      then have "compact t ctx = identityResult t Identity_route" using False True by (simp add: compact_def)
      then show thesis by (rule identity)
    next
      case (Some m)
      then show thesis
        using False True json [OF True Some] identity [of Identity_route]
        by (cases "length t \<le> length m") (simp_all add: compact_def)
    qed
  next
    case nj: False
    obtain body folded esc names where p: "passes (classify t) t = (body, folded, esc, names)"
      by (cases "passes (classify t) t") auto
    define current where "current = (if 0 < folded + esc then noteLine folded esc @ [10] @ body else body)"
    have c: "compact t ctx = (if length t \<le> length current then identityResult t (classify t)
       else \<lparr>cr_text = current, cr_originalChars = length t, cr_compressedChars = length current,
         cr_route = classify t, cr_transforms = names @ (if 0 < folded + esc then [''leading-note''] else []),
         cr_tokensSaved = estimateTokensSaved t current (classify t)\<rparr>)"
      using False nj by (simp only: compact_def p Let_def prod.case current_def) simp
    show thesis
    proof (cases "length t \<le> length current")
      case True
      then show thesis using c identity by simp
    next
      case n: False
      show thesis by (rule passed [OF _ nj p current_def]) (use False n c in auto)
    qed
  qed
qed

lemma passes_names: "snd (snd (snd (passes route t))) \<noteq> [] \<or> fst (passes route t) = t"
proof -
  obtain t1 n1 where 1: "escapeSentinelLikeLines t = (t1, n1)" by (cases "escapeSentinelLikeLines t")
  obtain t2 n2 where 2: "(if route = Ansi_route then stripAnsi t1 else (t1, 0)) = (t2, n2)" by fastforce
  obtain t3 n3 where 3: "(if route = Ansi_route \<or> route = Log_route then dedupAdjacentLines t2 else (t2, 0)) = (t3, n3)"
    by fastforce
  show ?thesis by (simp only: passes_def 1 2 3 Let_def prod.case fst_conv snd_conv) (simp add: applied_def)
qed

text \<open>The reader of a compressed text: the note line aside, the markers of the lines outside fences.\<close>

definition decoded :: "compress_result \<Rightarrow> jstext" where
  "decoded r = edit_text decode_lines
     (if ''leading-note'' \<in> set (cr_transforms r) then tl (dropWhile (\<lambda>u. u \<noteq> 10) (cr_text r)) else cr_text r)"

lemma passes_seen:
  assumes "route = Log_route \<or> route = Plain_route"
  shows "ink (edit_text decode_lines (fst (passes route t))) = ink t"
proof -
  let ?g = "\<lambda>ls. if route = Log_route then fst (dedup_lines (map escape_line ls)) else map escape_line ls"
  have "route \<noteq> Ansi_route" using assms by auto
  note p = passes_text [OF this, of t]
  have safe: "safe_edit ?g"
    using safe_edit_comp [OF safe_edit_escape safe_edit_dedup] safe_edit_escape by (cases "route = Log_route") simp_all
  have m: "marked (?g ls)" for ls
    using marked_dedup [of "map escape_line ls"] marked_escape [of ls] by (simp add: list_all_iff)
  have d: "decode_lines (?g ls) = ls" for ls by (simp add: decode_escape_dedup decode_escape)
  have "concat (map ink (decode_lines (ws_segment (?g ls)))) = concat (map ink ls)" for ls
    using seen_ws [OF m [of ls]] d [of ls] by (simp only: seen_def)
  then show ?thesis
    unfolding p edit_text_twice [OF safe_edit_comp [OF safe safe_edit_ws]] by (rule edit_text_ink)
qed

lemma names_no_note: "''leading-note'' \<notin> set (snd (snd (snd (passes route t))))"
proof -
  obtain t1 n1 where 1: "escapeSentinelLikeLines t = (t1, n1)" by (cases "escapeSentinelLikeLines t")
  obtain t2 n2 where 2: "(if route = Ansi_route then stripAnsi t1 else (t1, 0)) = (t2, n2)" by fastforce
  obtain t3 n3 where 3: "(if route = Ansi_route \<or> route = Log_route then dedupAdjacentLines t2 else (t2, 0)) = (t3, n3)"
    by fastforce
  show ?thesis by (simp only: passes_def 1 2 3 Let_def prod.case fst_conv snd_conv) (simp add: applied_def)
qed

lemma after_note: "tl (dropWhile (\<lambda>u. u \<noteq> 10) (noteLine f e @ [10] @ body)) = body"
proof -
  have "\<forall>u\<in>set (noteLine f e). u \<noteq> 10" using noteLine_no_break by metis
  then show ?thesis by (simp add: dropWhile_append)
qed

section \<open>Texts of one line\<close>

lemma mapUnfenced_single: "10 \<notin> set t \<Longrightarrow> fence_open t = None \<Longrightarrow> mapUnfenced f t = f t"
  by (simp add: mapUnfenced_def splitFences_def text_lines_line flush_segment_def joinFences_def)

lemma strip_matches_id:
  "(\<And>u s. u \<noteq> ESC \<Longrightarrow> m (u # s) = None) \<Longrightarrow> ESC \<notin> set s \<Longrightarrow> strip_matches m s = s"
  by (induction s) auto

lemma matchers_need_escape:
  "u \<noteq> ESC \<Longrightarrow> osc_len (u # s) = None" "u \<noteq> ESC \<Longrightarrow> dcs_len (u # s) = None"
  "u \<noteq> ESC \<Longrightarrow> csi_len (u # s) = None" "u \<noteq> ESC \<Longrightarrow> esc_two_len (u # s) = None"
  "u \<noteq> ESC \<Longrightarrow> csi_match (u # s) = None"
  by (simp_all add: osc_len_def dcs_len_def csi_len_def csi_match_def esc_two_len_def split: list.split)

lemma no_escape_safe: "ESC \<notin> set s \<Longrightarrow> \<not> dangerous_csi s"
  by (induction s) (simp_all add: matchers_need_escape)

lemma fence_after_flat: "\<forall>u\<in>set s. \<not> line_end u \<Longrightarrow> \<not> fence_after False s"
  by (induction s) simp_all

text \<open>A colour reset before a line of printable characters: it is stripped, and nothing else happens.\<close>

definition coloured :: "jstext \<Rightarrow> jstext" where
  "coloured l = ESC # 91 # 109 # l"

lemma coloured_line:
  assumes "\<forall>u\<in>set l. 32 \<le> u \<and> u \<le> 126 \<and> u \<noteq> 96" and "l \<noteq> []" and "hd l \<noteq> 32" and "hd l \<noteq> 126"
    and "last l \<noteq> 32"
  shows "classify (coloured l) = Ansi_route"
    and "passes Ansi_route (coloured l) = (l, 0, 0, [''ansi-strip''])"
proof -
  let ?t = "coloured l"
  have l: "ESC \<notin> set l" "10 \<notin> set l" "13 \<notin> set l" "8 \<notin> set l" "96 \<notin> set l" "9 \<notin> set l"
    using assms(1) by (auto simp: ESC_def)
  have flat: "\<forall>u\<in>set l. \<not> line_end u" using assms(1) by (auto simp: line_end_def)
  have finals: "109 \<notin> set DANGEROUS_CSI_FINALS" by (simp add: DANGEROUS_CSI_FINALS_def lit_def)
  have csi: "csi_match ?t = Some ([], 109, 2)"
    by (simp add: coloured_def csi_match_def csi_param_def csi_inter_def Let_def)
  have safe: "\<not> hasDangerousSequences ?t"
    using csi finals l no_escape_safe [OF l(1)]
    by (simp add: hasDangerousSequences_def coloured_def ESC_def)
  have ft: "fence_open ?t = None" by (rule fence_open_head) (simp_all add: coloured_def ESC_def)
  have fl: "fence_open l = None" using assms(2-4) l(5) by (intro fence_open_head) (auto dest: hd_in_set)
  have "\<not> hasFence ?t"
    using ft fence_after_flat [OF flat] by (simp add: hasFence_def coloured_def line_end_def ESC_def)
  then show "classify ?t = Ansi_route"
    using safe by (simp add: classify_def Let_def coloured_def)
  have nt: "10 \<notin> set ?t" using l(2) by (simp add: coloured_def ESC_def)
  have "trim_start ?t = ?t" by (simp add: trim_start_def coloured_def is_ws_def ESC_def)
  then have "\<not> sentinel_like ?t"
    by (simp add: sentinel_like_def coloured_def SENTINEL_PREFIX_def lit_def ESC_def)
  then have 1: "escapeSentinelLikeLines ?t = (?t, 0)"
    by (simp add: escapeSentinelLikeLines_def mapUnfenced_single [OF nt ft] escape_segment_def
        text_lines_line [OF nt] escape_line_def)
  have osc: "osc_len (ESC # 91 # r) = None" "dcs_len (ESC # 91 # r) = None" for r
    by (simp_all add: osc_len_def dcs_len_def)
  have ids: "strip_matches osc_len l = l" "strip_matches dcs_len l = l" "strip_matches csi_len l = l" "strip_matches esc_two_len l = l"
    by (rule strip_matches_id, simp add: matchers_need_escape, rule l(1))+
  have no: "91 \<noteq> ESC" "109 \<noteq> ESC" by (simp_all add: ESC_def)
  have "strip_matches osc_len ?t = ?t" "strip_matches dcs_len ?t = ?t"
    by (simp_all add: coloured_def osc ids matchers_need_escape no)
  moreover have "strip_matches csi_len ?t = l"
    using csi by (simp add: coloured_def csi_len_def [of "ESC # _"] ids)
  moreover have "filter (\<lambda>u. \<not> stray_c0 u) l = l"
    using assms(1) by (intro filter_True) (auto simp: stray_c0_def)
  ultimately have strip: "stripEscapes ?t = l" by (simp add: stripEscapes_def ids)
  have "last l \<noteq> 13" using l(3) assms(2) by (metis last_in_set)
  then have 2: "stripAnsi ?t = (l, 0)"
    using safe l(3)
    by (simp add: stripAnsi_def mapUnfenced_single [OF nt ft] ansi_segment_def strip text_lines_line [OF l(2)]
        ansi_line_def l(5) collapseLine_def)
  have 3: "dedupAdjacentLines l = (l, 0)"
    by (simp add: dedupAdjacentLines_def mapUnfenced_single [OF l(2) fl] dedup_segment_def
        text_lines_line [OF l(2)] MIN_RUN_def)
  have "last l \<noteq> 9" using l(6) assms(2) by (metis last_in_set)
  then have "strip_trailing l = l"
    using assms(2,5) by (cases l rule: rev_cases) (simp_all add: strip_trailing_def)
  then have "ws_line l = l" using l(5) \<open>last l \<noteq> 13\<close> by (simp add: ws_line_def)
  moreover have "\<not> blank_line l" using assms(2) l(3) by (auto simp: blank_line_def)
  ultimately have 4: "normalizeWhitespace l = l"
    by (simp add: normalizeWhitespace_def mapUnfenced_single [OF l(2) fl] text_lines_line [OF l(2)]
        ws_segment_def collapse_def)
  have "?t \<noteq> l" by (metis coloured_def impossible_Cons length_Cons le_SucI nat_le_linear)
  then show "passes Ansi_route ?t = (l, 0, 0, [''ansi-strip''])"
    by (simp add: passes_def 1 2 3 4 applied_def)
qed

section \<open>The properties\<close>

text \<open>
  C22: compression never makes a text longer. The result is the input itself, with nothing counted as
  saved, or strictly shorter; its two character counts are those of the input and of the result; and
  a request for JSON output or with an output schema gets its input back.
\<close>

theorem compact_never_inflates:
  "let r = compact t ctx in
     (if cr_text r = t then True else length (cr_text r) < length t)
     \<and> cr_originalChars r = length t \<and> cr_compressedChars r = length (cr_text r)
     \<and> (if cx_outputFormat ctx = Some ''json'' \<or> cx_outputSchemaDeclared ctx then cr_text r = t else True)"
proof -
  have "cr_text (compact t ctx) = t" if "cx_outputFormat ctx = Some ''json'' \<or> cx_outputSchemaDeclared ctx"
    using that by (auto simp: compact_def identityResult_def)
  then show ?thesis
    by (cases rule: compact_cases [of t ctx]) (auto simp: Let_def identityResult_def)
qed

text \<open>
  C20: the JSON route keeps every token. Whatever the minifier accepts it rewrites to the text without
  the white space outside strings, as a scan that knows only quotes and escapes would, and its output
  is accepted again and left as it is; a result of compact on the JSON route is such an output.
\<close>

theorem minify_keeps_tokens:
  assumes "minifyJson s = Some w"
  shows "w = squeeze False s \<and> minifyJson w = Some w \<and> length w \<le> length s"
  using minifyJson_squeeze [OF assms] minifyJson_again [OF assms] squeeze_length by simp

theorem minify_keeps_tokens_witness:
  "minifyJson [91, 32, 49, 32, 93] = Some [91, 49, 93] \<and> minifyJson [91, 49, 93] = Some [91, 49, 93]"
proof -
  note defs = skipWs_def json_ws_def head_is_def digit_def
  have n: "copyNumber [49, 32, 93] = Some ([49], [32, 93])"
    by (simp add: copyNumber_def int_part_def frac_part_def exp_part_def digits_def digit_def Let_def)
  have v: "copyValue [32, 49, 32, 93] = Some ([49], [32, 93])"
    by (subst copyValue.simps) (simp add: defs n)
  have e: "copyElements [32, 49, 32, 93] = Some ([49, 93], [])"
    by (subst copyElements.simps) (simp add: v defs)
  have "copyValue [91, 32, 49, 32, 93] = Some ([91, 49, 93], [])"
    by (subst copyValue.simps) (simp add: e defs)
  then have "minifyJson [91, 32, 49, 32, 93] = Some [91, 49, 93]" by (simp add: minifyJson_def skipWs_def)
  with minify_keeps_tokens [OF this] show ?thesis by blast
qed


text \<open>
  C19: outside the terminal route nothing visible is lost. When compact changed a text it routed as a
  log or as plain text, a reader who takes off the note line, repeats the line before each repeat marker
  as often as it says and strips one literal prefix from a line gets every character of the input that
  is not white space, in order, inside and outside fences.
\<close>

theorem compression_is_readable:
  assumes "cr_route (compact t ctx) = Log_route \<or> cr_route (compact t ctx) = Plain_route"
    and "cr_transforms (compact t ctx) \<noteq> []"
  shows "ink (decoded (compact t ctx)) = ink t"
proof (cases rule: compact_cases [of t ctx])
  case (identity route)
  then show ?thesis using assms by (simp add: identityResult_def)
next
  case (json m)
  then show ?thesis using assms by simp
next
  case (passed body folded esc names current)
  have names: "''leading-note'' \<notin> set names" using names_no_note [of "classify t" t] by (simp add: passed(3))
  have "decoded (compact t ctx) = edit_text decode_lines body"
    using names after_note [of folded esc body] by (auto simp: decoded_def passed(6) passed(4))
  moreover have "body = fst (passes (classify t) t)" by (simp add: passed(3))
  ultimately show ?thesis using passes_seen [of "classify t" t] assms(1) passed(6) by simp
qed


text \<open>
  C23: stripping control sequences can forge a marker. The escaping pass runs before the terminal
  transform and does not look past a control sequence, so a line of the provider that starts with a
  colour reset and then with the gateway's prefix comes out as that marker: unescaped, with no note and
  with nothing folded. (Printable lines without a backtick and with no blank at the end.)
\<close>

theorem ansi_forges_marker:
  assumes "\<forall>u\<in>set l. 32 \<le> u \<and> u \<le> 126 \<and> u \<noteq> 96" and "last l \<noteq> 32" and "prefix SENTINEL_PREFIX l"
    and "cx_outputFormat ctx = None" and "\<not> cx_outputSchemaDeclared ctx"
  shows "cr_text (compact (coloured l) ctx) = l \<and> sentinel_like l
    \<and> cr_transforms (compact (coloured l) ctx) = [''ansi-strip'']"
proof -
  have s: "hd SENTINEL_PREFIX = 91" "SENTINEL_PREFIX \<noteq> []" by (simp_all add: SENTINEL_PREFIX_def lit_def)
  then have h: "l \<noteq> []" "hd l = 91" using assms(3) by (auto simp: prefix_def)
  then have "trim_start l = l" by (cases l) (simp_all add: trim_start_def is_ws_def)
  moreover have p: "classify (coloured l) = Ansi_route" "passes Ansi_route (coloured l) = (l, 0, 0, [''ansi-strip''])"
    using coloured_line [OF assms(1) h(1) _ _ assms(2)] h(2) by simp_all
  moreover have "length l < length (coloured l)" by (simp add: coloured_def)
  ultimately show ?thesis using assms(3-5) by (simp add: compact_def sentinel_like_def)
qed

theorem ansi_forges_marker_witness:
  "cr_text (compact (coloured (repeatMarker 1 9)) \<lparr>cx_outputFormat = None, cx_outputSchemaDeclared = False\<rparr>)
   = repeatMarker 1 9"
proof -
  have n: "lit (nat_text 1) = [49]" "lit (nat_text 9) = [57]"
    using decimal_char [of 1] decimal_char [of 9] by (subst nat_text.simps, simp add: lit_def)+
  have r: "repeatMarker 1 9 = lit ''[[gateway-repeat:v1 lines=1 count=9]]''"
    unfolding repeatMarker_def n by (simp add: lit_def)
  have "\<forall>u\<in>set (repeatMarker 1 9). 32 \<le> u \<and> u \<le> 126 \<and> u \<noteq> 96" "last (repeatMarker 1 9) \<noteq> 32"
    "prefix SENTINEL_PREFIX (repeatMarker 1 9)"
    unfolding r by (simp_all add: lit_def SENTINEL_PREFIX_def)
  from ansi_forges_marker [OF this] show ?thesis by simp
qed

text \<open>A text with a fence and a line with a blank at its end.\<close>

definition small_text :: jstext where
  "small_text = [126, 126, 126, 10, 120, 32, 10, 126, 126, 126, 10, 121, 32]"

definition plain_ctx :: compress_ctx where
  "plain_ctx = \<lparr>cx_outputFormat = None, cx_outputSchemaDeclared = False\<rparr>"

lemma small_text_lines:
  "text_lines small_text = [[126, 126, 126], [120, 32], [126, 126, 126], [121, 32]]"
  by (simp add: small_text_def)

lemma small_text_opens:
  "fence_open [126, 126, 126] = Some [126, 126, 126]" "fence_open [120, 32] = None" "fence_open [121, 32] = None"
  by (simp_all add: fence_open_def)

lemma small_text_split:
  "splitFences small_text = [\<lparr>seg_text = [126, 126, 126, 10, 120, 32, 10, 126, 126, 126], seg_fenced = True\<rparr>,
     \<lparr>seg_text = [121, 32], seg_fenced = False\<rparr>]"
proof -
  have c: "fence_closes [126, 126, 126] [126, 126, 126]" "\<not> fence_closes [126, 126, 126] [120, 32]"
    by (simp_all add: fence_closes_def small_text_opens js_trim_def is_ws_def)
  show ?thesis
    by (simp add: splitFences_def small_text_lines small_text_opens c flush_segment_def)
qed

lemma small_text_passes:
  "passes Plain_route small_text
   = ([126, 126, 126, 10, 120, 32, 10, 126, 126, 126, 10, 121], 0, 0, [''whitespace''])"
proof -
  have "\<not> sentinel_like [121, 32]"
    by (simp add: sentinel_like_def trim_start_def is_ws_def SENTINEL_PREFIX_def lit_def)
  then have e: "escapeSentinelLikeLines small_text = (small_text, 0)"
    by (simp add: escapeSentinelLikeLines_def mapUnfenced_def small_text_split escape_segment_def escape_line_def
        joinFences_def) (simp add: small_text_def)
  have w: "normalizeWhitespace small_text = [126, 126, 126, 10, 120, 32, 10, 126, 126, 126, 10, 121]"
    by (simp add: normalizeWhitespace_def mapUnfenced_def small_text_split joinFences_def ws_segment_def
        ws_line_def strip_trailing_def blank_line_def collapse_def)
  have "normalizeWhitespace small_text \<noteq> small_text" unfolding w by (simp add: small_text_def)
  then show ?thesis by (simp add: passes_def e applied_def) (simp add: w)
qed

lemma small_text_compact:
  "cr_route (compact small_text plain_ctx) = Plain_route \<and> cr_transforms (compact small_text plain_ctx) = [''whitespace'']
   \<and> cr_text (compact small_text plain_ctx) = [126, 126, 126, 10, 120, 32, 10, 126, 126, 126, 10, 121]"
proof -
  have "\<not> isStructuralJson small_text"
    by (simp add: isStructuralJson_def small_text_def js_trim_def is_ws_def Let_def)
  moreover have "\<not> hasRepeatedRuns small_text"
    by (simp add: hasRepeatedRuns_def small_text_split)
  ultimately have "classify small_text = Plain_route"
    by (simp add: classify_def) (simp add: small_text_def ESC_def)
  moreover have "length small_text = 13" by (simp add: small_text_def)
  ultimately show ?thesis by (simp add: compact_def plain_ctx_def small_text_passes Let_def)
qed


theorem compression_is_readable_witness:
  "ink (decoded (compact small_text plain_ctx)) = [126, 126, 126, 120, 126, 126, 126, 121]"
proof -
  have "ink small_text = [126, 126, 126, 120, 126, 126, 126, 121]" by (simp add: small_text_def ink_def is_ws_def)
  then show ?thesis using compression_is_readable [of small_text plain_ctx] small_text_compact by simp
qed

end
