(* ===== verification/Spec2Isabelle.thy ===== *)
theory Spec2Isabelle
  imports Limiter Retry Progress Store_Refinement Priors Router Approval Session_Properties
    Acp_Session_Map Admission_Lease Supervisor_Properties Json_Rpc_Properties
    Compressor_Properties
begin

text \<open>
  Verification library of the LLM CLI gateway: an MCP server that runs provider command-line
  agents (Claude, Codex, Gemini, Grok, Mistral, Devin, Cursor) and provider APIs as durable jobs.

  The program. A tool call arrives with a request context (who is calling); a managed approval may
  score it and an ACP agent's permission requests are answered through the same scorer; the least-cost
  router may choose provider and model from prices, token estimates and priors learned from past rows;
  the call is bound to a session and, for a Personal Agent Config Kit, to an attempt lease; it is
  admitted by the job limiter, recorded in the durable job store, run with retries behind a circuit
  breaker, and its output is projected to bounded progress events. Each theory below models one of
  these parts, with names as in the source wherever they can be used.

  Theories and the code they model (all paths below src/src/).

  Prelude holds the shared vocabulary: JavaScript maps as association lists in insertion order,
  reachable states of a step relation and the locales inv_system and monotone_system. Text models
  UTF-16 text (a list of code units), byte lengths, trimming, whole-word tests and JSON values.

  Limiter: the class JobLimiter of async-job-manager.ts. The record limiter is the class's fields;
  limiter_acquire, release_permit, pump (the nested drain loop), timeouts and cancellation are its
  methods; limiter_step is the event relation and limiter_inv the invariant, by the locale inv_system.

  Retry: retry.ts; the record breaker, the attempt loop retry_loop and the schedule backoff. The
  operation's outcomes are an argument of the loop.

  Progress: job-progress.ts; the tracker, the provider signals, the ring with its count and byte
  bounds, paging and the stored form with its validating parser. JSON.parse is an argument.

  Identity: request-context.ts, personal-config-types.ts, mcp-artifact-admission.ts, job-cwd-scope.ts;
  the row access rule and its SQL form, Kit executions, attempts and bindings.

  Job_Store: MemoryJobStore of job-store.ts, whole. Job_Store_Sql: SqliteJobStore, one definition
  per SQL statement (SQL_...) and per method (sql_...), over rows as the tables hold them.
  Store_Refinement: sql_abs reads a table back as the in-process rows, every allowed call of the two
  stores answers alike (refines), and the sweep, the heartbeat and the fencing of recovered jobs.

  Pricing, Token_Estimator, Comparators, Priors, Router: pricing.ts, token-estimator.ts,
  lcr-priors.ts, least-cost-router.ts and least-cost-types.ts. Money and ratios are exact rationals
  where the program has doubles. Comparators gives stable sorting by a comparison function and the
  locale comparator, interpreted for the router's two orders.

  Review_Integrity: review-integrity.ts, whole: the review-context pattern, the Markdown normaliser
  with its backtick linking pass, the sentence segmenter, the suppression patterns as a matcher on code
  points with its declarative reading, and the violations. The Unicode classes are arguments.

  Approval: approval-manager.ts, the approval weights of mcp-registry.ts and
  acp/permission-bridge.ts. SHA-256, JSON and the clock are arguments, the log is the file's text.

  Session_Store, Session_Frames, Session_Properties: FileSessionManager of session-manager.ts. An
  operation is a function of the validated store, since the code reloads the file under its lock and
  writes it before returning; fs_op and fs_apply list the calls, and the locale op_system, interpreted
  as fs, turns what each call keeps into what any series of calls keeps.

  Acp_Session_Map: acp/session-map.ts, whole, over the locale session_manager, the interface of the
  session store that it relies on; the file store at a moment is an interpretation of it.

  Admission_Lease: the lease of an AsyncJobManager on its durable store: the record lease_mgr, the
  heartbeat, its loss and the restoration of admission, the orphan sweep, the recovery and disposal, as
  events between the awaits; lease_inv by inv_system, interpreted as lease.

  Child_Stdin: child-stdin.ts, whole. Job_Supervisor: one process job of AsyncJobManager, from the grant
  of its slot to its last terminal write. The record job is its AsyncJobRecord, sup adds the chain of
  terminal writes, the queued output writes, the continuations that can run and the log of what was
  written, signalled and called; sup_apply gives the effect of an event, one run between two awaits.
  Supervisor_Invariants has its shape (inv_system, interpreted as sup) and that the eviction's repair
  never acts; Supervisor_Effects the steps that fire nothing and that an end is final; Supervisor_Once the
  account of each terminal effect; Supervisor_Quiescence the debt invariant (what is owed is scheduled);
  Supervisor_Liveness a bound on the work left; Supervisor_Privacy what a Kit job writes; and
  Supervisor_Properties the statements with their runs.

  Json_Rpc: the class JsonRpcStdioTransport of acp/json-rpc-stdio.ts, whole. The record transport is its
  fields with the promises settled so far and the history of what it wrote, dispatched and logged; env
  collects the injected hooks, which may call back, as functions of what they can see; apply_event is one
  stream event, timer or call. Json_Rpc_Laws keeps the books of the requests (rpc_ok, by inv_system,
  interpreted as rpc_books); Json_Rpc_Properties that later states only add, and the framing.

  Minify, Fences, Compressor: the output compressor (compressor/), whole. Minify is the JSON minifier as
  functions from the text at the cursor to what they append and leave; Fences the division into fenced
  and unfenced segments, the white space pass, the markers and the folding; Compressor the control
  sequences, the router, the estimate and compact. Folds has that an edit of unfenced lines keeps the
  division (safe_edit) and the reader's decoder of the markers; Compressor_Properties the statements.

  What the lemmas show. Admission: the limits are never exceeded, a waiter is always blocked by a
  limit really reached, and waiters of a provider are served in order. Jobs: the SQLite store refines
  the in-process one, the first terminal result wins, sweeps orphan exactly the dead jobs, a heartbeat
  protects, eviction keeps obligations, Kit rows keep nothing private and a Kit attempt is used once.
  The lease: admission is fail-closed with hysteresis and a disposed manager is quiet. A supervised job:
  its outcome is the one its child's close decides and is final, the hook, the cleanup and the slot's
  release happen once and in order, no completion is lost as long as the store answers again, and a Kit
  job stores no output.
  Sessions: one holder per Kit session, tombstones stay hidden, deletion is own-or-not-found, expiry
  takes exactly the idle sessions, compare-and-set is exact, remote projections leak nothing internal;
  an ACP session resumes to the provider id recorded for it, for its own provider only. The ACP
  transport settles each request once and all of them when it ends, is silent from then on, and frames
  the provider's lines however its output is cut. The compressor never makes a text longer, keeps JSON
  tokens, fences and, for a reader who decodes its markers, everything visible outside terminal output.
  Routing: the chosen route is the cheapest eligible one within budget, every rejected candidate has
  its first failing gate, per-tier and single selections agree. Prices and estimates: unknown models
  are unpriced, two ways of computing a cost or an estimate agree, priors are scoped groups. Retry:
  the circuit opens after exactly the missing number of failures, half-open trials decide, and every
  call ends. Progress: bounds, complete paging, fixed provider messages and a round trip. Approval: a
  bypass is the operator's decision, approval is monotone in risk, the log reads back, an ACP agent is
  granted exactly a single use of an open category. Review: suppression is what the patterns say within
  one sentence, and the linear normaliser equals a rescanning one.

  Bounds and fuel. No definition uses fuel: loops are structural or have a termination proof. The
  progress bounds (64 events, 32 KiB, 512 bytes) and the store's times are the program's constants.
  Times are integers; counters that the program keeps as safe integers are unbounded here, and the
  properties that need the bound say so. Identifiers and enumerations are strings of characters below
  256; texts that matter for their width are lists of code units.

  Not modelled: the server and tool wiring of index.ts, process execution, provider discovery and
  tables, file and network I/O, the PostgreSQL backends, validation runs, the ACP client above its
  transport, OAuth and the storage drivers; of AsyncJobManager the admission of a request, HTTP jobs and
  the reading of results. A supervised job begins once its start row is recorded; transcripts, progress
  writes and MCP artifacts are left out of it, and a write with its read-back is one answer. In the
  modelled parts: logging and metrics, reading and validating sessions.json and its lock file, the
  schema migrations, and failures of a write after a state change, which the next read undoes.
\<close>

end
